(* ===== verification/Prelude.thy ===== *)
theory Prelude
  imports Main "HOL-Library.Word" "HOL-Library.AList" "HOL-Library.Code_Target_Nat"
begin

text \<open>
  Shared vocabulary of the development: bytes and machine integers, their little- and
  big-endian wire encodings, Rust results (a value, an error or a panic), slices,
  strings as UTF-8 byte sequences, insertion maps, and the locale of wrap-around
  identifier allocators that the usbmux tags, the DTX message ids and the local TCP
  ports of the userspace stack all implement.
\<close>

unbundle bit_operations_syntax

named_theorems wire \<open>lengths and round trips of wire encodings\<close>
named_theorems prog \<open>unfolding rules of the outcome and state-passing combinators\<close>

section \<open>Machine integers and bytes\<close>

type_synonym byte = "8 word"
type_synonym bytes = "8 word list"
type_synonym u8 = "8 word"
type_synonym u16 = "16 word"
type_synonym u32 = "32 word"
type_synonym u64 = "64 word"

lemma unat_lt2p: "unat (w :: 'a :: len word) < 2 ^ LENGTH('a)"
  by (fact unsigned_less)

lemma unat_byte_less [simp]: "unat (b :: byte) < 256"
  using unat_lt2p [of b] by simp

lemma unat_Suc_word: "(x :: 'a :: len word) \<noteq> - 1 \<Longrightarrow> unat (x + 1) = Suc (unat x)"
proof -
  assume "x \<noteq> - 1"
  then have "1 + x \<noteq> 0" by (metis add.commute add_eq_0_iff minus_unique)
  then show ?thesis by (metis add.commute unatSuc)
qed

text \<open>Little-endian digits to base 256; the big-endian form is the reverse.\<close>

primrec le_bytes :: "nat \<Rightarrow> nat \<Rightarrow> bytes" where
  "le_bytes 0 x = []"
| "le_bytes (Suc n) x = word_of_nat (x mod 256) # le_bytes n (x div 256)"

fun from_le :: "bytes \<Rightarrow> nat" where
  "from_le [] = 0"
| "from_le (b # bs) = unat b + 256 * from_le bs"

definition be_bytes :: "nat \<Rightarrow> nat \<Rightarrow> bytes" where
  "be_bytes n x = rev (le_bytes n x)"

definition from_be :: "bytes \<Rightarrow> nat" where
  "from_be bs = from_le (rev bs)"

definition u16_le :: "u16 \<Rightarrow> bytes" where "u16_le w = le_bytes 2 (unat w)"
definition u32_le :: "u32 \<Rightarrow> bytes" where "u32_le w = le_bytes 4 (unat w)"
definition u64_le :: "u64 \<Rightarrow> bytes" where "u64_le w = le_bytes 8 (unat w)"
definition u16_be :: "u16 \<Rightarrow> bytes" where "u16_be w = be_bytes 2 (unat w)"
definition u32_be :: "u32 \<Rightarrow> bytes" where "u32_be w = be_bytes 4 (unat w)"

definition u16_of_le :: "bytes \<Rightarrow> u16" where "u16_of_le bs = word_of_nat (from_le bs)"
definition u32_of_le :: "bytes \<Rightarrow> u32" where "u32_of_le bs = word_of_nat (from_le bs)"
definition u64_of_le :: "bytes \<Rightarrow> u64" where "u64_of_le bs = word_of_nat (from_le bs)"
definition u16_of_be :: "bytes \<Rightarrow> u16" where "u16_of_be bs = word_of_nat (from_be bs)"
definition u32_of_be :: "bytes \<Rightarrow> u32" where "u32_of_be bs = word_of_nat (from_be bs)"

lemma length_le_bytes [simp, wire]: "length (le_bytes n x) = n"
  by (induction n arbitrary: x) auto

lemma length_be_bytes [simp, wire]: "length (be_bytes n x) = n"
  by (simp add: be_bytes_def)

lemma unat_byte_mod: "unat (word_of_nat (x mod 256) :: byte) = x mod 256"
  by (simp add: unat_of_nat)

lemma from_le_le_bytes: "from_le (le_bytes n x) = x mod 256 ^ n"
proof (induction n arbitrary: x)
  case 0
  then show ?case by simp
next
  case (Suc n)
  have "x mod (256 * 256 ^ n) = x mod 256 + 256 * (x div 256 mod 256 ^ n)"
    by (simp add: mod_mult2_eq)
  then show ?case using Suc by (simp add: unat_byte_mod)
qed

lemma from_le_bound: "from_le bs < 256 ^ length bs"
proof (induction bs)
  case Nil
  then show ?case by simp
next
  case (Cons b bs)
  then show ?case
    using unat_byte_less [of b] by (simp only: from_le.simps length_Cons power_Suc)
qed

lemma le_bytes_from_le: "le_bytes (length bs) (from_le bs) = bs"
proof (induction bs)
  case Nil
  then show ?case by simp
next
  case (Cons b bs)
  have "unat b < 256" using unat_lt2p [of b] by simp
  then show ?case using Cons by (simp add: div_mult_self1)
qed

lemma last_le_bytes: "last (le_bytes (Suc n) x) = word_of_nat (x div 256 ^ n mod 256)"
proof (induction n arbitrary: x)
  case (Suc n)
  have "last (le_bytes (Suc (Suc n)) x) = last (le_bytes (Suc n) (x div 256))"
    by (subst le_bytes.simps(2)) (simp del: le_bytes.simps, metis length_le_bytes list.size(3) nat.distinct(1))
  then show ?case using Suc by (simp add: div_mult2_eq del: le_bytes.simps)
qed simp

lemma and_mask_small: "unat (w :: 'a :: len word) < 2 ^ n \<Longrightarrow> w AND mask n = w"
proof -
  assume "unat w < 2 ^ n"
  then have "unat (take_bit n w) = unat w" by (simp add: unsigned_take_bit_eq take_bit_nat_eq_self)
  then have "take_bit n w = w" by (rule unsigned_word_eqI)
  then show ?thesis by (simp only: take_bit_eq_mask)
qed

lemma length_u_bytes [simp, wire]:
  "length (u16_le a) = 2" "length (u32_le b) = 4" "length (u64_le c) = 8"
  "length (u16_be a) = 2" "length (u32_be b) = 4"
  by (simp_all add: u16_le_def u32_le_def u64_le_def u16_be_def u32_be_def)

lemma u_bytes_ne [simp]: "u32_le b \<noteq> []" "u64_le c \<noteq> []"
  using length_u_bytes(2) [of b] length_u_bytes(3) [of c] by (metis list.size(3) zero_neq_numeral)+

lemma u_bytes_roundtrip [simp, wire]:
  "u16_of_le (u16_le a) = a" "u32_of_le (u32_le b) = b" "u64_of_le (u64_le c) = c"
  "u16_of_be (u16_be a) = a" "u32_of_be (u32_be b) = b"
  using unat_lt2p [of a] unat_lt2p [of b] unat_lt2p [of c]
  by (simp_all add: u16_of_le_def u16_le_def u32_of_le_def u32_le_def u64_of_le_def u64_le_def
      u16_of_be_def u16_be_def u32_of_be_def u32_be_def from_be_def be_bytes_def from_le_le_bytes)

lemma u32_le_of_le: "length bs = 4 \<Longrightarrow> u32_le (u32_of_le bs) = bs"
  using from_le_bound [of bs] le_bytes_from_le [of bs]
  by (simp add: u32_le_def u32_of_le_def unat_of_nat)

lemma u64_le_of_le: "length bs = 8 \<Longrightarrow> u64_le (u64_of_le bs) = bs"
  using from_le_bound [of bs] le_bytes_from_le [of bs]
  by (simp add: u64_le_def u64_of_le_def unat_of_nat)

lemma unat_word_of_nat_less [simp]:
  "n < 2 ^ LENGTH('a) \<Longrightarrow> unat (word_of_nat n :: 'a :: len word) = n"
  by (simp add: unat_of_nat)

section \<open>Results: values, errors and panics\<close>

text \<open>
  A Rust call returns a value, returns an error through \<open>Result\<close>, or panics (an
  out-of-range slice, \<open>unwrap\<close> of \<open>None\<close>, \<open>unreachable!\<close>). Panics are kept apart
  from errors, so that "never panics" can be stated.
\<close>

datatype ('e, 'a) outcome = Ok 'a | Err 'e | Panic

fun obind :: "('e, 'a) outcome \<Rightarrow> ('a \<Rightarrow> ('e, 'b) outcome) \<Rightarrow> ('e, 'b) outcome" where
  "obind (Ok x) f = f x"
| "obind (Err e) f = Err e"
| "obind Panic f = Panic"

fun map_err :: "('e \<Rightarrow> 'f) \<Rightarrow> ('e, 'a) outcome \<Rightarrow> ('f, 'a) outcome" where
  "map_err g (Ok x) = Ok x"
| "map_err g (Err e) = Err (g e)"
| "map_err g Panic = Panic"

definition ok_or :: "'a option \<Rightarrow> 'e \<Rightarrow> ('e, 'a) outcome" where
  "ok_or x e = (case x of None \<Rightarrow> Err e | Some v \<Rightarrow> Ok v)"

lemma ok_or_simps [simp, prog]: "ok_or None e = Err e" "ok_or (Some v) e = Ok v"
  by (simp_all add: ok_or_def)

lemma obind_Ok_iff: "obind m f = Ok y \<longleftrightarrow> (\<exists>x. m = Ok x \<and> f x = Ok y)"
  by (cases m) auto

lemma obind_Panic_iff: "obind m f = Panic \<longleftrightarrow> m = Panic \<or> (\<exists>x. m = Ok x \<and> f x = Panic)"
  by (cases m) auto

lemma map_err_iff [simp]:
  "map_err g m = Ok x \<longleftrightarrow> m = Ok x" "map_err g m = Panic \<longleftrightarrow> m = Panic"
  by (cases m; simp)+

lemma ok_or_iff [simp]:
  "ok_or x e = Ok v \<longleftrightarrow> x = Some v" "ok_or x e \<noteq> Panic"
  by (auto simp: ok_or_def split: option.splits)

text \<open>Stateful code: a function of the state to an outcome and the new state.\<close>

type_synonym ('s, 'e, 'a) prog = "'s \<Rightarrow> ('e, 'a) outcome \<times> 's"

definition ret :: "'a \<Rightarrow> ('s, 'e, 'a) prog" where
  "ret x = (\<lambda>s. (Ok x, s))"

definition throw :: "'e \<Rightarrow> ('s, 'e, 'a) prog" where
  "throw e = (\<lambda>s. (Err e, s))"

definition panic :: "('s, 'e, 'a) prog" where
  "panic = (\<lambda>s. (Panic, s))"

definition bnd :: "('s, 'e, 'a) prog \<Rightarrow> ('a \<Rightarrow> ('s, 'e, 'b) prog) \<Rightarrow> ('s, 'e, 'b) prog" where
  "bnd m f = (\<lambda>s. case m s of
     (Ok x, s') \<Rightarrow> f x s'
   | (Err e, s') \<Rightarrow> (Err e, s')
   | (Panic, s') \<Rightarrow> (Panic, s'))"

definition lift_o :: "('e, 'a) outcome \<Rightarrow> ('s, 'e, 'a) prog" where
  "lift_o r = (\<lambda>s. (r, s))"

definition on_err :: "('e \<Rightarrow> 'f) \<Rightarrow> ('s, 'e, 'a) prog \<Rightarrow> ('s, 'f, 'a) prog" where
  "on_err g m = (\<lambda>s. case m s of (r, s') \<Rightarrow> (map_err g r, s'))"

lemma prog_apply [simp, prog]:
  "ret x s = (Ok x, s)" "throw e s = (Err e, s)" "panic s = (Panic, s)" "lift_o r s = (r, s)"
  by (simp_all add: ret_def throw_def panic_def lift_o_def)

lemma bnd_Ok [simp, prog]: "m s = (Ok x, s') \<Longrightarrow> bnd m f s = f x s'"
  by (simp add: bnd_def)

lemma bnd_Err [simp, prog]: "m s = (Err e, s') \<Longrightarrow> bnd m f s = (Err e, s')"
  by (simp add: bnd_def)

lemma bnd_Panic [simp, prog]: "m s = (Panic, s') \<Longrightarrow> bnd m f s = (Panic, s')"
  by (simp add: bnd_def)

lemma on_err_simps [simp, prog]:
  "m s = (Ok x, s') \<Longrightarrow> on_err g m s = (Ok x, s')"
  "m s = (Err e, s') \<Longrightarrow> on_err g m s = (Err (g e), s')"
  "m s = (Panic, s') \<Longrightarrow> on_err g m s = (Panic, s')"
  by (simp_all add: on_err_def)

lemma bnd_Ok_iff:
  "bnd m f s = (Ok y, t) \<longleftrightarrow> (\<exists>x s'. m s = (Ok x, s') \<and> f x s' = (Ok y, t))"
  by (auto simp: bnd_def split: prod.splits outcome.splits)

lemma on_err_Ok_iff: "on_err g m s = (Ok y, t) \<longleftrightarrow> m s = (Ok y, t)"
  by (auto simp: on_err_def split: prod.splits)

text \<open>A part of the state that both halves leave alone.\<close>

lemma bnd_keeps:
  assumes "\<And>s. g (snd (m s)) = g s" and "\<And>x s. g (snd (f x s)) = g s"
  shows "g (snd (bnd m f s)) = g s"
proof (cases "m s")
  case (Pair r s')
  with assms(1) [of s] assms(2) show ?thesis by (cases r) (simp_all add: bnd_def)
qed

lemma bnd_assoc: "bnd (bnd m f) g = bnd m (\<lambda>x. bnd (f x) g)"
  by (rule ext) (simp add: bnd_def split: prod.splits outcome.splits)

section \<open>Slices, chunks and options\<close>

text \<open>\<open>buf.get(a..b)\<close>: \<open>None\<close> when the range is not inside the buffer.\<close>

definition slice_get :: "'a list \<Rightarrow> nat \<Rightarrow> nat \<Rightarrow> 'a list option" where
  "slice_get xs a b = (if a \<le> b \<and> b \<le> length xs then Some (take (b - a) (drop a xs)) else None)"

text \<open>\<open>&buf[a..b]\<close>: the same range, but a range that does not fit panics.\<close>

definition slice_idx :: "'a list \<Rightarrow> nat \<Rightarrow> nat \<Rightarrow> ('e, 'a list) outcome" where
  "slice_idx xs a b = (case slice_get xs a b of None \<Rightarrow> Panic | Some ys \<Rightarrow> Ok ys)"

lemma slice_get_Some:
  "slice_get xs a b = Some ys \<longleftrightarrow> a \<le> b \<and> b \<le> length xs \<and> ys = take (b - a) (drop a xs)"
  by (auto simp: slice_get_def)

lemma slice_get_length: "slice_get xs a b = Some ys \<Longrightarrow> length ys = b - a"
  by (auto simp: slice_get_def split: if_splits)

lemma slice_get_append:
  "length pre = a \<Longrightarrow> slice_get (pre @ mid @ post) a (a + length mid) = Some mid"
  by (auto simp: slice_get_def)

lemma slice_idx_Ok_iff:
  "slice_idx xs a b = Ok ys \<longleftrightarrow> a \<le> b \<and> b \<le> length xs \<and> ys = take (b - a) (drop a xs)"
  by (auto simp: slice_idx_def slice_get_def)

lemma slice_idx_all: "length xs = n \<Longrightarrow> slice_idx xs 0 n = Ok xs"
  by (simp add: slice_idx_def slice_get_def)

text \<open>What a cursor into a buffer sees: the rest of the buffer from a position inside it.\<close>

definition at_pos :: "'a list \<Rightarrow> nat \<Rightarrow> 'a list \<Rightarrow> bool" where
  "at_pos buf pos r \<longleftrightarrow> pos \<le> length buf \<and> drop pos buf = r"

lemma at_pos_skip: "at_pos buf pos (xs @ r) \<Longrightarrow> length xs = n \<Longrightarrow> at_pos buf (pos + n) r"
proof -
  assume a: "at_pos buf pos (xs @ r)" and n: "length xs = n"
  have "length buf - pos = n + length r" using a n by (metis at_pos_def length_append length_drop)
  then have "pos + n \<le> length buf" using a by (auto simp: at_pos_def)
  moreover have "drop n (drop pos buf) = r" using a n by (simp add: at_pos_def del: drop_drop)
  then have "drop (pos + n) buf = r" by (simp add: add.commute)
  ultimately show ?thesis by (simp add: at_pos_def)
qed

lemma at_pos_slice:
  "at_pos buf pos (xs @ r) \<Longrightarrow> length xs = n \<Longrightarrow> slice_get buf pos (pos + n) = Some xs"
proof -
  assume a: "at_pos buf pos (xs @ r)" and n: "length xs = n"
  have "at_pos buf (pos + n) r" using a n by (rule at_pos_skip)
  then show ?thesis using a n by (simp add: at_pos_def slice_get_def)
qed

lemma at_pos_rest: "at_pos buf pos r \<Longrightarrow> slice_get buf pos (length buf) = Some r"
  by (auto simp: at_pos_def slice_get_def)

lemma at_pos_start: "at_pos (pre @ r) (length pre) r"
  by (simp add: at_pos_def)

text \<open>\<open>xs.chunks(n)\<close> for a positive \<open>n\<close>.\<close>

function chunks :: "nat \<Rightarrow> 'a list \<Rightarrow> 'a list list" where
  "chunks n xs = (if xs = [] \<or> n = 0 then [] else take n xs # chunks n (drop n xs))"
  by pat_completeness auto
termination
  by (relation "measure (\<lambda>(n, xs). length xs)") auto

declare chunks.simps [simp del]

lemma chunks_Nil [simp]: "chunks n [] = []"
  by (simp add: chunks.simps)

lemma concat_chunks: "0 < n \<Longrightarrow> concat (chunks n xs) = xs"
proof (induction n xs rule: chunks.induct)
  case (1 n xs)
  then show ?case by (cases "xs = []") (simp_all add: chunks.simps [of n xs])
qed

lemma chunks_le: "c \<in> set (chunks n xs) \<Longrightarrow> c \<noteq> [] \<and> length c \<le> n"
proof (induction n xs rule: chunks.induct)
  case (1 n xs)
  then show ?case by (auto simp: chunks.simps [of n xs] split: if_splits)
qed

lemma take_app [simp]: "length xs = n \<Longrightarrow> take n (xs @ ys) = xs"
  by simp

lemma drop_app [simp]: "length xs = n \<Longrightarrow> drop n (xs @ ys) = ys"
  by simp

section \<open>Strings\<close>

text \<open>
  A Rust string is its UTF-8 byte sequence; a HOL \<open>string\<close> is a list of 8-bit characters,
  and each character stands for one byte.
\<close>

definition bytes_of :: "string \<Rightarrow> bytes" where
  "bytes_of s = map (\<lambda>c. word_of_nat (of_char c)) s"

definition string_of :: "bytes \<Rightarrow> string" where
  "string_of bs = map (\<lambda>b. char_of (unat b)) bs"

lemma length_bytes_of [simp]: "length (bytes_of s) = length s"
  by (simp add: bytes_of_def)

lemma length_string_of [simp]: "length (string_of bs) = length bs"
  by (simp add: string_of_def)

lemma unat_of_char: "unat (word_of_nat (of_char c) :: byte) = of_char c"
  using nat_of_char_less_256 [of c] by (simp add: unat_of_nat)

lemma string_of_bytes_of [simp]: "string_of (bytes_of s) = s"
  by (simp add: string_of_def bytes_of_def comp_def unat_of_char)

lemma of_char_char_of_byte: "word_of_nat (of_char (char_of (unat b))) = (b :: byte)"
  by simp

lemma bytes_of_string_of [simp]: "bytes_of (string_of bs) = bs"
  by (simp add: string_of_def bytes_of_def comp_def of_char_char_of_byte)

text \<open>Well-formed UTF-8, the check of \<open>std::str::from_utf8\<close>.\<close>

definition in_range :: "nat \<Rightarrow> nat \<Rightarrow> byte \<Rightarrow> bool" where
  "in_range lo hi b \<longleftrightarrow> lo \<le> unat b \<and> unat b \<le> hi"

abbreviation cont_byte :: "byte \<Rightarrow> bool" where
  "cont_byte \<equiv> in_range 128 191"

fun utf8_valid :: "bytes \<Rightarrow> bool" where
  "utf8_valid [] = True"
| "utf8_valid (a # rest) =
    (if in_range 0 127 a then utf8_valid rest
     else if in_range 194 223 a then
       (case rest of b # r \<Rightarrow> cont_byte b \<and> utf8_valid r | _ \<Rightarrow> False)
     else if in_range 224 239 a then
       (case rest of b # c # r \<Rightarrow>
          (if a = 224 then in_range 160 191 b else if a = 237 then in_range 128 159 b
           else cont_byte b) \<and> cont_byte c \<and> utf8_valid r
        | _ \<Rightarrow> False)
     else if in_range 240 244 a then
       (case rest of b # c # d # r \<Rightarrow>
          (if a = 240 then in_range 144 191 b else if a = 244 then in_range 128 143 b
           else cont_byte b) \<and> cont_byte c \<and> cont_byte d \<and> utf8_valid r
        | _ \<Rightarrow> False)
     else False)"

lemma utf8_valid_ascii: "list_all (in_range 0 127) bs \<Longrightarrow> utf8_valid bs"
  by (induction bs) simp_all

text \<open>
  \<open>String::from_utf8_lossy\<close>: every maximal ill-formed part becomes the three bytes of U+FFFD.
\<close>

definition replacement :: bytes where "replacement = [0xef, 0xbf, 0xbd]"

definition second3 :: "byte \<Rightarrow> byte \<Rightarrow> bool" where
  "second3 a b = (if a = 224 then in_range 160 191 b else if a = 237 then in_range 128 159 b
    else cont_byte b)"

definition second4 :: "byte \<Rightarrow> byte \<Rightarrow> bool" where
  "second4 a b = (if a = 240 then in_range 144 191 b else if a = 244 then in_range 128 143 b
    else cont_byte b)"

fun lossy :: "bytes \<Rightarrow> bytes" where
  "lossy [] = []"
| "lossy (a # rest) =
    (if in_range 0 127 a then a # lossy rest
     else if in_range 194 223 a then
       (case rest of
          b # r \<Rightarrow> if cont_byte b then a # b # lossy r else replacement @ lossy rest
        | _ \<Rightarrow> replacement @ lossy rest)
     else if in_range 224 239 a then
       (case rest of
          b # r \<Rightarrow>
            if second3 a b then
              (case r of
                 c # r2 \<Rightarrow> if cont_byte c then a # b # c # lossy r2 else replacement @ lossy r
               | _ \<Rightarrow> replacement @ lossy r)
            else replacement @ lossy rest
        | _ \<Rightarrow> replacement @ lossy rest)
     else if in_range 240 244 a then
       (case rest of
          b # r \<Rightarrow>
            if second4 a b then
              (case r of
                 c # r2 \<Rightarrow>
                   if cont_byte c then
                     (case r2 of
                        d # r3 \<Rightarrow> if cont_byte d then a # b # c # d # lossy r3 else replacement @ lossy r2
                      | _ \<Rightarrow> replacement @ lossy r2)
                   else replacement @ lossy r
               | _ \<Rightarrow> replacement @ lossy r)
            else replacement @ lossy rest
        | _ \<Rightarrow> replacement @ lossy rest)
     else replacement @ lossy rest)"

lemma lossy_valid: "utf8_valid bs \<Longrightarrow> lossy bs = bs"
proof (induction bs rule: utf8_valid.induct)
  case (2 a rest)
  show ?case
  proof (cases "in_range 0 127 a")
    case True
    then show ?thesis using 2 by simp
  next
    case n1: False
    show ?thesis
    proof (cases "in_range 194 223 a")
      case True
      then obtain b r where "rest = b # r" using "2.prems" n1 by (cases rest) simp_all
      then show ?thesis using 2 n1 True by simp
    next
      case n2: False
      show ?thesis
      proof (cases "in_range 224 239 a")
        case True
        then obtain b c r where r: "rest = b # c # r"
          using "2.prems" n1 n2 by (auto split: list.splits)
        then have "second3 a b" "cont_byte c" "utf8_valid r"
          using "2.prems" n1 n2 True by (simp_all add: second3_def)
        then show ?thesis using 2 n1 n2 True r by simp
      next
        case n3: False
        with "2.prems" n1 n2 have t: "in_range 240 244 a" by (simp split: if_splits)
        then obtain b c d r where r: "rest = b # c # d # r"
          using "2.prems" n1 n2 n3 by (auto split: list.splits)
        then have "second4 a b" "cont_byte c" "cont_byte d" "utf8_valid r"
          using "2.prems" n1 n2 n3 t by (simp_all add: second4_def)
        then show ?thesis using 2 n1 n2 n3 t r by simp
      qed
    qed
  qed
qed simp

definition from_utf8_lossy :: "bytes \<Rightarrow> string" where
  "from_utf8_lossy bs = string_of (lossy bs)"

definition from_utf8 :: "bytes \<Rightarrow> string option" where
  "from_utf8 bs = (if utf8_valid bs then Some (string_of bs) else None)"

definition valid_str :: "string \<Rightarrow> bool" where
  "valid_str s \<longleftrightarrow> utf8_valid (bytes_of s)"

lemma from_utf8_bytes_of [simp]: "valid_str s \<Longrightarrow> from_utf8 (bytes_of s) = Some s"
  by (simp add: from_utf8_def valid_str_def)

section \<open>Maps by insertion\<close>

text \<open>
  \<open>HashMap\<close> and \<open>plist::Dictionary\<close> as association lists with distinct keys: \<open>insert\<close>
  replaces the value of a present key and appends a new one. A theorem over every such
  list covers every iteration order.
\<close>

type_synonym ('k, 'v) amap = "('k \<times> 'v) list"

abbreviation ainsert :: "'k \<Rightarrow> 'v \<Rightarrow> ('k, 'v) amap \<Rightarrow> ('k, 'v) amap" where
  "ainsert \<equiv> AList.update"

abbreviation amap_wf :: "('k, 'v) amap \<Rightarrow> bool" where
  "amap_wf m \<equiv> distinct (map fst m)"

lemma ainsert_new: "k \<notin> fst ` set m \<Longrightarrow> ainsert k v m = m @ [(k, v)]"
  by (induction m) auto

lemma ainsert_wf: "amap_wf m \<Longrightarrow> amap_wf (ainsert k v m)"
  by (rule distinct_update)

lemma ainsert_lookup: "map_of (ainsert k v m) = (map_of m)(k \<mapsto> v)"
  by (rule ext) (simp add: update_conv)

section \<open>Identifier allocators\<close>

text \<open>
  The usbmux codec, the DTX connection and the TCP stack allocate identifiers with
  \<open>next = cur.wrapping_add(1).max(lo)\<close>. The contract of such an allocator: it stays at or
  above \<open>lo\<close> and repeats no identifier before \<open>2^w - lo\<close> allocations.
\<close>

definition wrap_next :: "'a :: len word \<Rightarrow> 'a word \<Rightarrow> 'a word" where
  "wrap_next lo x = max (x + 1) lo"

primrec alloc_seq :: "('i \<Rightarrow> 'i) \<Rightarrow> nat \<Rightarrow> 'i \<Rightarrow> 'i list" where
  "alloc_seq nxt 0 x = []"
| "alloc_seq nxt (Suc n) x = x # alloc_seq nxt n (nxt x)"

lemma length_alloc_seq [simp]: "length (alloc_seq nxt n x) = n"
  by (induction n arbitrary: x) auto

lemma nth_alloc_seq: "i < n \<Longrightarrow> alloc_seq nxt n x ! i = (nxt ^^ i) x"
proof (induction n arbitrary: i x)
  case 0
  then show ?case by simp
next
  case (Suc n)
  then show ?case by (cases i) (simp_all add: funpow_swap1)
qed

lemma alloc_seq_snoc: "alloc_seq nxt (Suc n) x = alloc_seq nxt n x @ [(nxt ^^ n) x]"
  by (induction n arbitrary: x) (simp_all add: funpow_swap1)

locale cyclic_alloc =
  fixes nxt :: "'a :: len word \<Rightarrow> 'a word" and lo :: "'a word"
  assumes nxt_eq: "nxt x = (if x = - 1 then lo else if x < lo then lo else x + 1)"
begin

lemma nxt_ge: "lo \<le> nxt x"
proof (cases "x = - 1 \<or> x < lo")
  case True
  then show ?thesis by (auto simp: nxt_eq)
next
  case False
  then have "unat (x + 1) = Suc (unat x)" and "unat lo \<le> unat x"
    by (auto simp: unat_Suc_word not_less simp flip: word_le_nat_alt)
  then show ?thesis using False by (simp add: nxt_eq word_le_nat_alt)
qed

definition span :: nat where
  "span = 2 ^ LENGTH('a) - unat lo"

lemma span_pos: "0 < span"
  using unat_lt2p [of lo] by (simp add: span_def)

text \<open>In offsets from \<open>lo\<close>, one allocation is addition of one modulo the span.\<close>

lemma nxt_offset:
  assumes "lo \<le> x"
  shows "unat (nxt x) - unat lo = (unat x - unat lo + 1) mod span"
proof (cases "x = - 1")
  case True
  then have "unat x + 1 = 2 ^ LENGTH('a)"
    by (simp add: unsigned_minus_1_eq_mask mask_eq_exp_minus_1)
  moreover have "unat lo \<le> unat x" using assms by (simp add: word_le_nat_alt)
  ultimately have "unat x - unat lo + 1 = span" unfolding span_def by linarith
  then show ?thesis using True by (simp add: nxt_eq)
next
  case False
  have le: "unat lo \<le> unat x" using assms by (simp add: word_le_nat_alt)
  from False have "unat (x + 1) = Suc (unat x)" by (rule unat_Suc_word)
  moreover have "unat (x + 1) < 2 ^ LENGTH('a)" by (rule unat_lt2p)
  ultimately have "unat x - unat lo + 1 < span" using le unfolding span_def by linarith
  moreover have "nxt x = x + 1" using False assms by (auto simp: nxt_eq)
  ultimately show ?thesis
    using \<open>unat (x + 1) = Suc (unat x)\<close> le by simp
qed

lemma funpow_ge: "lo \<le> x \<Longrightarrow> lo \<le> (nxt ^^ i) x"
  by (cases i) (simp_all add: nxt_ge)

lemma funpow_offset:
  "lo \<le> x \<Longrightarrow> unat ((nxt ^^ i) x) - unat lo = (unat x - unat lo + i) mod span"
proof (induction i)
  case 0
  have "unat x < 2 ^ LENGTH('a)" by (rule unat_lt2p)
  moreover have "unat lo \<le> unat x" using 0 by (simp add: word_le_nat_alt)
  ultimately have "unat x - unat lo < span" unfolding span_def by linarith
  then show ?case by simp
next
  case (Suc i)
  have "unat (nxt ((nxt ^^ i) x)) - unat lo = (unat ((nxt ^^ i) x) - unat lo + 1) mod span"
    by (rule nxt_offset) (rule funpow_ge [OF Suc.prems])
  also have "\<dots> = ((unat x - unat lo + i) mod span + 1) mod span"
    using Suc by simp
  finally show ?case by (simp add: mod_Suc_eq)
qed

lemma alloc_ge: "lo \<le> x \<Longrightarrow> y \<in> set (alloc_seq nxt n x) \<Longrightarrow> lo \<le> y"
  by (auto simp: in_set_conv_nth nth_alloc_seq funpow_ge)

lemma mod_shift_inj:
  assumes "(a + i) mod m = (a + j) mod m" and "i < m" and "j < m"
  shows "i = (j :: nat)"
proof -
  obtain p q where "a + i + m * p = a + j + m * q"
    using assms(1) unfolding nat_mod_eq_iff by blast
  then have "i mod m = j mod m"
    unfolding nat_mod_eq_iff by (metis add.assoc add_left_cancel)
  with assms(2,3) show ?thesis by simp
qed

lemma alloc_distinct:
  assumes "lo \<le> x" and "n \<le> span"
  shows "distinct (alloc_seq nxt n x)"
proof (subst distinct_conv_nth, intro allI impI)
  fix i j
  assume ij: "i < length (alloc_seq nxt n x)" "j < length (alloc_seq nxt n x)" "i \<noteq> j"
  show "alloc_seq nxt n x ! i \<noteq> alloc_seq nxt n x ! j"
  proof
    assume "alloc_seq nxt n x ! i = alloc_seq nxt n x ! j"
    then have "(nxt ^^ i) x = (nxt ^^ j) x"
      using ij by (simp add: nth_alloc_seq)
    then have "(unat x - unat lo + i) mod span = (unat x - unat lo + j) mod span"
      by (simp only: funpow_offset [OF assms(1), symmetric])
    moreover have "i < span" and "j < span" using ij assms(2) by auto
    ultimately show False using mod_shift_inj ij(3) by blast
  qed
qed

end

lemma wrap_next_alloc: "cyclic_alloc (wrap_next lo) (lo :: 'a :: len word)"
proof
  fix x :: "'a word"
  show "wrap_next lo x = (if x = - 1 then lo else if x < lo then lo else x + 1)"
  proof (cases "x = - 1")
    case True
    then show ?thesis by (simp add: wrap_next_def max_def)
  next
    case False
    then have lt: "x < x + 1" by (simp add: word_less_nat_alt unat_Suc_word)
    show ?thesis
    proof (cases "x < lo")
      case True
      then have "x + 1 \<le> lo" by (simp add: inc_le)
      then show ?thesis using True False by (auto simp: wrap_next_def max_def)
    next
      case nlt: False
      then show ?thesis using False lt by (auto simp: wrap_next_def max_def)
    qed
  qed
qed

end
