(* ===== verification/ByteStream.thy ===== *)
theory ByteStream
  imports Prelude
begin

text \<open>
  Sockets as the code sees them through \<open>std::io::Read\<close> and \<open>Write\<close>. The peer's side of a
  connection is a script of read outcomes: data that arrives in arbitrary pieces, and read
  errors (a timeout, a reset) between them; when the script ends, every further read returns
  zero bytes. The hand-written \<open>read_exact\<close> loops of the crate are all the same loop; here it
  is modelled once and each component wraps its result in its own error type. The main facts:
  the loop sees only the byte sequence and never how it was cut into pieces, and an error in
  the middle of a read throws away the bytes read so far. The locale \<open>framing\<close> is the
  interface between a wire format and the loops that send and receive sequences of frames.
\<close>

section \<open>Read scripts\<close>

datatype io_kind =
    WouldBlock | TimedOut | UnexpectedEof | Interrupted | BrokenPipe | ConnectionReset
  | InvalidInput | Unsupported | OtherIo

datatype rd_event = Data bytes | Fail io_kind

type_synonym script = "rd_event list"

text \<open>\<open>s.read(&mut buf)\<close> with \<open>buf.len() = n\<close>: at most \<open>n\<close> bytes of the first piece that has any.\<close>

fun read_some :: "nat \<Rightarrow> script \<Rightarrow> (io_kind + bytes) \<times> script" where
  "read_some n [] = (Inr [], [])"
| "read_some n (Fail k # r) = (Inl k, r)"
| "read_some n (Data [] # r) = read_some n r"
| "read_some n (Data (b # bs) # r) =
    (Inr (take n (b # bs)), if length (b # bs) \<le> n then r else Data (drop n (b # bs)) # r)"

text \<open>The bytes that can be read before the next error, and what follows them.\<close>

fun avail :: "script \<Rightarrow> bytes" where
  "avail [] = []"
| "avail (Data bs # r) = bs @ avail r"
| "avail (Fail k # r) = []"

fun after :: "script \<Rightarrow> script" where
  "after [] = []"
| "after (Data bs # r) = after r"
| "after (Fail k # r) = Fail k # r"

lemma after_not_Data [simp]: "after s \<noteq> Data bs # r"
  by (induction s rule: after.induct) auto

text \<open>Two scripts that differ only in how the same bytes are cut into pieces.\<close>

definition same_stream :: "script \<Rightarrow> script \<Rightarrow> bool" where
  "same_stream s t \<longleftrightarrow> avail s = avail t \<and> after s = after t"

lemma read_some_length: "read_some n s = (Inr c, s') \<Longrightarrow> length c \<le> n"
  by (induction n s rule: read_some.induct) auto

lemma read_some_data:
  assumes "0 < n" and "avail s \<noteq> []"
  shows "\<exists>c s'. read_some n s = (Inr c, s') \<and> c \<noteq> [] \<and> length c \<le> n \<and>
           avail s = c @ avail s' \<and> after s' = after s"
  using assms
proof (induction n s rule: read_some.induct)
  case (4 n b bs r)
  then show ?case by (cases n) auto
qed auto

lemma read_some_end:
  "avail s = [] \<Longrightarrow> read_some n s =
     (case after s of [] \<Rightarrow> (Inr [], []) | Fail k # r \<Rightarrow> (Inl k, r) | _ \<Rightarrow> (Inr [], []))"
  by (induction n s rule: read_some.induct) auto

section \<open>The exact-read loop\<close>

datatype read_fail = RIo io_kind | REof

text \<open>
  \<open>while filled < buf.len() { let n = s.read(&mut buf[filled..])?; if n == 0 { return Err(eof) }
  filled += n }\<close>; \<open>n\<close> is what remains to be filled, \<open>acc\<close> what has been.
\<close>

function read_loop :: "nat \<Rightarrow> bytes \<Rightarrow> (script, read_fail, bytes) prog" where
  "read_loop n acc s =
    (if n = 0 then (Ok acc, s)
     else case read_some n s of
       (Inl k, s') \<Rightarrow> (Err (RIo k), s')
     | (Inr [], s') \<Rightarrow> (Err REof, s')
     | (Inr (b # c), s') \<Rightarrow> read_loop (n - length (b # c)) (acc @ b # c) s')"
  by pat_completeness auto
termination
  by (relation "measure (\<lambda>(n, acc, s). n)") auto

declare read_loop.simps [simp del]

definition read_exact :: "nat \<Rightarrow> (script, read_fail, bytes) prog" where
  "read_exact n = read_loop n []"

lemma read_loop_enough:
  assumes "n \<le> length (avail s)"
  shows "\<exists>s'. read_loop n acc s = (Ok (acc @ take n (avail s)), s') \<and>
          avail s' = drop n (avail s) \<and> after s' = after s"
  using assms
proof (induction n acc s rule: read_loop.induct)
  case (1 n acc s)
  show ?case
  proof (cases "n = 0")
    case True
    then show ?thesis by (simp add: read_loop.simps)
  next
    case False
    with "1.prems" have "avail s \<noteq> []" by auto
    then obtain b c s' where r: "read_some n s = (Inr (b # c), s')" "length (b # c) \<le> n"
      "avail s = (b # c) @ avail s'" "after s' = after s"
      using read_some_data [of n s] False by (metis list.exhaust not_gr_zero)
    have "n - length (b # c) \<le> length (avail s')" using r(3) "1.prems" by simp
    with "1.IH" [OF False r(1)[symmetric] refl refl] obtain t where
      t: "read_loop (n - length (b # c)) (acc @ b # c) s' =
           (Ok ((acc @ b # c) @ take (n - length (b # c)) (avail s')), t)"
         "avail t = drop (n - length (b # c)) (avail s')" "after t = after s'"
      by blast
    have e: "read_loop n acc s = read_loop (n - length (b # c)) (acc @ b # c) s'"
      using False r(1) by (subst read_loop.simps) simp
    have tk: "take n (avail s) = (b # c) @ take (n - length (b # c)) (avail s')"
      and dr: "drop n (avail s) = drop (n - length (b # c)) (avail s')"
      unfolding r(3) using r(2) by (simp_all only: take_append drop_append) simp_all
    show ?thesis using e t r(4) tk dr by simp
  qed
qed

lemma read_loop_short:
  assumes "length (avail s) < n"
  shows "read_loop n acc s =
    (case after s of Fail k # r \<Rightarrow> (Err (RIo k), r) | _ \<Rightarrow> (Err REof, []))"
  using assms
proof (induction n acc s rule: read_loop.induct)
  case (1 n acc s)
  have n0: "n \<noteq> 0" using "1.prems" by simp
  show ?case
  proof (cases "avail s = []")
    case True
    show ?thesis using n0 True read_some_end [OF True, of n]
      by (subst read_loop.simps) (auto split: list.splits rd_event.splits)
  next
    case False
    then obtain b c s' where r: "read_some n s = (Inr (b # c), s')" "length (b # c) \<le> n"
      "avail s = (b # c) @ avail s'" "after s' = after s"
      using read_some_data [of n s] n0 by (metis list.exhaust not_gr_zero)
    have "length (avail s') < n - length (b # c)" using r(3) "1.prems" by simp
    from "1.IH" [OF n0 r(1)[symmetric] refl refl this] show ?thesis
      using n0 r(1,4) by (subst read_loop.simps) simp
  qed
qed

lemma read_exact_enough:
  assumes "n \<le> length (avail s)"
  shows "\<exists>s'. read_exact n s = (Ok (take n (avail s)), s') \<and>
          avail s' = drop n (avail s) \<and> after s' = after s"
  using read_loop_enough [OF assms, of "[]"] by (simp add: read_exact_def)

lemma read_exact_short:
  "length (avail s) < n \<Longrightarrow> read_exact n s =
    (case after s of Fail k # r \<Rightarrow> (Err (RIo k), r) | _ \<Rightarrow> (Err REof, []))"
  by (simp add: read_exact_def read_loop_short)

text \<open>The form the frame readers use: the wanted bytes are the next ones of the stream.\<close>

lemma read_exact_next:
  assumes "avail s = xs @ rest" and "length xs = n"
  obtains s' where "read_exact n s = (Ok xs, s')" and "avail s' = rest" and "after s' = after s"
  using read_exact_enough [of n s] assms by auto

lemma read_exact_no_panic: "fst (read_exact n s) \<noteq> Panic"
proof (cases "n \<le> length (avail s)")
  case True
  then show ?thesis using read_exact_enough by force
next
  case False
  then show ?thesis by (simp add: read_exact_short split: list.splits rd_event.splits)
qed

lemma read_exact_Ok_inv:
  assumes "read_exact n s = (Ok xs, s')"
  shows "length xs = n" and "avail s = xs @ avail s'" and "after s' = after s"
proof -
  have n: "n \<le> length (avail s)"
    using assms read_exact_short [of s n]
    by (cases "n \<le> length (avail s)") (auto split: list.splits rd_event.splits)
  with read_exact_enough [OF n] assms show "length xs = n" and "avail s = xs @ avail s'"
    and "after s' = after s" by auto
qed

theorem read_exact_same_stream:
  assumes "same_stream s t"
  shows "fst (read_exact n s) = fst (read_exact n t) \<and>
    same_stream (snd (read_exact n s)) (snd (read_exact n t))"
proof (cases "n \<le> length (avail s)")
  case True
  with assms read_exact_enough [of n s] read_exact_enough [of n t] show ?thesis
    by (auto simp: same_stream_def)
next
  case False
  with assms show ?thesis
    by (auto simp: same_stream_def read_exact_short split: list.splits rd_event.splits)
qed

text \<open>A bound on how much a script can still deliver.\<close>

fun weight :: "script \<Rightarrow> nat" where
  "weight [] = 0"
| "weight (Data bs # r) = Suc (length bs + weight r)"
| "weight (Fail k # r) = Suc (weight r)"

lemma read_some_weight:
  "read_some n s = (Inr (b # c), s') \<Longrightarrow> weight s' + length (b # c) \<le> weight s"
proof (induction n s rule: read_some.induct)
  case (4 n x xs r)
  then have "b # c = take n (x # xs)" by simp
  then have "length (b # c) = min n (length (x # xs))" by (metis length_take min.commute)
  with 4 show ?case by (auto split: if_splits)
qed auto

lemma read_exact_weight: "read_exact n s = (Ok xs, s') \<Longrightarrow> weight s' + n \<le> weight s"
proof -
  have "read_loop n acc s = (Ok xs, s') \<Longrightarrow> weight s' + n \<le> weight s" for acc
  proof (induction n acc s rule: read_loop.induct)
    case (1 n acc s)
    show ?case
    proof (cases "n = 0")
      case True
      then show ?thesis using "1.prems" by (simp add: read_loop.simps)
    next
      case False
      with "1.prems" obtain b c s1 where r: "read_some n s = (Inr (b # c), s1)"
        and l: "read_loop (n - length (b # c)) (acc @ b # c) s1 = (Ok xs, s')"
        by (subst (asm) read_loop.simps) (auto split: sum.splits list.splits prod.splits)
      from "1.IH" [OF False r [symmetric] refl refl l] read_some_weight [OF r]
        read_some_length [OF r] show ?thesis by linarith
    qed
  qed
  then show "read_exact n s = (Ok xs, s') \<Longrightarrow> weight s' + n \<le> weight s"
    by (simp add: read_exact_def)
qed

section \<open>Sockets\<close>

text \<open>
  A socket: what the peer will deliver, what has been written, and how many bytes the peer
  still accepts before a write fails (\<open>None\<close>: no limit). \<open>write_all\<close> that runs into the
  limit has written a prefix. Flushing a socket has no effect of its own.
\<close>

record sock =
  inp :: script
  outp :: bytes
  room :: "nat option"

definition write_all :: "bytes \<Rightarrow> (sock, io_kind, unit) prog" where
  "write_all bs s = (case room s of
     None \<Rightarrow> (Ok (), s\<lparr>outp := outp s @ bs\<rparr>)
   | Some r \<Rightarrow>
       if length bs \<le> r then (Ok (), s\<lparr>outp := outp s @ bs, room := Some (r - length bs)\<rparr>)
       else (Err BrokenPipe, s\<lparr>outp := outp s @ take r bs, room := Some 0\<rparr>))"

definition on_inp :: "(script, 'e, 'a) prog \<Rightarrow> (sock, 'e, 'a) prog" where
  "on_inp m s = (case m (inp s) of (r, i) \<Rightarrow> (r, s\<lparr>inp := i\<rparr>))"

lemma on_inp_simps [simp, prog]:
  "m (inp s) = (r, i) \<Longrightarrow> on_inp m s = (r, s\<lparr>inp := i\<rparr>)"
  by (simp add: on_inp_def)

lemma on_inp_Ok_iff: "on_inp m s = (Ok x, s') \<longleftrightarrow> (\<exists>i. m (inp s) = (Ok x, i) \<and> s' = s\<lparr>inp := i\<rparr>)"
  by (auto simp: on_inp_def split: prod.splits)

lemma write_all_unlimited [simp, prog]:
  "room s = None \<Longrightarrow> write_all bs s = (Ok (), s\<lparr>outp := outp s @ bs\<rparr>)"
  by (simp add: write_all_def)

lemma write_all_inp: "inp (snd (write_all bs s)) = inp s"
  by (simp add: write_all_def split: option.splits)

text \<open>Whatever the limit, only a prefix of the bytes is added, and success adds all of them.\<close>

lemma write_all_prefix:
  "\<exists>k \<le> length bs. outp (snd (write_all bs s)) = outp s @ take k bs \<and>
     (fst (write_all bs s) = Ok () \<longleftrightarrow> k = length bs)"
proof (cases "room s")
  case None
  then show ?thesis by (intro exI [of _ "length bs"]) simp
next
  case (Some r)
  then show ?thesis
    by (cases "length bs \<le> r")
      (auto simp: write_all_def intro: exI [of _ "length bs"] exI [of _ r])
qed

section \<open>Framing\<close>

text \<open>Receiving a number of messages one after the other.\<close>

primrec recv_n :: "nat \<Rightarrow> ('s, 'e, 'm) prog \<Rightarrow> ('s, 'e, 'm list) prog" where
  "recv_n 0 get = ret []"
| "recv_n (Suc n) get = bnd get (\<lambda>m. bnd (recv_n n get) (\<lambda>ms. ret (m # ms)))"

text \<open>
  The contract between a frame writer and a frame reader: a well-formed message that is next
  on the stream is what the reader returns, and the stream is left right after it. From this
  alone, sequences of frames are received as sent however the bytes are cut, and no frame is
  a prefix of another.
\<close>

locale framing =
  fixes put :: "'m \<Rightarrow> bytes" and get :: "(script, 'e, 'm) prog" and wf :: "'m \<Rightarrow> bool"
  assumes get_put: "wf m \<Longrightarrow> avail s = put m @ rest \<Longrightarrow>
    \<exists>s'. get s = (Ok m, s') \<and> avail s' = rest \<and> after s' = after s"
begin

lemma recv_all:
  assumes "list_all wf ms" and "avail s = concat (map put ms) @ rest"
  shows "\<exists>s'. recv_n (length ms) get s = (Ok ms, s') \<and> avail s' = rest \<and> after s' = after s"
  using assms
proof (induction ms arbitrary: s)
  case Nil
  then show ?case by simp
next
  case (Cons m ms)
  then have "avail s = put m @ (concat (map put ms) @ rest)" and "wf m" by simp_all
  then obtain s1 where s1: "get s = (Ok m, s1)" "avail s1 = concat (map put ms) @ rest"
    "after s1 = after s" using get_put by blast
  moreover from s1(2) obtain s2 where "recv_n (length ms) get s1 = (Ok ms, s2)"
    "avail s2 = rest" "after s2 = after s1" using Cons by auto
  ultimately show ?case by simp
qed

lemma put_prefix_free:
  assumes "wf m" and "wf m'" and "put m @ r = put m' @ r'"
  shows "m = m' \<and> r = r'"
proof -
  let ?s = "[Data (put m @ r)]"
  obtain s1 where s1: "get ?s = (Ok m, s1)" "avail s1 = r"
    using get_put [OF assms(1), of ?s r] by (simp only: avail.simps append_Nil2) blast
  moreover obtain s2 where "get ?s = (Ok m', s2)" "avail s2 = r'"
    using get_put [OF assms(2), of ?s r'] assms(3) by (simp only: avail.simps append_Nil2) blast
  ultimately show ?thesis by simp
qed

lemma put_inj: "wf m \<Longrightarrow> wf m' \<Longrightarrow> put m = put m' \<Longrightarrow> m = m'"
  using put_prefix_free [of m m' "[]" "[]"] by simp

end

end
