(* ===== verification/TextFmt.thy ===== *)
theory TextFmt
  imports Prelude
begin

text \<open>
  The number formatting and parsing that the code takes from the standard library:
  \<open>format!("{n}")\<close>, \<open>str::parse\<close> for unsigned integers (which accepts a leading plus sign and
  rejects overflow), and two-digit hexadecimal. The round trips are what the version parser,
  the AFC attribute parser, the catalogue parser and the credential store rely on.
\<close>

section \<open>Decimal\<close>

definition digit_char :: "nat \<Rightarrow> char" where
  "digit_char d = char_of (48 + d)"

definition char_digit :: "char \<Rightarrow> nat option" where
  "char_digit c = (let k = of_char c :: nat in if 48 \<le> k \<and> k \<le> 57 then Some (k - 48) else None)"

fun show_nat :: "nat \<Rightarrow> string" where
  "show_nat n = (if n < 10 then [digit_char n] else show_nat (n div 10) @ [digit_char (n mod 10)])"

declare show_nat.simps [simp del]

fun parse_digits :: "nat \<Rightarrow> string \<Rightarrow> nat option" where
  "parse_digits acc [] = Some acc"
| "parse_digits acc (c # cs) =
    (case char_digit c of None \<Rightarrow> None | Some d \<Rightarrow> parse_digits (acc * 10 + d) cs)"

text \<open>\<open>s.parse::<uN>()\<close> for a type whose largest value is \<open>m\<close>.\<close>

definition parse_uint :: "nat \<Rightarrow> string \<Rightarrow> nat option" where
  "parse_uint m s =
    (let body = (case s of c # cs \<Rightarrow> if c = CHR ''+'' then cs else s | [] \<Rightarrow> s) in
     if body = [] then None
     else case parse_digits 0 body of
       None \<Rightarrow> None
     | Some n \<Rightarrow> if n \<le> m then Some n else None)"

lemma char_digit_digit_char [simp]: "d < 10 \<Longrightarrow> char_digit (digit_char d) = Some d"
  by (simp add: char_digit_def digit_char_def)

lemma digit_char_not_plus: "d < 10 \<Longrightarrow> digit_char d \<noteq> CHR ''+''"
proof
  assume "d < 10" and "digit_char d = CHR ''+''"
  then have "char_digit CHR ''+'' = Some d" by (metis char_digit_digit_char)
  then show False by (simp add: char_digit_def)
qed

lemma parse_digits_append:
  "parse_digits acc (xs @ ys) =
    (case parse_digits acc xs of None \<Rightarrow> None | Some n \<Rightarrow> parse_digits n ys)"
  by (induction xs arbitrary: acc) (auto split: option.splits)

lemma parse_digits_show: "parse_digits 0 (show_nat n) = Some n"
proof (induction n rule: show_nat.induct)
  case (1 n)
  show ?case
  proof (cases "n < 10")
    case True
    then show ?thesis by (subst show_nat.simps) simp
  next
    case False
    with 1 show ?thesis by (subst show_nat.simps) (simp add: parse_digits_append)
  qed
qed

lemma show_nat_Cons: "\<exists>d cs. show_nat n = digit_char d # cs \<and> d < 10"
proof (induction n rule: show_nat.induct)
  case (1 n)
  then show ?case by (cases "n < 10") (subst show_nat.simps, auto)+
qed

lemma parse_uint_show: "n \<le> m \<Longrightarrow> parse_uint m (show_nat n) = Some n"
  using show_nat_Cons [of n] parse_digits_show [of n]
  by (auto simp: parse_uint_def digit_char_not_plus)

lemma parse_uint_bound: "parse_uint m s = Some n \<Longrightarrow> n \<le> m"
  by (auto simp: parse_uint_def Let_def split: if_splits option.splits)

lemma show_nat_inj: "show_nat a = show_nat b \<Longrightarrow> a = b"
  by (metis parse_digits_show option.inject)

lemma show_nat_digits: "list_all (\<lambda>c. \<exists>d < 10. c = digit_char d) (show_nat n)"
proof (induction n rule: show_nat.induct)
  case (1 n)
  have "\<exists>d < 10. digit_char (n mod 10) = digit_char d" by (rule exI [of _ "n mod 10"]) simp
  with 1 show ?case
    by (cases "n < 10") (subst show_nat.simps, auto)+
qed

definition parse_u16 :: "string \<Rightarrow> u16 option" where
  "parse_u16 s = map_option word_of_nat (parse_uint (2 ^ 16 - 1) s)"

definition parse_u32 :: "string \<Rightarrow> u32 option" where
  "parse_u32 s = map_option word_of_nat (parse_uint (2 ^ 32 - 1) s)"

definition parse_u64 :: "string \<Rightarrow> u64 option" where
  "parse_u64 s = map_option word_of_nat (parse_uint (2 ^ 64 - 1) s)"

lemma parse_u_show [simp]:
  "parse_u16 (show_nat (unat (a :: u16))) = Some a"
  "parse_u32 (show_nat (unat (b :: u32))) = Some b"
  "parse_u64 (show_nat (unat (c :: u64))) = Some c"
  using unat_lt2p [of a] unat_lt2p [of b] unat_lt2p [of c]
  by (simp_all add: parse_u16_def parse_u32_def parse_u64_def parse_uint_show)

section \<open>Hexadecimal\<close>

definition hex_char :: "nat \<Rightarrow> char" where
  "hex_char d = (if d < 10 then char_of (48 + d) else char_of (87 + d))"

definition hex_char_up :: "nat \<Rightarrow> char" where
  "hex_char_up d = (if d < 10 then char_of (48 + d) else char_of (55 + d))"

definition hex_digit :: "char \<Rightarrow> nat option" where
  "hex_digit c = (let k = of_char c :: nat in
     if 48 \<le> k \<and> k \<le> 57 then Some (k - 48)
     else if 97 \<le> k \<and> k \<le> 102 then Some (k - 87)
     else if 65 \<le> k \<and> k \<le> 70 then Some (k - 55)
     else None)"

text \<open>\<open>{x:02x}\<close> and \<open>{x:02X}\<close> of a byte.\<close>

definition hex2 :: "byte \<Rightarrow> string" where
  "hex2 b = [hex_char (unat b div 16), hex_char (unat b mod 16)]"

definition hex2_up :: "byte \<Rightarrow> string" where
  "hex2_up b = [hex_char_up (unat b div 16), hex_char_up (unat b mod 16)]"

text \<open>\<open>u8::from_str_radix(s, 16)\<close> on a string of two characters.\<close>

definition parse_hex2 :: "char \<Rightarrow> char \<Rightarrow> byte option" where
  "parse_hex2 c d =
    (if c = CHR ''+'' then map_option word_of_nat (hex_digit d)
     else case (hex_digit c, hex_digit d) of
       (Some x, Some y) \<Rightarrow> Some (word_of_nat (16 * x + y))
     | _ \<Rightarrow> None)"

lemma hex_digit_hex_char [simp]:
  "d < 16 \<Longrightarrow> hex_digit (hex_char d) = Some d" "d < 16 \<Longrightarrow> hex_digit (hex_char_up d) = Some d"
  by (simp_all add: hex_digit_def hex_char_def hex_char_up_def)

lemma hex_char_not_plus: "d < 16 \<Longrightarrow> hex_char d \<noteq> CHR ''+''"
proof
  assume "d < 16" and "hex_char d = CHR ''+''"
  then have "hex_digit CHR ''+'' = Some d" by (metis hex_digit_hex_char(1))
  then show False by (simp add: hex_digit_def)
qed

lemma parse_hex2_hex2: "parse_hex2 (hex_char (unat b div 16)) (hex_char (unat b mod 16)) = Some b"
proof -
  have "unat b div 16 < 16" using unat_byte_less [of b] by (simp add: div_less_iff_less_mult)
  then show ?thesis by (simp add: parse_hex2_def hex_char_not_plus)
qed

section \<open>Substrings and case\<close>

text \<open>\<open>s.contains(p)\<close>.\<close>

definition contains_str :: "string \<Rightarrow> string \<Rightarrow> bool" where
  "contains_str p s = list_ex (\<lambda>i. take (length p) (drop i s) = p) [0..<Suc (length s)]"

lemma contains_str_inner: "contains_str p (a @ p @ b)"
  by (auto simp: contains_str_def list_ex_iff intro!: bexI [of _ "length a"])

lemma contains_str_iff: "contains_str p s \<longleftrightarrow> (\<exists>a b. s = a @ p @ b)"
proof
  assume "contains_str p s"
  then obtain i where "take (length p) (drop i s) = p" by (auto simp: contains_str_def list_ex_iff)
  then have "s = take i s @ p @ drop (length p) (drop i s)" by (metis append_take_drop_id)
  then show "\<exists>a b. s = a @ p @ b" by blast
qed (auto simp: contains_str_inner)

definition upper_char :: "char \<Rightarrow> char" where
  "upper_char c = (if 97 \<le> (of_char c :: nat) \<and> (of_char c :: nat) \<le> 122 then char_of (of_char c - 32 :: nat) else c)"

definition lower_char :: "char \<Rightarrow> char" where
  "lower_char c = (if 65 \<le> (of_char c :: nat) \<and> (of_char c :: nat) \<le> 90 then char_of (of_char c + 32 :: nat) else c)"

text \<open>\<open>s.split(c)\<close>, \<open>s.split_once(c)\<close> and \<open>s.trim_end_matches(p)\<close>.\<close>

fun split_on :: "char \<Rightarrow> string \<Rightarrow> string list" where
  "split_on c [] = [[]]"
| "split_on c (x # xs) = (if x = c then [] # split_on c xs
     else case split_on c xs of [] \<Rightarrow> [[x]] | w # ws \<Rightarrow> (x # w) # ws)"

fun split_once :: "char \<Rightarrow> string \<Rightarrow> (string \<times> string) option" where
  "split_once c [] = None"
| "split_once c (x # xs) = (if x = c then Some ([], xs) else map_option (\<lambda>(a, b). (x # a, b)) (split_once c xs))"

definition ends_with :: "string \<Rightarrow> string \<Rightarrow> bool" where
  "ends_with p s \<longleftrightarrow> length p \<le> length s \<and> drop (length s - length p) s = p"

function trim_end_matches :: "string \<Rightarrow> string \<Rightarrow> string" where
  "trim_end_matches p s = (if p \<noteq> [] \<and> ends_with p s then trim_end_matches p (take (length s - length p) s) else s)"
  by pat_completeness auto
termination
proof (relation "measure (\<lambda>(p, s). length s)")
  fix p s :: string
  assume "p \<noteq> [] \<and> ends_with p s"
  then have "0 < length p" and "length p \<le> length s" by (simp_all add: ends_with_def)
  then have "length s - length p < length s" by linarith
  then show "((p, take (length s - length p) s), p, s) \<in> measure (\<lambda>(p, s). length s)" by simp
qed simp

declare trim_end_matches.simps [simp del]

lemma split_on_nonempty [simp]: "split_on c s \<noteq> []"
  by (induction s) (auto split: list.splits)

lemma split_once_Some: "split_once c s = Some (a, b) \<longleftrightarrow> s = a @ c # b \<and> c \<notin> set a"
proof (induction s arbitrary: a)
  case (Cons x s)
  then show ?case by (cases a) auto
qed simp

lemma split_once_None: "split_once c s = None \<longleftrightarrow> c \<notin> set s"
  by (induction s) auto

section \<open>White space\<close>

text \<open>Strings are UTF-8 bytes, so the white space of the standard library is recognised by its encodings.\<close>

text \<open>The number of bytes of the white space character that a string starts with, zero if none.\<close>

definition ws_len :: "string \<Rightarrow> nat" where
  "ws_len s = (let c = (\<lambda>i. if i < length s then of_char (s ! i) else (0 :: nat)) in
     if 9 \<le> c 0 \<and> c 0 \<le> 13 \<or> c 0 = 32 then 1
     else if c 0 = 0xc2 \<and> (c 1 = 0x85 \<or> c 1 = 0xa0) then 2
     else if c 0 = 0xe1 \<and> c 1 = 0x9a \<and> c 2 = 0x80 then 3
     else if c 0 = 0xe2 \<and> c 1 = 0x80 \<and> (0x80 \<le> c 2 \<and> c 2 \<le> 0x8a \<or> c 2 = 0xa8 \<or> c 2 = 0xa9 \<or> c 2 = 0xaf) then 3
     else if c 0 = 0xe2 \<and> c 1 = 0x81 \<and> c 2 = 0x9f then 3
     else if c 0 = 0xe3 \<and> c 1 = 0x80 \<and> c 2 = 0x80 then 3
     else 0)"

lemma ws_len_Nil [simp]: "ws_len [] = 0"
  by (simp add: ws_len_def)

lemma ws_len_space [simp]: "ws_len (CHR '' '' # s) = 1"
  by (simp add: ws_len_def)

text \<open>\<open>s.split_whitespace()\<close>\<close>

function split_ws :: "string \<Rightarrow> string \<Rightarrow> string list" where
  "split_ws word [] = (if word = [] then [] else [word])"
| "split_ws word (c # cs) =
    (if ws_len (c # cs) = 0 then split_ws (word @ [c]) cs
     else (if word = [] then [] else [word]) @ split_ws [] (drop (ws_len (c # cs)) (c # cs)))"
  by pat_completeness auto
termination
  by (relation "measure (\<lambda>(word, s). length s)") auto

text \<open>\<open>s.trim()\<close>\<close>

function trim_start :: "string \<Rightarrow> string" where
  "trim_start s = (if ws_len s = 0 then s else trim_start (drop (ws_len s) s))"
  by pat_completeness auto
termination
  by (relation "measure length") (auto simp: ws_len_def Let_def split: if_splits)

declare trim_start.simps [simp del]

function trim_end :: "string \<Rightarrow> string" where
  "trim_end [] = []"
| "trim_end (c # cs) =
    (if ws_len (c # cs) = 0 then c # trim_end cs
     else let r = trim_end (drop (ws_len (c # cs)) (c # cs))
          in if r = [] then [] else take (ws_len (c # cs)) (c # cs) @ r)"
  by pat_completeness auto
termination
  by (relation "measure length") auto

definition trim :: "string \<Rightarrow> string" where
  "trim s = trim_end (trim_start s)"

text \<open>Text of visible ASCII characters: \<open>trim\<close> removes the blanks around it and nothing else.\<close>

definition visible :: "char \<Rightarrow> bool" where
  "visible c \<longleftrightarrow> 32 < (of_char c :: nat) \<and> (of_char c :: nat) < 128"

lemma ws_len_visible [simp]: "visible c \<Longrightarrow> ws_len (c # cs) = 0"
  by (simp add: visible_def ws_len_def Let_def)

lemma trim_start_blanks [simp]: "trim_start (replicate i (CHR '' '') @ s) = trim_start s"
  by (induction i) (simp_all add: trim_start.simps [of "CHR '' '' # _"])

lemma trim_end_blanks [simp]: "trim_end (replicate j (CHR '' '')) = []"
  by (induction j) simp_all

lemma trim_end_visible: "list_all visible s \<Longrightarrow> trim_end (s @ replicate j (CHR '' '')) = s"
  by (induction s) simp_all

lemma trim_inner:
  assumes "list_all visible s"
  shows "trim (replicate i (CHR '' '') @ s @ replicate j (CHR '' '')) = s"
proof (cases s)
  case Nil
  have "trim_start (replicate j (CHR '' '')) = []"
    using trim_start_blanks [of j "[]"] by (simp add: trim_start.simps [of "[]"])
  then show ?thesis by (simp add: trim_def Nil)
next
  case (Cons c cs)
  then have "trim_start (s @ replicate j (CHR '' '')) = s @ replicate j (CHR '' '')"
    using assms by (simp add: trim_start.simps [of "c # _"])
  then show ?thesis using assms by (simp add: trim_def trim_end_visible)
qed

lemma digit_char_visible [simp]: "d < 10 \<Longrightarrow> visible (digit_char d)"
proof -
  have "\<forall>d<10. visible (digit_char d)" by code_simp
  then show "d < 10 \<Longrightarrow> ?thesis" by blast
qed

lemma hex_char_visible [simp]: "d < 16 \<Longrightarrow> visible (hex_char d)"
proof -
  have "\<forall>d<16. visible (hex_char d)" by code_simp
  then show "d < 16 \<Longrightarrow> ?thesis" by blast
qed

lemma show_nat_visible: "list_all visible (show_nat n)"
  using show_nat_digits [of n] by (auto simp: list_all_iff)

end
