(* ===== verification/Plist.thy ===== *)
theory Plist
  imports ByteStream TextFmt
begin

text \<open>
  Property lists. The \<open>plist\<close> crate is not part of the repository: its value type is modelled
  with the constructors the code builds and matches, its accessors by their documented
  behaviour, and its XML and binary writers and its reader are parameters (\<open>xml\<close>, \<open>bin\<close>,
  \<open>parse\<close>) of every definition that calls them. The second part is the framing that
  lockdownd and most services share: a four-byte big-endian length and the encoded value.
\<close>

section \<open>Values\<close>

datatype pvalue =
    PArray "pvalue list"
  | PDictionary "(string \<times> pvalue) list"
  | PBoolean bool
  | PData bytes
  | PDate u64
  | PReal u64
  | PInteger int
  | PString string
  | PUid nat

type_synonym pdictionary = "(string \<times> pvalue) list"

fun as_string :: "pvalue \<Rightarrow> string option" where
  "as_string (PString s) = Some s"
| "as_string _ = None"

fun as_dictionary :: "pvalue \<Rightarrow> pdictionary option" where
  "as_dictionary (PDictionary d) = Some d"
| "as_dictionary _ = None"

fun as_array :: "pvalue \<Rightarrow> pvalue list option" where
  "as_array (PArray a) = Some a"
| "as_array _ = None"

fun as_data :: "pvalue \<Rightarrow> bytes option" where
  "as_data (PData b) = Some b"
| "as_data _ = None"

fun as_boolean :: "pvalue \<Rightarrow> bool option" where
  "as_boolean (PBoolean b) = Some b"
| "as_boolean _ = None"

fun as_unsigned_integer :: "pvalue \<Rightarrow> u64 option" where
  "as_unsigned_integer (PInteger i) =
    (if 0 \<le> i \<and> i < 2 ^ 64 then Some (word_of_int i) else None)"
| "as_unsigned_integer _ = None"

fun as_signed_integer :: "pvalue \<Rightarrow> int option" where
  "as_signed_integer (PInteger i) = (if - (2 ^ 63) \<le> i \<and> i < 2 ^ 63 then Some i else None)"
| "as_signed_integer _ = None"

abbreviation dget :: "pdictionary \<Rightarrow> string \<Rightarrow> pvalue option" where
  "dget d k \<equiv> map_of d k"

text \<open>\<open>let mut d = Dictionary::new(); d.insert(..); ..\<close>\<close>

definition pdict :: "(string \<times> pvalue) list \<Rightarrow> pvalue" where
  "pdict kvs = PDictionary (fold (\<lambda>(k, v). ainsert k v) kvs [])"

lemma fold_ainsert_new:
  "distinct (map fst kvs) \<Longrightarrow> fst ` set m \<inter> fst ` set kvs = {} \<Longrightarrow>
    fold (\<lambda>(k, v). ainsert k v) kvs m = m @ kvs"
proof (induction kvs arbitrary: m)
  case Nil
  then show ?case by simp
next
  case (Cons kv kvs)
  obtain k v where kv: "kv = (k, v)" by (cases kv)
  with Cons.prems have "k \<notin> fst ` set m" by auto
  then have "ainsert k v m = m @ [(k, v)]" by (rule ainsert_new)
  moreover have "fst ` set (m @ [(k, v)]) \<inter> fst ` set kvs = {}"
    using Cons.prems kv by auto
  ultimately show ?case using Cons kv by simp
qed

lemma pdict_distinct: "distinct (map fst kvs) \<Longrightarrow> pdict kvs = PDictionary kvs"
  by (simp add: pdict_def fold_ainsert_new)

section \<open>Length-prefixed frames\<close>

text \<open>\<open>(body.len() as u32).to_be_bytes()\<close>, then the body: the length wraps at \<open>2^32\<close>.\<close>

definition lp_frame :: "bytes \<Rightarrow> bytes" where
  "lp_frame body = u32_be (word_of_nat (length body)) @ body"

definition recv_lp :: "(script, read_fail, bytes) prog" where
  "recv_lp = bnd (read_exact 4) (\<lambda>h. read_exact (unat (u32_of_be h)))"

lemma recv_lp_next:
  assumes "length b < 2 ^ 32" and "avail s = lp_frame b @ rest"
  shows "\<exists>s'. recv_lp s = (Ok b, s') \<and> avail s' = rest \<and> after s' = after s"
proof -
  have "avail s = u32_be (word_of_nat (length b)) @ (b @ rest)"
    using assms(2) by (simp add: lp_frame_def)
  then obtain s1 where s1: "read_exact 4 s = (Ok (u32_be (word_of_nat (length b))), s1)"
    "avail s1 = b @ rest" "after s1 = after s"
    by (rule read_exact_next) simp
  moreover have "unat (u32_of_be (u32_be (word_of_nat (length b)))) = length b"
    using assms(1) by simp
  moreover obtain s2 where "read_exact (length b) s1 = (Ok b, s2)" "avail s2 = rest"
    "after s2 = after s1" using s1(2) by (rule read_exact_next) simp
  ultimately show ?thesis by (simp add: recv_lp_def)
qed

interpretation lp: framing lp_frame recv_lp "\<lambda>b. length b < 2 ^ 32"
  by unfold_locales (rule recv_lp_next)

datatype plist_io_error = PIo io_kind | PClosed | PPlist

fun plist_io_of :: "read_fail \<Rightarrow> plist_io_error" where
  "plist_io_of (RIo k) = PIo k"
| "plist_io_of REof = PClosed"

definition send_plist :: "(pvalue \<Rightarrow> bytes) \<Rightarrow> pvalue \<Rightarrow> (sock, plist_io_error, unit) prog" where
  "send_plist xml v =
    (let body = xml v in
     on_err PIo (bnd (write_all (u32_be (word_of_nat (length body)))) (\<lambda>_. write_all body)))"

definition recv_plist :: "(bytes \<Rightarrow> pvalue option) \<Rightarrow> (sock, plist_io_error, pvalue) prog" where
  "recv_plist parse =
    bnd (on_err plist_io_of (on_inp recv_lp)) (\<lambda>body. lift_o (ok_or (parse body) PPlist))"

lemma send_plist_unlimited:
  "room s = None \<Longrightarrow> send_plist xml v s = (Ok (), s\<lparr>outp := outp s @ lp_frame (xml v)\<rparr>)"
  by (simp add: send_plist_def lp_frame_def Let_def)

lemma recv_plist_next:
  assumes "length (xml v) < 2 ^ 32" and "parse (xml v) = Some v"
    and "avail (inp s) = lp_frame (xml v) @ rest"
  shows "\<exists>i. recv_plist parse s = (Ok v, s\<lparr>inp := i\<rparr>) \<and> avail i = rest \<and> after i = after (inp s)"
proof -
  obtain i where "recv_lp (inp s) = (Ok (xml v), i)" "avail i = rest" "after i = after (inp s)"
    using lp.get_put [OF assms(1,3)] by blast
  then show ?thesis using assms(2) by (intro exI [of _ i]) (simp add: recv_plist_def)
qed

end
