(* ===== verification/UsbmuxCodec.thy ===== *)
theory UsbmuxCodec
  imports Plist
begin

text \<open>
  The usbmux client codec: \<open>src/src/usbmux/types.rs\<close>, \<open>plist_msg.rs\<close> and \<open>codec.rs\<close>. The
  codec does no I/O: requests are encoded into a queue of outgoing frames, received bytes are
  pushed in any pieces, and decoded events come out of a queue. The serde derives of the
  request and response structures are written out as functions to and from property-list
  values, with the renamed keys of the source's attributes.
\<close>

section \<open>Protocol types\<close>

datatype ConnectionType = Usb | Network | UnknownConn string

definition connection_type_of :: "string \<Rightarrow> ConnectionType" where
  "connection_type_of s =
    (if s = ''USB'' then Usb else if s = ''Network'' then Network else UnknownConn s)"

fun show_connection_type :: "ConnectionType \<Rightarrow> string" where
  "show_connection_type Usb = ''USB''"
| "show_connection_type Network = ''Network''"
| "show_connection_type (UnknownConn s) = s"

record Device =
  dev_id :: u32
  dev_serial :: string
  dev_connection_type :: ConnectionType
  dev_product_id :: u16
  dev_location_id :: u32

datatype ResultCode =
    RcOk | BadCommand | BadDevice | ConnRefused | NoSuchService | BadVersion | RcUnknown u32

definition result_code_of :: "u32 \<Rightarrow> ResultCode" where
  "result_code_of n =
    (if n = 0 then RcOk else if n = 1 then BadCommand else if n = 2 then BadDevice
     else if n = 3 then ConnRefused else if n = 4 then NoSuchService
     else if n = 6 then BadVersion else RcUnknown n)"

fun show_result_code :: "ResultCode \<Rightarrow> string" where
  "show_result_code RcOk = ''OK''"
| "show_result_code BadCommand = ''bad command''"
| "show_result_code BadDevice = ''bad device''"
| "show_result_code ConnRefused = ''connection refused''"
| "show_result_code NoSuchService = ''no such service''"
| "show_result_code BadVersion = ''bad version''"
| "show_result_code (RcUnknown n) = ''unknown error '' @ show_nat (unat n)"

datatype event =
    DeviceList "Device list"
  | DeviceAttached Device
  | DeviceDetached u32
  | Connected u32
  | RequestOk u32
  | RequestFailed u32 ResultCode
  | Buid string
  | PairRecordEv string bytes

section \<open>Requests and responses\<close>

datatype request =
    BaseRequest string
  | ConnectRequest u32 u16
  | PairRecordRequest string string
  | SavePairRecordRequest string bytes

definition base_fields :: "string \<Rightarrow> (string \<times> pvalue) list" where
  "base_fields message_type =
    [(''MessageType'', PString message_type),
     (''ClientVersionString'', PString ''devicelink-0.1.0''),
     (''ProgName'', PString ''devicelink''),
     (''kLibUSBMuxVersion'', PInteger 3)]"

fun request_value :: "request \<Rightarrow> pvalue" where
  "request_value (BaseRequest t) = PDictionary (base_fields t)"
| "request_value (ConnectRequest device_id port_number) =
    PDictionary (base_fields ''Connect'' @
      [(''DeviceID'', PInteger (uint device_id)), (''PortNumber'', PInteger (uint port_number))])"
| "request_value (PairRecordRequest t udid) =
    PDictionary (base_fields t @ [(''PairRecordID'', PString udid)])"
| "request_value (SavePairRecordRequest udid record) =
    PDictionary (base_fields ''SavePairRecord'' @
      [(''PairRecordID'', PString udid), (''PairRecordData'', PData record)])"

record DeviceProperties =
  pr_serial_number :: "string option"
  pr_connection_type :: "string option"
  pr_product_id :: "u16 option"
  pr_location_id :: "u32 option"

record DeviceEntry =
  de_device_id :: u32
  de_properties :: DeviceProperties

record Envelope =
  env_message_type :: "string option"
  env_number :: "u32 option"
  env_device_list :: "DeviceEntry list option"
  env_buid :: "string option"
  env_device_id :: "u32 option"
  env_properties :: "DeviceProperties option"
  env_pair_record_data :: "bytes option"

text \<open>Deserialization of one field: a missing optional field is \<open>None\<close>, a present one must fit.\<close>

definition opt_field :: "(pvalue \<Rightarrow> 'a option) \<Rightarrow> pdictionary \<Rightarrow> string \<Rightarrow> 'a option option" where
  "opt_field conv d k = (case dget d k of None \<Rightarrow> Some None | Some v \<Rightarrow> map_option Some (conv v))"

fun value_u32 :: "pvalue \<Rightarrow> u32 option" where
  "value_u32 (PInteger i) = (if 0 \<le> i \<and> i < 2 ^ 32 then Some (word_of_int i) else None)"
| "value_u32 _ = None"

fun value_u16 :: "pvalue \<Rightarrow> u16 option" where
  "value_u16 (PInteger i) = (if 0 \<le> i \<and> i < 2 ^ 16 then Some (word_of_int i) else None)"
| "value_u16 _ = None"

definition properties_of_value :: "pvalue \<Rightarrow> DeviceProperties option" where
  "properties_of_value v = (case v of
     PDictionary d \<Rightarrow>
       (case (opt_field as_string d ''SerialNumber'', opt_field as_string d ''ConnectionType'',
              opt_field value_u16 d ''ProductID'', opt_field value_u32 d ''LocationID'') of
          (Some s, Some c, Some p, Some l) \<Rightarrow>
            Some \<lparr>pr_serial_number = s, pr_connection_type = c, pr_product_id = p,
                  pr_location_id = l\<rparr>
        | _ \<Rightarrow> None)
   | _ \<Rightarrow> None)"

definition entry_of_value :: "pvalue \<Rightarrow> DeviceEntry option" where
  "entry_of_value v = (case v of
     PDictionary d \<Rightarrow>
       (case (Option.bind (dget d ''DeviceID'') value_u32,
              Option.bind (dget d ''Properties'') properties_of_value) of
          (Some i, Some p) \<Rightarrow> Some \<lparr>de_device_id = i, de_properties = p\<rparr>
        | _ \<Rightarrow> None)
   | _ \<Rightarrow> None)"

definition entries_of_value :: "pvalue \<Rightarrow> DeviceEntry list option" where
  "entries_of_value v = (case v of PArray vs \<Rightarrow> those (map entry_of_value vs) | _ \<Rightarrow> None)"

definition envelope_of_value :: "pvalue \<Rightarrow> Envelope option" where
  "envelope_of_value v = (case v of
     PDictionary d \<Rightarrow>
       (case (opt_field as_string d ''MessageType'', opt_field value_u32 d ''Number'',
              opt_field entries_of_value d ''DeviceList'', opt_field as_string d ''BUID'',
              opt_field value_u32 d ''DeviceID'', opt_field properties_of_value d ''Properties'',
              opt_field as_data d ''PairRecordData'') of
          (Some m, Some n, Some l, Some b, Some i, Some p, Some r) \<Rightarrow>
            Some \<lparr>env_message_type = m, env_number = n, env_device_list = l, env_buid = b,
                  env_device_id = i, env_properties = p, env_pair_record_data = r\<rparr>
        | _ \<Rightarrow> None)
   | _ \<Rightarrow> None)"

definition encode :: "(pvalue \<Rightarrow> bytes) \<Rightarrow> request \<Rightarrow> bytes" where
  "encode xml req = xml (request_value req)"

definition decode :: "(bytes \<Rightarrow> pvalue option) \<Rightarrow> bytes \<Rightarrow> Envelope option" where
  "decode parse payload = Option.bind (parse payload) envelope_of_value"

section \<open>The codec\<close>

record codec =
  rx :: bytes
  tx :: "bytes list"
  events :: "event list"
  next_tag :: u32
  pending_connects :: "u32 list"

definition codec_new :: codec where
  "codec_new = \<lparr>rx = [], tx = [], events = [], next_tag = 1, pending_connects = []\<rparr>"

definition HEADER_LEN :: nat where "HEADER_LEN = 16"
definition VERSION_PLIST :: u32 where "VERSION_PLIST = 1"
definition MSGTYPE_PLIST :: u32 where "MSGTYPE_PLIST = 8"

definition alloc_tag :: "codec \<Rightarrow> u32 \<times> codec" where
  "alloc_tag c = (next_tag c, c\<lparr>next_tag := max (next_tag c + 1) 1\<rparr>)"

definition frame_bytes :: "u32 \<Rightarrow> bytes \<Rightarrow> bytes" where
  "frame_bytes tag body =
    u32_le (word_of_nat (HEADER_LEN + length body)) @ u32_le VERSION_PLIST @
    u32_le MSGTYPE_PLIST @ u32_le tag @ body"

definition enqueue_frame :: "bytes \<Rightarrow> u32 \<Rightarrow> codec \<Rightarrow> codec" where
  "enqueue_frame body tag c = c\<lparr>tx := tx c @ [frame_bytes tag body]\<rparr>"

text \<open>The shape all request operations share: a fresh tag, one queued frame.\<close>

definition send_request :: "(pvalue \<Rightarrow> bytes) \<Rightarrow> request \<Rightarrow> codec \<Rightarrow> u32 \<times> codec" where
  "send_request xml req c =
    (let (tag, c1) = alloc_tag c in (tag, enqueue_frame (encode xml req) tag c1))"

definition list_devices :: "(pvalue \<Rightarrow> bytes) \<Rightarrow> codec \<Rightarrow> u32 \<times> codec" where
  "list_devices xml = send_request xml (BaseRequest ''ListDevices'')"

definition listen :: "(pvalue \<Rightarrow> bytes) \<Rightarrow> codec \<Rightarrow> u32 \<times> codec" where
  "listen xml = send_request xml (BaseRequest ''Listen'')"

definition read_buid :: "(pvalue \<Rightarrow> bytes) \<Rightarrow> codec \<Rightarrow> u32 \<times> codec" where
  "read_buid xml = send_request xml (BaseRequest ''ReadBUID'')"

definition read_pair_record :: "(pvalue \<Rightarrow> bytes) \<Rightarrow> string \<Rightarrow> codec \<Rightarrow> u32 \<times> codec" where
  "read_pair_record xml udid = send_request xml (PairRecordRequest ''ReadPairRecord'' udid)"

definition save_pair_record ::
  "(pvalue \<Rightarrow> bytes) \<Rightarrow> string \<Rightarrow> bytes \<Rightarrow> codec \<Rightarrow> u32 \<times> codec" where
  "save_pair_record xml udid record = send_request xml (SavePairRecordRequest udid record)"

definition delete_pair_record :: "(pvalue \<Rightarrow> bytes) \<Rightarrow> string \<Rightarrow> codec \<Rightarrow> u32 \<times> codec" where
  "delete_pair_record xml udid = send_request xml (PairRecordRequest ''DeletePairRecord'' udid)"

text \<open>\<open>port.to_be()\<close> on a little-endian host: the two bytes are swapped.\<close>

definition u16_swap :: "u16 \<Rightarrow> u16" where
  "u16_swap p = u16_of_be (u16_le p)"

definition connect :: "(pvalue \<Rightarrow> bytes) \<Rightarrow> u32 \<Rightarrow> u16 \<Rightarrow> codec \<Rightarrow> u32 \<times> codec" where
  "connect xml device_id port c =
    (let (tag, c1) = alloc_tag c;
         c2 = c1\<lparr>pending_connects := pending_connects c1 @ [tag]\<rparr>;
         body = encode xml (ConnectRequest device_id (u16_swap port))
     in (tag, enqueue_frame body tag c2))"

definition device_from_entry :: "DeviceEntry \<Rightarrow> Device" where
  "device_from_entry e =
    \<lparr>dev_id = de_device_id e,
     dev_serial = (case pr_serial_number (de_properties e) of None \<Rightarrow> [] | Some s \<Rightarrow> s),
     dev_connection_type = connection_type_of
       (case pr_connection_type (de_properties e) of None \<Rightarrow> [] | Some s \<Rightarrow> s),
     dev_product_id = (case pr_product_id (de_properties e) of None \<Rightarrow> 0 | Some p \<Rightarrow> p),
     dev_location_id = (case pr_location_id (de_properties e) of None \<Rightarrow> 0 | Some l \<Rightarrow> l)\<rparr>"

definition decode_frame ::
  "(bytes \<Rightarrow> pvalue option) \<Rightarrow> u32 \<Rightarrow> bytes \<Rightarrow> codec \<Rightarrow> event option \<times> codec" where
  "decode_frame parse tag payload c = (case decode parse payload of
     None \<Rightarrow> (None, c)
   | Some env \<Rightarrow>
      (let msg_type = (case env_message_type env of None \<Rightarrow> [] | Some t \<Rightarrow> t) in
       if msg_type = ''Result'' then
         (let code = result_code_of (case env_number env of None \<Rightarrow> - 1 | Some n \<Rightarrow> n);
              is_connect = List.member (pending_connects c) tag;
              c' = (if is_connect
                    then c\<lparr>pending_connects := filter (\<lambda>t. t \<noteq> tag) (pending_connects c)\<rparr>
                    else c)
          in if is_connect \<and> code = RcOk then (Some (Connected tag), c')
             else if code = RcOk then (Some (RequestOk tag), c')
             else (Some (RequestFailed tag code), c'))
       else if msg_type = [] then
         (case env_device_list env of
            Some l \<Rightarrow> (Some (DeviceList (map device_from_entry l)), c)
          | None \<Rightarrow> (case env_buid env of
              Some b \<Rightarrow> (Some (Buid b), c)
            | None \<Rightarrow> (case env_pair_record_data env of
                Some r \<Rightarrow> (Some (PairRecordEv [] r), c)
              | None \<Rightarrow> (None, c))))
       else if msg_type = ''Attached'' then
         (case (env_properties env, env_device_id env) of
            (Some p, Some i) \<Rightarrow>
              (Some (DeviceAttached (device_from_entry \<lparr>de_device_id = i, de_properties = p\<rparr>)), c)
          | _ \<Rightarrow> (None, c))
       else if msg_type = ''Detached'' then
         (case env_device_id env of Some i \<Rightarrow> (Some (DeviceDetached i), c) | None \<Rightarrow> (None, c))
       else (None, c)))"

definition rx_total :: "bytes \<Rightarrow> nat" where
  "rx_total buf = unat (u32_of_le (take 4 buf))"

definition rx_tag :: "bytes \<Rightarrow> u32" where
  "rx_tag buf = u32_of_le (take 4 (drop 12 buf))"

definition rx_payload :: "bytes \<Rightarrow> bytes" where
  "rx_payload buf = take (rx_total buf - HEADER_LEN) (drop HEADER_LEN buf)"

text \<open>The receive buffer starts with a complete frame.\<close>

definition rx_ready :: "bytes \<Rightarrow> bool" where
  "rx_ready buf \<longleftrightarrow> HEADER_LEN \<le> length buf \<and> HEADER_LEN \<le> rx_total buf \<and> rx_total buf \<le> length buf"

definition rx_step :: "(bytes \<Rightarrow> pvalue option) \<Rightarrow> codec \<Rightarrow> codec" where
  "rx_step parse c =
    (let total = rx_total (rx c);
         tag = rx_tag (rx c);
         payload = rx_payload (rx c);
         c1 = c\<lparr>rx := drop total (rx c)\<rparr>
     in case decode_frame parse tag payload c1 of
          (Some ev, c2) \<Rightarrow> c2\<lparr>events := events c2 @ [ev]\<rparr>
        | (None, c2) \<Rightarrow> c2)"

lemma decode_frame_frame:
  "rx (snd (decode_frame parse tag p c)) = rx c"
  "tx (snd (decode_frame parse tag p c)) = tx c"
  "events (snd (decode_frame parse tag p c)) = events c"
  "next_tag (snd (decode_frame parse tag p c)) = next_tag c"
  by (simp_all add: decode_frame_def Let_def split: option.splits)

lemma rx_step_rx [simp]: "rx (rx_step parse c) = drop (rx_total (rx c)) (rx c)"
proof -
  define p where "p = rx_payload (rx c)"
  define c1 where "c1 = c\<lparr>rx := drop (rx_total (rx c)) (rx c)\<rparr>"
  obtain ev c2 where d: "decode_frame parse (rx_tag (rx c)) p c1 = (ev, c2)" by fastforce
  then have "rx c2 = rx c1" using decode_frame_frame(1) by (metis snd_conv)
  then show ?thesis using d
    by (simp add: rx_step_def Let_def p_def [symmetric] c1_def [symmetric] split: option.splits)
       (simp_all add: c1_def)
qed

function process_rx :: "(bytes \<Rightarrow> pvalue option) \<Rightarrow> codec \<Rightarrow> codec" where
  "process_rx parse c = (if rx_ready (rx c) then process_rx parse (rx_step parse c) else c)"
  by pat_completeness auto
termination
  by (relation "measure (\<lambda>(parse, c). length (rx c))") (auto simp: rx_ready_def HEADER_LEN_def)

declare process_rx.simps [simp del]

definition push_data :: "(bytes \<Rightarrow> pvalue option) \<Rightarrow> bytes \<Rightarrow> codec \<Rightarrow> codec" where
  "push_data parse data c = process_rx parse (c\<lparr>rx := rx c @ data\<rparr>)"

definition poll_write :: "codec \<Rightarrow> bytes option \<times> codec" where
  "poll_write c = (case tx c of [] \<Rightarrow> (None, c) | f # fs \<Rightarrow> (Some f, c\<lparr>tx := fs\<rparr>))"

definition poll_event :: "codec \<Rightarrow> event option \<times> codec" where
  "poll_event c = (case events c of [] \<Rightarrow> (None, c) | e # es \<Rightarrow> (Some e, c\<lparr>events := es\<rparr>))"

section \<open>Tags\<close>

interpretation tags: cyclic_alloc "\<lambda>x :: u32. max (x + 1) 1" 1
  using wrap_next_alloc [of "1 :: u32"] by (simp add: wrap_next_def [abs_def])

text \<open>The tags handed out by a run of requests, and the codec after it.\<close>

fun send_all :: "(pvalue \<Rightarrow> bytes) \<Rightarrow> request list \<Rightarrow> codec \<Rightarrow> u32 list \<times> codec" where
  "send_all xml [] c = ([], c)"
| "send_all xml (r # rs) c =
    (let (t, c1) = send_request xml r c; (ts, c2) = send_all xml rs c1 in (t # ts, c2))"

lemma send_all_tags:
  "fst (send_all xml rs c) = alloc_seq (\<lambda>x. max (x + 1) 1) (length rs) (next_tag c)"
proof (induction rs arbitrary: c)
  case Nil
  then show ?case by simp
next
  case (Cons r rs)
  obtain c1 where "send_request xml r c = (next_tag c, c1)"
    and "next_tag c1 = max (next_tag c + 1) 1"
    by (simp add: send_request_def alloc_tag_def enqueue_frame_def)
  moreover obtain ts c2 where "send_all xml rs c1 = (ts, c2)" by fastforce
  ultimately show ?case using Cons.IH [of c1] by simp
qed

lemma send_all_tx:
  "tx (snd (send_all xml rs c)) =
    tx c @ map2 (\<lambda>t r. frame_bytes t (encode xml r)) (fst (send_all xml rs c)) rs"
proof (induction rs arbitrary: c)
  case Nil
  then show ?case by simp
next
  case (Cons r rs)
  define c1 where "c1 = snd (send_request xml r c)"
  have sr: "send_request xml r c = (next_tag c, c1)"
    and tx1: "tx c1 = tx c @ [frame_bytes (next_tag c) (encode xml r)]"
    by (simp_all add: c1_def send_request_def alloc_tag_def enqueue_frame_def)
  obtain ts c2 where sa: "send_all xml rs c1 = (ts, c2)" by fastforce
  with Cons.IH [of c1] tx1 show ?case by (simp add: sr)
qed

section \<open>Decoding\<close>

lemma rx_total_append: "4 \<le> length xs \<Longrightarrow> rx_total (xs @ ys) = rx_total xs"
  by (simp add: rx_total_def)

lemma rx_ready_append: "rx_ready xs \<Longrightarrow> rx_ready (xs @ ys)"
  by (auto simp: rx_ready_def rx_total_append HEADER_LEN_def)

lemma decode_frame_rx_update:
  "decode_frame parse tag p (c\<lparr>rx := r\<rparr>) =
    (case decode_frame parse tag p c of (ev, c') \<Rightarrow> (ev, c'\<lparr>rx := r\<rparr>))"
  by (auto simp: decode_frame_def Let_def split: option.splits prod.splits)

lemma decode_frame_events_update:
  "decode_frame parse tag p (c\<lparr>events := es\<rparr>) =
    (case decode_frame parse tag p c of (ev, c') \<Rightarrow> (ev, c'\<lparr>events := es\<rparr>))"
  by (auto simp: decode_frame_def Let_def split: option.splits prod.splits)

lemma rx_step_append:
  assumes "rx_ready (rx c)"
  shows "rx_step parse (c\<lparr>rx := rx c @ ys\<rparr>) =
    (rx_step parse c)\<lparr>rx := rx (rx_step parse c) @ ys\<rparr>"
proof -
  have l: "16 \<le> length (rx c)" "rx_total (rx c) \<le> length (rx c)"
    using assms by (auto simp: rx_ready_def HEADER_LEN_def)
  have e: "rx_total (rx c @ ys) = rx_total (rx c)" "rx_tag (rx c @ ys) = rx_tag (rx c)"
    using l by (simp_all add: rx_total_append rx_tag_def)
  have p: "rx_payload (rx c @ ys) = rx_payload (rx c)"
    using l by (simp add: rx_payload_def e HEADER_LEN_def)
  have d: "drop (rx_total (rx c)) (rx c @ ys) = drop (rx_total (rx c)) (rx c) @ ys"
    using l by simp
  obtain ev c' where "decode_frame parse (rx_tag (rx c)) (rx_payload (rx c)) c = (ev, c')"
    by fastforce
  then show ?thesis
    by (cases ev) (simp_all add: rx_step_def Let_def decode_frame_rx_update e p d del: drop_append)
qed

lemma process_rx_append:
  "process_rx parse ((process_rx parse c)\<lparr>rx := rx (process_rx parse c) @ ys\<rparr>) =
    process_rx parse (c\<lparr>rx := rx c @ ys\<rparr>)"
proof (induction parse c rule: process_rx.induct)
  case (1 parse c)
  show ?case
  proof (cases "rx_ready (rx c)")
    case True
    let ?c = "c\<lparr>rx := rx c @ ys\<rparr>"
    have "process_rx parse ?c = process_rx parse (rx_step parse ?c)"
      using True by (subst process_rx.simps) (simp add: rx_ready_append)
    also have "\<dots> = process_rx parse ((rx_step parse c)\<lparr>rx := rx (rx_step parse c) @ ys\<rparr>)"
      by (simp only: rx_step_append [OF True])
    finally show ?thesis
      using "1.IH" [OF True] True by (simp add: process_rx.simps [of parse c])
  next
    case False
    then show ?thesis by (simp add: process_rx.simps [of parse c])
  qed
qed

lemma push_data_split:
  "push_data parse ys (push_data parse xs c) = push_data parse (xs @ ys) c"
  by (simp add: push_data_def process_rx_append)

text \<open>What a complete frame does to a codec whose buffer is empty.\<close>

definition deliver :: "(bytes \<Rightarrow> pvalue option) \<Rightarrow> u32 \<times> bytes \<Rightarrow> codec \<Rightarrow> codec" where
  "deliver parse f c = (case decode_frame parse (fst f) (snd f) c of
     (Some ev, c') \<Rightarrow> c'\<lparr>events := events c' @ [ev]\<rparr>
   | (None, c') \<Rightarrow> c')"

definition small_frame :: "u32 \<times> bytes \<Rightarrow> bool" where
  "small_frame f \<longleftrightarrow> HEADER_LEN + length (snd f) < 2 ^ 32"

lemma frame_bytes_header:
  assumes "small_frame (tag, body)"
  shows "rx_total (frame_bytes tag body @ rest) = HEADER_LEN + length body"
    and "rx_tag (frame_bytes tag body @ rest) = tag"
    and "drop HEADER_LEN (frame_bytes tag body @ rest) = body @ rest"
    and "length (frame_bytes tag body) = HEADER_LEN + length body"
proof -
  have u: "unat (word_of_nat (HEADER_LEN + length body) :: u32) = HEADER_LEN + length body"
    by (rule unat_word_of_nat_less) (use assms in \<open>simp add: small_frame_def\<close>)
  then show "rx_total (frame_bytes tag body @ rest) = HEADER_LEN + length body"
    by (simp add: rx_total_def frame_bytes_def del: of_nat_add)
  show "rx_tag (frame_bytes tag body @ rest) = tag"
    by (simp add: rx_tag_def frame_bytes_def)
  show "drop HEADER_LEN (frame_bytes tag body @ rest) = body @ rest"
    and "length (frame_bytes tag body) = HEADER_LEN + length body"
    by (simp_all add: frame_bytes_def HEADER_LEN_def)
qed

lemma process_rx_frame:
  assumes "small_frame (tag, body)" and "rx c = frame_bytes tag body @ rest"
  shows "process_rx parse c = process_rx parse (deliver parse (tag, body) (c\<lparr>rx := rest\<rparr>))"
proof -
  note h = frame_bytes_header(1-3) [OF assms(1), of rest, folded assms(2)]
    frame_bytes_header(4) [OF assms(1)]
  have len: "length (rx c) = HEADER_LEN + length body + length rest"
    using assms(2) h(4) by simp
  then have rdy: "rx_ready (rx c)" using h(1) by (simp add: rx_ready_def)
  have "drop (HEADER_LEN + length body) (rx c) = rest"
    using h(3) by (metis drop_drop add.commute append_eq_conv_conj)
  moreover have "rx_payload (rx c) = body"
    using h by (simp add: rx_payload_def)
  ultimately have "rx_step parse c = deliver parse (tag, body) (c\<lparr>rx := rest\<rparr>)"
    using h by (simp add: rx_step_def deliver_def Let_def)
  then show ?thesis using rdy by (simp add: process_rx.simps [of parse c])
qed

lemma deliver_rx [simp]: "rx (deliver parse f c) = rx c"
  using decode_frame_frame(1) [of parse "fst f" "snd f" c]
  by (auto simp: deliver_def split: prod.splits option.splits)

lemma deliver_rx_update: "deliver parse f (c\<lparr>rx := r\<rparr>) = (deliver parse f c)\<lparr>rx := r\<rparr>"
  by (auto simp: deliver_def decode_frame_rx_update split: prod.splits option.splits)

lemma not_ready_Nil [simp]: "\<not> rx_ready []"
  by (simp add: rx_ready_def HEADER_LEN_def)

lemma push_frames:
  assumes "list_all small_frame fs" and "rx c = []"
  shows "push_data parse (concat (map (\<lambda>(t, b). frame_bytes t b) fs)) c = fold (deliver parse) fs c"
  using assms
proof (induction fs arbitrary: c)
  case Nil
  then show ?case
    by (simp add: push_data_def process_rx.simps [of parse c]) (simp add: process_rx.simps)
next
  case (Cons f fs)
  obtain t b where f: "f = (t, b)" by (cases f)
  let ?rest = "concat (map (\<lambda>(t, b). frame_bytes t b) fs)"
  let ?d = "deliver parse (t, b) c"
  have "push_data parse (frame_bytes t b @ ?rest) c =
      process_rx parse (deliver parse (t, b) (c\<lparr>rx := ?rest\<rparr>))"
    using process_rx_frame [of t b "c\<lparr>rx := frame_bytes t b @ ?rest\<rparr>" ?rest parse] Cons.prems f
    by (simp add: push_data_def)
  also have "deliver parse (t, b) (c\<lparr>rx := ?rest\<rparr>) = ?d\<lparr>rx := rx ?d @ ?rest\<rparr>"
    using Cons.prems by (simp add: deliver_rx_update)
  also have "process_rx parse \<dots> = push_data parse ?rest ?d"
    by (simp add: push_data_def)
  finally show ?case using Cons f by simp
qed

text \<open>A header whose length field is below the header size is never consumed.\<close>

lemma bad_length_wedges:
  assumes "4 \<le> length (rx c)" and "rx_total (rx c) < HEADER_LEN"
  shows "push_data parse data c = c\<lparr>rx := rx c @ data\<rparr>"
proof -
  have "\<not> rx_ready (rx c @ data)"
    using assms by (simp add: rx_ready_def rx_total_append)
  then show ?thesis by (simp add: push_data_def process_rx.simps)
qed

end
