(* ===== verification/UsbmuxConn.thy ===== *)
theory UsbmuxConn
  imports UsbmuxCodec
begin

text \<open>
  The blocking usbmux client of \<open>src/src/usbmux/connection.rs\<close> (and the errors of
  \<open>error.rs\<close>): a socket and a codec. Every operation queues one request, flushes the outgoing
  frames and waits for an event. The loops are total because the peer's script is finite; the
  refinement theorem says that waiting for an event is taking the first matching element of
  the sequence of events that the whole byte stream decodes to, whatever the sizes in which
  the socket delivers it.
\<close>

datatype usb_error =
    UIo io_kind | UProto | UConnectFailed ResultCode | UClosed | URequestFailed ResultCode
  | UConnectionClosed | UPlist

record connection =
  conn_socket :: sock
  conn_codec :: codec

definition from_stream :: "sock \<Rightarrow> connection" where
  "from_stream s = \<lparr>conn_socket = s, conn_codec = codec_new\<rparr>"

function flush_conn :: "(connection, usb_error, unit) prog" where
  "flush_conn c = (case poll_write (conn_codec c) of
     (None, k) \<Rightarrow> (Ok (), c)
   | (Some f, k) \<Rightarrow> (case write_all f (conn_socket c) of
       (Ok _, s) \<Rightarrow> flush_conn (c\<lparr>conn_socket := s, conn_codec := k\<rparr>)
     | (Err e, s) \<Rightarrow> (Err (UIo e), c\<lparr>conn_socket := s, conn_codec := k\<rparr>)
     | (Panic, s) \<Rightarrow> (Panic, c\<lparr>conn_socket := s, conn_codec := k\<rparr>)))"
  by pat_completeness auto
termination
  by (relation "measure (\<lambda>c. length (tx (conn_codec c)))")
    (auto simp: poll_write_def split: list.splits)

declare flush_conn.simps [simp del]

function next_event :: "(bytes \<Rightarrow> pvalue option) \<Rightarrow> (connection, usb_error, event) prog" where
  "next_event parse c = (case poll_event (conn_codec c) of
     (Some ev, k) \<Rightarrow> (Ok ev, c\<lparr>conn_codec := k\<rparr>)
   | (None, _) \<Rightarrow> (case read_some 4096 (inp (conn_socket c)) of
       (Inl e, i) \<Rightarrow> (Err (UIo e), c\<lparr>conn_socket := (conn_socket c)\<lparr>inp := i\<rparr>\<rparr>)
     | (Inr [], i) \<Rightarrow> (Err UConnectionClosed, c\<lparr>conn_socket := (conn_socket c)\<lparr>inp := i\<rparr>\<rparr>)
     | (Inr (b # bs), i) \<Rightarrow>
         next_event parse (c\<lparr>conn_socket := (conn_socket c)\<lparr>inp := i\<rparr>,
                             conn_codec := push_data parse (b # bs) (conn_codec c)\<rparr>)))"
  by pat_completeness auto
termination
  by (relation "measure (\<lambda>(parse, c). weight (inp (conn_socket c)))")
    (auto dest!: sym [of _ "read_some _ _"] read_some_weight)

declare next_event.simps [simp del]

text \<open>Decoding turns at least sixteen bytes into at most one event.\<close>

lemma rx_step_events:
  "events (rx_step parse c) = events c \<or> (\<exists>e. events (rx_step parse c) = events c @ [e])"
  using decode_frame_frame(3) [of parse "rx_tag (rx c)" "rx_payload (rx c)"
      "c\<lparr>rx := drop (rx_total (rx c)) (rx c)\<rparr>"]
  by (auto simp: rx_step_def Let_def split: prod.splits option.splits)

lemma process_rx_size:
  "length (rx (process_rx parse c)) + length (events (process_rx parse c)) \<le>
    length (rx c) + length (events c)"
proof (induction parse c rule: process_rx.induct)
  case (1 parse c)
  show ?case
  proof (cases "rx_ready (rx c)")
    case True
    have "length (events (rx_step parse c)) \<le> Suc (length (events c))"
      using rx_step_events [of parse c] by auto
    moreover have "length (rx (rx_step parse c)) + 16 \<le> length (rx c)"
      using True by (auto simp: rx_ready_def HEADER_LEN_def)
    ultimately show ?thesis using "1.IH" [OF True] True
      by (simp add: process_rx.simps [of parse c])
  qed (simp add: process_rx.simps)
qed

definition conn_size :: "connection \<Rightarrow> nat" where
  "conn_size c = weight (inp (conn_socket c)) + length (rx (conn_codec c)) +
    length (events (conn_codec c))"

lemma next_event_size: "next_event parse c = (Ok ev, c') \<Longrightarrow> conn_size c' < conn_size c"
proof (induction parse c rule: next_event.induct)
  case (1 parse c)
  show ?case
  proof (cases "events (conn_codec c)")
    case (Cons e es)
    then show ?thesis using "1.prems"
      by (auto simp: next_event.simps [of parse c] poll_event_def conn_size_def)
  next
    case Nil
    then have p: "poll_event (conn_codec c) = (None, conn_codec c)" by (simp add: poll_event_def)
    with "1.prems" obtain b bs i where r: "read_some 4096 (inp (conn_socket c)) = (Inr (b # bs), i)"
      by (auto simp: next_event.simps [of parse c] split: sum.splits list.splits prod.splits)
    let ?k = "push_data parse (b # bs) (conn_codec c)"
    let ?c = "c\<lparr>conn_socket := (conn_socket c)\<lparr>inp := i\<rparr>, conn_codec := ?k\<rparr>"
    have "next_event parse ?c = (Ok ev, c')"
      using "1.prems" p r by (simp add: next_event.simps [of parse c])
    then have "conn_size c' < conn_size ?c"
      using "1.IH" [OF p [symmetric] refl r [symmetric] refl refl] by simp
    moreover have "conn_size ?c \<le> conn_size c"
      using read_some_weight [OF r] process_rx_size [of parse "(conn_codec c)\<lparr>rx := rx (conn_codec c) @ b # bs\<rparr>"]
      by (simp add: conn_size_def push_data_def)
    ultimately show ?thesis by simp
  qed
qed

text \<open>
  \<open>loop { match self.next_event()? { .. => return .., _ => continue } }\<close>: \<open>sel\<close> is the match,
  \<open>None\<close> for the arms that continue.
\<close>

function event_loop :: "(event \<Rightarrow> (usb_error, 'a) outcome option) \<Rightarrow> (bytes \<Rightarrow> pvalue option) \<Rightarrow>
    (connection, usb_error, 'a) prog" where
  "event_loop sel parse c = (case next_event parse c of
     (Ok ev, c') \<Rightarrow> (case sel ev of Some r \<Rightarrow> (r, c') | None \<Rightarrow> event_loop sel parse c')
   | (Err e, c') \<Rightarrow> (Err e, c')
   | (Panic, c') \<Rightarrow> (Panic, c'))"
  by pat_completeness auto
termination
  by (relation "measure (\<lambda>(sel, parse, c). conn_size c)")
    (auto dest!: sym [of _ "next_event _ _"] next_event_size)

declare event_loop.simps [simp del]

text \<open>Queue a request and flush it.\<close>

definition start :: "(codec \<Rightarrow> u32 \<times> codec) \<Rightarrow> (connection, usb_error, u32) prog" where
  "start req c = (let (tag, k) = req (conn_codec c) in
     bnd flush_conn (\<lambda>_. ret tag) (c\<lparr>conn_codec := k\<rparr>))"

fun sel_devices :: "u32 \<Rightarrow> event \<Rightarrow> (usb_error, Device list) outcome option" where
  "sel_devices tag (DeviceList ds) = Some (Ok ds)"
| "sel_devices tag (RequestFailed t _) =
    (if t = tag then Some (Err (URequestFailed BadDevice)) else None)"
| "sel_devices tag _ = None"

definition conn_list_devices ::
  "(pvalue \<Rightarrow> bytes) \<Rightarrow> (bytes \<Rightarrow> pvalue option) \<Rightarrow> (connection, usb_error, Device list) prog" where
  "conn_list_devices xml parse =
    bnd (start (list_devices xml)) (\<lambda>tag. event_loop (sel_devices tag) parse)"

fun sel_buid :: "event \<Rightarrow> (usb_error, string) outcome option" where
  "sel_buid (Buid b) = Some (Ok b)"
| "sel_buid _ = None"

definition conn_read_buid ::
  "(pvalue \<Rightarrow> bytes) \<Rightarrow> (bytes \<Rightarrow> pvalue option) \<Rightarrow> (connection, usb_error, string) prog" where
  "conn_read_buid xml parse = bnd (start (read_buid xml)) (\<lambda>_. event_loop sel_buid parse)"

fun sel_pair_record :: "event \<Rightarrow> (usb_error, bytes) outcome option" where
  "sel_pair_record (PairRecordEv _ r) = Some (Ok r)"
| "sel_pair_record _ = None"

definition conn_read_pair_record ::
  "(pvalue \<Rightarrow> bytes) \<Rightarrow> (bytes \<Rightarrow> pvalue option) \<Rightarrow> string \<Rightarrow> (connection, usb_error, bytes) prog" where
  "conn_read_pair_record xml parse udid =
    bnd (start (read_pair_record xml udid)) (\<lambda>_. event_loop sel_pair_record parse)"

fun ack_outcome :: "event \<Rightarrow> (usb_error, unit) outcome" where
  "ack_outcome (RequestFailed _ _) = Err (URequestFailed BadDevice)"
| "ack_outcome _ = Ok ()"

definition conn_delete_pair_record ::
  "(pvalue \<Rightarrow> bytes) \<Rightarrow> (bytes \<Rightarrow> pvalue option) \<Rightarrow> string \<Rightarrow> (connection, usb_error, unit) prog" where
  "conn_delete_pair_record xml parse udid =
    bnd (start (delete_pair_record xml udid))
      (\<lambda>_. bnd (next_event parse) (\<lambda>ev. lift_o (ack_outcome ev)))"

definition conn_save_pair_record ::
  "(pvalue \<Rightarrow> bytes) \<Rightarrow> (bytes \<Rightarrow> pvalue option) \<Rightarrow> string \<Rightarrow> bytes \<Rightarrow>
    (connection, usb_error, unit) prog" where
  "conn_save_pair_record xml parse udid record =
    bnd (start (save_pair_record xml udid record))
      (\<lambda>_. bnd (next_event parse) (\<lambda>ev. lift_o (ack_outcome ev)))"

fun sel_tunnel :: "u32 \<Rightarrow> event \<Rightarrow> (usb_error, unit) outcome option" where
  "sel_tunnel tag (Connected t) = (if t = tag then Some (Ok ()) else None)"
| "sel_tunnel tag (RequestFailed _ code) = Some (Err (URequestFailed code))"
| "sel_tunnel tag _ = None"

text \<open>On success the caller takes over \<open>conn_socket\<close> of the final state.\<close>

definition open_tunnel ::
  "(pvalue \<Rightarrow> bytes) \<Rightarrow> (bytes \<Rightarrow> pvalue option) \<Rightarrow> u32 \<Rightarrow> u16 \<Rightarrow> (connection, usb_error, unit) prog" where
  "open_tunnel xml parse device_id port =
    bnd (start (connect xml device_id port)) (\<lambda>tag. event_loop (sel_tunnel tag) parse)"

definition conn_listen :: "(pvalue \<Rightarrow> bytes) \<Rightarrow> (connection, usb_error, unit) prog" where
  "conn_listen xml = bnd (start (listen xml)) (\<lambda>_. ret ())"

fun sel_listener :: "event \<Rightarrow> (usb_error, event) outcome option" where
  "sel_listener (DeviceAttached d) = Some (Ok (DeviceAttached d))"
| "sel_listener (DeviceDetached i) = Some (Ok (DeviceDetached i))"
| "sel_listener (RequestFailed _ code) = Some (Err (URequestFailed code))"
| "sel_listener _ = None"

definition listener_next :: "(bytes \<Rightarrow> pvalue option) \<Rightarrow> (connection, usb_error, event) prog" where
  "listener_next parse = event_loop sel_listener parse"

section \<open>Waiting for events as a search of the decoded stream\<close>

lemma rx_step_events_update:
  "rx_step parse (c\<lparr>events := es @ events c\<rparr>) =
    (rx_step parse c)\<lparr>events := es @ events (rx_step parse c)\<rparr>"
proof -
  let ?d = "c\<lparr>rx := drop (rx_total (rx c)) (rx c)\<rparr>"
  obtain ev c' where d: "decode_frame parse (rx_tag (rx c)) (rx_payload (rx c)) ?d = (ev, c')"
    by fastforce
  have u: "c\<lparr>events := es @ events c, rx := drop (rx_total (rx c)) (rx c)\<rparr> =
      ?d\<lparr>events := es @ events c\<rparr>" by simp
  have "events c' = events c" using decode_frame_frame(3) d by (metis snd_conv codec.select_convs(3) codec.surjective codec.update_convs(1))
  then show ?thesis using d
    by (cases ev) (simp_all add: rx_step_def Let_def u decode_frame_events_update)
qed

lemma process_rx_events_update:
  "process_rx parse (c\<lparr>events := es @ events c\<rparr>) =
    (process_rx parse c)\<lparr>events := es @ events (process_rx parse c)\<rparr>"
proof (induction parse c rule: process_rx.induct)
  case (1 parse c)
  show ?case
  proof (cases "rx_ready (rx c)")
    case True
    then have "process_rx parse (c\<lparr>events := es @ events c\<rparr>) =
        process_rx parse (rx_step parse (c\<lparr>events := es @ events c\<rparr>))"
      by (subst process_rx.simps) simp
    also have "\<dots> = (process_rx parse (rx_step parse c))
        \<lparr>events := es @ events (process_rx parse (rx_step parse c))\<rparr>"
      by (simp only: rx_step_events_update "1.IH" [OF True])
    finally show ?thesis using True by (simp add: process_rx.simps [of parse c])
  qed (simp add: process_rx.simps)
qed

lemma process_rx_not_ready: "\<not> rx_ready (rx (process_rx parse c))"
  by (induction parse c rule: process_rx.induct) (subst process_rx.simps, simp)

text \<open>The events still to come: the queued ones and those in the undelivered bytes.\<close>

definition pending :: "(bytes \<Rightarrow> pvalue option) \<Rightarrow> connection \<Rightarrow> event list" where
  "pending parse c = events (push_data parse (avail (inp (conn_socket c))) (conn_codec c))"

fun end_error :: "script \<Rightarrow> usb_error" where
  "end_error (Fail k # r) = UIo k"
| "end_error _ = UConnectionClosed"

abbreviation conn_idle :: "connection \<Rightarrow> bool" where
  "conn_idle c \<equiv> \<not> rx_ready (rx (conn_codec c))"

lemma push_data_Nil: "\<not> rx_ready (rx k) \<Longrightarrow> push_data parse [] k = k"
  by (simp add: push_data_def process_rx.simps)

lemma push_data_pop:
  assumes "events k = e # es"
  shows "push_data parse xs k =
    (push_data parse xs (k\<lparr>events := es\<rparr>))\<lparr>events := e # events (push_data parse xs (k\<lparr>events := es\<rparr>))\<rparr>"
proof -
  let ?k = "k\<lparr>events := es, rx := rx k @ xs\<rparr>"
  have "k\<lparr>rx := rx k @ xs\<rparr> = ?k\<lparr>events := [e] @ events ?k\<rparr>" using assms by (cases k) simp
  then show ?thesis using process_rx_events_update [where c = ?k and es = "[e]" and parse = parse]
    by (simp add: push_data_def)
qed

text \<open>How one state of the connection relates to the one after an event was taken.\<close>

definition same_peer :: "connection \<Rightarrow> connection \<Rightarrow> bool" where
  "same_peer c c' \<longleftrightarrow> after (inp (conn_socket c')) = after (inp (conn_socket c)) \<and>
    outp (conn_socket c') = outp (conn_socket c) \<and> room (conn_socket c') = room (conn_socket c)"

lemma same_peer_trans: "same_peer a b \<Longrightarrow> same_peer b c \<Longrightarrow> same_peer a c"
  by (simp add: same_peer_def)

lemma next_event_queued:
  assumes "events (conn_codec c) = e # es"
  shows "next_event parse c = (Ok e, c\<lparr>conn_codec := (conn_codec c)\<lparr>events := es\<rparr>\<rparr>)"
    and "pending parse c = e # pending parse (c\<lparr>conn_codec := (conn_codec c)\<lparr>events := es\<rparr>\<rparr>)"
proof -
  show "next_event parse c = (Ok e, c\<lparr>conn_codec := (conn_codec c)\<lparr>events := es\<rparr>\<rparr>)"
    using assms by (simp add: next_event.simps poll_event_def)
  show "pending parse c = e # pending parse (c\<lparr>conn_codec := (conn_codec c)\<lparr>events := es\<rparr>\<rparr>)"
    using push_data_pop [OF assms, of parse "avail (inp (conn_socket c))"]
    by (metis (no_types, lifting) pending_def codec.select_convs(3) codec.surjective
        codec.update_convs(3) connection.select_convs(1,2) connection.surjective
        connection.update_convs(2))
qed

lemma next_event_spec:
  assumes "conn_idle c"
  shows "case pending parse c of
      [] \<Rightarrow> fst (next_event parse c) = Err (end_error (after (inp (conn_socket c))))
    | e # es \<Rightarrow> \<exists>c'. next_event parse c = (Ok e, c') \<and> pending parse c' = es \<and>
        conn_idle c' \<and> same_peer c c'"
  using assms
proof (induction parse c rule: next_event.induct)
  case (1 parse c)
  let ?i = "inp (conn_socket c)"
  show ?case
  proof (cases "events (conn_codec c)")
    case (Cons e es)
    then show ?thesis using next_event_queued [OF Cons, of parse] "1.prems"
      by (simp add: same_peer_def)
  next
    case Nil
    then have p: "poll_event (conn_codec c) = (None, conn_codec c)" by (simp add: poll_event_def)
    show ?thesis
    proof (cases "avail ?i = []")
      case True
      have "pending parse c = []"
        using True Nil "1.prems" by (simp add: pending_def push_data_Nil)
      then show ?thesis using p read_some_end [OF True, of 4096]
        by (auto simp: next_event.simps [of parse c] split: list.splits rd_event.splits)
    next
      case False
      then obtain b bs i where r: "read_some 4096 ?i = (Inr (b # bs), i)"
        "avail ?i = (b # bs) @ avail i" "after i = after ?i"
        using read_some_data [of 4096 ?i] by (metis list.exhaust zero_less_numeral)
      let ?c = "c\<lparr>conn_socket := (conn_socket c)\<lparr>inp := i\<rparr>,
                  conn_codec := push_data parse (b # bs) (conn_codec c)\<rparr>"
      have ne: "next_event parse c = next_event parse ?c"
        using p r(1) by (simp add: next_event.simps [of parse c])
      have pe: "pending parse ?c = pending parse c"
        using r(2) by (simp add: pending_def push_data_split)
      have idle: "conn_idle ?c" by (simp add: push_data_def process_rx_not_ready)
      have "same_peer c ?c" using r(3) by (simp add: same_peer_def)
      then show ?thesis
        using "1.IH" [OF p [symmetric] refl r(1) [symmetric] refl refl idle] ne pe r(3)
        by (auto split: list.splits intro: same_peer_trans)
    qed
  qed
qed

lemma event_loop_spec:
  assumes "conn_idle c"
  shows "fst (event_loop sel parse c) =
    (case find (\<lambda>e. sel e \<noteq> None) (pending parse c) of
       Some e \<Rightarrow> the (sel e)
     | None \<Rightarrow> Err (end_error (after (inp (conn_socket c)))))"
  using assms
proof (induction "pending parse c" arbitrary: c)
  case Nil
  with next_event_spec [of c parse] have "fst (next_event parse c) =
      Err (end_error (after (inp (conn_socket c))))" by simp
  with Nil.hyps [symmetric] show ?case
    by (cases "next_event parse c") (simp add: event_loop.simps [of sel parse c])
next
  case (Cons e es)
  then have pe: "pending parse c = e # es" by simp
  obtain c' where c': "next_event parse c = (Ok e, c')"
    "pending parse c' = es" "conn_idle c'" "same_peer c c'"
    using next_event_spec [OF Cons.prems, of parse] unfolding pe list.case by blast
  have af: "after (inp (conn_socket c')) = after (inp (conn_socket c))"
    using c'(4) by (simp add: same_peer_def)
  have step: "event_loop sel parse c =
      (case sel e of Some r \<Rightarrow> (r, c') | None \<Rightarrow> event_loop sel parse c')"
    by (subst event_loop.simps) (simp add: c'(1))
  have IH: "fst (event_loop sel parse c') =
      (case find (\<lambda>e. sel e \<noteq> None) es of Some e \<Rightarrow> the (sel e)
       | None \<Rightarrow> Err (end_error (after (inp (conn_socket c)))))"
    using Cons.hyps(1) [OF c'(2) [symmetric] c'(3)] by (simp only: c'(2) af)
  show ?case
    unfolding pe step by (cases "sel e") (simp_all add: IH)
qed

section \<open>Sending\<close>

lemma flush_conn_unlimited:
  assumes "room (conn_socket c) = None"
  shows "flush_conn c = (Ok (), c\<lparr>conn_socket := (conn_socket c)
      \<lparr>outp := outp (conn_socket c) @ concat (tx (conn_codec c))\<rparr>,
      conn_codec := (conn_codec c)\<lparr>tx := []\<rparr>\<rparr>)"
  using assms
proof (induction "tx (conn_codec c)" arbitrary: c)
  case Nil
  then show ?case by (simp add: flush_conn.simps [of c] poll_write_def)
next
  case (Cons f fs)
  let ?c = "c\<lparr>conn_socket := (conn_socket c)\<lparr>outp := outp (conn_socket c) @ f\<rparr>,
             conn_codec := (conn_codec c)\<lparr>tx := fs\<rparr>\<rparr>"
  have "flush_conn c = flush_conn ?c"
    using Cons.prems Cons.hyps(2) [symmetric]
    by (simp add: flush_conn.simps [of c] poll_write_def)
  with Cons.hyps(1) [of ?c] Cons.prems Cons.hyps(2) [symmetric] show ?case by simp
qed

text \<open>The state of a connection after a request was queued and flushed.\<close>

definition started :: "(codec \<Rightarrow> u32 \<times> codec) \<Rightarrow> connection \<Rightarrow> connection" where
  "started req c = c\<lparr>conn_socket := (conn_socket c)
      \<lparr>outp := outp (conn_socket c) @ concat (tx (snd (req (conn_codec c))))\<rparr>,
      conn_codec := (snd (req (conn_codec c)))\<lparr>tx := []\<rparr>\<rparr>"

lemma start_unlimited:
  "room (conn_socket c) = None \<Longrightarrow> start req c = (Ok (fst (req (conn_codec c))), started req c)"
  by (simp add: start_def started_def flush_conn_unlimited split: prod.splits)

lemma send_request_frame:
  "rx (snd (send_request xml r k)) = rx k" "events (snd (send_request xml r k)) = events k"
  "fst (send_request xml r k) = next_tag k"
  "tx (snd (send_request xml r k)) = tx k @ [frame_bytes (next_tag k) (encode xml r)]"
  "pending_connects (snd (send_request xml r k)) = pending_connects k"
  by (simp_all add: send_request_def alloc_tag_def enqueue_frame_def)

lemma connect_frame:
  "rx (snd (connect xml d p k)) = rx k" "events (snd (connect xml d p k)) = events k"
  "fst (connect xml d p k) = next_tag k"
  "tx (snd (connect xml d p k)) =
    tx k @ [frame_bytes (next_tag k) (encode xml (ConnectRequest d (u16_swap p)))]"
  "pending_connects (snd (connect xml d p k)) = pending_connects k @ [next_tag k]"
  by (simp_all add: connect_def alloc_tag_def enqueue_frame_def)

end
