(* ===== verification/UsbmuxSim.thy ===== *)
theory UsbmuxSim
  imports UsbmuxConn
begin

text \<open>
  The usbmux simulator used by the integration tests: \<open>src/src/usbmux/sim/framing.rs\<close>,
  \<open>handler.rs\<close> and the device type of \<open>server.rs\<close>. A client connection is a socket; a handler
  consumes request frames from it and writes responses. A service handler is a function on
  the socket, a parameter the test supplies. The last part composes the simulator with the
  client of \<open>UsbmuxConn\<close>.
\<close>

section \<open>Devices\<close>

record SimDevice =
  sim_serial :: string
  sim_connection_type :: string
  sim_product_id :: u16
  sim_services :: "(u16 \<times> (sock \<Rightarrow> sock)) list"

definition sim_usb :: "string \<Rightarrow> SimDevice" where
  "sim_usb serial = \<lparr>sim_serial = serial, sim_connection_type = ''USB'',
    sim_product_id = 0x12a8, sim_services = []\<rparr>"

definition sim_network :: "string \<Rightarrow> SimDevice" where
  "sim_network serial = \<lparr>sim_serial = serial, sim_connection_type = ''Network'',
    sim_product_id = 0x12a8, sim_services = []\<rparr>"

definition with_service :: "u16 \<Rightarrow> (sock \<Rightarrow> sock) \<Rightarrow> SimDevice \<Rightarrow> SimDevice" where
  "with_service port f d = d\<lparr>sim_services := sim_services d @ [(port, f)]\<rparr>"

section \<open>Framing\<close>

definition sim_read_exact :: "nat \<Rightarrow> (script, io_kind, bytes) prog" where
  "sim_read_exact n = on_err (\<lambda>e. case e of RIo k \<Rightarrow> k | REof \<Rightarrow> UnexpectedEof) (read_exact n)"

definition read_frame :: "(script, io_kind, u32 \<times> bytes) prog" where
  "read_frame =
    bnd (sim_read_exact HEADER_LEN) (\<lambda>hdr.
      let total = unat (u32_of_le (take 4 hdr));
          tag = u32_of_le (take 4 (drop 12 hdr));
          payload_len = total - HEADER_LEN
      in if payload_len > 0
         then bnd (sim_read_exact payload_len) (\<lambda>payload. ret (tag, payload))
         else ret (tag, []))"

definition write_frame :: "u32 \<Rightarrow> bytes \<Rightarrow> (sock, io_kind, unit) prog" where
  "write_frame tag plist =
    bnd (write_all (u32_le (word_of_nat (HEADER_LEN + length plist)) @ u32_le VERSION_PLIST @
        u32_le MSGTYPE_PLIST @ u32_le tag))
      (\<lambda>_. write_all plist)"

definition message_type :: "(bytes \<Rightarrow> pvalue option) \<Rightarrow> bytes \<Rightarrow> string option" where
  "message_type parse plist =
    Option.bind (parse plist) (\<lambda>val. Option.bind (as_dictionary val)
      (\<lambda>d. Option.bind (dget d ''MessageType'') as_string))"

definition parse_connect :: "(bytes \<Rightarrow> pvalue option) \<Rightarrow> bytes \<Rightarrow> (u32 \<times> u16) option" where
  "parse_connect parse plist =
    Option.bind (parse plist) (\<lambda>val. Option.bind (as_dictionary val) (\<lambda>d.
      Option.bind (Option.bind (dget d ''DeviceID'') as_unsigned_integer) (\<lambda>device_id.
        Option.bind (Option.bind (dget d ''PortNumber'') as_unsigned_integer) (\<lambda>port_be.
          Some (ucast device_id, u16_swap (ucast port_be))))))"

definition result_plist :: "u32 \<Rightarrow> pvalue" where
  "result_plist code =
    pdict [(''MessageType'', PString ''Result''), (''Number'', PInteger (uint code))]"

definition device_list_plist :: "pvalue list \<Rightarrow> pvalue" where
  "device_list_plist entries = pdict [(''DeviceList'', PArray entries)]"

definition attached_plist :: "u32 \<Rightarrow> string \<Rightarrow> string \<Rightarrow> u16 \<Rightarrow> pvalue" where
  "attached_plist device_id serial connection_type product_id =
    pdict [(''DeviceID'', PInteger (uint device_id)),
      (''MessageType'', PString ''Attached''),
      (''Properties'', pdict [(''SerialNumber'', PString serial),
        (''ConnectionType'', PString connection_type),
        (''ProductID'', PInteger (uint product_id)),
        (''LocationID'', PInteger 0)])]"

definition detached_plist :: "u32 \<Rightarrow> pvalue" where
  "detached_plist device_id =
    pdict [(''DeviceID'', PInteger (uint device_id)), (''MessageType'', PString ''Detached'')]"

section \<open>Handlers\<close>

text \<open>\<open>let _ = write_frame(..)\<close>: the result is dropped, the state change stays.\<close>

definition try_write :: "(pvalue \<Rightarrow> bytes) \<Rightarrow> u32 \<Rightarrow> pvalue \<Rightarrow> sock \<Rightarrow> sock" where
  "try_write xml tag v s = snd (write_frame tag (xml v) s)"

definition list_entry :: "nat \<Rightarrow> SimDevice \<Rightarrow> pvalue" where
  "list_entry i d =
    pdict [(''DeviceID'', PInteger (int (i + 1))),
      (''MessageType'', PString ''Attached''),
      (''Properties'', pdict [(''SerialNumber'', PString (sim_serial d)),
        (''ConnectionType'', PString (sim_connection_type d)),
        (''ProductID'', PInteger (uint (sim_product_id d))),
        (''LocationID'', PInteger 0)])]"

definition handle_list_devices ::
  "(pvalue \<Rightarrow> bytes) \<Rightarrow> u32 \<Rightarrow> SimDevice list \<Rightarrow> sock \<Rightarrow> sock" where
  "handle_list_devices xml tag devices =
    try_write xml tag
      (device_list_plist (map (\<lambda>(i, d). list_entry i d) (enumerate 0 devices)))"

text \<open>The attach events of the devices from index \<open>i\<close> on; the first failed write ends them.\<close>

fun emit_attached ::
  "(pvalue \<Rightarrow> bytes) \<Rightarrow> nat \<Rightarrow> SimDevice list \<Rightarrow> (sock, io_kind, unit) prog" where
  "emit_attached xml i [] s = (Ok (), s)"
| "emit_attached xml i (d # ds) s =
    bnd (write_frame 0 (xml (attached_plist (word_of_nat (i + 1)) (sim_serial d)
        (sim_connection_type d) (sim_product_id d))))
      (\<lambda>_. emit_attached xml (i + 1) ds) s"

text \<open>\<open>loop { match stream.read(&mut buf) { Ok(0) | Err(_) => return, Ok(_) => {} } }\<close>\<close>

fun drain_script :: "script \<Rightarrow> script" where
  "drain_script [] = []"
| "drain_script (Fail k # r) = r"
| "drain_script (Data bs # r) = drain_script r"

definition handle_listen ::
  "(pvalue \<Rightarrow> bytes) \<Rightarrow> u32 \<Rightarrow> SimDevice list \<Rightarrow> sock \<Rightarrow> sock" where
  "handle_listen xml tag devices s =
    (case bnd (write_frame tag (xml (result_plist 0))) (\<lambda>_. emit_attached xml 0 devices) s of
       (Ok _, s') \<Rightarrow> s'\<lparr>inp := drain_script (inp s')\<rparr>
     | (_, s') \<Rightarrow> s')"

definition handle_connect ::
  "(pvalue \<Rightarrow> bytes) \<Rightarrow> (bytes \<Rightarrow> pvalue option) \<Rightarrow> u32 \<Rightarrow> bytes \<Rightarrow> SimDevice list \<Rightarrow> sock \<Rightarrow> sock"
where
  "handle_connect xml parse tag payload devices s =
    (case parse_connect parse payload of
       None \<Rightarrow> try_write xml tag (result_plist 1) s
     | Some (device_id, port) \<Rightarrow>
        (let dev_idx = unat device_id - 1 in
         if dev_idx < length devices then
           (case map_of (sim_services (devices ! dev_idx)) port of
              None \<Rightarrow> try_write xml tag (result_plist 3) s
            | Some f \<Rightarrow> (case write_frame tag (xml (result_plist 0)) s of
                (Ok _, s') \<Rightarrow> f s'
              | (_, s') \<Rightarrow> s'))
         else try_write xml tag (result_plist 2) s))"

definition handle_read_buid :: "(pvalue \<Rightarrow> bytes) \<Rightarrow> u32 \<Rightarrow> sock \<Rightarrow> sock" where
  "handle_read_buid xml tag =
    try_write xml tag (pdict [(''BUID'', PString ''DEADBEEF-0000-0000-0000-CAFECAFECAFE'')])"

lemma read_frame_weight: "read_frame s = (Ok (tag, p), s') \<Longrightarrow> weight s' < weight s"
  by (auto simp: read_frame_def bnd_Ok_iff sim_read_exact_def on_err_Ok_iff Let_def HEADER_LEN_def
      dest!: read_exact_weight split: if_splits)

lemma write_frame_inp: "inp (snd (write_frame tag p s)) = inp s"
  unfolding write_frame_def by (rule bnd_keeps) (rule write_all_inp)+

text \<open>
  The loop of \<open>handle\<close>: one request per round until a request cannot be read, has no type, is
  unknown, or was a connect. \<open>write\<close> and the two answering handlers leave the script alone, a
  listening client's script is drained, so every round consumes input.
\<close>

lemma drain_script_weight: "weight (drain_script s) \<le> weight s"
  by (induction s rule: drain_script.induct) auto

lemma emit_attached_inp: "inp (snd (emit_attached xml i ds s)) = inp s"
proof (induction ds arbitrary: i s)
  case (Cons d ds)
  show ?case
    unfolding emit_attached.simps by (rule bnd_keeps) (rule write_frame_inp, rule Cons.IH)
qed simp

lemma handle_listen_weight: "weight (inp (handle_listen xml tag ds s)) \<le> weight (inp s)"
proof -
  let ?r = "bnd (write_frame tag (xml (result_plist 0))) (\<lambda>_. emit_attached xml 0 ds) s"
  have "inp (snd ?r) = inp s" by (rule bnd_keeps) (rule write_frame_inp, rule emit_attached_inp)
  then show ?thesis
    using drain_script_weight by (cases ?r; cases "fst ?r") (auto simp: handle_listen_def)
qed

lemma on_inp_read_frame_weight:
  "on_inp read_frame s = (Ok (tag, p), s') \<Longrightarrow> weight (inp s') < weight (inp s)"
  by (auto simp: on_inp_def split: prod.splits dest: read_frame_weight)

lemma try_write_inp [simp]: "inp (try_write xml tag v s) = inp s"
  by (simp add: try_write_def write_frame_inp)

function handle ::
  "(pvalue \<Rightarrow> bytes) \<Rightarrow> (bytes \<Rightarrow> pvalue option) \<Rightarrow> SimDevice list \<Rightarrow> sock \<Rightarrow> sock" where
  "handle xml parse devices s = (case on_inp read_frame s of
     (Ok (tag, payload), s1) \<Rightarrow>
       (case message_type parse payload of
          None \<Rightarrow> s1
        | Some t \<Rightarrow>
            if t = ''ListDevices'' then
              handle xml parse devices (handle_list_devices xml tag devices s1)
            else if t = ''Listen'' then
              handle xml parse devices (handle_listen xml tag devices s1)
            else if t = ''Connect'' then handle_connect xml parse tag payload devices s1
            else if t = ''ReadBUID'' then
              handle xml parse devices (handle_read_buid xml tag s1)
            else try_write xml tag (result_plist 1) s1)
   | (_, s1) \<Rightarrow> s1)"
  by pat_completeness auto
termination
proof (relation "measure (\<lambda>(xml, parse, devices, s). weight (inp s))", goal_cases)
  case 1
  then show ?case by simp
next
  case (2 xml parse devices s r s1 p tag payload t)
  then show ?case by (auto simp: handle_list_devices_def dest!: sym [of _ "on_inp _ _"] on_inp_read_frame_weight)
next
  case (3 xml parse devices s r s1 p tag payload t)
  then show ?case
    by (auto dest!: sym [of _ "on_inp _ _"] on_inp_read_frame_weight
        intro: le_less_trans [OF handle_listen_weight])
next
  case (4 xml parse devices s r s1 p tag payload t)
  then show ?case by (auto simp: handle_read_buid_def dest!: sym [of _ "on_inp _ _"] on_inp_read_frame_weight)
qed

declare handle.simps [simp del]

section \<open>The simulator answers the client\<close>

lemma sim_read_exact_next:
  assumes "avail s = xs @ rest" and "length xs = n"
  obtains s' where "sim_read_exact n s = (Ok xs, s')" and "avail s' = rest" and "after s' = after s"
  using read_exact_next [OF assms] by (metis sim_read_exact_def on_err_simps(1))

lemma read_frame_next:
  assumes "small_frame f" and "avail s = (\<lambda>(t, b). frame_bytes t b) f @ rest"
  shows "\<exists>s'. read_frame s = (Ok f, s') \<and> avail s' = rest \<and> after s' = after s"
proof -
  obtain tag body where f: "f = (tag, body)" by (cases f)
  let ?hdr = "u32_le (word_of_nat (HEADER_LEN + length body)) @ u32_le VERSION_PLIST @
    u32_le MSGTYPE_PLIST @ u32_le tag"
  have "avail s = ?hdr @ (body @ rest)" using assms(2) f by (simp add: frame_bytes_def)
  moreover have "length ?hdr = HEADER_LEN" by (simp add: HEADER_LEN_def)
  ultimately obtain s1 where s1: "sim_read_exact HEADER_LEN s = (Ok ?hdr, s1)"
    "avail s1 = body @ rest" "after s1 = after s" by (rule sim_read_exact_next)
  have "unat (word_of_nat (HEADER_LEN + length body) :: u32) = HEADER_LEN + length body"
    by (rule unat_word_of_nat_less) (use assms(1) f in \<open>simp add: small_frame_def\<close>)
  then have total: "unat (u32_of_le (take 4 ?hdr)) = HEADER_LEN + length body"
    and tag: "u32_of_le (take 4 (drop 12 ?hdr)) = tag" by (simp_all del: of_nat_add)
  show ?thesis
  proof (cases "body = []")
    case True
    then show ?thesis using s1 total tag f
      by (intro exI [of _ s1]) (simp add: read_frame_def del: of_nat_add)
  next
    case False
    obtain s2 where "sim_read_exact (length body) s1 = (Ok body, s2)" "avail s2 = rest"
      "after s2 = after s1" using s1(2) by (rule sim_read_exact_next) simp
    then show ?thesis using s1 total tag f False
      by (intro exI [of _ s2]) (simp add: read_frame_def Let_def del: of_nat_add)
  qed
qed

interpretation usb: framing "\<lambda>(t, b). frame_bytes t b" read_frame small_frame
  by unfold_locales (rule read_frame_next)

lemma write_frame_unlimited:
  "room s = None \<Longrightarrow> write_frame tag p s = (Ok (), s\<lparr>outp := outp s @ frame_bytes tag p\<rparr>)"
  by (simp add: write_frame_def frame_bytes_def)

lemma try_write_unlimited:
  "room s = None \<Longrightarrow> try_write xml tag v s = s\<lparr>outp := outp s @ frame_bytes tag (xml v)\<rparr>"
  by (simp add: try_write_def write_frame_unlimited)

lemma handle_at_end: "avail (inp s) = [] \<Longrightarrow> after (inp s) = [] \<Longrightarrow>
    outp (handle xml parse ds s) = outp s"
proof -
  assume "avail (inp s) = []" and "after (inp s) = []"
  then have "read_exact HEADER_LEN (inp s) = (Err REof, [])"
    by (simp add: read_exact_short HEADER_LEN_def)
  then have "on_inp read_frame s = (Err UnexpectedEof, s\<lparr>inp := []\<rparr>)"
    by (simp add: read_frame_def sim_read_exact_def)
  then show ?thesis by (simp add: handle.simps)
qed

text \<open>The value a simulated device has for the client.\<close>

definition sim_device :: "nat \<times> SimDevice \<Rightarrow> Device" where
  "sim_device p = (case p of (i, d) \<Rightarrow>
    \<lparr>dev_id = word_of_nat (i + 1), dev_serial = sim_serial d,
     dev_connection_type = connection_type_of (sim_connection_type d),
     dev_product_id = sim_product_id d, dev_location_id = 0\<rparr>)"

definition list_response :: "SimDevice list \<Rightarrow> pvalue" where
  "list_response ds = device_list_plist (map (\<lambda>(i, d). list_entry i d) (enumerate 0 ds))"

lemma pdict4: "pdict [(''SerialNumber'', a), (''ConnectionType'', b), (''ProductID'', c),
    (''LocationID'', d)] = PDictionary [(''SerialNumber'', a), (''ConnectionType'', b),
    (''ProductID'', c), (''LocationID'', d)]"
  by (simp add: pdict_def)

lemma value_u16_uint [simp]: "value_u16 (PInteger (uint p)) = Some p"
  using uint_lt2p [of p] by simp

lemma value_u32_uint [simp]: "value_u32 (PInteger (uint p)) = Some p"
  using uint_lt2p [of p] by simp

lemma entry_of_list_entry:
  assumes "i + 1 < 2 ^ 32"
  shows "\<exists>e. entry_of_value (list_entry i d) = Some e \<and> device_from_entry e = sim_device (i, d)"
proof -
  have "value_u32 (PInteger (int (i + 1))) = Some (word_of_nat (i + 1))"
    using assms by simp
  moreover have "properties_of_value (pdict [(''SerialNumber'', PString (sim_serial d)),
      (''ConnectionType'', PString (sim_connection_type d)),
      (''ProductID'', PInteger (uint (sim_product_id d))), (''LocationID'', PInteger 0)]) =
      Some \<lparr>pr_serial_number = Some (sim_serial d), pr_connection_type = Some (sim_connection_type d),
        pr_product_id = Some (sim_product_id d), pr_location_id = Some 0\<rparr>"
    by (simp add: pdict4 properties_of_value_def opt_field_def del: value_u16.simps)
  ultimately show ?thesis
    by (simp add: list_entry_def pdict_def entry_of_value_def device_from_entry_def sim_device_def
        del: value_u32.simps)
qed

lemma entries_of_list:
  assumes "\<forall>(i, d) \<in> set ps. i + 1 < 2 ^ 32"
  shows "\<exists>es. those (map entry_of_value (map (\<lambda>(i, d). list_entry i d) ps)) = Some es \<and>
    map device_from_entry es = map sim_device ps"
  using assms
proof (induction ps)
  case (Cons p ps)
  obtain i d where p: "p = (i, d)" by (cases p)
  from Cons.prems p obtain e where "entry_of_value (list_entry i d) = Some e"
    "device_from_entry e = sim_device (i, d)" using entry_of_list_entry by fastforce
  with Cons p show ?case by auto
qed simp

lemma list_response_event:
  assumes "parse b = Some (list_response ds)" and "length ds < 2 ^ 32 - 1"
  shows "decode_frame parse tag b c = (Some (DeviceList (map sim_device (enumerate 0 ds))), c)"
proof -
  have "\<forall>(i, d) \<in> set (enumerate 0 ds). i + 1 < 2 ^ 32"
    using assms(2) by (auto simp: in_set_enumerate_eq)
  from entries_of_list [OF this] obtain es where
    es: "those (map entry_of_value (map (\<lambda>(i, d). list_entry i d) (enumerate 0 ds))) = Some es"
    "map device_from_entry es = map sim_device (enumerate 0 ds)" by blast
  have "decode parse b = Some \<lparr>env_message_type = None, env_number = None,
      env_device_list = Some es, env_buid = None, env_device_id = None, env_properties = None,
      env_pair_record_data = None\<rparr>"
    using assms(1) es(1)
    by (simp add: decode_def list_response_def device_list_plist_def pdict_def envelope_of_value_def
        opt_field_def entries_of_value_def del: map_map)
  then show ?thesis using es(2) by (simp add: decode_frame_def)
qed

lemma result_event:
  assumes "parse b = Some (result_plist code)"
  shows "decode parse b = Some \<lparr>env_message_type = Some ''Result'', env_number = Some code,
      env_device_list = None, env_buid = None, env_device_id = None, env_properties = None,
      env_pair_record_data = None\<rparr>"
  using assms
  by (simp add: decode_def result_plist_def pdict_def envelope_of_value_def opt_field_def
      del: value_u32.simps)

lemma message_type_request:
  "parse b = Some (request_value (BaseRequest t)) \<Longrightarrow> message_type parse b = Some t"
  "parse b = Some (request_value (ConnectRequest d p)) \<Longrightarrow> message_type parse b = Some ''Connect''"
  by (simp_all add: message_type_def base_fields_def)

lemma u16_swap_swap [simp]: "u16_swap (u16_swap p) = p"
proof -
  have "u16_le (u16_of_be bs) = rev bs" if "length bs = 2" for bs
  proof -
    have "from_be bs < 2 ^ 16" using from_le_bound [of "rev bs"] that by (simp add: from_be_def)
    then show ?thesis using le_bytes_from_le [of "rev bs"] that
      by (simp add: u16_le_def u16_of_be_def from_be_def)
  qed
  then have "u16_le (u16_of_be (u16_le p)) = u16_be p"
    by (simp add: u16_be_def u16_le_def be_bytes_def)
  then show ?thesis by (simp add: u16_swap_def)
qed

lemma ucast_widen [simp]:
  "(ucast (ucast (d :: u32) :: u64) :: u32) = d" "(ucast (ucast (p :: u16) :: u64) :: u16) = p"
  by (rule bit_word_eqI, simp add: bit_simps)+

lemma parse_connect_request:
  assumes "parse b = Some (request_value (ConnectRequest d (u16_swap p)))"
  shows "parse_connect parse b = Some (d, p)"
proof -
  have "as_unsigned_integer (PInteger (uint d)) = Some (ucast d)"
    and "as_unsigned_integer (PInteger (uint (u16_swap p))) = Some (ucast (u16_swap p))"
    using uint_lt2p [of d] uint_lt2p [of "u16_swap p"] by (simp_all flip: ucast_eq)
  then show ?thesis using assms
    by (simp add: parse_connect_def base_fields_def del: as_unsigned_integer.simps)
qed

text \<open>One request on the simulator's socket, then the end of the stream.\<close>

lemma handle_one:
  assumes "small_frame (tag, b)" and "avail (inp s) = frame_bytes tag b" and "after (inp s) = []"
  obtains i where "on_inp read_frame s = (Ok (tag, b), s\<lparr>inp := i\<rparr>)" "avail i = []" "after i = []"
proof -
  have "avail (inp s) = (\<lambda>(t, b). frame_bytes t b) (tag, b) @ []" using assms(2) by simp
  with usb.get_put [OF assms(1) this] assms(3) that show thesis by (auto simp: on_inp_def)
qed

lemma sim_list_devices:
  assumes "parse b = Some (request_value (BaseRequest ''ListDevices''))" and "small_frame (tag, b)"
    and "avail (inp s) = frame_bytes tag b" and "after (inp s) = []" and "room s = None"
  shows "outp (handle xml parse ds s) = outp s @ frame_bytes tag (xml (list_response ds))"
proof -
  obtain i where i: "on_inp read_frame s = (Ok (tag, b), s\<lparr>inp := i\<rparr>)" "avail i = []" "after i = []"
    using assms(2-4) by (rule handle_one)
  let ?s = "s\<lparr>inp := i, outp := outp s @ frame_bytes tag (xml (list_response ds))\<rparr>"
  have "handle_list_devices xml tag ds (s\<lparr>inp := i\<rparr>) = ?s"
    using assms(5) by (simp add: handle_list_devices_def try_write_unlimited list_response_def)
  then have "handle xml parse ds s = handle xml parse ds ?s"
    using i(1) message_type_request(1) [of parse b, OF assms(1)]
    by (simp add: handle.simps [of xml parse ds s])
  with handle_at_end [of ?s xml parse ds] i(2,3) show ?thesis by simp
qed

text \<open>The result code the simulator gives to a connect request.\<close>

definition connect_code :: "SimDevice list \<Rightarrow> u32 \<Rightarrow> u16 \<Rightarrow> u32" where
  "connect_code ds d p =
    (if unat d - 1 < length ds
     then if map_of (sim_services (ds ! (unat d - 1))) p = None then 3 else 0
     else 2)"

text \<open>Its answer is that code's result frame; an accepted socket then goes to the service.\<close>

lemma sim_connect:
  assumes "parse b = Some (request_value (ConnectRequest d (u16_swap p)))"
    and "small_frame (tag, b)" and "avail (inp s) = frame_bytes tag b" and "after (inp s) = []"
    and "room s = None"
  shows "\<exists>s' f. handle xml parse ds s = f s' \<and>
    outp s' = outp s @ frame_bytes tag (xml (result_plist (connect_code ds d p))) \<and>
    (connect_code ds d p \<noteq> 0 \<longrightarrow> f = id) \<and>
    (connect_code ds d p = 0 \<longrightarrow> map_of (sim_services (ds ! (unat d - 1))) p = Some f)"
proof -
  obtain i where i: "on_inp read_frame s = (Ok (tag, b), s\<lparr>inp := i\<rparr>)"
    using assms(2-4) by (rule handle_one)
  let ?s = "s\<lparr>inp := i, outp := outp s @ frame_bytes tag (xml (result_plist (connect_code ds d p)))\<rparr>"
  have h: "handle xml parse ds s = handle_connect xml parse tag b ds (s\<lparr>inp := i\<rparr>)"
    using i message_type_request(2) [of parse b, OF assms(1)]
    by (simp add: handle.simps [of xml parse ds s])
  have r: "room (s\<lparr>inp := i\<rparr>) = None" using assms(5) by simp
  have pc: "parse_connect parse b = Some (d, p)" using assms(1) by (rule parse_connect_request)
  show ?thesis
  proof (cases "unat d - 1 < length ds \<and> map_of (sim_services (ds ! (unat d - 1))) p \<noteq> None")
    case True
    then obtain f where "map_of (sim_services (ds ! (unat d - 1))) p = Some f" by auto
    with True h r show ?thesis
      by (intro exI [of _ ?s] exI [of _ f])
        (simp add: handle_connect_def pc connect_code_def
          write_frame_unlimited)
  next
    case False
    with h r show ?thesis
      by (intro exI [of _ ?s] exI [of _ id])
        (auto simp: handle_connect_def pc connect_code_def
          try_write_unlimited Let_def)
  qed
qed

section \<open>Client and simulator together\<close>

definition fresh_sock :: "script \<Rightarrow> sock" where
  "fresh_sock i = \<lparr>inp = i, outp = [], room = None\<rparr>"

definition client :: "script \<Rightarrow> connection" where
  "client i = from_stream (fresh_sock i)"

lemma pending_one_frame:
  assumes "small_frame (tag, b)" and "avail (inp (conn_socket c)) = frame_bytes tag b"
    and "rx (conn_codec c) = []" and "events (conn_codec c) = []"
  shows "pending parse c = (case fst (decode_frame parse tag b (conn_codec c)) of
     None \<Rightarrow> [] | Some e \<Rightarrow> [e])"
  using push_frames [of "[(tag, b)]" "conn_codec c" parse] assms
    decode_frame_frame(3) [of parse tag b "conn_codec c"]
  by (auto simp: pending_def deliver_def split: prod.splits option.splits)

lemma client_started:
  "conn_idle (started req (client i)) \<longleftrightarrow> \<not> rx_ready (rx (snd (req codec_new)))"
  "inp (conn_socket (started req (client i))) = i"
  "outp (conn_socket (started req (client i))) = concat (tx (snd (req codec_new)))"
  "conn_codec (started req (client i)) = (snd (req codec_new))\<lparr>tx := []\<rparr>"
  "start req (client i) = (Ok (fst (req codec_new)), started req (client i))"
  by (simp_all add: started_def client_def from_stream_def fresh_sock_def start_unlimited)

end
