(* ===== verification/PlistInstance.thy ===== *)
theory PlistInstance
  imports Plist
begin

text \<open>
  A concrete pair of a property-list writer and reader that satisfies the round-trip law. The
  crate's own writer and reader are parameters of the model; the theorems that assume the law
  of them are applied here at an instance where it is proved, so none of them is empty.
\<close>

fun enc_nat :: "nat \<Rightarrow> bytes" where
  "enc_nat n = (if n = 0 then [0] else 1 # word_of_nat (n mod 256) # enc_nat (n div 256))"

declare enc_nat.simps [simp del]

fun dec_nat :: "bytes \<Rightarrow> (nat \<times> bytes) option" where
  "dec_nat (t # rest) =
    (if t = 0 then Some (0, rest)
     else case rest of
       b # r \<Rightarrow> (case dec_nat r of None \<Rightarrow> None | Some (n, r') \<Rightarrow> Some (unat b + 256 * n, r'))
     | [] \<Rightarrow> None)"
| "dec_nat [] = None"

lemma dec_enc_nat [simp]: "dec_nat (enc_nat n @ r) = Some (n, r)"
proof (induction n rule: enc_nat.induct)
  case (1 n)
  then show ?case by (subst enc_nat.simps) (simp add: unat_byte_mod)
qed

definition enc_str :: "bytes \<Rightarrow> bytes" where
  "enc_str bs = enc_nat (length bs) @ bs"

definition dec_str :: "bytes \<Rightarrow> (bytes \<times> bytes) option" where
  "dec_str bs = (case dec_nat bs of None \<Rightarrow> None | Some (n, r) \<Rightarrow> Some (take n r, drop n r))"

lemma dec_enc_str [simp]: "dec_str (enc_str bs @ r) = Some (bs, r)"
  by (simp add: dec_str_def enc_str_def)

fun pv_enc :: "pvalue \<Rightarrow> bytes" where
  "pv_enc (PArray vs) = 0 # enc_nat (length vs) @ concat (map pv_enc vs)"
| "pv_enc (PDictionary kvs) =
    1 # enc_nat (length kvs) @ concat (map (\<lambda>(k, v). enc_str (bytes_of k) @ pv_enc v) kvs)"
| "pv_enc (PBoolean b) = [2, if b then 1 else 0]"
| "pv_enc (PData d) = 3 # enc_str d"
| "pv_enc (PDate d) = 4 # u64_le d"
| "pv_enc (PReal d) = 5 # u64_le d"
| "pv_enc (PInteger i) = (if 0 \<le> i then 6 # enc_nat (nat i) else 7 # enc_nat (nat (- i)))"
| "pv_enc (PString s) = 8 # enc_str (bytes_of s)"
| "pv_enc (PUid u) = 9 # enc_nat u"

primrec dec_many :: "nat \<Rightarrow> (bytes \<Rightarrow> ('a \<times> bytes) option) \<Rightarrow> bytes \<Rightarrow> ('a list \<times> bytes) option" where
  "dec_many 0 f bs = Some ([], bs)"
| "dec_many (Suc n) f bs = (case f bs of
     None \<Rightarrow> None
   | Some (x, r) \<Rightarrow> (case dec_many n f r of None \<Rightarrow> None | Some (xs, r') \<Rightarrow> Some (x # xs, r')))"

primrec pv_dec :: "nat \<Rightarrow> bytes \<Rightarrow> (pvalue \<times> bytes) option" where
  "pv_dec 0 bs = None"
| "pv_dec (Suc n) bs = (case bs of [] \<Rightarrow> None | t # r \<Rightarrow>
     if t = 0 then
       (case dec_nat r of None \<Rightarrow> None | Some (k, r1) \<Rightarrow>
         map_option (apfst PArray) (dec_many k (pv_dec n) r1))
     else if t = 1 then
       (case dec_nat r of None \<Rightarrow> None | Some (k, r1) \<Rightarrow>
         map_option (apfst PDictionary) (dec_many k (\<lambda>b. case dec_str b of None \<Rightarrow> None
           | Some (s, r2) \<Rightarrow> map_option (apfst (Pair (string_of s))) (pv_dec n r2)) r1))
     else if t = 2 then (case r of [] \<Rightarrow> None | b # r1 \<Rightarrow> Some (PBoolean (b = 1), r1))
     else if t = 3 then map_option (apfst PData) (dec_str r)
     else if t = 4 then Some (PDate (u64_of_le (take 8 r)), drop 8 r)
     else if t = 5 then Some (PReal (u64_of_le (take 8 r)), drop 8 r)
     else if t = 6 then map_option (apfst (\<lambda>k. PInteger (int k))) (dec_nat r)
     else if t = 7 then map_option (apfst (\<lambda>k. PInteger (- int k))) (dec_nat r)
     else if t = 8 then map_option (apfst (\<lambda>s. PString (string_of s))) (dec_str r)
     else map_option (apfst PUid) (dec_nat r))"

lemma dec_many_enc:
  assumes "\<And>x r. x \<in> set xs \<Longrightarrow> f (g x @ r) = Some (x, r)"
  shows "dec_many (length xs) f (concat (map g xs) @ r) = Some (xs, r)"
  using assms by (induction xs) auto

lemma length_concat_elem: "x \<in> set xs \<Longrightarrow> length (g x) \<le> length (concat (map g xs))"
  by (induction xs) auto

lemma pv_dec_enc: "length (pv_enc v) \<le> n \<Longrightarrow> pv_dec n (pv_enc v @ r) = Some (v, r)"
proof (induction v arbitrary: n r)
  case (PArray vs)
  then obtain m where m: "n = Suc m" by (cases n) auto
  have "pv_dec m (pv_enc x @ r) = Some (x, r)" if "x \<in> set vs" for x r
    using PArray m that length_concat_elem [OF that, of pv_enc] by simp
  then show ?case by (simp add: m dec_many_enc)
next
  case (PDictionary kvs)
  then obtain m where m: "n = Suc m" by (cases n) auto
  let ?g = "\<lambda>(k, v). enc_str (bytes_of k) @ pv_enc v"
  have "(case dec_str (?g x @ r) of None \<Rightarrow> None
      | Some (s, r2) \<Rightarrow> map_option (apfst (Pair (string_of s))) (pv_dec m r2)) = Some (x, r)"
    if "x \<in> set kvs" for x r
  proof -
    obtain k v where x: "x = (k, v)" by (cases x)
    have "length (pv_enc v) \<le> m"
      using PDictionary.prems m that x length_concat_elem [OF that, of ?g] by simp
    with PDictionary.IH [OF that, of v m r] x show ?thesis by simp
  qed
  then show ?case by (simp add: m dec_many_enc)
next
  case (PInteger i)
  then show ?case by (cases n) (auto split: if_splits)
next
  case (PBoolean b)
  then show ?case by (cases n) auto
next
  case (PData b)
  then show ?case by (cases n) auto
next
  case (PDate b)
  then show ?case by (cases n) auto
next
  case (PReal b)
  then show ?case by (cases n) auto
next
  case (PString b)
  then show ?case by (cases n) auto
next
  case (PUid b)
  then show ?case by (cases n) auto
qed

definition pv_parse :: "bytes \<Rightarrow> pvalue option" where
  "pv_parse bs = map_option fst (pv_dec (length bs) bs)"

lemma pv_parse_enc [simp]: "pv_parse (pv_enc v) = Some v"
  using pv_dec_enc [of v "length (pv_enc v)" "[]"] by (simp add: pv_parse_def)

declare pv_enc.simps [simp del]

end
