(* ===== verification/UsbmuxProps.thy ===== *)
theory UsbmuxProps
  imports UsbmuxSim PlistInstance
begin

text \<open>
  The properties of the usbmux client: what the codec guarantees for any cutting of the byte
  stream, which tags it hands out, how replies are matched to connects, and what the blocking
  operations return when the other end is the simulator. Each property with a hypothesis is
  followed by an application at a concrete input.
\<close>

section \<open>The codec\<close>

lemma fold_push_data:
  "\<not> rx_ready (rx c) \<Longrightarrow> fold (push_data parse) pieces c = push_data parse (concat pieces) c"
proof (induction pieces arbitrary: c)
  case Nil
  then show ?case by (simp add: push_data_Nil)
next
  case (Cons p ps)
  have "\<not> rx_ready (rx (push_data parse p c))" by (simp add: push_data_def process_rx_not_ready)
  with Cons show ?case by (simp add: push_data_split)
qed

text \<open>
  C1: Frames that arrive cut into arbitrary pieces are decoded exactly once each, in order and
  with their own tag and payload, and nothing is left in the receive buffer.
\<close>

theorem frames_decoded_in_order:
  assumes "list_all small_frame fs" and "rx c = []"
    and "concat pieces = concat (map (\<lambda>(t, b). frame_bytes t b) fs)"
  shows "fold (push_data parse) pieces c = fold (deliver parse) fs c \<and>
    rx (fold (push_data parse) pieces c) = []"
proof -
  have "fold (push_data parse) pieces c = fold (deliver parse) fs c"
    using assms fold_push_data [of c parse pieces] push_frames [of fs c parse] by simp
  moreover have "rx (fold (deliver parse) fs d) = rx d" for d
    by (induction fs arbitrary: d) simp_all
  ultimately show ?thesis using assms(2) by simp
qed

theorem frames_decoded_in_order_witness:
  "fold (push_data pv_parse) [[17, 0, 0], [0, 1, 0, 0, 0, 8, 0], [0, 0, 5, 0, 0, 0, 7, 16, 0, 0],
      [0, 1, 0, 0, 0, 8, 0, 0, 0, 6, 0, 0, 0]] codec_new =
    fold (deliver pv_parse) [(5, [7]), (6, [])] codec_new"
proof -
  have "list_all small_frame [(5, [7]), (6, [])]" and "rx codec_new = []"
    by (simp_all add: small_frame_def HEADER_LEN_def codec_new_def)
  moreover have "concat [[17, 0, 0], [0, 1, 0, 0, 0, 8, 0], [0, 0, 5, 0, 0, 0, 7, 16, 0, 0],
      [0, 1, 0, 0, 0, 8, 0, 0, 0, 6, 0, 0, 0]] =
      concat (map (\<lambda>(t, b). frame_bytes t b) [(5, [7]), (6, [])])" by code_simp
  ultimately show ?thesis using frames_decoded_in_order by blast
qed

text \<open>
  A run of up to \<open>2^32 - 1\<close> requests on a fresh codec gets pairwise different tags, none of
  them zero, and queues exactly one frame per request, in order, under that request's tag.
\<close>

theorem request_tags:
  assumes "length rs < 2 ^ 32"
  shows "distinct (fst (send_all xml rs codec_new)) \<and> 0 \<notin> set (fst (send_all xml rs codec_new)) \<and>
    tx (snd (send_all xml rs codec_new)) =
      map2 (\<lambda>t r. frame_bytes t (encode xml r)) (fst (send_all xml rs codec_new)) rs"
proof -
  have n: "next_tag codec_new = 1" by (simp add: codec_new_def)
  have "distinct (alloc_seq (\<lambda>x :: u32. max (x + 1) 1) (length rs) 1)"
    by (rule tags.alloc_distinct) (use assms in \<open>simp_all add: tags.span_def\<close>)
  moreover have "0 \<notin> set (alloc_seq (\<lambda>x :: u32. max (x + 1) 1) (length rs) 1)"
    using tags.alloc_ge [of 1 0 "length rs"] by auto
  moreover have "tx codec_new = []" by (simp add: codec_new_def)
  ultimately show ?thesis by (simp add: send_all_tags n send_all_tx)
qed

theorem request_tags_witness:
  "distinct (fst (send_all pv_enc [BaseRequest ''Listen'', BaseRequest ''ReadBUID''] codec_new))"
  using request_tags [of "[BaseRequest ''Listen'', BaseRequest ''ReadBUID'']" pv_enc] by simp

text \<open>
  The result of a connect request is reported under the tag the request was given: success
  as \<open>Connected\<close>, any other code as the failure of that request. The tag is then forgotten, so
  a second success under it is an ordinary acknowledgement.
\<close>

theorem connect_result_once:
  assumes "parse b = Some (result_plist n)" and "parse b' = Some (result_plist 0)"
    and "connect xml d p c = (tag, k)" and "decode_frame parse tag b k = (ev, k')"
  shows "ev = Some (if n = 0 then Connected tag else RequestFailed tag (result_code_of n)) \<and>
    fst (decode_frame parse tag b' k') = Some (RequestOk tag)"
proof -
  have "tag \<in> set (pending_connects k)"
    using connect_frame(3,5) [of xml d p c] assms(3) by simp
  moreover have "result_code_of n = RcOk \<longleftrightarrow> n = 0" by (simp add: result_code_of_def)
  ultimately have k': "k' = k\<lparr>pending_connects := filter (\<lambda>t. t \<noteq> tag) (pending_connects k)\<rparr>"
    and "ev = Some (if n = 0 then Connected tag else RequestFailed tag (result_code_of n))"
    using assms(4) result_event [of parse b n, OF assms(1)] by (auto simp: decode_frame_def List.member_iff)
  then show ?thesis using result_event [of parse b' 0, OF assms(2)]
    by (simp add: decode_frame_def List.member_iff result_code_of_def)
qed

theorem connect_result_once_witness:
  "fst (decode_frame pv_parse 1 (pv_enc (result_plist 3)) (snd (connect pv_enc 1 62078 codec_new))) =
    Some (RequestFailed 1 ConnRefused)"
  using connect_result_once [of pv_parse "pv_enc (result_plist 3)" 3 "pv_enc (result_plist 0)"
      pv_enc 1 62078 codec_new 1 "snd (connect pv_enc 1 62078 codec_new)"
      "fst (decode_frame pv_parse 1 (pv_enc (result_plist 3)) (snd (connect pv_enc 1 62078 codec_new)))"
      "snd (decode_frame pv_parse 1 (pv_enc (result_plist 3)) (snd (connect pv_enc 1 62078 codec_new)))"]
    connect_frame(3) [of pv_enc 1 62078 codec_new]
  by (simp add: prod_eq_iff codec_new_def) (simp add: result_code_of_def)

text \<open>
  A frame header whose length field is smaller than the header itself stops the codec: no
  later input is ever consumed or turned into an event.
\<close>

theorem short_length_wedges:
  assumes "4 \<le> length (rx c)" and "rx_total (rx c) < HEADER_LEN"
  shows "fold (push_data parse) pieces c = c\<lparr>rx := rx c @ concat pieces\<rparr>"
  using fold_push_data [of c parse pieces] bad_length_wedges [OF assms, of parse "concat pieces"]
    assms(2) by (simp add: rx_ready_def)

theorem short_length_wedges_witness:
  "events (fold (push_data pv_parse) [[1], [2, 3]] (codec_new\<lparr>rx := [15, 0, 0, 0]\<rparr>)) = []"
proof -
  let ?c = "codec_new\<lparr>rx := [15, 0, 0, 0]\<rparr>"
  have "4 \<le> length (rx ?c)" and "rx_total (rx ?c) < HEADER_LEN" by code_simp+
  from short_length_wedges [OF this, of pv_parse "[[1], [2, 3]]"] show ?thesis
    by (simp add: codec_new_def)
qed

section \<open>The blocking client\<close>

text \<open>
  Waiting for a matching event returns what the match makes of the first matching event of
  the sequence the whole incoming byte stream decodes to, and fails with the end of the stream
  when there is none; the sizes in which the socket delivers the bytes do not matter.
\<close>

theorem event_loop_finds:
  assumes "conn_idle c"
  shows "fst (event_loop sel parse c) =
    (case find (\<lambda>e. sel e \<noteq> None) (pending parse c) of
       Some e \<Rightarrow> the (sel e)
     | None \<Rightarrow> Err (end_error (after (inp (conn_socket c)))))"
  using assms by (rule event_loop_spec)

theorem event_loop_finds_witness:
  "fst (event_loop sel_buid pv_parse (client [Data [1, 2], Fail TimedOut])) = Err (UIo TimedOut)"
  using event_loop_finds [of "client [Data [1, 2], Fail TimedOut]" sel_buid pv_parse]
  by (simp add: client_def from_stream_def codec_new_def fresh_sock_def pending_def push_data_def
      process_rx.simps rx_ready_def HEADER_LEN_def)

section \<open>Client and simulator\<close>

text \<open>
  C26: Listing devices against the simulator returns the simulated devices, in order, with ids
  counted from one, however the two byte streams are cut on the way.
\<close>

theorem list_devices_end_to_end:
  assumes "parse (xml (request_value (BaseRequest ''ListDevices''))) =
      Some (request_value (BaseRequest ''ListDevices''))"
    and "parse (xml (list_response ds)) = Some (list_response ds)"
    and "small_frame (1, xml (request_value (BaseRequest ''ListDevices'')))"
    and "small_frame (1, xml (list_response ds))" and "length ds < 2 ^ 32 - 1"
    and "avail q = outp (conn_socket (snd (start (list_devices xml) (client r))))" and "after q = []"
    and "avail r = outp (handle xml parse ds (fresh_sock q))"
  shows "fst (conn_list_devices xml parse (client r)) = Ok (map sim_device (enumerate 0 ds))"
proof -
  let ?b = "xml (request_value (BaseRequest ''ListDevices''))"
  let ?k = "started (list_devices xml) (client r)"
  have t: "next_tag codec_new = 1" "tx codec_new = []" "rx codec_new = []" "events codec_new = []"
    by (simp_all add: codec_new_def)
  note f = send_request_frame [of xml "BaseRequest ''ListDevices''" codec_new,
      folded list_devices_def, unfolded t encode_def]
  have "avail q = frame_bytes 1 ?b"
    using assms(6) f(4) by (simp add: client_started)
  then have "outp (handle xml parse ds (fresh_sock q)) = frame_bytes 1 (xml (list_response ds))"
    using sim_list_devices [of parse ?b 1 "fresh_sock q" xml ds, OF assms(1,3)] assms(7)
    by (simp add: fresh_sock_def)
  then have av: "avail (inp (conn_socket ?k)) = frame_bytes 1 (xml (list_response ds))"
    using assms(8) by (simp add: client_started)
  have "rx (conn_codec ?k) = []" "events (conn_codec ?k) = []"
    using f(1,2) by (simp_all add: client_started)
  then have "pending parse ?k = [DeviceList (map sim_device (enumerate 0 ds))]"
    using pending_one_frame [OF assms(4) av, of parse] list_response_event [of parse "xml (list_response ds)" ds, OF assms(2,5)]
    by simp
  then have "fst (event_loop (sel_devices 1) parse ?k) = Ok (map sim_device (enumerate 0 ds))"
    using event_loop_spec [of ?k "sel_devices 1" parse] f(1) by (simp add: client_started)
  then show ?thesis using f(3) by (simp add: conn_list_devices_def client_started)
qed

theorem list_devices_end_to_end_witness:
  "\<exists>r. fst (conn_list_devices pv_enc pv_parse (client r)) =
    Ok [\<lparr>dev_id = 1, dev_serial = ''a1'', dev_connection_type = Usb, dev_product_id = 0x12a8,
      dev_location_id = 0\<rparr>]"
proof -
  let ?ds = "[sim_usb ''a1'']"
  let ?q = "[Data (outp (conn_socket (snd (start (list_devices pv_enc) (client [])))))]"
  let ?r = "[Data (outp (handle pv_enc pv_parse ?ds (fresh_sock ?q)))]"
  have "length (pv_enc (request_value (BaseRequest ''ListDevices''))) < 200"
    and "length (pv_enc (list_response ?ds)) < 300" by code_simp+
  then have "fst (conn_list_devices pv_enc pv_parse (client ?r)) =
      Ok (map sim_device (enumerate 0 ?ds))"
    by (intro list_devices_end_to_end [where q = ?q])
      (simp_all add: small_frame_def HEADER_LEN_def client_started)
  moreover have "map sim_device (enumerate 0 ?ds) =
      [\<lparr>dev_id = 1, dev_serial = ''a1'', dev_connection_type = Usb, dev_product_id = 0x12a8,
      dev_location_id = 0\<rparr>]" by (simp add: sim_device_def sim_usb_def connection_type_of_def)
  ultimately show ?thesis by metis
qed

lemma push_data_events: "\<exists>es. events (push_data parse xs k) = events k @ es"
proof -
  let ?k = "k\<lparr>events := [], rx := rx k @ xs\<rparr>"
  have "k\<lparr>rx := rx k @ xs\<rparr> = ?k\<lparr>events := events k @ events ?k\<rparr>" by (cases k) simp
  then show ?thesis using process_rx_events_update [where c = ?k and es = "events k" and parse = parse]
    by (simp add: push_data_def)
qed

text \<open>
  C6: Opening a tunnel through the simulator succeeds exactly when the device exists and has a
  service on that port; an absent device is reported as \<open>BadDevice\<close> and an absent service as
  \<open>ConnRefused\<close>. The port crosses the wire in network byte order. The service may write what it
  likes after the reply.
\<close>

theorem open_tunnel_end_to_end:
  assumes "parse (xml (request_value (ConnectRequest d (u16_swap p)))) =
      Some (request_value (ConnectRequest d (u16_swap p)))"
    and "parse (xml (result_plist (connect_code ds d p))) = Some (result_plist (connect_code ds d p))"
    and "small_frame (1, xml (request_value (ConnectRequest d (u16_swap p))))"
    and "small_frame (1, xml (result_plist (connect_code ds d p)))"
    and "\<And>f s. map_of (sim_services (ds ! (unat d - 1))) p = Some f \<Longrightarrow> \<exists>os. outp (f s) = outp s @ os"
    and "avail q = outp (conn_socket (snd (start (connect xml d p) (client r))))" and "after q = []"
    and "avail r = outp (handle xml parse ds (fresh_sock q))"
  shows "fst (open_tunnel xml parse d p (client r)) =
    (if unat d - 1 < length ds
     then if p \<in> fst ` set (sim_services (ds ! (unat d - 1))) then Ok ()
       else Err (URequestFailed ConnRefused)
     else Err (URequestFailed BadDevice))"
proof -
  let ?code = "connect_code ds d p"
  let ?b = "xml (result_plist ?code)"
  let ?k = "started (connect xml d p) (client r)"
  have t: "next_tag codec_new = 1" "tx codec_new = []" "rx codec_new = []" "events codec_new = []"
    "pending_connects codec_new = []" by (simp_all add: codec_new_def)
  note f = connect_frame [of xml d p codec_new, unfolded t encode_def]
  have "avail q = frame_bytes 1 (xml (request_value (ConnectRequest d (u16_swap p))))"
    using assms(6) f(4) by (simp add: client_started)
  then obtain s' g where "handle xml parse ds (fresh_sock q) = g s'" and "outp s' = frame_bytes 1 ?b"
    and "?code \<noteq> 0 \<longrightarrow> g = id"
    and "?code = 0 \<longrightarrow> map_of (sim_services (ds ! (unat d - 1))) p = Some g"
    using sim_connect [of parse "xml (request_value (ConnectRequest d (u16_swap p)))" d p 1
        "fresh_sock q" xml ds, OF assms(1,3)] assms(7)
    by (auto simp: fresh_sock_def)
  then obtain os where "avail r = frame_bytes 1 ?b @ os"
    using assms(5) [of g s'] assms(8) by (cases "?code = 0") auto
  then have av: "avail (inp (conn_socket ?k)) = frame_bytes 1 ?b @ os"
    by (simp add: client_started)
  let ?c = "conn_codec ?k"
  have k: "rx ?c = []" "events ?c = []" "pending_connects ?c = [1]"
    using f by (simp_all add: client_started)
  have code: "result_code_of ?code = RcOk \<longleftrightarrow> ?code = 0" by (simp add: result_code_of_def)
  let ?e = "if ?code = 0 then Connected 1 else RequestFailed 1 (result_code_of ?code)"
  have "events (deliver parse (1, ?b) ?c) = [?e]"
    using result_event [of parse ?b ?code, OF assms(2)] k code
    by (simp add: deliver_def decode_frame_def List.member_iff)
  moreover have "push_data parse (frame_bytes 1 ?b) ?c = deliver parse (1, ?b) ?c"
    using push_frames [of "[(1, ?b)]" ?c parse] assms(4) k by simp
  ultimately obtain es where "pending parse ?k = ?e # es"
    using push_data_events [of parse os "deliver parse (1, ?b) ?c"]
    by (auto simp: pending_def av push_data_split [symmetric])
  moreover have "conn_idle ?k" using k by simp
  ultimately have "fst (event_loop (sel_tunnel 1) parse ?k) =
      (if ?code = 0 then Ok () else Err (URequestFailed (result_code_of ?code)))"
    using event_loop_spec [of ?k "sel_tunnel 1" parse] by simp
  then show ?thesis using f(3)
    by (auto simp: open_tunnel_def client_started connect_code_def result_code_of_def map_of_eq_None_iff)
qed

theorem open_tunnel_end_to_end_witness:
  "\<exists>r. fst (open_tunnel pv_enc pv_parse 1 7 (client r)) = Ok ()"
proof -
  let ?ds = "[with_service 7 (\<lambda>s. s\<lparr>outp := outp s @ [1, 2]\<rparr>) (sim_usb ''a1'')]"
  let ?q = "[Data (outp (conn_socket (snd (start (connect pv_enc 1 7) (client [])))))]"
  let ?r = "[Data (outp (handle pv_enc pv_parse ?ds (fresh_sock ?q)))]"
  have c: "connect_code ?ds 1 7 = 0" by (simp add: connect_code_def with_service_def sim_usb_def)
  have "length (pv_enc (request_value (ConnectRequest 1 (u16_swap 7)))) < 300"
    and "length (pv_enc (result_plist 0)) < 300" by code_simp+
  then have "fst (open_tunnel pv_enc pv_parse 1 7 (client ?r)) =
     (if unat (1 :: u32) - 1 < length ?ds
     then if 7 \<in> fst ` set (sim_services (?ds ! (unat (1 :: u32) - 1))) then Ok ()
       else Err (URequestFailed ConnRefused)
     else Err (URequestFailed BadDevice))"
    by (intro open_tunnel_end_to_end [where q = ?q])
      (simp_all add: small_frame_def HEADER_LEN_def client_started c, 
       auto simp: with_service_def sim_usb_def)
  then show ?thesis by (intro exI [of _ ?r]) (simp add: with_service_def sim_usb_def)
qed

text \<open>
  A refused request is reported by \<open>list_devices\<close>, but \<open>read_pair_record\<close> skips the refusal
  and waits on: it returns only when the stream ends, with the error of the ended stream.
\<close>

theorem read_pair_record_skips_refusal:
  assumes "parse b = Some (result_plist n)" and "n \<noteq> 0" and "small_frame (1, b)"
    and "avail r = frame_bytes 1 b"
  shows "fst (conn_list_devices xml parse (client r)) = Err (URequestFailed BadDevice) \<and>
    fst (conn_read_pair_record xml parse udid (client r)) = Err (end_error (after r))"
proof -
  have t: "next_tag codec_new = 1" "tx codec_new = []" "rx codec_new = []" "events codec_new = []"
    "pending_connects codec_new = []" by (simp_all add: codec_new_def)
  have code: "result_code_of n \<noteq> RcOk" using assms(2) by (simp add: result_code_of_def)
  have p: "pending parse (started (send_request xml q) (client r)) =
      [RequestFailed 1 (result_code_of n)]" for q
  proof -
    let ?k = "started (send_request xml q) (client r)"
    have k: "rx (conn_codec ?k) = []" "events (conn_codec ?k) = []" "pending_connects (conn_codec ?k) = []"
      using send_request_frame [of xml q codec_new] t by (simp_all add: client_started)
    have "avail (inp (conn_socket ?k)) = frame_bytes 1 b" using assms(4) by (simp add: client_started)
    from pending_one_frame [OF assms(3) this k(1,2), of parse] show ?thesis
      using result_event [of parse b n, OF assms(1)] code k(3)
      by (simp add: decode_frame_def Let_def List.member_iff)
  qed
  have i: "conn_idle (started (send_request xml q) (client r))" for q
    using send_request_frame(1) [of xml q codec_new] t by (simp add: client_started)
  have l: "fst (event_loop (sel_devices 1) parse (started (list_devices xml) (client r))) =
      Err (URequestFailed BadDevice)"
    using event_loop_spec [OF i, of "sel_devices 1" parse] p by (simp add: list_devices_def)
  have "fst (event_loop sel_pair_record parse (started (read_pair_record xml udid) (client r))) =
      Err (end_error (after r))"
    using event_loop_spec [OF i, of sel_pair_record parse] p
    by (simp add: read_pair_record_def client_started)
  with l show ?thesis using send_request_frame(3) [of xml _ codec_new] t
    by (simp add: conn_list_devices_def conn_read_pair_record_def client_started
        list_devices_def read_pair_record_def)
qed

theorem read_pair_record_skips_refusal_witness:
  "fst (conn_read_pair_record pv_enc pv_parse ''u''
     (client [Data (frame_bytes 1 (pv_enc (result_plist 2)))])) = Err UConnectionClosed"
proof -
  have "length (pv_enc (result_plist 2)) < 300" by code_simp
  then show ?thesis using read_pair_record_skips_refusal [of pv_parse "pv_enc (result_plist 2)" 2
      "[Data (frame_bytes 1 (pv_enc (result_plist 2)))]" pv_enc "''u''"]
    by (simp add: small_frame_def HEADER_LEN_def)
qed

end
