(* ===== verification/H2.thy ===== *)
theory H2
  imports ByteStream
begin

text \<open>
  The HTTP/2 subset of \<open>src/src/remotexpc/h2.rs\<close>: frame reading and the frame writers. A frame
  has a nine-byte header (24-bit length, type, flags, 31-bit stream id). \<open>h2_put\<close> is the wire
  form of every frame the reader distinguishes; it is proved to be what the writers emit, and
  with the reader it satisfies the \<open>framing\<close> contract. Payloads of \<open>2^24\<close> bytes and more do
  not fit the length field.
\<close>

section \<open>Frames\<close>

definition H2_DATA :: u8 where "H2_DATA = 0"
definition H2_HEADERS :: u8 where "H2_HEADERS = 1"
definition H2_SETTINGS :: u8 where "H2_SETTINGS = 4"
definition H2_PING :: u8 where "H2_PING = 6"
definition H2_GOAWAY :: u8 where "H2_GOAWAY = 7"
definition H2_WINDOW_UPDATE :: u8 where "H2_WINDOW_UPDATE = 8"

lemmas h2types = H2_DATA_def H2_HEADERS_def H2_SETTINGS_def H2_PING_def H2_GOAWAY_def
  H2_WINDOW_UPDATE_def

definition FLAG_ACK :: u8 where "FLAG_ACK = 1"
definition FLAG_END_HEADERS :: u8 where "FLAG_END_HEADERS = 4"
definition SETTING_MAX_CONCURRENT_STREAMS :: u16 where "SETTING_MAX_CONCURRENT_STREAMS = 3"
definition SETTING_INITIAL_WINDOW_SIZE :: u16 where "SETTING_INITIAL_WINDOW_SIZE = 4"

definition CLIENT_PREFACE :: bytes where
  "CLIENT_PREFACE = bytes_of (''PRI * HTTP/2.0'' @
    [CHR 0x0D, CHR 0x0A, CHR 0x0D, CHR 0x0A] @ ''SM'' @ [CHR 0x0D, CHR 0x0A, CHR 0x0D, CHR 0x0A])"

datatype h2frame =
    FData u32 bytes
  | FHeaders u32 u8
  | FSettings u8 "(u16 \<times> u32) list"
  | FPing bool bytes
  | FGoAway u32 u32
  | FWindowUpdate u32 u32
  | FUnknown u8 u32 bytes

section \<open>Reading\<close>

text \<open>The exact read: both kinds of failure are I/O errors here.\<close>

definition io_read_exact :: "nat \<Rightarrow> (script, io_kind, bytes) prog" where
  "io_read_exact n = on_err (\<lambda>e. case e of RIo k \<Rightarrow> k | REof \<Rightarrow> UnexpectedEof) (read_exact n)"

fun settings_pairs :: "bytes \<Rightarrow> (u16 \<times> u32) list" where
  "settings_pairs (a # b # c # d # e # f # r) =
    (u16_of_be [a, b], u32_of_be [c, d, e, f]) # settings_pairs r"
| "settings_pairs _ = []"

definition h2_parse :: "u8 \<Rightarrow> u8 \<Rightarrow> u32 \<Rightarrow> bytes \<Rightarrow> ('e, h2frame) outcome" where
  "h2_parse frame_type fl stream_id payload =
    (if frame_type = H2_DATA then Ok (FData stream_id payload)
     else if frame_type = H2_HEADERS then Ok (FHeaders stream_id fl)
     else if frame_type = H2_SETTINGS then Ok (FSettings fl (settings_pairs payload))
     else if frame_type = H2_PING then
       Ok (FPing (fl AND FLAG_ACK \<noteq> 0)
         (if 8 \<le> length payload then take 8 payload else replicate 8 0))
     else if frame_type = H2_GOAWAY then
       Ok (FGoAway
         (u32_of_be (case slice_get payload 0 4 of Some x \<Rightarrow> x | None \<Rightarrow> replicate 4 0) AND 0x7fffffff)
         (u32_of_be (case slice_get payload 4 8 of Some x \<Rightarrow> x | None \<Rightarrow> replicate 4 0)))
     else if frame_type = H2_WINDOW_UPDATE then
       obind (slice_idx payload 0 4) (\<lambda>x. Ok (FWindowUpdate stream_id (u32_of_be x AND 0x7fffffff)))
     else Ok (FUnknown frame_type stream_id payload))"

definition h2_read_frame :: "(script, io_kind, h2frame) prog" where
  "h2_read_frame =
    bnd (io_read_exact 9) (\<lambda>hdr.
      let len = from_be (take 3 hdr);
          stream_id = u32_of_be [hdr ! 5 AND 0x7f, hdr ! 6, hdr ! 7, hdr ! 8]
      in bnd (if 0 < len then io_read_exact len else ret []) (\<lambda>payload.
           lift_o (h2_parse (hdr ! 3) (hdr ! 4) stream_id payload)))"

section \<open>Writing\<close>

definition h2_header :: "u8 \<Rightarrow> u8 \<Rightarrow> u32 \<Rightarrow> nat \<Rightarrow> bytes" where
  "h2_header frame_type fl stream_id len =
    be_bytes 3 len @ [frame_type, fl] @ u32_be (stream_id AND 0x7fffffff)"

definition write_frame_raw :: "u8 \<Rightarrow> u8 \<Rightarrow> u32 \<Rightarrow> bytes \<Rightarrow> (sock, io_kind, unit) prog" where
  "write_frame_raw frame_type fl stream_id payload =
    bnd (write_all (h2_header frame_type fl stream_id (length payload)))
      (\<lambda>_. if payload \<noteq> [] then write_all payload else ret ())"

definition settings_payload :: "(u16 \<times> u32) list \<Rightarrow> bytes" where
  "settings_payload pairs = concat (map (\<lambda>(i, v). u16_be i @ u32_be v) pairs)"

definition write_settings :: "(u16 \<times> u32) list \<Rightarrow> (sock, io_kind, unit) prog" where
  "write_settings pairs = write_frame_raw H2_SETTINGS 0 0 (settings_payload pairs)"

definition write_settings_ack :: "(sock, io_kind, unit) prog" where
  "write_settings_ack = write_frame_raw H2_SETTINGS FLAG_ACK 0 []"

definition write_window_update :: "u32 \<Rightarrow> u32 \<Rightarrow> (sock, io_kind, unit) prog" where
  "write_window_update stream_id increment =
    write_frame_raw H2_WINDOW_UPDATE 0 stream_id (u32_be (increment AND 0x7fffffff))"

definition write_headers :: "u32 \<Rightarrow> (sock, io_kind, unit) prog" where
  "write_headers stream_id = write_frame_raw H2_HEADERS FLAG_END_HEADERS stream_id []"

definition write_data :: "u32 \<Rightarrow> bytes \<Rightarrow> (sock, io_kind, unit) prog" where
  "write_data stream_id payload = write_frame_raw H2_DATA 0 stream_id payload"

definition write_ping_ack :: "bytes \<Rightarrow> (sock, io_kind, unit) prog" where
  "write_ping_ack opaque = write_frame_raw H2_PING FLAG_ACK 0 opaque"

section \<open>The wire form of a frame\<close>

fun h2_fields :: "h2frame \<Rightarrow> u8 \<times> u8 \<times> u32 \<times> bytes" where
  "h2_fields (FData sid p) = (H2_DATA, 0, sid, p)"
| "h2_fields (FHeaders sid fl) = (H2_HEADERS, fl, sid, [])"
| "h2_fields (FSettings fl pairs) = (H2_SETTINGS, fl, 0, settings_payload pairs)"
| "h2_fields (FPing ack opaque) = (H2_PING, if ack then FLAG_ACK else 0, 0, opaque)"
| "h2_fields (FGoAway l e) = (H2_GOAWAY, 0, 0, u32_be l @ u32_be e)"
| "h2_fields (FWindowUpdate sid i) = (H2_WINDOW_UPDATE, 0, sid, u32_be i)"
| "h2_fields (FUnknown t sid p) = (t, 0, sid, p)"

definition h2_put :: "h2frame \<Rightarrow> bytes" where
  "h2_put f = (case h2_fields f of (t, fl, sid, p) \<Rightarrow> h2_header t fl sid (length p) @ p)"

abbreviation u31 :: "u32 \<Rightarrow> bool" where
  "u31 w \<equiv> unat w < 2 ^ 31"

fun h2_wf :: "h2frame \<Rightarrow> bool" where
  "h2_wf (FData sid p) = (u31 sid \<and> length p < 2 ^ 24)"
| "h2_wf (FHeaders sid fl) = u31 sid"
| "h2_wf (FSettings fl pairs) = (6 * length pairs < 2 ^ 24)"
| "h2_wf (FPing ack opaque) = (length opaque = 8)"
| "h2_wf (FGoAway l e) = u31 l"
| "h2_wf (FWindowUpdate sid i) = (u31 sid \<and> u31 i)"
| "h2_wf (FUnknown t sid p) =
    (t \<notin> {H2_DATA, H2_HEADERS, H2_SETTINGS, H2_PING, H2_GOAWAY, H2_WINDOW_UPDATE} \<and>
     u31 sid \<and> length p < 2 ^ 24)"

lemma length_settings_payload [simp]: "length (settings_payload ps) = 6 * length ps"
  by (induction ps) (auto simp: settings_payload_def)

lemma length2E: "length xs = 2 \<Longrightarrow> \<exists>a b. xs = [a, b]"
  by (cases xs; cases "tl xs") auto

lemma length3E: "length xs = 3 \<Longrightarrow> \<exists>a b c. xs = [a, b, c]"
  by (auto simp: length_Suc_conv eval_nat_numeral)

lemma length4E: "length xs = 4 \<Longrightarrow> \<exists>a b c d. xs = [a, b, c, d]"
  by (auto simp: length_Suc_conv eval_nat_numeral)

lemma settings_pairs_payload: "settings_pairs (settings_payload ps) = ps"
proof (induction ps)
  case (Cons p ps)
  obtain i v where p: "p = (i, v)" by (cases p)
  obtain a b where ab: "u16_be i = [a, b]" using length2E [of "u16_be i"] by auto
  obtain c d e f where cd: "u32_be v = [c, d, e, f]" using length4E [of "u32_be v"] by auto
  have "u16_of_be [a, b] = i" "u32_of_be [c, d, e, f] = v" by (simp_all flip: ab cd)
  then show ?case using Cons p ab cd by (simp add: settings_payload_def)
qed (simp add: settings_payload_def)

lemma and_mask31: "u31 w \<Longrightarrow> w AND 0x7fffffff = w"
  using and_mask_small [of w 31] by (simp add: mask_eq_exp_minus_1)

lemma and_mask7: "unat (b :: byte) < 128 \<Longrightarrow> b AND 0x7f = b"
  using and_mask_small [of b 7] by (simp add: mask_eq_exp_minus_1)

text \<open>Clearing the top bit of the first header byte does nothing to a 31-bit stream id.\<close>

lemma stream_id_masked:
  assumes "u31 w" and "u32_be w = [a, b, c, d]"
  shows "u32_of_be [a AND 0x7f, b, c, d] = w"
proof -
  have "a = hd (u32_be w)" using assms(2) by simp
  also have "\<dots> = word_of_nat (unat w div 2 ^ 24 mod 256)"
    using last_le_bytes [of 3 "unat w"] by (simp add: u32_be_def be_bytes_def hd_rev)
  finally have a: "a = word_of_nat (unat w div 2 ^ 24 mod 256)" .
  have "unat w div 2 ^ 24 < 128" using assms(1) by (simp add: div_less_iff_less_mult)
  then have "unat a < 128" using a by (simp add: unat_of_nat)
  then have "a AND 0x7f = a" by (rule and_mask7)
  then show ?thesis by (simp flip: assms(2))
qed

lemma and_ack [simp]: "(FLAG_ACK AND FLAG_ACK \<noteq> 0) = True" "(0 AND FLAG_ACK \<noteq> 0) = False"
  by (simp_all add: FLAG_ACK_def)

lemma h2_parse_fields:
  assumes "h2_wf f" and "h2_fields f = (t, fl, sid, p)"
  shows "h2_parse t fl sid p = Ok f \<and> u31 sid \<and> length p < 2 ^ 24"
proof (cases f)
  case (FGoAway l e)
  have "slice_get (u32_be l @ u32_be e) 0 4 = Some (u32_be l)"
    and "slice_get (u32_be l @ u32_be e) 4 8 = Some (u32_be e)" by (simp_all add: slice_get_def)
  then show ?thesis using assms FGoAway by (auto simp: h2_parse_def h2types and_mask31)
next
  case (FWindowUpdate s i)
  then show ?thesis using assms by (auto simp: h2_parse_def h2types and_mask31 slice_idx_all)
next
  case (FSettings fl' ps)
  then show ?thesis using assms by (auto simp: h2_parse_def h2types settings_pairs_payload)
qed (use assms in \<open>auto simp: h2_parse_def h2types FLAG_ACK_def split: if_splits\<close>)

lemma io_read_exact_next:
  assumes "avail s = xs @ rest" and "length xs = n"
  obtains s' where "io_read_exact n s = (Ok xs, s')" and "avail s' = rest" and "after s' = after s"
  using read_exact_next [OF assms] by (metis io_read_exact_def on_err_simps(1))

lemma h2_header_read:
  assumes "u31 sid" and "len < 2 ^ 24"
  shows "length (h2_header t fl sid len) = 9" "from_be (take 3 (h2_header t fl sid len)) = len"
    "h2_header t fl sid len ! 3 = t" "h2_header t fl sid len ! 4 = fl"
    "u32_of_be [h2_header t fl sid len ! 5 AND 0x7f, h2_header t fl sid len ! 6,
       h2_header t fl sid len ! 7, h2_header t fl sid len ! 8] = sid"
proof -
  obtain a b c d where s: "u32_be sid = [a, b, c, d]" using length4E [of "u32_be sid"] by auto
  obtain x y z where l: "be_bytes 3 len = [x, y, z]"
    using length3E [OF length_be_bytes [of 3 len]] by blast
  have h: "h2_header t fl sid len = [x, y, z, t, fl, a, b, c, d]"
    using assms(1) by (simp add: h2_header_def and_mask31 s l)
  have "from_be (be_bytes 3 len) = len"
    using assms(2) by (simp add: from_be_def be_bytes_def from_le_le_bytes)
  then show "from_be (take 3 (h2_header t fl sid len)) = len" by (simp add: h l)
  show "length (h2_header t fl sid len) = 9" "h2_header t fl sid len ! 3 = t"
    "h2_header t fl sid len ! 4 = fl" by (simp_all add: h)
  show "u32_of_be [h2_header t fl sid len ! 5 AND 0x7f, h2_header t fl sid len ! 6,
       h2_header t fl sid len ! 7, h2_header t fl sid len ! 8] = sid"
    using stream_id_masked [OF assms(1) s] by (simp add: h)
qed

text \<open>The reader on any header and payload, well-formed frame or not.\<close>

lemma h2_read_raw:
  assumes "u31 sid" and "length p < 2 ^ 24" and "avail s = h2_header t fl sid (length p) @ p @ rest"
  obtains s' where "h2_read_frame s = lift_o (h2_parse t fl sid p) s'" and "avail s' = rest"
    and "after s' = after s"
proof -
  let ?h = "h2_header t fl sid (length p)"
  let ?r = "if 0 < length p then io_read_exact (length p) else ret []"
  note h = h2_header_read [OF assms(1,2), of t fl]
  obtain s1 where s1: "io_read_exact 9 s = (Ok ?h, s1)" "avail s1 = p @ rest" "after s1 = after s"
    using assms(3) h(1) by (rule io_read_exact_next)
  have "\<exists>s2. ?r s1 = (Ok p, s2) \<and> avail s2 = rest \<and> after s2 = after s1"
  proof (cases "p = []")
    case False
    then show ?thesis using io_read_exact_next [OF s1(2) refl] by auto
  qed (use s1 in simp)
  then obtain s2 where s2: "?r s1 = (Ok p, s2)" "avail s2 = rest" "after s2 = after s1" by blast
  have "h2_read_frame s = bnd ?r (\<lambda>payload. lift_o (h2_parse t fl sid payload)) s1"
    unfolding h2_read_frame_def bnd_Ok [where m = "io_read_exact 9", OF s1(1)] Let_def h(2-5)
    by (rule refl)
  also have "\<dots> = lift_o (h2_parse t fl sid p) s2" using s2(1) by (rule bnd_Ok)
  finally show thesis using that s1(3) s2(2,3) by simp
qed

lemma h2_read_put:
  assumes "h2_wf f" and "avail s = h2_put f @ rest"
  shows "\<exists>s'. h2_read_frame s = (Ok f, s') \<and> avail s' = rest \<and> after s' = after s"
proof -
  obtain t fl sid p where f: "h2_fields f = (t, fl, sid, p)" by (cases "h2_fields f")
  have pf: "h2_parse t fl sid p = (Ok f :: (io_kind, h2frame) outcome)" and sid: "u31 sid"
    and lp: "length p < 2 ^ 24" using h2_parse_fields [OF assms(1) f] by blast+
  have "avail s = h2_header t fl sid (length p) @ p @ rest" using assms(2) f by (simp add: h2_put_def)
  from h2_read_raw [OF sid lp this] obtain s' where
    "h2_read_frame s = lift_o (h2_parse t fl sid p) s'" "avail s' = rest" "after s' = after s" .
  then show ?thesis using pf by (intro exI [of _ s']) (simp only: prog_apply simp_thms)
qed

interpretation h2: framing h2_put h2_read_frame h2_wf
  by unfold_locales (rule h2_read_put)

text \<open>What the writers put on the wire.\<close>

lemma write_frame_raw_unlimited:
  "room s = None \<Longrightarrow> write_frame_raw t fl sid p s =
    (Ok (), s\<lparr>outp := outp s @ h2_header t fl sid (length p) @ p\<rparr>)"
  by (simp add: write_frame_raw_def)

lemma u31_mask [simp]: "u31 (w AND 0x7fffffff)"
proof -
  have "w AND 0x7fffffff = take_bit 31 w" by (simp add: take_bit_eq_mask mask_eq_exp_minus_1)
  then have "unat (w AND 0x7fffffff) = take_bit 31 (unat w)" by (simp add: unsigned_take_bit_eq)
  then show ?thesis using take_bit_nat_less_exp [of 31 "unat w"] by (simp only:)
qed

lemma writers_emit:
  assumes "room s = None"
  shows "write_data sid p s = (Ok (), s\<lparr>outp := outp s @ h2_put (FData sid p)\<rparr>)"
    "write_headers sid s = (Ok (), s\<lparr>outp := outp s @ h2_put (FHeaders sid FLAG_END_HEADERS)\<rparr>)"
    "write_settings ps s = (Ok (), s\<lparr>outp := outp s @ h2_put (FSettings 0 ps)\<rparr>)"
    "write_settings_ack s = (Ok (), s\<lparr>outp := outp s @ h2_put (FSettings FLAG_ACK [])\<rparr>)"
    "write_ping_ack o8 s = (Ok (), s\<lparr>outp := outp s @ h2_put (FPing True o8)\<rparr>)"
    "write_window_update sid i s =
      (Ok (), s\<lparr>outp := outp s @ h2_put (FWindowUpdate sid (i AND 0x7fffffff))\<rparr>)"
  using assms
  by (simp_all add: write_data_def write_headers_def write_settings_def write_settings_ack_def
      write_ping_ack_def write_window_update_def write_frame_raw_unlimited h2_put_def
      settings_payload_def)

text \<open>The bytes a frame contributes to the message stream.\<close>

fun h2_data :: "h2frame \<Rightarrow> bytes" where
  "h2_data (FData sid p) = p"
| "h2_data _ = []"

lemma h2_read_frame_weight:
  assumes "h2_read_frame s = (Ok f, s')"
  shows "weight s' + length (h2_data f) < weight s"
proof -
  from assms obtain hdr s1 p where h: "read_exact 9 s = (Ok hdr, s1)"
    and p: "(if 0 < from_be (take 3 hdr) then io_read_exact (from_be (take 3 hdr)) else ret []) s1 = (Ok p, s')"
    and f: "h2_parse (hdr ! 3) (hdr ! 4) (u32_of_be [hdr ! 5 AND 0x7f, hdr ! 6, hdr ! 7, hdr ! 8]) p =
      (Ok f :: (io_kind, h2frame) outcome)"
    by (auto simp: h2_read_frame_def bnd_Ok_iff io_read_exact_def on_err_Ok_iff Let_def lift_o_def)
  have "length p = from_be (take 3 hdr) \<and> weight s' + from_be (take 3 hdr) \<le> weight s1"
    using p read_exact_weight [of "from_be (take 3 hdr)" s1 p s']
      read_exact_Ok_inv(1) [of "from_be (take 3 hdr)" s1 p s']
    by (auto simp: io_read_exact_def on_err_Ok_iff split: if_splits)
  moreover have "weight s1 + 9 \<le> weight s" using h by (rule read_exact_weight)
  moreover have "length (h2_data f) \<le> length p"
    using f by (auto simp: h2_parse_def obind_Ok_iff split: if_splits)
  ultimately show ?thesis by linarith
qed

section \<open>Properties\<close>

text \<open>
  C33: A sequence of well-formed frames is read back frame by frame, whatever pieces the
  transport delivers, and the reader stops exactly after the last one.
\<close>

theorem h2_frames_roundtrip:
  assumes "list_all h2_wf fs" and "avail s = concat (map h2_put fs) @ rest"
  shows "\<exists>s'. recv_n (length fs) h2_read_frame s = (Ok fs, s') \<and> avail s' = rest"
  using h2.recv_all [OF assms] by blast

theorem h2_frames_roundtrip_witness:
  "\<exists>s'. recv_n 2 h2_read_frame [Data (h2_put (FData 1 [7, 8])), Data (h2_put (FPing False (replicate 8 3)))] =
    (Ok [FData 1 [7, 8], FPing False (replicate 8 3)], s') \<and> avail s' = []"
  using h2_frames_roundtrip [of "[FData 1 [7, 8], FPing False (replicate 8 3)]"
    "[Data (h2_put (FData 1 [7, 8])), Data (h2_put (FPing False (replicate 8 3)))]" "[]"]
  unfolding numeral_2_eq_2 by simp

text \<open>
  Reading a frame of any type, flags, stream and payload panics exactly when it is a
  window update with fewer than four bytes of payload.
\<close>

theorem h2_read_panics:
  assumes "u31 sid" and "length p < 2 ^ 24" and "avail s = h2_header t fl sid (length p) @ p @ rest"
  shows "fst (h2_read_frame s) = Panic \<longleftrightarrow> t = H2_WINDOW_UPDATE \<and> length p < 4"
proof -
  obtain s' where "h2_read_frame s = lift_o (h2_parse t fl sid p) s'"
    using h2_read_raw [OF assms] by blast
  then show ?thesis by (auto simp: lift_o_def h2_parse_def h2types slice_idx_def slice_get_def)
qed

theorem h2_read_panics_witness:
  "fst (h2_read_frame [Data [0, 0], Data [2, 8, 0, 0, 0, 0, 0, 9, 9]]) = Panic"
proof -
  have "avail [Data [0, 0], Data [2, 8, 0, 0, 0, 0, 0, 9, 9]] =
      h2_header H2_WINDOW_UPDATE 0 0 (length [9, 9 :: byte]) @ [9, 9] @ []"
    by code_simp
  from h2_read_panics [OF _ _ this] show ?thesis by simp
qed

end
