(* ===== verification/Xpc.thy ===== *)
theory Xpc
  imports Prelude
begin

text \<open>
  The XPC object codec: \<open>src/src/xpc/value.rs\<close>, \<open>mod.rs\<close> and \<open>codec.rs\<close>. Signed integers and
  doubles are kept as their 64 bits, a dictionary is the list of its entries in iteration
  order. Lengths on the wire wrap at \<open>2^32\<close> as in a release build. The decoder recurses into
  arrays and dictionaries; the model gives it a depth, the length of the buffer is always deep
  enough because every level of nesting takes twelve bytes, and \<open>decode_value_unfold\<close> states the
  source's recursion without it.
\<close>

section \<open>Values and messages\<close>

datatype xvalue =
    XNull
  | XBool bool
  | XInt64 u64
  | XUint64 u64
  | XDouble u64
  | XData bytes
  | XString string
  | XUuid bytes
  | XArray "xvalue list"
  | XDictionary "(string \<times> xvalue) list"

fun xas_str :: "xvalue \<Rightarrow> string option" where
  "xas_str (XString s) = Some s"
| "xas_str _ = None"

fun xas_dict :: "xvalue \<Rightarrow> (string \<times> xvalue) list option" where
  "xas_dict (XDictionary d) = Some d"
| "xas_dict _ = None"

fun xas_array :: "xvalue \<Rightarrow> xvalue list option" where
  "xas_array (XArray a) = Some a"
| "xas_array _ = None"

fun xas_u64 :: "xvalue \<Rightarrow> u64 option" where
  "xas_u64 (XUint64 n) = Some n"
| "xas_u64 (XInt64 n) = Some n"
| "xas_u64 _ = None"

fun xas_i64 :: "xvalue \<Rightarrow> int option" where
  "xas_i64 (XInt64 n) = Some (sint n)"
| "xas_i64 (XUint64 n) = Some (sint n)"
| "xas_i64 _ = None"

fun xas_bool :: "xvalue \<Rightarrow> bool option" where
  "xas_bool (XBool b) = Some b"
| "xas_bool _ = None"

definition WRAPPER_MAGIC :: u32 where "WRAPPER_MAGIC = 0x29b00b92"
definition PAYLOAD_MAGIC :: u32 where "PAYLOAD_MAGIC = 0x42133742"
definition PAYLOAD_VERSION :: u32 where "PAYLOAD_VERSION = 5"

definition ALWAYS_SET :: u32 where "ALWAYS_SET = 0x1"
definition DATA_PRESENT :: u32 where "DATA_PRESENT = 0x100"
definition WANTING_REPLY :: u32 where "WANTING_REPLY = 0x10000"
definition REPLY :: u32 where "REPLY = 0x20000"
definition INIT_HANDSHAKE :: u32 where "INIT_HANDSHAKE = 0x400000"

record xmessage =
  xflags :: u32
  xmsg_id :: u64
  xbody :: "xvalue option"

definition msg_with_body :: "u64 \<Rightarrow> xvalue \<Rightarrow> xmessage" where
  "msg_with_body i v = \<lparr>xflags = ALWAYS_SET OR DATA_PRESENT OR WANTING_REPLY, xmsg_id = i,
    xbody = Some v\<rparr>"

definition msg_reply :: "u64 \<Rightarrow> xvalue \<Rightarrow> xmessage" where
  "msg_reply i v = \<lparr>xflags = ALWAYS_SET OR DATA_PRESENT OR REPLY, xmsg_id = i, xbody = Some v\<rparr>"

definition msg_init :: "u32 \<Rightarrow> xmessage" where
  "msg_init fl = \<lparr>xflags = fl, xmsg_id = 0, xbody = None\<rparr>"

datatype xpc_error = TooShort nat nat | BadMagic u32 | UnknownType u32 | InvalidUtf8

section \<open>Decoding\<close>

definition TYPE_NULL :: u32 where "TYPE_NULL = 0x1000"
definition TYPE_BOOL :: u32 where "TYPE_BOOL = 0x2000"
definition TYPE_INT64 :: u32 where "TYPE_INT64 = 0x3000"
definition TYPE_UINT64 :: u32 where "TYPE_UINT64 = 0x4000"
definition TYPE_DOUBLE :: u32 where "TYPE_DOUBLE = 0x5000"
definition TYPE_DATA :: u32 where "TYPE_DATA = 0x8000"
definition TYPE_STRING :: u32 where "TYPE_STRING = 0x9000"
definition TYPE_UUID :: u32 where "TYPE_UUID = 0xa000"
definition TYPE_ARRAY :: u32 where "TYPE_ARRAY = 0xe000"
definition TYPE_DICTIONARY :: u32 where "TYPE_DICTIONARY = 0xf000"

lemmas xtypes = TYPE_NULL_def TYPE_BOOL_def TYPE_INT64_def TYPE_UINT64_def TYPE_DOUBLE_def
  TYPE_DATA_def TYPE_STRING_def TYPE_UUID_def TYPE_ARRAY_def TYPE_DICTIONARY_def

text \<open>\<open>(n + 3) & !3\<close>\<close>

definition pad4 :: "nat \<Rightarrow> nat" where
  "pad4 n = (n + 3) div 4 * 4"

definition xget :: "bytes \<Rightarrow> nat \<Rightarrow> nat \<Rightarrow> (xpc_error, bytes) outcome" where
  "xget buf a b = ok_or (slice_get buf a b) (TooShort b (length buf))"

definition read_u32le :: "bytes \<Rightarrow> nat \<Rightarrow> (xpc_error, u32) outcome" where
  "read_u32le buf pos = obind (xget buf pos (pos + 4)) (\<lambda>s. Ok (u32_of_le s))"

definition read_u64le :: "bytes \<Rightarrow> nat \<Rightarrow> (xpc_error, u64) outcome" where
  "read_u64le buf pos = obind (xget buf pos (pos + 8)) (\<lambda>s. Ok (u64_of_le s))"

text \<open>\<open>for _ in 0..count { let (val, next) = decode_value(buf, cur)?; .. }\<close>\<close>

primrec decode_items ::
  "(nat \<Rightarrow> (xpc_error, xvalue \<times> nat) outcome) \<Rightarrow> nat \<Rightarrow> nat \<Rightarrow> (xpc_error, xvalue list) outcome"
where
  "decode_items dec 0 cur = Ok []"
| "decode_items dec (Suc n) cur = obind (dec cur) (\<lambda>(v, nxt).
     obind (decode_items dec n nxt) (\<lambda>vs. Ok (v # vs)))"

text \<open>A key: everything up to the first NUL at or after \<open>cur\<close>; \<open>buf[cur..]\<close> panics past the end.\<close>

definition decode_key :: "bytes \<Rightarrow> nat \<Rightarrow> (xpc_error, string \<times> nat) outcome" where
  "decode_key buf cur =
    obind (slice_idx buf cur (length buf)) (\<lambda>tail.
      let k = takeWhile (\<lambda>b. b \<noteq> 0) tail in
      if length k = length tail then Err InvalidUtf8
      else case from_utf8 k of
        None \<Rightarrow> Err InvalidUtf8
      | Some s \<Rightarrow> Ok (s, cur + pad4 (length k + 1)))"

primrec decode_pairs ::
  "bytes \<Rightarrow> (nat \<Rightarrow> (xpc_error, xvalue \<times> nat) outcome) \<Rightarrow> nat \<Rightarrow> nat \<Rightarrow>
    (string \<times> xvalue) list \<Rightarrow> (xpc_error, (string \<times> xvalue) list) outcome"
where
  "decode_pairs buf dec 0 cur m = Ok m"
| "decode_pairs buf dec (Suc n) cur m = obind (decode_key buf cur) (\<lambda>(key, cur1).
     obind (dec cur1) (\<lambda>(v, nxt). decode_pairs buf dec n nxt (ainsert key v m)))"

text \<open>One call, with \<open>dec\<close> for the recursive calls: the match on the tag, then the whole call.\<close>

definition decode_tagged ::
  "(nat \<Rightarrow> (xpc_error, xvalue \<times> nat) outcome) \<Rightarrow> bytes \<Rightarrow> nat \<Rightarrow> u32 \<Rightarrow>
    (xpc_error, xvalue \<times> nat) outcome"
where
  "decode_tagged dec buf p tag =
     (if tag = TYPE_NULL then Ok (XNull, p)
      else if tag = TYPE_BOOL then
        obind (xget buf p (p + 1)) (\<lambda>b. Ok (XBool (b ! 0 \<noteq> 0), p + 4))
      else if tag = TYPE_INT64 then
        obind (read_u64le buf p) (\<lambda>n. Ok (XInt64 n, p + 8))
      else if tag = TYPE_UINT64 then
        obind (read_u64le buf p) (\<lambda>n. Ok (XUint64 n, p + 8))
      else if tag = TYPE_DOUBLE then
        obind (read_u64le buf p) (\<lambda>n. Ok (XDouble n, p + 8))
      else if tag = TYPE_DATA then
        obind (read_u32le buf p) (\<lambda>n. let len = unat n; start = p + 4 in
          obind (xget buf start (start + len)) (\<lambda>d. Ok (XData d, start + pad4 len)))
      else if tag = TYPE_STRING then
        obind (read_u32le buf p) (\<lambda>n. let len = unat n; start = p + 4 in
          obind (xget buf start (start + len)) (\<lambda>raw.
            case from_utf8 (takeWhile (\<lambda>b. b \<noteq> 0) raw) of
              None \<Rightarrow> Err InvalidUtf8
            | Some s \<Rightarrow> Ok (XString s, start + pad4 len)))
      else if tag = TYPE_UUID then
        obind (xget buf p (p + 16)) (\<lambda>u. Ok (XUuid u, p + 16))
      else if tag = TYPE_ARRAY then
        obind (read_u32le buf p) (\<lambda>total_size.
          obind (read_u32le buf (p + 4)) (\<lambda>count.
            obind (decode_items dec (unat count) (p + 8)) (\<lambda>items.
              Ok (XArray items, p + 4 + unat total_size))))
      else if tag = TYPE_DICTIONARY then
        obind (read_u32le buf p) (\<lambda>total_size.
          obind (read_u32le buf (p + 4)) (\<lambda>count.
            obind (decode_pairs buf dec (unat count) (p + 8) []) (\<lambda>m.
              Ok (XDictionary m, p + 4 + unat total_size))))
      else if tag = 0x7000 then
        obind (read_u64le buf p) (\<lambda>n. Ok (XDouble n, p + 8))
      else Ok (XNull, p + 8))"

definition decode_body ::
  "(nat \<Rightarrow> (xpc_error, xvalue \<times> nat) outcome) \<Rightarrow> bytes \<Rightarrow> nat \<Rightarrow> (xpc_error, xvalue \<times> nat) outcome"
where
  "decode_body dec buf pos =
    obind (read_u32le buf pos) (\<lambda>tag. decode_tagged dec buf (pos + 4) tag)"

text \<open>The recursion to depth \<open>d\<close>; running out of depth is the stack overflow it stands for.\<close>

primrec decode_depth :: "nat \<Rightarrow> bytes \<Rightarrow> nat \<Rightarrow> (xpc_error, xvalue \<times> nat) outcome" where
  "decode_depth 0 buf pos = Panic"
| "decode_depth (Suc d) buf pos = decode_body (decode_depth d buf) buf pos"

definition decode_value :: "bytes \<Rightarrow> nat \<Rightarrow> (xpc_error, xvalue \<times> nat) outcome" where
  "decode_value buf pos = decode_depth (Suc (length buf - pos)) buf pos"

text \<open>
  \<open>24 + body_len\<close> overflows for lengths near \<open>2^64\<close>: a debug build panics at the addition, a
  release build at the slice whose end is before its start.
\<close>

definition decode_message :: "bytes \<Rightarrow> (xpc_error, xmessage \<times> nat) outcome" where
  "decode_message buf =
    (if length buf < 24 then Err (TooShort 24 (length buf))
     else obind (read_u32le buf 0) (\<lambda>magic.
       if magic \<noteq> WRAPPER_MAGIC then Err (BadMagic magic)
       else obind (read_u32le buf 4) (\<lambda>fl.
         obind (read_u64le buf 8) (\<lambda>bl.
           obind (read_u64le buf 16) (\<lambda>mid.
             let body_len = unat bl; total = 24 + body_len in
             if 2 ^ 64 \<le> total then Panic
             else if length buf < total then Err (TooShort total (length buf))
             else obind
               (if 8 \<le> body_len then
                  obind (slice_idx buf 24 (24 + body_len)) (\<lambda>pb.
                    obind (read_u32le pb 0) (\<lambda>pmag.
                      if pmag \<noteq> PAYLOAD_MAGIC then Err (BadMagic pmag)
                      else obind (decode_value pb 8) (\<lambda>(v, _). Ok (Some v))))
                else Ok None)
               (\<lambda>body. Ok (\<lparr>xflags = fl, xmsg_id = mid, xbody = body\<rparr>, total)))))))"

section \<open>Encoding\<close>

definition padding :: "nat \<Rightarrow> bytes" where
  "padding len = replicate (pad4 len - len) 0"

definition encode_dict_key :: "string \<Rightarrow> bytes" where
  "encode_dict_key key = bytes_of key @ [0] @ padding (length key + 1)"

fun encode_value :: "xvalue \<Rightarrow> bytes" where
  "encode_value XNull = u32_le TYPE_NULL"
| "encode_value (XBool b) = u32_le TYPE_BOOL @ [if b then 1 else 0] @ [0, 0, 0]"
| "encode_value (XInt64 n) = u32_le TYPE_INT64 @ u64_le n"
| "encode_value (XUint64 n) = u32_le TYPE_UINT64 @ u64_le n"
| "encode_value (XDouble d) = u32_le TYPE_DOUBLE @ u64_le d"
| "encode_value (XData b) =
    u32_le TYPE_DATA @ u32_le (word_of_nat (length b)) @ b @ padding (length b)"
| "encode_value (XString s) =
    u32_le TYPE_STRING @ u32_le (word_of_nat (length s + 1)) @ bytes_of s @ [0] @
    padding (length s + 1)"
| "encode_value (XUuid u) = u32_le TYPE_UUID @ u"
| "encode_value (XArray items) =
    (let items_buf = concat (map encode_value items) in
     u32_le TYPE_ARRAY @ u32_le (4 + word_of_nat (length items_buf)) @
     u32_le (word_of_nat (length items)) @ items_buf)"
| "encode_value (XDictionary m) =
    (let kv_buf = concat (map (\<lambda>(k, v). encode_dict_key k @ encode_value v) m) in
     u32_le TYPE_DICTIONARY @ u32_le (4 + word_of_nat (length kv_buf)) @
     u32_le (word_of_nat (length m)) @ kv_buf)"

definition encode_message :: "xmessage \<Rightarrow> bytes" where
  "encode_message msg =
    (let payload = map_option (\<lambda>v. u32_le PAYLOAD_MAGIC @ u32_le PAYLOAD_VERSION @ encode_value v)
           (xbody msg);
         body_len = (case payload of None \<Rightarrow> 0 | Some p \<Rightarrow> length p)
     in u32_le WRAPPER_MAGIC @ u32_le (xflags msg) @ u64_le (word_of_nat body_len) @
        u64_le (xmsg_id msg) @ (case payload of None \<Rightarrow> [] | Some p \<Rightarrow> p))"

section \<open>Enough depth\<close>

lemma xget_Ok_iff: "xget buf a b = Ok ys \<longleftrightarrow> slice_get buf a b = Some ys"
  by (simp add: xget_def)

lemma read_u32le_Ok: "read_u32le buf pos = Ok w \<Longrightarrow> pos + 4 \<le> length buf"
  by (auto simp: read_u32le_def xget_def obind_Ok_iff slice_get_Some)

lemma decode_body_advances:
  assumes "decode_body dec buf pos = Ok (v, nxt)"
  shows "pos < nxt \<and> pos + 4 \<le> length buf"
proof -
  from assms obtain tag where "read_u32le buf pos = Ok tag"
    by (auto simp: decode_body_def obind_Ok_iff)
  then have "pos + 4 \<le> length buf" by (rule read_u32le_Ok)
  moreover have "pos < nxt"
    using assms
    by (auto simp: decode_body_def decode_tagged_def obind_Ok_iff Let_def split: if_splits option.splits)
  ultimately show ?thesis by simp
qed

lemma decode_depth_advances: "decode_depth d buf pos = Ok (v, nxt) \<Longrightarrow> pos < nxt"
  by (cases d) (auto dest: decode_body_advances)

lemma decode_items_cong:
  assumes "\<And>p. cur \<le> p \<Longrightarrow> f p = g p" and "\<And>p v q. f p = Ok (v, q) \<Longrightarrow> p < q"
  shows "decode_items f n cur = decode_items g n cur"
  using assms(1)
proof (induction n arbitrary: cur)
  case (Suc n)
  have e: "f cur = g cur" using Suc.prems by simp
  show ?case
  proof (cases "f cur")
    case (Ok x)
    obtain v q where x: "x = (v, q)" by (cases x)
    with Ok assms(2) have "cur < q" by blast
    then have "decode_items f n q = decode_items g n q" using Suc by simp
    moreover have "g cur = Ok (v, q)" using e Ok x by simp
    ultimately show ?thesis using Ok x by simp
  qed (simp_all add: e [symmetric])
qed simp

lemma decode_key_advances: "decode_key buf cur = Ok (k, q) \<Longrightarrow> cur \<le> q"
  by (auto simp: decode_key_def obind_Ok_iff Let_def split: if_splits option.splits)

lemma decode_pairs_cong:
  assumes "\<And>p. cur \<le> p \<Longrightarrow> f p = g p" and "\<And>p v q. f p = Ok (v, q) \<Longrightarrow> p < q"
  shows "decode_pairs buf f n cur m = decode_pairs buf g n cur m"
  using assms(1)
proof (induction n arbitrary: cur m)
  case (Suc n)
  show ?case
  proof (cases "decode_key buf cur")
    case (Ok k)
    obtain key c1 where k: "k = (key, c1)" by (cases k)
    with Ok have c1: "cur \<le> c1" by (simp add: decode_key_advances)
    then have e: "f c1 = g c1" using Suc.prems by simp
    show ?thesis
    proof (cases "f c1")
      case f: (Ok x)
      obtain v q where x: "x = (v, q)" by (cases x)
      with f assms(2) have "c1 < q" by blast
      then have "decode_pairs buf f n q m' = decode_pairs buf g n q m'" for m'
        using Suc c1 by simp
      moreover have "g c1 = Ok (v, q)" using e f x by simp
      ultimately show ?thesis using f x Ok k by simp
    qed (simp_all add: e [symmetric] Ok k)
  qed simp_all
qed simp

lemma decode_body_cong:
  assumes "\<And>p. pos + 12 \<le> p \<Longrightarrow> f p = g p" and "\<And>p v q. f p = Ok (v, q) \<Longrightarrow> p < q"
  shows "decode_body f buf pos = decode_body g buf pos"
proof -
  have p: "pos + 4 + 8 = pos + 12" by simp
  have "decode_items f n (pos + 4 + 8) = decode_items g n (pos + 4 + 8)" for n
    unfolding p by (rule decode_items_cong [OF assms])
  moreover have "decode_pairs buf f n (pos + 4 + 8) m = decode_pairs buf g n (pos + 4 + 8) m" for n m
    unfolding p by (rule decode_pairs_cong [OF assms])
  ultimately show ?thesis by (simp only: decode_body_def decode_tagged_def)
qed

lemma decode_depth_enough:
  "length buf \<le> pos + d \<Longrightarrow> decode_depth (Suc (Suc d)) buf pos = decode_depth (Suc d) buf pos"
proof (induction d arbitrary: pos)
  case 0
  then have "read_u32le buf pos = Err (TooShort (pos + 4) (length buf))"
    by (simp add: read_u32le_def xget_def slice_get_def)
  then show ?case by (simp add: decode_body_def)
next
  case (Suc d)
  have "decode_body (decode_depth (Suc (Suc d)) buf) buf pos =
      decode_body (decode_depth (Suc d) buf) buf pos"
  proof (rule decode_body_cong)
    show "decode_depth (Suc (Suc d)) buf p = decode_depth (Suc d) buf p" if "pos + 12 \<le> p" for p
      using that Suc by simp
  qed (rule decode_depth_advances)
  then show ?case by (simp only: decode_depth.simps)
qed

lemma decode_depth_any:
  "length buf - pos < d \<Longrightarrow> decode_depth d buf pos = decode_value buf pos"
proof (induction d)
  case (Suc d)
  show ?case
  proof (cases "length buf - pos < d")
    case True
    then obtain e where "d = Suc e" by (cases d) auto
    with True Suc show ?thesis using decode_depth_enough [of buf pos e] by simp
  next
    case False
    then have "d = length buf - pos" using Suc.prems by simp
    then show ?thesis by (simp add: decode_value_def)
  qed
qed simp

text \<open>The recursion of the source.\<close>

lemma decode_value_unfold: "decode_value buf pos = decode_body (decode_value buf) buf pos"
proof -
  have "decode_value buf pos = decode_depth (Suc (Suc (length buf - pos))) buf pos"
    by (rule decode_depth_any [symmetric]) simp
  also have "\<dots> = decode_body (decode_depth (Suc (length buf - pos)) buf) buf pos" by simp
  also have "\<dots> = decode_body (decode_value buf) buf pos"
    by (rule decode_body_cong) (rule decode_depth_any, simp, rule decode_depth_advances)
  finally show ?thesis .
qed

lemma decode_value_advances: "decode_value buf pos = Ok (v, nxt) \<Longrightarrow> pos < nxt"
  by (simp add: decode_value_def decode_depth_advances del: decode_depth.simps)

section \<open>Decoding an encoded value\<close>

definition xkey_ok :: "string \<Rightarrow> bool" where
  "xkey_ok s \<longleftrightarrow> valid_str s \<and> 0 \<notin> set (bytes_of s)"

fun xv_ok :: "xvalue \<Rightarrow> bool" where
  "xv_ok (XString s) = xkey_ok s"
| "xv_ok (XUuid u) = (length u = 16)"
| "xv_ok (XArray vs) = list_all xv_ok vs"
| "xv_ok (XDictionary m) = (distinct (map fst m) \<and> list_all xkey_ok (map fst m) \<and>
    list_all (\<lambda>(k, v). xv_ok v) m)"
| "xv_ok _ = True"

lemma pad4_ge: "n \<le> pad4 n"
  by (simp add: pad4_def)

lemma length_padding [simp]: "n + length (padding n) = pad4 n"
  using pad4_ge by (simp add: padding_def)

lemma length_encode_dict_key [simp]: "length (encode_dict_key k) = pad4 (length k + 1)"
  by (simp add: encode_dict_key_def flip: length_padding)

lemma read_u32le_at: "at_pos buf pos (u32_le w @ r) \<Longrightarrow> read_u32le buf pos = Ok w"
  using at_pos_slice [of buf pos "u32_le w" r 4] by (simp add: read_u32le_def xget_def)

lemma read_u64le_at: "at_pos buf pos (u64_le w @ r) \<Longrightarrow> read_u64le buf pos = Ok w"
  using at_pos_slice [of buf pos "u64_le w" r 8] by (simp add: read_u64le_def xget_def)

lemma xget_at: "at_pos buf pos (xs @ r) \<Longrightarrow> length xs = n \<Longrightarrow> xget buf pos (pos + n) = Ok xs"
  using at_pos_slice [of buf pos xs r n] by (simp add: xget_def)

lemma takeWhile_key:
  "0 \<notin> set bs \<Longrightarrow> takeWhile (\<lambda>b. b \<noteq> 0) (bs @ 0 # r) = (bs :: bytes)"
  by (subst takeWhile_append2) auto

lemma decode_key_at:
  assumes "xkey_ok k" and "at_pos buf cur (encode_dict_key k @ r)"
  shows "decode_key buf cur = Ok (k, cur + pad4 (length k + 1))"
proof -
  have "slice_idx buf cur (length buf) = (Ok (encode_dict_key k @ r) :: (xpc_error, bytes) outcome)"
    using at_pos_rest [OF assms(2)] by (simp add: slice_idx_def)
  moreover have "takeWhile (\<lambda>b. b \<noteq> 0) (encode_dict_key k @ r) = bytes_of k"
    using assms(1) takeWhile_key by (simp add: encode_dict_key_def xkey_ok_def)
  ultimately show ?thesis using assms(1)
    by (simp add: decode_key_def xkey_ok_def Let_def encode_dict_key_def)
qed

lemma decode_items_at:
  assumes "\<And>v pos post. v \<in> set vs \<Longrightarrow> at_pos buf pos (encode_value v @ post) \<Longrightarrow>
      dec pos = Ok (v, pos + length (encode_value v))"
    and "at_pos buf cur (concat (map encode_value vs) @ post)"
  shows "decode_items dec (length vs) cur = Ok vs"
  using assms
proof (induction vs arbitrary: cur)
  case (Cons v vs)
  have a: "at_pos buf cur (encode_value v @ (concat (map encode_value vs) @ post))"
    using Cons.prems(2) by simp
  have "decode_items dec (length vs) (cur + length (encode_value v)) = Ok vs"
    by (rule Cons.IH [OF Cons.prems(1) at_pos_skip [OF a refl]]) simp_all
  then show ?case using Cons.prems(1) [OF _ a] by simp
qed simp

lemma decode_pairs_at:
  assumes "\<And>x pos post. x \<in> set kvs \<Longrightarrow> at_pos buf pos (encode_value (snd x) @ post) \<Longrightarrow>
      dec pos = Ok (snd x, pos + length (encode_value (snd x)))"
    and "list_all xkey_ok (map fst kvs)" and "distinct (map fst (m @ kvs))"
    and "at_pos buf cur (concat (map (\<lambda>(k, v). encode_dict_key k @ encode_value v) kvs) @ post)"
  shows "decode_pairs buf dec (length kvs) cur m = Ok (m @ kvs)"
  using assms
proof (induction kvs arbitrary: cur m)
  case (Cons kv kvs)
  obtain k v where kv: "kv = (k, v)" by (cases kv)
  let ?tl = "concat (map (\<lambda>(k, v). encode_dict_key k @ encode_value v) kvs) @ post"
  have a: "at_pos buf cur (encode_dict_key k @ (encode_value v @ ?tl))"
    using Cons.prems(4) kv by simp
  have key: "decode_key buf cur = Ok (k, cur + pad4 (length k + 1))"
    by (rule decode_key_at [OF _ a]) (use Cons.prems(2) kv in simp)
  have a1: "at_pos buf (cur + pad4 (length k + 1)) (encode_value v @ ?tl)"
    by (rule at_pos_skip [OF a]) simp
  let ?c = "cur + pad4 (length k + 1) + length (encode_value v)"
  have "dec (cur + pad4 (length k + 1)) = Ok (v, ?c)"
    using Cons.prems(1) [of kv] a1 kv by simp
  moreover have "decode_pairs buf dec (length kvs) ?c (m @ [(k, v)]) = Ok ((m @ [(k, v)]) @ kvs)"
    by (rule Cons.IH [OF Cons.prems(1) _ _ at_pos_skip [OF a1 refl]])
      (use Cons.prems kv in auto)
  moreover have "ainsert k v m = m @ [(k, v)]"
    by (rule ainsert_new) (use Cons.prems(3) kv in auto)
  ultimately show ?case using key kv by simp
qed simp

lemma length_concat_elem_le: "x \<in> set xs \<Longrightarrow> length (g x) \<le> length (concat (map g xs))"
  by (induction xs) auto

lemma length_le_concat:
  assumes "\<And>x. x \<in> set xs \<Longrightarrow> 0 < length (g x)"
  shows "length xs \<le> length (concat (map g xs))"
  using assms
proof (induction xs)
  case (Cons a xs)
  then have "0 < length (g a)" and "length xs \<le> length (concat (map g xs))" by simp_all
  then show ?case by (simp del: length_greater_0_conv)
qed simp

lemma encode_value_pos [simp]: "0 < length (encode_value v)"
  by (cases v) (simp_all add: Let_def)

lemma u32_size: "n < 2 ^ 32 \<Longrightarrow> unat (word_of_nat n :: u32) = n"
  by (rule unat_word_of_nat_less) simp

lemma u32_size4: "4 + n < 2 ^ 32 \<Longrightarrow> unat (4 + word_of_nat n :: u32) = 4 + n"
  using u32_size [of "4 + n"] by (simp only: of_nat_add of_nat_numeral)

lemma decode_tagged_simps:
  "decode_tagged dec buf p TYPE_NULL = Ok (XNull, p)"
  "decode_tagged dec buf p TYPE_BOOL =
    obind (xget buf p (p + 1)) (\<lambda>b. Ok (XBool (b ! 0 \<noteq> 0), p + 4))"
  "decode_tagged dec buf p TYPE_INT64 = obind (read_u64le buf p) (\<lambda>n. Ok (XInt64 n, p + 8))"
  "decode_tagged dec buf p TYPE_UINT64 = obind (read_u64le buf p) (\<lambda>n. Ok (XUint64 n, p + 8))"
  "decode_tagged dec buf p TYPE_DOUBLE = obind (read_u64le buf p) (\<lambda>n. Ok (XDouble n, p + 8))"
  "decode_tagged dec buf p TYPE_DATA =
    obind (read_u32le buf p) (\<lambda>n. obind (xget buf (p + 4) (p + 4 + unat n))
      (\<lambda>d. Ok (XData d, p + 4 + pad4 (unat n))))"
  "decode_tagged dec buf p TYPE_STRING =
    obind (read_u32le buf p) (\<lambda>n. obind (xget buf (p + 4) (p + 4 + unat n)) (\<lambda>raw.
      case from_utf8 (takeWhile (\<lambda>b. b \<noteq> 0) raw) of None \<Rightarrow> Err InvalidUtf8
      | Some s \<Rightarrow> Ok (XString s, p + 4 + pad4 (unat n))))"
  "decode_tagged dec buf p TYPE_UUID = obind (xget buf p (p + 16)) (\<lambda>u. Ok (XUuid u, p + 16))"
  "decode_tagged dec buf p TYPE_ARRAY =
    obind (read_u32le buf p) (\<lambda>total_size. obind (read_u32le buf (p + 4)) (\<lambda>count.
      obind (decode_items dec (unat count) (p + 8)) (\<lambda>items.
        Ok (XArray items, p + 4 + unat total_size))))"
  "decode_tagged dec buf p TYPE_DICTIONARY =
    obind (read_u32le buf p) (\<lambda>total_size. obind (read_u32le buf (p + 4)) (\<lambda>count.
      obind (decode_pairs buf dec (unat count) (p + 8) []) (\<lambda>m.
        Ok (XDictionary m, p + 4 + unat total_size))))"
  by (simp_all add: decode_tagged_def xtypes Let_def)

text \<open>The tag is read and the match applied to what follows it.\<close>

lemma decode_value_tag:
  assumes "at_pos buf pos (u32_le t @ r)"
  shows "decode_value buf pos = decode_tagged (decode_value buf) buf (pos + 4) t \<and>
    at_pos buf (pos + 4) r"
  using read_u32le_at [OF assms] at_pos_skip [OF assms length_u_bytes(2)]
  by (subst decode_value_unfold) (simp add: decode_body_def)

lemma decode_value_sized:
  assumes "at_pos buf pos (u32_le t @ (u32_le n @ r))"
  shows "decode_value buf pos = decode_tagged (decode_value buf) buf (pos + 4) t \<and>
    read_u32le buf (pos + 4) = Ok n \<and> at_pos buf (pos + 4 + 4) r"
proof -
  have "at_pos buf (pos + 4) (u32_le n @ r)" using decode_value_tag [OF assms] by simp
  then show ?thesis using decode_value_tag [OF assms] read_u32le_at at_pos_skip length_u_bytes(2)
    by blast
qed

lemma decode_counted:
  assumes "at_pos buf pos (u32_le t @ u32_le (4 + word_of_nat (length body)) @
      u32_le (word_of_nat n) @ body @ post)"
    and "12 + length body < 2 ^ 32" and "n \<le> length body"
  shows "decode_value buf pos = decode_tagged (decode_value buf) buf (pos + 4) t"
    and "read_u32le buf (pos + 4) = Ok (4 + word_of_nat (length body))"
    and "read_u32le buf (pos + 4 + 4) = Ok (word_of_nat n)"
    and "at_pos buf (pos + 4 + 8) (body @ post)"
    and "unat (word_of_nat n :: u32) = n"
    and "unat (4 + word_of_nat (length body) :: u32) = 4 + length body"
proof -
  have a: "at_pos buf pos (u32_le t @ (u32_le (4 + word_of_nat (length body)) @
      (u32_le (word_of_nat n) @ (body @ post))))" using assms(1) by simp
  note s = decode_value_sized [OF a]
  then have a2: "at_pos buf (pos + 4 + 4) (u32_le (word_of_nat n) @ (body @ post))" by blast
  show "decode_value buf pos = decode_tagged (decode_value buf) buf (pos + 4) t"
    and "read_u32le buf (pos + 4) = Ok (4 + word_of_nat (length body))" using s by blast+
  show "read_u32le buf (pos + 4 + 4) = Ok (word_of_nat n)" using a2 by (rule read_u32le_at)
  show "at_pos buf (pos + 4 + 8) (body @ post)"
    using at_pos_skip [OF a2 length_u_bytes(2)] by (simp add: add.assoc)
  show "unat (word_of_nat n :: u32) = n" by (rule u32_size) (use assms(2,3) in simp)
  show "unat (4 + word_of_nat (length body) :: u32) = 4 + length body"
    by (rule u32_size4) (use assms(2) in simp)
qed

lemma decode_scalar:
  assumes "at_pos buf pos (u32_le t @ u64_le w @ post)"
  shows "decode_value buf pos = decode_tagged (decode_value buf) buf (pos + 4) t \<and>
    read_u64le buf (pos + 4) = Ok w"
  using decode_value_tag [OF assms] read_u64le_at by blast

lemma decode_encode_leaf:
  assumes "at_pos buf pos (encode_value v @ post)" and "xv_ok v"
    and "length (encode_value v) < 2 ^ 32"
    and "\<And>vs. v \<noteq> XArray vs" and "\<And>m. v \<noteq> XDictionary m"
  shows "decode_value buf pos = Ok (v, pos + length (encode_value v))"
proof (cases v)
  case XNull
  then show ?thesis using decode_value_tag [of buf pos TYPE_NULL post] assms(1)
    by (simp add: decode_tagged_simps)
next
  case (XBool b)
  then have "at_pos buf pos (u32_le TYPE_BOOL @ ([if b then 1 else 0] @ ([0, 0, 0] @ post)))"
    using assms(1) by simp
  from decode_value_tag [OF this] xget_at [of buf "pos + 4" "[if b then 1 else 0]" "[0, 0, 0] @ post" 1]
  show ?thesis using XBool by (simp add: decode_tagged_simps)
next
  case (XInt64 n)
  then show ?thesis using decode_scalar [of buf pos TYPE_INT64 n post] assms(1)
    by (simp add: decode_tagged_simps)
next
  case (XUint64 n)
  then show ?thesis using decode_scalar [of buf pos TYPE_UINT64 n post] assms(1)
    by (simp add: decode_tagged_simps)
next
  case (XDouble n)
  then show ?thesis using decode_scalar [of buf pos TYPE_DOUBLE n post] assms(1)
    by (simp add: decode_tagged_simps)
next
  case (XData d)
  have sz: "unat (word_of_nat (length d) :: u32) = length d"
    by (rule u32_size) (use assms(3) XData pad4_ge [of "length d"] in simp)
  have "at_pos buf pos (u32_le TYPE_DATA @ (u32_le (word_of_nat (length d)) @
      (d @ (padding (length d) @ post))))" using assms(1) XData by simp
  from decode_value_sized [OF this] xget_at [of buf "pos + 4 + 4" d "padding (length d) @ post"]
  show ?thesis using XData sz
    by (simp add: decode_tagged_simps flip: length_padding)
next
  case (XString s)
  have l: "length s + 1 + length (padding (length s + 1)) = pad4 (length s + 1)" by (rule length_padding)
  have sz: "unat (word_of_nat (length s + 1) :: u32) = length s + 1"
    by (rule u32_size) (use assms(3) XString in simp)
  have "at_pos buf pos (u32_le TYPE_STRING @ (u32_le (word_of_nat (length s + 1)) @
      ((bytes_of s @ [0]) @ (padding (length s + 1) @ post))))" using assms(1) XString by simp
  from decode_value_sized [OF this]
    xget_at [of buf "pos + 4 + 4" "bytes_of s @ [0]" "padding (length s + 1) @ post" "length s + 1"]
  have "decode_value buf pos = Ok (XString s, pos + 4 + 4 + pad4 (length s + 1))"
    using assms(2) XString sz takeWhile_key [of "bytes_of s" "[]"]
    by (simp add: decode_tagged_simps xkey_ok_def del: of_nat_Suc of_nat_add)
  then show ?thesis using XString l by (simp del: length_padding)
next
  case (XUuid u)
  then show ?thesis
    using decode_value_tag [of buf pos TYPE_UUID "u @ post"] assms(1,2) xget_at [of buf "pos + 4" u post 16]
    by (simp add: decode_tagged_simps)
qed (use assms(4,5) in blast)+

lemma decode_encode_value:
  assumes "xv_ok v" and "length (encode_value v) < 2 ^ 32" and "at_pos buf pos (encode_value v @ post)"
  shows "decode_value buf pos = Ok (v, pos + length (encode_value v))"
  using assms
proof (induction v arbitrary: pos post)
  case (XArray vs)
  let ?ib = "concat (map encode_value vs)"
  have a: "at_pos buf pos (u32_le TYPE_ARRAY @ u32_le (4 + word_of_nat (length ?ib)) @
      u32_le (word_of_nat (length vs)) @ ?ib @ post)"
    using XArray.prems(3) by (simp add: Let_def)
  have lt: "12 + length ?ib < 2 ^ 32" using XArray.prems(2) by (simp add: Let_def)
  have n: "length vs \<le> length ?ib" by (rule length_le_concat) (rule encode_value_pos)
  note c = decode_counted [OF a lt n]
  have "decode_items (decode_value buf) (length vs) (pos + 4 + 8) = Ok vs"
  proof (rule decode_items_at [OF _ c(4)])
    fix v pos post assume v: "v \<in> set vs" and at: "at_pos buf pos (encode_value v @ post)"
    have "length (encode_value v) < 2 ^ 32"
      using lt length_concat_elem_le [OF v, of encode_value] by linarith
    then show "decode_value buf pos = Ok (v, pos + length (encode_value v))"
      using XArray.IH [OF v _ _ at] XArray.prems(1) v by (simp add: list_all_iff)
  qed
  then show ?case using c(1,2,3,5,6) by (simp add: decode_tagged_simps Let_def)
next
  case (XDictionary m)
  let ?g = "\<lambda>(k, v). encode_dict_key k @ encode_value v"
  let ?kb = "concat (map ?g m)"
  have a: "at_pos buf pos (u32_le TYPE_DICTIONARY @ u32_le (4 + word_of_nat (length ?kb)) @
      u32_le (word_of_nat (length m)) @ ?kb @ post)"
    using XDictionary.prems(3) by (simp add: Let_def)
  have lt: "12 + length ?kb < 2 ^ 32" using XDictionary.prems(2) by (simp add: Let_def)
  have n: "length m \<le> length ?kb"
    by (rule length_le_concat) (use encode_value_pos in \<open>auto split: prod.splits simp del: encode_value_pos\<close>)
  note c = decode_counted [OF a lt n]
  have "decode_pairs buf (decode_value buf) (length m) (pos + 4 + 8) [] = Ok ([] @ m)"
  proof (rule decode_pairs_at [OF _ _ _ c(4)])
    fix x pos post assume x: "x \<in> set m" and at: "at_pos buf pos (encode_value (snd x) @ post)"
    have "length (encode_value (snd x)) < 2 ^ 32"
      using lt length_concat_elem_le [OF x, of ?g] by (auto split: prod.splits)
    then show "decode_value buf pos = Ok (snd x, pos + length (encode_value (snd x)))"
      using XDictionary.IH [OF x snds.intros _ _ at] XDictionary.prems(1) x
      by (force simp: list_all_iff)
  qed (use XDictionary.prems(1) in simp_all)
  then show ?case using c(1,2,3,5,6) by (simp add: decode_tagged_simps Let_def)
qed (rule decode_encode_leaf, assumption, simp, assumption, simp, simp)+

section \<open>Messages\<close>

definition xmsg_ok :: "xmessage \<Rightarrow> bool" where
  "xmsg_ok m \<longleftrightarrow> (case xbody m of None \<Rightarrow> True
    | Some v \<Rightarrow> xv_ok v \<and> length (encode_value v) < 2 ^ 32)"

lemma length_encode_message:
  "length (encode_message m) = 24 + (case xbody m of None \<Rightarrow> 0 | Some v \<Rightarrow> 8 + length (encode_value v))"
  by (simp add: encode_message_def Let_def split: option.splits)

lemma decode_encode_message:
  assumes "xmsg_ok m"
  shows "decode_message (encode_message m @ rest) = Ok (m, length (encode_message m))"
proof -
  define p where "p = (case xbody m of None \<Rightarrow> []
    | Some v \<Rightarrow> u32_le PAYLOAD_MAGIC @ u32_le PAYLOAD_VERSION @ encode_value v)"
  define buf where "buf = encode_message m @ rest"
  have e: "encode_message m = u32_le WRAPPER_MAGIC @ u32_le (xflags m) @
      u64_le (word_of_nat (length p)) @ u64_le (xmsg_id m) @ p"
    by (simp add: encode_message_def p_def Let_def split: option.splits)
  have a0: "at_pos buf 0 (u32_le WRAPPER_MAGIC @ (u32_le (xflags m) @
      (u64_le (word_of_nat (length p)) @ (u64_le (xmsg_id m) @ (p @ rest)))))"
    using at_pos_start [of "[]" buf] by (simp add: buf_def e)
  note a4 = at_pos_skip [OF a0 length_u_bytes(2), unfolded add_0]
  note a8 = at_pos_skip [OF a4 length_u_bytes(2)]
  note a16 = at_pos_skip [OF a8 length_u_bytes(3)]
  note a24 = at_pos_skip [OF a16 length_u_bytes(3)]
  have lp: "length p < 2 ^ 33" using assms by (auto simp: p_def xmsg_ok_def split: option.splits)
  have bl: "unat (word_of_nat (length p) :: u64) = length p"
    by (rule unat_word_of_nat_less) (use lp in simp)
  have len: "length buf = 24 + length p + length rest" by (simp add: buf_def e)
  have body: "(if 8 \<le> length p then
        obind (slice_idx buf 24 (24 + length p)) (\<lambda>pb. obind (read_u32le pb 0) (\<lambda>pmag.
          if pmag \<noteq> PAYLOAD_MAGIC then Err (BadMagic pmag)
          else obind (decode_value pb 8) (\<lambda>(v, _). Ok (Some v))))
      else Ok None) = Ok (xbody m)"
  proof (cases "xbody m")
    case None
    then show ?thesis by (simp add: p_def)
  next
    case (Some v)
    then have pv: "p = u32_le PAYLOAD_MAGIC @ u32_le PAYLOAD_VERSION @ encode_value v"
      by (simp add: p_def)
    have sl: "(slice_idx buf 24 (24 + length p) :: (xpc_error, bytes) outcome) = Ok p"
      using at_pos_slice [OF a24 refl] by (simp add: slice_idx_def)
    have b0: "at_pos p 0 (u32_le PAYLOAD_MAGIC @ (u32_le PAYLOAD_VERSION @ encode_value v))"
      using at_pos_start [of "[]" p] by (simp add: pv)
    have "at_pos p 8 (encode_value v @ [])"
      using at_pos_skip [OF at_pos_skip [OF b0 length_u_bytes(2)] length_u_bytes(2)] by simp
    then have "decode_value p 8 = Ok (v, 8 + length (encode_value v))"
      by (rule decode_encode_value [rotated 2]) (use assms Some in \<open>simp_all add: xmsg_ok_def\<close>)
    then show ?thesis using sl read_u32le_at [OF b0] Some by (simp add: pv)
  qed
  have "decode_message buf = Ok (m, 24 + length p)"
    using read_u32le_at [OF a0] read_u32le_at [OF a4] read_u64le_at [OF a8] read_u64le_at [OF a16]
      bl len lp body
    by (simp add: decode_message_def)
  then show ?thesis by (simp add: buf_def e)
qed

text \<open>What was decoded lies inside the buffer and does not depend on what follows it.\<close>

lemma slice_get_append_more:
  "slice_get buf a b = Some ys \<Longrightarrow> slice_get (buf @ zs) a b = Some ys"
  by (auto simp: slice_get_def split: if_splits)

lemma read_more:
  "read_u32le buf pos = Ok w \<Longrightarrow> read_u32le (buf @ zs) pos = Ok w"
  "read_u64le buf pos = Ok v \<Longrightarrow> read_u64le (buf @ zs) pos = Ok v"
  by (auto simp: read_u32le_def read_u64le_def xget_def obind_Ok_iff slice_get_append_more)

lemma decode_message_Ok:
  assumes "decode_message buf = Ok (m, n)"
  shows "24 \<le> n \<and> n \<le> length buf \<and> decode_message (buf @ zs) = Ok (m, n)"
proof -
  from assms obtain fl bl mid where r: "read_u32le buf 0 = Ok WRAPPER_MAGIC" "read_u32le buf 4 = Ok fl"
    "read_u64le buf 8 = Ok bl" "read_u64le buf 16 = Ok mid" "24 \<le> length buf"
    by (auto simp: decode_message_def obind_Ok_iff split: if_splits)
  have t: "\<not> 2 ^ 64 \<le> 24 + unat bl" "24 + unat bl \<le> length buf" and n: "n = 24 + unat bl"
    using assms r by (auto simp: decode_message_def obind_Ok_iff Let_def split: if_splits)
  have "slice_idx (buf @ zs) 24 (24 + unat bl) =
      (slice_idx buf 24 (24 + unat bl) :: (xpc_error, bytes) outcome)"
    using t(2) by (simp add: slice_idx_def slice_get_def)
  then have "decode_message (buf @ zs) = decode_message buf"
    using r t read_more [of buf] by (simp add: decode_message_def Let_def)
  with assms t n show ?thesis by simp
qed

section \<open>Properties\<close>

text \<open>
  C3: Every XPC message whose strings are NUL-free UTF-8, whose dictionary keys are distinct and
  whose encoding fits 32-bit lengths is decoded back exactly, with the number of bytes it took,
  whatever follows it in the buffer; the order of the dictionary entries does not matter.
\<close>

theorem xpc_roundtrip:
  assumes "xmsg_ok m"
  shows "decode_message (encode_message m @ rest) = Ok (m, length (encode_message m))"
  using assms by (rule decode_encode_message)

theorem xpc_roundtrip_witness:
  "let m = msg_with_body 7 (XDictionary [(''a'', XArray [XUint64 1, XString ''xy'', XNull]),
      (''bc'', XData [1, 2, 3])])
   in decode_message (encode_message m @ [9]) = Ok (m, length (encode_message m))"
proof -
  let ?v = "XDictionary [(''a'', XArray [XUint64 1, XString ''xy'', XNull]), (''bc'', XData [1, 2, 3])]"
  have "xv_ok ?v" and "length (encode_value ?v) < 1000" by code_simp+
  then have "xmsg_ok (msg_with_body 7 ?v)" by (simp add: xmsg_ok_def msg_with_body_def)
  then show ?thesis unfolding Let_def by (rule xpc_roundtrip)
qed

text \<open>
  A successful decode consumes at least the header and at most the buffer, and appending
  further bytes changes neither the message nor the count: a reader that accumulates frames and
  retries never reads a different message than the one that was complete.
\<close>

theorem decode_message_stable:
  assumes "decode_message buf = Ok (m, n)"
  shows "24 \<le> n \<and> n \<le> length buf \<and> decode_message (buf @ zs) = Ok (m, n)"
  using assms by (rule decode_message_Ok)

theorem decode_message_stable_witness:
  "decode_message (encode_message (msg_init 1) @ [1, 2]) = Ok (msg_init 1, 24)"
proof -
  have "decode_message (encode_message (msg_init 1)) = Ok (msg_init 1, 24)" by code_simp
  from decode_message_stable [OF this, of "[1, 2]"] show ?thesis by simp
qed

text \<open>
  The decoder recurses exactly as the source does, and every nested call is at a later
  position, so the recursion ends on every buffer.
\<close>

theorem decode_value_recursion:
  "decode_value buf pos = decode_body (decode_value buf) buf pos \<and>
    (case decode_value buf pos of Ok (v, nxt) \<Rightarrow> pos < nxt | _ \<Rightarrow> True)"
  using decode_value_unfold [of buf pos] decode_value_advances [of buf pos]
  by (auto split: outcome.splits)

definition overlong_dict :: bytes where
  "overlong_dict = u32_le TYPE_DICTIONARY @ u32_le 4 @ u32_le 2 @ encode_dict_key ''k'' @
     u32_le TYPE_ARRAY @ u32_le 100 @ u32_le 0"

text \<open>
  A dictionary whose first value claims to reach past the end of the buffer makes the decoder
  panic on its second key instead of returning an error.
\<close>

theorem decode_overlong_dict_panics: "decode_value overlong_dict 0 = Panic"
  by code_simp

end
