(* ===== verification/RemoteXpc.thy ===== *)
theory RemoteXpc
  imports H2 Xpc TextFmt
begin

text \<open>
  The RemoteXPC connection of \<open>src/src/remotexpc/conn.rs\<close>: HTTP/2 frames under XPC messages,
  one socket, a buffer of received DATA payloads and the next message id. The mutexes guard one
  field each and are held for the length of one operation, so an operation is a state
  transformer; the buffered reader and writer are the socket. The loops are total because
  every frame takes bytes from the peer's script. \<open>receive_spec\<close> is the main result: messages
  come out in order however they are split over DATA frames, and control frames in between are
  answered and change nothing else.
\<close>

section \<open>State and operations\<close>

datatype rx_error = RxIo io_kind | RxXpc xpc_error | RxClosed

record rxconn =
  rxc_sock :: sock
  rxc_buf :: bytes
  rxc_next :: u64

definition STREAM_CS :: u32 where "STREAM_CS = 1"
definition STREAM_SC :: u32 where "STREAM_SC = 3"

definition on_sock :: "(sock, io_kind, 'a) prog \<Rightarrow> (rxconn, rx_error, 'a) prog" where
  "on_sock m c = (case m (rxc_sock c) of (r, s) \<Rightarrow> (map_err RxIo r, c\<lparr>rxc_sock := s\<rparr>))"

lemma on_sock_simps [simp, prog]:
  "m (rxc_sock c) = (r, s) \<Longrightarrow> on_sock m c = (map_err RxIo r, c\<lparr>rxc_sock := s\<rparr>)"
  by (simp add: on_sock_def)

definition alloc_msg_id :: "rxconn \<Rightarrow> u64 \<times> rxconn" where
  "alloc_msg_id c = (rxc_next c, c\<lparr>rxc_next := rxc_next c + 2\<rparr>)"

definition write_xpc_data :: "u32 \<Rightarrow> xmessage \<Rightarrow> (rxconn, rx_error, unit) prog" where
  "write_xpc_data stream_id msg = on_sock (write_data stream_id (encode_message msg))"

definition rx_send :: "xvalue \<Rightarrow> (rxconn, rx_error, u64) prog" where
  "rx_send value c = (let (msg_id, c1) = alloc_msg_id c;
      msg = \<lparr>xflags = ALWAYS_SET OR DATA_PRESENT OR WANTING_REPLY, xmsg_id = msg_id,
        xbody = Some value\<rparr>
    in bnd (write_xpc_data STREAM_CS msg) (\<lambda>_. ret msg_id) c1)"

text \<open>The length of the message at the front of the buffer, when it is complete.\<close>

definition complete_len :: "bytes \<Rightarrow> nat option" where
  "complete_len buf =
    (if 24 \<le> length buf then
       (let total = unat (24 + u64_of_le (take 8 (drop 8 buf)) :: u64) in
        if total \<le> length buf then Some total else None)
     else None)"

fun on_frame :: "h2frame \<Rightarrow> (rxconn, rx_error, unit) prog" where
  "on_frame (FData sid payload) c = (Ok (), c\<lparr>rxc_buf := rxc_buf c @ payload\<rparr>)"
| "on_frame (FSettings fl pairs) c =
    (if fl AND FLAG_ACK = 0 then on_sock write_settings_ack c else (Ok (), c))"
| "on_frame (FPing ack opaque) c =
    (if ack then (Ok (), c) else on_sock (write_ping_ack opaque) c)"
| "on_frame (FGoAway l e) c = (Err RxClosed, c)"
| "on_frame _ c = (Ok (), c)"

lemma on_sock_Ok_iff:
  "on_sock m c = (Ok x, c') \<longleftrightarrow> (\<exists>s. m (rxc_sock c) = (Ok x, s) \<and> c' = c\<lparr>rxc_sock := s\<rparr>)"
  by (auto simp: on_sock_def split: prod.splits)

lemma snd_on_sock: "snd (on_sock m c) = c\<lparr>rxc_sock := snd (m (rxc_sock c))\<rparr>"
  by (simp add: on_sock_def split: prod.splits)

lemma on_frame_inp: "inp (rxc_sock (snd (on_frame f c))) = inp (rxc_sock c)"
proof -
  have "inp (snd (write_frame_raw t fl sid p s)) = inp s" for t fl sid p s
    unfolding write_frame_raw_def
    by (rule bnd_keeps) (simp_all add: write_all_inp)
  then show ?thesis
    by (cases f) (simp_all add: snd_on_sock write_settings_ack_def write_ping_ack_def)
qed

function receive :: "(rxconn, rx_error, xmessage) prog" where
  "receive c = (case complete_len (rxc_buf c) of
     Some len \<Rightarrow>
       (case decode_message (take len (rxc_buf c)) of
          Ok (msg, _) \<Rightarrow> (Ok msg, c\<lparr>rxc_buf := drop len (rxc_buf c)\<rparr>)
        | Err e \<Rightarrow> (Err (RxXpc e), c)
        | Panic \<Rightarrow> (Panic, c))
   | None \<Rightarrow>
       (case on_sock (on_inp h2_read_frame) c of
          (Ok f, c1) \<Rightarrow> (case on_frame f c1 of
             (Ok _, c2) \<Rightarrow> receive c2
           | (Err e, c2) \<Rightarrow> (Err e, c2)
           | (Panic, c2) \<Rightarrow> (Panic, c2))
        | (Err e, c1) \<Rightarrow> (Err e, c1)
        | (Panic, c1) \<Rightarrow> (Panic, c1)))"
  by pat_completeness auto
termination
proof (relation "measure (\<lambda>c. weight (inp (rxc_sock c)))", goal_cases)
  case (2 c r c1 f r2 c2)
  then have "on_sock (on_inp h2_read_frame) c = (Ok f, c1)" by simp
  then have "weight (inp (rxc_sock c1)) < weight (inp (rxc_sock c))"
    by (auto simp: on_sock_Ok_iff on_inp_Ok_iff dest!: h2_read_frame_weight)
  moreover have "c2 = snd (on_frame f c1)" using 2 by (metis snd_conv)
  ultimately show ?case using on_frame_inp [of f c1] by simp
qed simp

declare receive.simps [simp del]

text \<open>Every received message takes bytes from the buffer or the peer.\<close>

definition rx_size :: "rxconn \<Rightarrow> nat" where
  "rx_size c = weight (inp (rxc_sock c)) + length (rxc_buf c)"

lemma on_frame_buf: "fst (on_frame f c) = Ok () \<Longrightarrow> rxc_buf (snd (on_frame f c)) = rxc_buf c @ h2_data f"
  by (cases f) (simp_all add: snd_on_sock)

lemma receive_size: "receive c = (Ok m, c') \<Longrightarrow> rx_size c' < rx_size c"
proof (induction c rule: receive.induct)
  case (1 c)
  show ?case
  proof (cases "complete_len (rxc_buf c)")
    case None
    with "1.prems" obtain f c1 where f: "on_sock (on_inp h2_read_frame) c = (Ok f, c1)"
      by (auto simp: receive.simps [of c] split: prod.splits outcome.splits)
    obtain r c2 where fr: "on_frame f c1 = (r, c2)" by fastforce
    with "1.prems" None f have r: "r = Ok ()" and rc: "receive c2 = (Ok m, c')"
      by (auto simp: receive.simps [of c] split: outcome.splits)
    have lt: "rx_size c' < rx_size c2"
      using "1.IH" [OF None f [symmetric] refl, of r c2 "()"] fr r rc by simp
    obtain i where i: "h2_read_frame (inp (rxc_sock c)) = (Ok f, i)"
      "c1 = c\<lparr>rxc_sock := (rxc_sock c)\<lparr>inp := i\<rparr>\<rparr>"
      using f by (auto simp: on_sock_Ok_iff on_inp_Ok_iff)
    have "rx_size c2 = weight i + length (rxc_buf c) + length (h2_data f)"
      using on_frame_inp [of f c1] on_frame_buf [of f c1] fr r i(2) by (simp add: rx_size_def)
    with lt h2_read_frame_weight [OF i(1)] show ?thesis by (simp add: rx_size_def)
  next
    case (Some len)
    with "1.prems" obtain n where d: "decode_message (take len (rxc_buf c)) = Ok (m, n)"
      and c': "c' = c\<lparr>rxc_buf := drop len (rxc_buf c)\<rparr>"
      by (auto simp: receive.simps [of c] split: outcome.splits)
    have "24 \<le> length (take len (rxc_buf c))" using decode_message_Ok [OF d, of "[]"] by simp
    then have "length (rxc_buf c) - len < length (rxc_buf c)" by auto
    then show ?thesis using c' by (simp add: rx_size_def)
  qed
qed

function wait_reply :: "u64 \<Rightarrow> (rxconn, rx_error, xvalue) prog" where
  "wait_reply msg_id c = (case receive c of
     (Ok msg, c1) \<Rightarrow>
       if xmsg_id msg = msg_id \<or> xflags msg AND REPLY \<noteq> 0
       then (ok_or (xbody msg) RxClosed, c1)
       else wait_reply msg_id c1
   | (Err e, c1) \<Rightarrow> (Err e, c1)
   | (Panic, c1) \<Rightarrow> (Panic, c1))"
  by pat_completeness auto
termination
  by (relation "measure (\<lambda>(i, c). rx_size c)") (auto dest!: sym [of _ "receive _"] receive_size)

declare wait_reply.simps [simp del]

definition rx_request :: "xvalue \<Rightarrow> (rxconn, rx_error, xvalue) prog" where
  "rx_request value = bnd (rx_send value) wait_reply"

text \<open>The handshake: preface, settings, window, two streams, three init messages, then the
  server's settings.\<close>

function wait_settings :: "(rxconn, rx_error, unit) prog" where
  "wait_settings c = (case on_sock (on_inp h2_read_frame) c of
     (Ok f, c1) \<Rightarrow> (case f of
         FSettings fl _ \<Rightarrow>
           if fl AND FLAG_ACK = 0 then on_sock write_settings_ack c1 else (Ok (), c1)
       | _ \<Rightarrow> wait_settings c1)
   | (Err e, c1) \<Rightarrow> (Err e, c1)
   | (Panic, c1) \<Rightarrow> (Panic, c1))"
  by pat_completeness auto
termination
  by (relation "measure (\<lambda>c. weight (inp (rxc_sock c)))")
    (auto simp: on_sock_Ok_iff on_inp_Ok_iff dest!: sym [of _ "on_sock _ _"] h2_read_frame_weight)

declare wait_settings.simps [simp del]

definition seq_all :: "('s, 'e, unit) prog list \<Rightarrow> ('s, 'e, unit) prog" where
  "seq_all ps = fold (\<lambda>p acc. bnd acc (\<lambda>_. p)) ps (ret ())"

definition handshake_writes :: "(sock, io_kind, unit) prog" where
  "handshake_writes = seq_all
    [write_all CLIENT_PREFACE,
     write_settings [(SETTING_MAX_CONCURRENT_STREAMS, 100), (SETTING_INITIAL_WINDOW_SIZE, 1048576)],
     write_window_update 0 983041,
     write_headers STREAM_CS,
     write_headers STREAM_SC,
     write_data STREAM_CS (encode_message (msg_init ALWAYS_SET)),
     write_data STREAM_CS (encode_message (msg_init (ALWAYS_SET OR 0x200))),
     write_data STREAM_SC (encode_message (msg_init (INIT_HANDSHAKE OR ALWAYS_SET)))]"

definition rx_handshake :: "(rxconn, rx_error, unit) prog" where
  "rx_handshake = bnd (on_sock handshake_writes) (\<lambda>_. wait_settings)"

definition rx_connect :: "sock \<Rightarrow> (rx_error, unit) outcome \<times> rxconn" where
  "rx_connect s = rx_handshake \<lparr>rxc_sock = s, rxc_buf = [], rxc_next = 1\<rparr>"

section \<open>Receiving\<close>

lemma take_append_le: "xs @ ys = us @ vs \<Longrightarrow> length us \<le> length xs \<Longrightarrow> \<exists>zs. xs = us @ zs \<and> vs = zs @ ys"
  by (metis append_eq_append_conv_if append_take_drop_id)

text \<open>The length field of an encoded message.\<close>

lemma encode_message_len:
  assumes "xmsg_ok m"
  shows "unat (24 + u64_of_le (take 8 (drop 8 (encode_message m))) :: u64) = length (encode_message m)"
proof -
  let ?n = "case xbody m of None \<Rightarrow> 0 | Some v \<Rightarrow> 8 + length (encode_value v)"
  have "u64_of_le (take 8 (drop 8 (encode_message m))) = word_of_nat ?n"
    by (simp add: encode_message_def Let_def split: option.splits)
  moreover have "24 + ?n < 2 ^ 64" using assms by (auto simp: xmsg_ok_def split: option.splits)
  then have "unat (word_of_nat (24 + ?n) :: u64) = 24 + ?n" by (intro unat_word_of_nat_less) simp
  ultimately show ?thesis by (simp only: length_encode_message of_nat_add of_nat_numeral)
qed

lemma complete_len_enough:
  assumes "xmsg_ok m" and "buf = encode_message m @ zs"
  shows "complete_len buf = Some (length (encode_message m))"
proof -
  have "24 \<le> length (encode_message m)" by (simp add: length_encode_message)
  then show ?thesis using encode_message_len [OF assms(1)] assms(2) by (simp add: complete_len_def)
qed

lemma complete_len_short:
  assumes "xmsg_ok m" and "buf @ ys = encode_message m @ zs" and "length buf < length (encode_message m)"
  shows "complete_len buf = None"
proof (cases "24 \<le> length buf")
  case True
  have "take 8 (drop 8 buf) = take 8 (drop 8 (take 24 buf))" by (simp add: drop_take)
  also have "take 24 buf = take 24 (buf @ ys)" using True by simp
  also have "\<dots> = take 24 (encode_message m)" unfolding assms(2) by (simp add: length_encode_message)
  finally have "take 8 (drop 8 buf) = take 8 (drop 8 (encode_message m))" by (simp add: drop_take)
  then show ?thesis using encode_message_len [OF assms(1)] assms(3)
    by (simp add: complete_len_def)
qed (simp add: complete_len_def)

text \<open>What the connection writes in answer to a frame.\<close>

fun reply_to :: "h2frame \<Rightarrow> bytes" where
  "reply_to (FSettings fl pairs) = (if fl AND FLAG_ACK = 0 then h2_put (FSettings FLAG_ACK []) else [])"
| "reply_to (FPing ack opaque) = (if ack then [] else h2_put (FPing True opaque))"
| "reply_to _ = []"

fun is_goaway :: "h2frame \<Rightarrow> bool" where
  "is_goaway (FGoAway l e) = True"
| "is_goaway _ = False"

lemma on_frame_ok:
  assumes "\<not> is_goaway f" and "room (rxc_sock c) = None"
  shows "on_frame f c = (Ok (), c\<lparr>rxc_buf := rxc_buf c @ h2_data f,
    rxc_sock := (rxc_sock c)\<lparr>outp := outp (rxc_sock c) @ reply_to f\<rparr>\<rparr>)"
  using assms writers_emit [OF assms(2)] by (cases f) simp_all

text \<open>The connection, and the frames still to come on it.\<close>

definition rx_sees :: "rxconn \<Rightarrow> h2frame list \<Rightarrow> bool" where
  "rx_sees c fs \<longleftrightarrow> list_all h2_wf fs \<and> \<not> list_ex is_goaway fs \<and> room (rxc_sock c) = None \<and>
    avail (inp (rxc_sock c)) = concat (map h2_put fs)"

definition data_of :: "h2frame list \<Rightarrow> bytes" where
  "data_of fs = concat (map h2_data fs)"

lemma receive_frame:
  assumes "complete_len (rxc_buf c) = None" and "rx_sees c (f # fs)"
  shows "\<exists>c2. receive c = receive c2 \<and> rx_sees c2 fs \<and> rxc_buf c2 = rxc_buf c @ h2_data f \<and>
    outp (rxc_sock c2) = outp (rxc_sock c) @ reply_to f \<and> rxc_next c2 = rxc_next c"
proof -
  have wf: "h2_wf f" and av: "avail (inp (rxc_sock c)) = h2_put f @ concat (map h2_put fs)"
    using assms(2) by (simp_all add: rx_sees_def)
  obtain i where i: "h2_read_frame (inp (rxc_sock c)) = (Ok f, i)" "avail i = concat (map h2_put fs)"
    using h2.get_put [OF wf av] by blast
  let ?c1 = "c\<lparr>rxc_sock := (rxc_sock c)\<lparr>inp := i\<rparr>\<rparr>"
  let ?c2 = "snd (on_frame f ?c1)"
  have "on_frame f ?c1 = (Ok (), ?c1\<lparr>rxc_buf := rxc_buf ?c1 @ h2_data f,
      rxc_sock := (rxc_sock ?c1)\<lparr>outp := outp (rxc_sock ?c1) @ reply_to f\<rparr>\<rparr>)"
    by (rule on_frame_ok) (use assms(2) in \<open>simp_all add: rx_sees_def\<close>)
  moreover have "on_sock (on_inp h2_read_frame) c = (Ok f, ?c1)" using i(1) by simp
  ultimately show ?thesis using assms i(2)
    by (subst receive.simps [of c]) (force simp: rx_sees_def)
qed

lemma receive_spec:
  assumes "rx_sees c fs" and "xmsg_ok m" and "rxc_buf c @ data_of fs = encode_message m @ zs"
  shows "\<exists>c' k. receive c = (Ok m, c') \<and> rx_sees c' (drop k fs) \<and>
    rxc_buf c' @ data_of (drop k fs) = zs \<and>
    outp (rxc_sock c') = outp (rxc_sock c) @ concat (map reply_to (take k fs)) \<and>
    rxc_next c' = rxc_next c"
  using assms(1,3)
proof (induction fs arbitrary: c)
  have ready: "\<exists>c' k. receive c = (Ok m, c') \<and> rx_sees c' (drop k fs) \<and>
      rxc_buf c' @ data_of (drop k fs) = zs \<and>
      outp (rxc_sock c') = outp (rxc_sock c) @ concat (map reply_to (take k fs)) \<and>
      rxc_next c' = rxc_next c"
    if sees: "rx_sees c fs" and eq: "rxc_buf c @ data_of fs = encode_message m @ zs"
      and le: "length (encode_message m) \<le> length (rxc_buf c)" for c fs
  proof -
    obtain us where us: "rxc_buf c = encode_message m @ us" "zs = us @ data_of fs"
      using take_append_le [OF eq le] by blast
    have "decode_message (encode_message m) = Ok (m, length (encode_message m))"
      using decode_encode_message [OF assms(2), of "[]"] by simp
    then have "receive c = (Ok m, c\<lparr>rxc_buf := us\<rparr>)"
      using complete_len_enough [OF assms(2) us(1)] us(1) by (simp add: receive.simps [of c])
    then show ?thesis using sees us(2)
      by (intro exI [of _ "c\<lparr>rxc_buf := us\<rparr>"] exI [of _ 0]) (simp add: rx_sees_def)
  qed
  {
    case Nil
    then show ?case by (intro ready) (simp_all add: data_of_def)
  next
    case (Cons f fs)
    show ?case
    proof (cases "length (encode_message m) \<le> length (rxc_buf c)")
      case True
      then show ?thesis using Cons.prems by (intro ready)
    next
      case False
      then have "complete_len (rxc_buf c) = None"
        using complete_len_short [OF assms(2) Cons.prems(2)] by simp
      from receive_frame [OF this Cons.prems(1)] obtain c2 where
        c2: "receive c = receive c2" "rx_sees c2 fs" "rxc_buf c2 = rxc_buf c @ h2_data f"
          "outp (rxc_sock c2) = outp (rxc_sock c) @ reply_to f" "rxc_next c2 = rxc_next c" by blast
      have "rxc_buf c2 @ data_of fs = encode_message m @ zs"
        using Cons.prems(2) c2(3) by (simp add: data_of_def)
      from Cons.IH [OF c2(2) this] obtain c' k where
        "receive c2 = (Ok m, c')" "rx_sees c' (drop k fs)" "rxc_buf c' @ data_of (drop k fs) = zs"
        "outp (rxc_sock c') = outp (rxc_sock c2) @ concat (map reply_to (take k fs))"
        "rxc_next c' = rxc_next c2" by blast
      then show ?thesis using c2 by (intro exI [of _ c'] exI [of _ "Suc k"]) simp
    qed
  }
qed

lemma receive_many:
  assumes "rx_sees c fs" and "list_all xmsg_ok ms"
    and "rxc_buf c @ data_of fs = concat (map encode_message ms) @ zs"
  shows "\<exists>c' k. recv_n (length ms) receive c = (Ok ms, c') \<and> rx_sees c' (drop k fs) \<and>
    rxc_buf c' @ data_of (drop k fs) = zs \<and>
    outp (rxc_sock c') = outp (rxc_sock c) @ concat (map reply_to (take k fs))"
  using assms
proof (induction ms arbitrary: c fs)
  case Nil
  then show ?case by (intro exI [of _ c] exI [of _ 0]) simp
next
  case (Cons m ms)
  then have "xmsg_ok m" and
    "rxc_buf c @ data_of fs = encode_message m @ (concat (map encode_message ms) @ zs)" by simp_all
  from receive_spec [OF Cons.prems(1) this] obtain c1 k where
    c1: "receive c = (Ok m, c1)" "rx_sees c1 (drop k fs)"
      "rxc_buf c1 @ data_of (drop k fs) = concat (map encode_message ms) @ zs"
      "outp (rxc_sock c1) = outp (rxc_sock c) @ concat (map reply_to (take k fs))" by blast
  have "list_all xmsg_ok ms" using Cons.prems(2) by simp
  from Cons.IH [OF c1(2) this c1(3)] obtain c2 j where
    c2: "recv_n (length ms) receive c1 = (Ok ms, c2)" "rx_sees c2 (drop j (drop k fs))"
      "rxc_buf c2 @ data_of (drop j (drop k fs)) = zs"
      "outp (rxc_sock c2) = outp (rxc_sock c1) @ concat (map reply_to (take j (drop k fs)))" by blast
  have "take (k + j) fs = take k fs @ take j (drop k fs)" by (rule take_add)
  then show ?case using c1 c2
    by (intro exI [of _ c2] exI [of _ "k + j"]) (simp add: add.commute)
qed

definition matches :: "u64 \<Rightarrow> xmessage \<Rightarrow> bool" where
  "matches i m \<longleftrightarrow> xmsg_id m = i \<or> xflags m AND REPLY \<noteq> 0"

lemma wait_reply_spec:
  assumes "rx_sees c fs" and "list_all xmsg_ok ms"
    and "rxc_buf c @ data_of fs = concat (map encode_message ms) @ zs"
    and "find (matches i) ms = Some m"
  shows "fst (wait_reply i c) = ok_or (xbody m) RxClosed"
  using assms
proof (induction ms arbitrary: c fs)
  case (Cons m1 ms)
  then have "xmsg_ok m1" and
    "rxc_buf c @ data_of fs = encode_message m1 @ (concat (map encode_message ms) @ zs)" by simp_all
  from receive_spec [OF Cons.prems(1) this] obtain c1 k where
    c1: "receive c = (Ok m1, c1)" "rx_sees c1 (drop k fs)"
      "rxc_buf c1 @ data_of (drop k fs) = concat (map encode_message ms) @ zs" by blast
  show ?case
  proof (cases "matches i m1")
    case True
    then show ?thesis using c1(1) Cons.prems(4) by (simp add: wait_reply.simps [of i c] matches_def)
  next
    case False
    then have "wait_reply i c = wait_reply i c1"
      using c1(1) by (simp add: wait_reply.simps [of i c] matches_def)
    then show ?thesis using Cons.IH [OF c1(2) _ c1(3)] Cons.prems(2,4) False by simp
  qed
qed simp

section \<open>Sending\<close>

lemma rx_send_unlimited:
  assumes "room (rxc_sock c) = None"
  shows "rx_send v c = (Ok (rxc_next c), c\<lparr>rxc_next := rxc_next c + 2, rxc_sock := (rxc_sock c)
    \<lparr>outp := outp (rxc_sock c) @ h2_put (FData STREAM_CS (encode_message (msg_with_body (rxc_next c) v)))\<rparr>\<rparr>)"
  using assms writers_emit(1) [of "rxc_sock c"]
  by (simp add: rx_send_def alloc_msg_id_def write_xpc_data_def msg_with_body_def)

fun rx_send_all :: "xvalue list \<Rightarrow> (rxconn, rx_error, u64 list) prog" where
  "rx_send_all [] = ret []"
| "rx_send_all (v # vs) = bnd (rx_send v) (\<lambda>i. bnd (rx_send_all vs) (\<lambda>is. ret (i # is)))"

lemma rx_send_all_ids:
  "room (rxc_sock c) = None \<Longrightarrow>
    fst (rx_send_all vs c) = Ok (alloc_seq (\<lambda>x. x + 2) (length vs) (rxc_next c))"
proof (induction vs arbitrary: c)
  case (Cons v vs)
  let ?c = "snd (rx_send v c)"
  have e: "rx_send v c = (Ok (rxc_next c), ?c)" "rxc_next ?c = rxc_next c + 2" "room (rxc_sock ?c) = None"
    using rx_send_unlimited [OF Cons.prems, of v] Cons.prems by simp_all
  from Cons.IH [OF e(3)] obtain c2 where
    "rx_send_all vs ?c = (Ok (alloc_seq (\<lambda>x. x + 2) (length vs) (rxc_next c + 2)), c2)"
    by (cases "rx_send_all vs ?c") (simp add: e(2))
  then show ?case using e(1) by simp
qed simp

lemma odd_ids: "((\<lambda>x. x + 2) ^^ i) (1 :: u64) = word_of_nat (1 + 2 * i)"
  by (induction i) (simp_all add: algebra_simps)

section \<open>Properties\<close>

text \<open>
  C4: XPC messages are received in order and unchanged however they are split over DATA frames
  and however the transport cuts the bytes; settings and pings in between are acknowledged, in
  order, and nothing else is written.
\<close>

theorem receive_in_order:
  assumes "rx_sees c fs" and "list_all xmsg_ok ms"
    and "rxc_buf c @ data_of fs = concat (map encode_message ms) @ zs"
  shows "\<exists>c' k. recv_n (length ms) receive c = (Ok ms, c') \<and>
    rxc_buf c' @ data_of (drop k fs) = zs \<and>
    outp (rxc_sock c') = outp (rxc_sock c) @ concat (map reply_to (take k fs))"
  using receive_many [OF assms] by blast

definition demo_conn :: "h2frame list \<Rightarrow> rxconn" where
  "demo_conn fs = \<lparr>rxc_sock = \<lparr>inp = [Data (concat (map h2_put fs))], outp = [], room = None\<rparr>,
    rxc_buf = [], rxc_next = 1\<rparr>"

definition demo_frames :: "h2frame list" where
  "demo_frames = (let e = encode_message (msg_reply 1 (XUint64 5)) in
    [FData 1 (take 10 e), FSettings 0 [], FData 1 (drop 10 e)])"

lemma demo_frames_ok: "rx_sees (demo_conn demo_frames) demo_frames"
  "list_all xmsg_ok [msg_reply 1 (XUint64 5)]"
  "rxc_buf (demo_conn demo_frames) @ data_of demo_frames =
    concat (map encode_message [msg_reply 1 (XUint64 5)]) @ []"
  by code_simp+

theorem receive_in_order_witness:
  "\<exists>c'. recv_n 1 receive (demo_conn demo_frames) = (Ok [msg_reply 1 (XUint64 5)], c')"
  using receive_in_order [OF demo_frames_ok] by auto

text \<open>
  A request returns the body of the first incoming message that carries its id or is marked
  as a reply, even a reply to another request; messages before it are dropped.
\<close>

theorem request_first_match:
  assumes "rx_sees c fs" and "list_all xmsg_ok ms"
    and "rxc_buf c @ data_of fs = concat (map encode_message ms) @ zs"
    and "find (\<lambda>m. xmsg_id m = rxc_next c \<or> xflags m AND REPLY \<noteq> 0) ms = Some m"
  shows "fst (rx_request v c) = ok_or (xbody m) RxClosed"
proof -
  let ?c = "snd (rx_send v c)"
  have room: "room (rxc_sock c) = None" using assms(1) by (simp add: rx_sees_def)
  note e = rx_send_unlimited [OF room, of v]
  have "rx_sees ?c fs" and "rxc_buf ?c = rxc_buf c" using assms(1) e by (simp_all add: rx_sees_def)
  moreover have "find (matches (rxc_next c)) ms = Some m"
    using assms(4) by (simp add: matches_def [abs_def])
  ultimately have "fst (wait_reply (rxc_next c) ?c) = ok_or (xbody m) RxClosed"
    using wait_reply_spec [of ?c fs ms zs "rxc_next c" m] assms(2,3) by simp
  then show ?thesis using e by (simp add: rx_request_def)
qed

theorem request_first_match_witness:
  "fst (rx_request XNull (demo_conn demo_frames)) = Ok (XUint64 5)"
proof -
  have "find (\<lambda>m. xmsg_id m = rxc_next (demo_conn demo_frames) \<or> xflags m AND REPLY \<noteq> 0)
      [msg_reply 1 (XUint64 5)] = Some (msg_reply 1 (XUint64 5))"
    by (simp add: demo_conn_def msg_reply_def)
  from request_first_match [OF demo_frames_ok this] show ?thesis by (simp add: msg_reply_def)
qed

text \<open>
  Up to \<open>2^63\<close> requests on a fresh connection get pairwise different, odd message ids.
\<close>

theorem message_ids_odd_distinct:
  assumes "length vs \<le> 2 ^ 63" and "room (rxc_sock c) = None" and "rxc_next c = 1"
  shows "\<exists>is. fst (rx_send_all vs c) = Ok is \<and> distinct is \<and> length is = length vs \<and>
    list_all (\<lambda>i. odd (unat i)) is"
proof -
  let ?is = "alloc_seq (\<lambda>x :: u64. x + 2) (length vs) 1"
  have u: "unat (?is ! i) = 1 + 2 * i" if "i < length vs" for i
  proof -
    have "1 + 2 * i < 2 ^ 64" using that assms(1) by simp
    then have "unat (word_of_nat (1 + 2 * i) :: u64) = 1 + 2 * i" by (intro unat_word_of_nat_less) simp
    then show ?thesis using that by (simp only: nth_alloc_seq odd_ids)
  qed
  have "distinct ?is"
  proof (subst distinct_conv_nth, intro allI impI)
    fix i j assume "i < length ?is" "j < length ?is" "i \<noteq> j"
    with u [of i] u [of j] show "?is ! i \<noteq> ?is ! j" by auto
  qed
  moreover have "list_all (\<lambda>i. odd (unat i)) ?is" using u by (simp add: list_all_length)
  ultimately show ?thesis using rx_send_all_ids [OF assms(2), of vs] assms(3) by simp
qed

theorem message_ids_odd_distinct_witness:
  "\<exists>is. fst (rx_send_all [XNull, XBool True] (demo_conn [])) = Ok is \<and> distinct is"
  using message_ids_odd_distinct [of "[XNull, XBool True]" "demo_conn []"] by (auto simp: demo_conn_def)

end
