(* ===== verification/Rsd.thy ===== *)
theory Rsd
  imports RemoteXpc
begin

text \<open>
  Remote service discovery, \<open>src/src/rsd/mod.rs\<close>: the handshake message of the device, its
  service catalogue, the check-in of the shim services and the byte relay between two sockets.
  The relay threads are modelled by the function each of them runs.
\<close>

section \<open>The catalogue\<close>

definition RSD_PORT :: u16 where "RSD_PORT = 58783"

record service_entry =
  se_port :: u16
  se_uses_remote_xpc :: bool
  se_properties :: "(string \<times> xvalue) list"

record peer_info =
  pi_udid :: string
  pi_product_type :: string
  pi_os_version :: string
  pi_build_version :: string

datatype rsd_error = RsdXpc rx_error | RsdIo io_kind | RsdProtocol string

definition str_or :: "(string \<times> xvalue) list \<Rightarrow> string \<Rightarrow> string" where
  "str_or d key = (case Option.bind (map_of d key) xas_str of None \<Rightarrow> [] | Some s \<Rightarrow> s)"

fun port_of :: "xvalue \<Rightarrow> u16 option" where
  "port_of (XString s) = parse_u16 s"
| "port_of v = map_option ucast (xas_u64 v)"

definition parse_service_entry :: "xvalue \<Rightarrow> service_entry option" where
  "parse_service_entry v =
    Option.bind (xas_dict v) (\<lambda>dict.
      Option.bind (Option.bind (map_of dict ''Port'') port_of) (\<lambda>port.
        let props = Option.bind (map_of dict ''Properties'') xas_dict;
            uses = Option.bind (Option.bind props (\<lambda>d. map_of d ''UsesRemoteXPC'')) xas_bool
        in Some \<lparr>se_port = port,
                 se_uses_remote_xpc = (case uses of None \<Rightarrow> False | Some b \<Rightarrow> b),
                 se_properties = (case props of None \<Rightarrow> [] | Some d \<Rightarrow> d)\<rparr>))"

definition parse_handshake ::
  "xvalue \<Rightarrow> (rsd_error, peer_info \<times> (string \<times> service_entry) list) outcome" where
  "parse_handshake body =
    obind (ok_or (xas_dict body) (RsdProtocol ''Handshake body not a dict'')) (\<lambda>dict.
      obind (ok_or (Option.bind (map_of dict ''Properties'') xas_dict)
          (RsdProtocol ''no Properties in Handshake'')) (\<lambda>props.
        let peer = \<lparr>pi_udid = str_or props ''UniqueDeviceID'',
                    pi_product_type = str_or props ''ProductType'',
                    pi_os_version = str_or props ''OSVersion'',
                    pi_build_version = str_or props ''BuildVersion''\<rparr>;
            services = (case Option.bind (map_of dict ''Services'') xas_dict of
                None \<Rightarrow> []
              | Some svc_map \<Rightarrow>
                  fold (\<lambda>(name, v) m. case parse_service_entry v of
                      Some e \<Rightarrow> ainsert name e m
                    | None \<Rightarrow> m) svc_map [])
        in Ok (peer, services)))"

record rsd_client =
  rsd_conn :: rxconn
  rsd_peer_info :: peer_info
  rsd_services :: "(string \<times> service_entry) list"

text \<open>Wait for the first message that is a handshake.\<close>

function rsd_from_conn :: "rxconn \<Rightarrow> (rsd_error, rsd_client) outcome" where
  "rsd_from_conn c = (case receive c of
     (Ok msg, c1) \<Rightarrow>
       (case xbody msg of
          None \<Rightarrow> rsd_from_conn c1
        | Some body \<Rightarrow>
            (case parse_handshake body of
               Ok (peer, services) \<Rightarrow>
                 Ok \<lparr>rsd_conn = c1, rsd_peer_info = peer, rsd_services = services\<rparr>
             | _ \<Rightarrow> rsd_from_conn c1))
   | (Err e, c1) \<Rightarrow> Err (RsdXpc e)
   | (Panic, c1) \<Rightarrow> Panic)"
  by pat_completeness auto
termination
  by (relation "measure rx_size") (auto dest!: sym [of _ "receive _"] receive_size)

declare rsd_from_conn.simps [simp del]

definition rsd_service :: "rsd_client \<Rightarrow> string \<Rightarrow> service_entry option" where
  "rsd_service r name = map_of (rsd_services r) name"

definition checkin_plist :: string where
  "checkin_plist =
    ''<?xml version='' @ [CHR 0x22] @ ''1.0'' @ [CHR 0x22] @ '' encoding='' @ [CHR 0x22] @ ''UTF-8'' @
    [CHR 0x22] @ ''?>'' @ [CHR 0x0A] @
    ''<!DOCTYPE plist PUBLIC '' @ [CHR 0x22] @ ''-//Apple//DTD PLIST 1.0//EN'' @ [CHR 0x22] @ '' '' @
    [CHR 0x22] @ ''http://www.apple.com/DTDs/PropertyList-1.0.dtd'' @ [CHR 0x22] @ ''>'' @ [CHR 0x0A] @
    ''<plist version='' @ [CHR 0x22] @ ''1.0'' @ [CHR 0x22] @ ''><dict>'' @
    ''<key>Label</key><string>devicelink</string>'' @
    ''<key>ProtocolVersion</key><string>2</string>'' @
    ''<key>Request</key><string>RSDCheckin</string>'' @
    ''</dict></plist>'' @ [CHR 0x0A]"

definition rsd_checkin :: "(sock, rsd_error, unit) prog" where
  "rsd_checkin = on_err RsdIo
    (bnd (write_all (u32_be (word_of_nat (length checkin_plist))))
      (\<lambda>_. write_all (bytes_of checkin_plist)))"

text \<open>One direction of the relay: what \<open>src\<close> delivers until it ends or \<open>dst\<close> refuses it.\<close>

function copy_half :: "script \<Rightarrow> sock \<Rightarrow> script \<times> sock" where
  "copy_half src dst = (case read_some 16384 src of
     (Inl k, src1) \<Rightarrow> (src1, dst)
   | (Inr [], src1) \<Rightarrow> (src1, dst)
   | (Inr (b # bs), src1) \<Rightarrow> (case write_all (b # bs) dst of
       (Ok _, dst1) \<Rightarrow> copy_half src1 dst1
     | (_, dst1) \<Rightarrow> (src1, dst1)))"
  by pat_completeness auto
termination
  by (relation "measure (\<lambda>(src, dst). weight src)")
    (auto dest!: sym [of _ "read_some _ _"] read_some_weight)

declare copy_half.simps [simp del]

section \<open>Facts\<close>

lemma copy_half_unlimited:
  "room dst = None \<Longrightarrow> snd (copy_half src dst) = dst\<lparr>outp := outp dst @ avail src\<rparr>"
proof (induction src dst rule: copy_half.induct)
  case (1 src dst)
  show ?case
  proof (cases "avail src = []")
    case True
    then show ?thesis
      by (subst copy_half.simps) (auto simp: read_some_end split: list.splits rd_event.splits)
  next
    case False
    then obtain b bs s1 where r: "read_some 16384 src = (Inr (b # bs), s1)"
      "avail src = (b # bs) @ avail s1"
      using read_some_data [of 16384 src] by (metis list.exhaust zero_less_numeral)
    let ?d = "dst\<lparr>outp := outp dst @ b # bs\<rparr>"
    have w: "write_all (b # bs) dst = (Ok (), ?d)" using "1.prems" by simp
    have "copy_half src dst = copy_half s1 ?d" using r(1) w by (simp add: copy_half.simps [of src dst])
    then show ?thesis
      using "1.IH" [OF r(1) [symmetric] refl refl w [symmetric] refl] "1.prems" r(2) by simp
  qed
qed

lemma rsd_from_conn_spec:
  assumes "rx_sees c fs" and "list_all xmsg_ok ms"
    and "rxc_buf c @ data_of fs = concat (map encode_message ms) @ zs"
    and "find (\<lambda>m. \<exists>b r. xbody m = Some b \<and> parse_handshake b = Ok r) ms = Some m"
    and "xbody m = Some b" and "parse_handshake b = Ok (p, svcs)"
  shows "\<exists>r. rsd_from_conn c = Ok r \<and> rsd_peer_info r = p \<and> rsd_services r = svcs"
  using assms(1-4)
proof (induction ms arbitrary: c fs)
  case (Cons m1 ms)
  then have "xmsg_ok m1" and
    "rxc_buf c @ data_of fs = encode_message m1 @ (concat (map encode_message ms) @ zs)" by simp_all
  from receive_spec [OF Cons.prems(1) this] obtain c1 k where
    c1: "receive c = (Ok m1, c1)" "rx_sees c1 (drop k fs)"
      "rxc_buf c1 @ data_of (drop k fs) = concat (map encode_message ms) @ zs" by blast
  show ?case
  proof (cases "\<exists>b r. xbody m1 = Some b \<and> parse_handshake b = Ok r")
    case True
    then have "m1 = m" using Cons.prems(4) by (auto split: if_splits)
    then show ?thesis using c1(1) assms(5,6) by (simp add: rsd_from_conn.simps [of c])
  next
    case False
    then have "rsd_from_conn c = rsd_from_conn c1"
      using c1(1) by (auto simp: rsd_from_conn.simps [of c] split: option.splits outcome.splits)
    moreover have "find (\<lambda>m. \<exists>b r. xbody m = Some b \<and> parse_handshake b = Ok r) ms = Some m"
      using Cons.prems(4) False by (auto split: if_splits)
    ultimately show ?thesis using Cons.IH [OF c1(2) _ c1(3)] Cons.prems(2) by simp
  qed
qed simp

text \<open>The catalogue as a map: the entries that parse, under their names.\<close>

lemma services_lookup:
  assumes "distinct (map fst svc)"
  shows "map_of (fold (\<lambda>(name, v) m. case parse_service_entry v of
      Some e \<Rightarrow> ainsert name e m | None \<Rightarrow> m) svc m0) name =
    (case Option.bind (map_of svc name) parse_service_entry of
       Some e \<Rightarrow> Some e | None \<Rightarrow> map_of m0 name)"
  using assms
proof (induction svc arbitrary: m0)
  case (Cons x svc)
  obtain n v where x: "x = (n, v)" by (cases x)
  have "map_of svc n = None" using Cons.prems x by (simp add: map_of_eq_None_iff)
  then show ?case using Cons x
    by (auto simp: ainsert_lookup split: option.splits)
qed (simp split: option.splits)

section \<open>Properties\<close>

text \<open>
  Connecting to the discovery service skips every message without a body or without
  properties and returns the peer information and the catalogue of the first handshake, however
  the messages are split into frames.
\<close>

theorem rsd_first_handshake:
  assumes "rx_sees c fs" and "list_all xmsg_ok ms"
    and "rxc_buf c @ data_of fs = concat (map encode_message ms) @ zs"
    and "find (\<lambda>m. \<exists>b r. xbody m = Some b \<and> parse_handshake b = Ok r) ms = Some m"
    and "xbody m = Some b" and "parse_handshake b = Ok (p, svcs)"
  shows "\<exists>r. rsd_from_conn c = Ok r \<and> rsd_peer_info r = p \<and> rsd_services r = svcs"
  using assms by (rule rsd_from_conn_spec)

definition demo_handshake :: xvalue where
  "demo_handshake = XDictionary [(''Properties'', XDictionary [(''ProductType'', XString ''iPhone'')]),
    (''Services'', XDictionary [(''a'', XDictionary [(''Port'', XString ''700'')]), (''b'', XNull)])]"

definition demo_rsd_frames :: "h2frame list" where
  "demo_rsd_frames = [FData 3 (encode_message (msg_init 1)),
    FData 3 (encode_message (msg_reply 2 demo_handshake))]"

theorem rsd_first_handshake_witness:
  "\<exists>r. rsd_from_conn (demo_conn demo_rsd_frames) = Ok r \<and>
    map_option se_port (rsd_service r ''a'') = Some 700 \<and> rsd_service r ''b'' = None"
proof -
  let ?ms = "[msg_init 1, msg_reply 2 demo_handshake]"
  have s: "rx_sees (demo_conn demo_rsd_frames) demo_rsd_frames" "list_all xmsg_ok ?ms"
    "rxc_buf (demo_conn demo_rsd_frames) @ data_of demo_rsd_frames = concat (map encode_message ?ms) @ []"
    by code_simp+
  define r where "r = parse_handshake demo_handshake"
  have p: "r = Ok (\<lparr>pi_udid = [], pi_product_type = ''iPhone'', pi_os_version = [], pi_build_version = []\<rparr>,
      [(''a'', \<lparr>se_port = 700, se_uses_remote_xpc = False, se_properties = []\<rparr>)])"
    unfolding r_def by code_simp
  have "find (\<lambda>m. \<exists>b r. xbody m = Some b \<and> parse_handshake b = Ok r) ?ms =
      Some (msg_reply 2 demo_handshake)"
    using p by (simp add: msg_init_def msg_reply_def r_def)
  from rsd_first_handshake [OF s this _ p [unfolded r_def]] show ?thesis
    by (auto simp: msg_reply_def rsd_service_def)
qed

text \<open>
  After a handshake, looking a service up gives the parsed entry of that name, and nothing
  for a name that is absent or whose entry has no usable port.
\<close>

theorem catalogue_lookup:
  assumes "parse_handshake (XDictionary dict) = Ok (p, svcs)"
    and "map_of dict ''Services'' = Some (XDictionary svc)" and "distinct (map fst svc)"
  shows "map_of svcs name = Option.bind (map_of svc name) parse_service_entry"
  using assms services_lookup [OF assms(3), of "[]" name]
  by (auto simp: parse_handshake_def obind_Ok_iff Let_def split: option.splits)

theorem catalogue_lookup_witness:
  "map_of (snd (case parse_handshake demo_handshake of Ok x \<Rightarrow> x)) ''b'' = None"
proof -
  obtain p svcs where r: "parse_handshake demo_handshake = Ok (p, svcs)"
    by (simp add: demo_handshake_def parse_handshake_def)
  have "map_of svcs ''b'' = Option.bind (map_of [(''a'', XDictionary [(''Port'', XString ''700'')]),
      (''b'', XNull)] ''b'') parse_service_entry"
    by (rule catalogue_lookup [OF r [unfolded demo_handshake_def]]) simp_all
  then show ?thesis by (simp add: r parse_service_entry_def)
qed

end
