(* ===== verification/Tlv8.thy ===== *)
theory Tlv8
  imports Plist
begin

text \<open>
  The byte formats of the RemotePairing handshake: the TLV8 codec of
  \<open>src/src/tunnel/remote_pairing/tlv8.rs\<close> and the hexadecimal and UUID texts of
  \<open>credentials.rs\<close>. A value longer than 255 bytes travels as several entries of one type and is
  put together again on decoding; the specification of the decoder is that it concatenates, per
  type, all values of that type.
\<close>

section \<open>TLV8\<close>

definition TLV_METHOD :: u8 where "TLV_METHOD = 0x00"
definition TLV_IDENTIFIER :: u8 where "TLV_IDENTIFIER = 0x01"
definition TLV_SALT :: u8 where "TLV_SALT = 0x02"
definition TLV_PUBLIC_KEY :: u8 where "TLV_PUBLIC_KEY = 0x03"
definition TLV_PROOF :: u8 where "TLV_PROOF = 0x04"
definition TLV_ENCRYPTED_DATA :: u8 where "TLV_ENCRYPTED_DATA = 0x05"
definition TLV_STATE :: u8 where "TLV_STATE = 0x06"
definition TLV_ERROR :: u8 where "TLV_ERROR = 0x07"
definition TLV_SIGNATURE :: u8 where "TLV_SIGNATURE = 0x0a"

lemmas tlv_types = TLV_METHOD_def TLV_IDENTIFIER_def TLV_SALT_def TLV_PUBLIC_KEY_def TLV_PROOF_def
  TLV_ENCRYPTED_DATA_def TLV_STATE_def TLV_ERROR_def TLV_SIGNATURE_def

definition tlv_piece :: "u8 \<Rightarrow> bytes \<Rightarrow> bytes" where
  "tlv_piece t c = t # word_of_nat (length c) # c"

definition tlv_entry :: "u8 \<times> bytes \<Rightarrow> bytes" where
  "tlv_entry e = (case e of (t, v) \<Rightarrow>
     if v = [] then [t, 0] else concat (map (tlv_piece t) (chunks 255 v)))"

definition tlv_encode :: "(u8 \<times> bytes) list \<Rightarrow> bytes" where
  "tlv_encode entries = concat (map tlv_entry entries)"

text \<open>\<open>map.entry(typ).or_default().extend_from_slice(v)\<close>\<close>

definition tlv_extend :: "u8 \<Rightarrow> bytes \<Rightarrow> (u8, bytes) amap \<Rightarrow> (u8, bytes) amap" where
  "tlv_extend t v m = ainsert t ((case map_of m t of None \<Rightarrow> [] | Some old \<Rightarrow> old) @ v) m"

function tlv_loop :: "bytes \<Rightarrow> (u8, bytes) amap \<Rightarrow> (u8, bytes) amap" where
  "tlv_loop (t # l # rest) m =
    tlv_loop (drop (unat l) rest) (tlv_extend t (take (unat l) rest) m)"
| "tlv_loop [] m = m"
| "tlv_loop [t] m = m"
  by pat_completeness auto
termination
  by (relation "measure (\<lambda>(d, m). length d)") auto

definition tlv_decode :: "bytes \<Rightarrow> (u8, bytes) amap" where
  "tlv_decode data = tlv_loop data []"

definition tlv_get_u8 :: "(u8, bytes) amap \<Rightarrow> u8 \<Rightarrow> u8 option" where
  "tlv_get_u8 m key = Option.bind (map_of m key) (\<lambda>v. case v of [] \<Rightarrow> None | b # _ \<Rightarrow> Some b)"

lemma ainsert_ainsert: "ainsert k v (ainsert k w m) = ainsert k v m"
  by (induction m) auto

lemma tlv_extend_extend: "tlv_extend t b (tlv_extend t a m) = tlv_extend t (a @ b) m"
  by (simp add: tlv_extend_def ainsert_lookup ainsert_ainsert)

lemma tlv_loop_piece:
  "length c \<le> 255 \<Longrightarrow> tlv_loop (tlv_piece t c @ r) m = tlv_loop r (tlv_extend t c m)"
  by (simp add: tlv_piece_def)

lemma tlv_loop_pieces:
  assumes "\<forall>c \<in> set (a # cs). length c \<le> 255"
  shows "tlv_loop (concat (map (tlv_piece t) (a # cs)) @ r) m =
    tlv_loop r (tlv_extend t (concat (a # cs)) m)"
  using assms
proof (induction cs arbitrary: a m)
  case Nil
  then show ?case by (simp add: tlv_loop_piece)
next
  case (Cons b cs)
  have "tlv_loop (concat (map (tlv_piece t) (a # b # cs)) @ r) m =
      tlv_loop (concat (map (tlv_piece t) (b # cs)) @ r) (tlv_extend t a m)"
    using Cons.prems tlv_loop_piece [of a t "concat (map (tlv_piece t) (b # cs)) @ r" m] by simp
  also have "\<dots> = tlv_loop r (tlv_extend t (concat (b # cs)) (tlv_extend t a m))"
    by (rule Cons.IH) (use Cons.prems in auto)
  finally show ?case by (simp add: tlv_extend_extend)
qed

lemma tlv_loop_entry: "tlv_loop (tlv_entry (t, v) @ r) m = tlv_loop r (tlv_extend t v m)"
proof (cases "v = []")
  case False
  then obtain a cs where c: "chunks 255 v = a # cs" by (subst (asm) chunks.simps) (auto simp: chunks.simps [of 255 v])
  have "\<forall>c \<in> set (a # cs). length c \<le> 255" using chunks_le [of _ 255 v] c by auto
  from tlv_loop_pieces [OF this, of t r m] show ?thesis
    using False c concat_chunks [of 255 v] by (simp add: tlv_entry_def)
qed (simp add: tlv_entry_def)

lemma tlv_loop_encode: "tlv_loop (tlv_encode es @ r) m = tlv_loop r (fold (\<lambda>(t, v). tlv_extend t v) es m)"
proof (induction es arbitrary: m)
  case (Cons e es)
  obtain t v where "e = (t, v)" by (cases e)
  with Cons tlv_loop_entry [of t v "tlv_encode es @ r" m] show ?case by (simp add: tlv_encode_def)
qed (simp add: tlv_encode_def)

lemma tlv_extend_lookup:
  "map_of (tlv_extend t v m) = (map_of m)(t \<mapsto> (case map_of m t of None \<Rightarrow> [] | Some old \<Rightarrow> old) @ v)"
  by (simp add: tlv_extend_def ainsert_lookup)

definition values_of :: "u8 \<Rightarrow> (u8 \<times> bytes) list \<Rightarrow> bytes list" where
  "values_of t es = map snd (filter (\<lambda>e. fst e = t) es)"

lemma tlv_fold_lookup:
  "map_of (fold (\<lambda>(t, v). tlv_extend t v) es m) t =
    (if values_of t es = [] then map_of m t
     else Some ((case map_of m t of None \<Rightarrow> [] | Some old \<Rightarrow> old) @ concat (values_of t es)))"
proof (induction es arbitrary: m)
  case (Cons e es)
  obtain s v where "e = (s, v)" by (cases e)
  with Cons show ?case
    by (auto simp: tlv_extend_lookup values_of_def split: option.splits)
qed (simp add: values_of_def)

section \<open>Hexadecimal and UUID texts\<close>

definition hex_encode :: "bytes \<Rightarrow> string" where
  "hex_encode b = concat (map hex2 b)"

text \<open>
  \<open>&s[i..i + 2]\<close> panics when fewer than two bytes are left or the slice would split a character;
  the iterator stops at the first parse error.
\<close>

fun hex_decode :: "string \<Rightarrow> (unit, bytes) outcome" where
  "hex_decode [] = Ok []"
| "hex_decode [c] = Panic"
| "hex_decode (c # d # rest) =
    (if (case rest of [] \<Rightarrow> True | e # _ \<Rightarrow> \<not> cont_byte (word_of_nat (of_char e))) then
       (case parse_hex2 c d of
          None \<Rightarrow> Err ()
        | Some b \<Rightarrow> obind (hex_decode rest) (\<lambda>bs. Ok (b # bs)))
     else Panic)"

lemma hex_char_code: "d < 16 \<Longrightarrow> (of_char (hex_char d) :: nat) < 128"
  by (simp add: hex_char_def)

lemma hex2_not_cont:
  "(case hex_encode bs of [] \<Rightarrow> True | e # _ \<Rightarrow> \<not> cont_byte (word_of_nat (of_char e)))"
proof (cases bs)
  case (Cons b r)
  have "unat b div 16 < 16" using unat_byte_less [of b] by (simp add: div_less_iff_less_mult)
  then have "(of_char (hex_char (unat b div 16)) :: nat) < 128" by (rule hex_char_code)
  then show ?thesis using Cons by (simp add: hex_encode_def hex2_def in_range_def unat_of_char)
qed (simp add: hex_encode_def)

lemma hex_decode_encode: "hex_decode (hex_encode bs) = Ok bs"
proof (induction bs)
  case (Cons b bs)
  have "hex_encode (b # bs) = hex_char (unat b div 16) # hex_char (unat b mod 16) # hex_encode bs"
    by (simp add: hex_encode_def hex2_def)
  then show ?case using Cons hex2_not_cont [of bs] by (simp add: parse_hex2_hex2)
qed (simp add: hex_encode_def)

lemma hex_decode_odd: "hex_decode (hex_encode bs @ [c]) = Panic"
proof (induction bs)
  case (Cons b bs)
  have "hex_encode (b # bs) @ [c] =
      hex_char (unat b div 16) # hex_char (unat b mod 16) # (hex_encode bs @ [c])"
    by (simp add: hex_encode_def hex2_def)
  then show ?case using Cons by (simp add: parse_hex2_hex2)
qed (simp add: hex_encode_def)

text \<open>A random UUID: version and variant bits are forced, then it is printed in groups.\<close>

definition uuid_bytes :: "bytes \<Rightarrow> bytes" where
  "uuid_bytes r = r[6 := (r ! 6 AND 0x0f) OR 0x40, 8 := (r ! 8 AND 0x3f) OR 0x80]"

definition show_uuid :: "bytes \<Rightarrow> string" where
  "show_uuid b = hex_encode (take 4 b) @ ''-'' @ hex_encode (take 2 (drop 4 b)) @ ''-'' @
    hex_encode (take 2 (drop 6 b)) @ ''-'' @ hex_encode (take 2 (drop 8 b)) @ ''-'' @
    hex_encode (take 6 (drop 10 b))"

section \<open>Properties\<close>

text \<open>
  C35: Decoding what was encoded gives, for every type, the concatenation of all values of that
  type, at any length: fragmentation at 255 bytes is invisible. Types that were not encoded are
  absent.
\<close>

theorem tlv_decode_encode:
  "map_of (tlv_decode (tlv_encode es)) t =
    (if values_of t es = [] then None else Some (concat (values_of t es)))"
  using tlv_loop_encode [of es "[]" "[]"] by (simp add: tlv_decode_def tlv_fold_lookup)

text \<open>
  A hexadecimal key that was stored is read back; a text with an odd number of characters
  panics the reader instead of being rejected.
\<close>

theorem hex_roundtrip_odd_panics:
  "hex_decode (hex_encode bs) = Ok bs \<and> hex_decode (hex_encode bs @ [c]) = Panic"
  using hex_decode_encode hex_decode_odd by blast

end
