(* ===== verification/CdTunnel.thy ===== *)
theory CdTunnel
  imports H2
begin

text \<open>
  The CDTunnel stream of \<open>src/src/tunnel/cdtunnel.rs\<close>: the framed handshake messages, the raw
  IPv6 packets that follow on the same socket, and the receive loops of
  \<open>src/src/tunnel/smoltcp_stack.rs\<close> that read packets from it. Both formats satisfy the
  \<open>framing\<close> contract. The last part is about read timeouts: the reader keeps no partial packet,
  so a timeout in the middle of one loses its bytes.
\<close>

section \<open>Handshake frames\<close>

datatype tun_error = TunIo io_kind | TunProtocol | TunJson

definition CD_MAGIC :: bytes where "CD_MAGIC = bytes_of ''CDTunnel''"

definition cd_send_frame :: "bytes \<Rightarrow> (sock, io_kind, unit) prog" where
  "cd_send_frame body =
    bnd (write_all CD_MAGIC) (\<lambda>_. bnd (write_all (u16_be (word_of_nat (length body))))
      (\<lambda>_. write_all body))"

definition cd_recv_frame :: "(script, tun_error, bytes) prog" where
  "cd_recv_frame =
    bnd (on_err TunIo (io_read_exact 8)) (\<lambda>magic.
      if magic \<noteq> CD_MAGIC then throw TunProtocol
      else bnd (on_err TunIo (io_read_exact 2)) (\<lambda>len_buf.
        on_err TunIo (io_read_exact (unat (u16_of_be len_buf)))))"

section \<open>IPv6 packets\<close>

definition recv_ipv6 :: "(script, io_kind, bytes) prog" where
  "recv_ipv6 = bnd (io_read_exact 40) (\<lambda>hdr.
    bnd (io_read_exact (unat (u16_of_be [hdr ! 4, hdr ! 5]))) (\<lambda>payload. ret (hdr @ payload)))"

definition try_recv_ipv6_packet :: "(script, io_kind, bytes option) prog" where
  "try_recv_ipv6_packet s = (case recv_ipv6 s of
     (Ok p, s') \<Rightarrow> (Ok (Some p), s')
   | (Err k, s') \<Rightarrow> if k = WouldBlock \<or> k = TimedOut then (Ok None, s') else (Err k, s')
   | (Panic, s') \<Rightarrow> (Panic, s'))"

definition send_ipv6_packet :: "bytes \<Rightarrow> (sock, io_kind, unit) prog" where
  "send_ipv6_packet packet = write_all packet"

text \<open>
  The reader thread of \<open>SmoltcpTunnel::new\<close> queues packets until the first error; the unified
  loop of \<open>new_stream\<close> goes on after a timeout. Both give the packets in the order read.
\<close>

lemma io_read_exact_weight: "io_read_exact n s = (Ok xs, s') \<Longrightarrow> weight s' + n \<le> weight s"
  by (simp add: io_read_exact_def on_err_Ok_iff read_exact_weight)

lemma recv_ipv6_weight: "recv_ipv6 s = (Ok p, s') \<Longrightarrow> weight s' < weight s"
  by (auto simp: recv_ipv6_def bnd_Ok_iff dest!: io_read_exact_weight)

function reader_thread :: "script \<Rightarrow> bytes list" where
  "reader_thread s = (case recv_ipv6 s of (Ok p, s') \<Rightarrow> p # reader_thread s' | _ \<Rightarrow> [])"
  by pat_completeness auto
termination
  by (relation "measure weight") (auto dest!: sym [of _ "recv_ipv6 _"] recv_ipv6_weight)

declare reader_thread.simps [simp del]

lemma read_loop_fail_weight:
  "read_loop n acc s = (Err (RIo k), s') \<Longrightarrow> weight s' < weight s"
proof (induction n acc s rule: read_loop.induct)
  case (1 n acc s)
  show ?case
  proof (cases "avail s = []")
    case True
    have "read_some n s = (case after s of [] \<Rightarrow> (Inr [], []) | Fail k # r \<Rightarrow> (Inl k, r) | _ \<Rightarrow> (Inr [], []))"
      by (rule read_some_end [OF True])
    moreover have "weight (after s) \<le> weight s" by (induction s rule: after.induct) auto
    ultimately show ?thesis using "1.prems"
      by (subst (asm) read_loop.simps) (auto split: if_splits list.splits rd_event.splits)
  next
    case False
    show ?thesis
    proof (cases "n = 0")
      case True
      then show ?thesis using "1.prems" by (simp add: read_loop.simps)
    next
      case n: False
      then obtain b c s1 where r: "read_some n s = (Inr (b # c), s1)"
        using read_some_data [of n s] False by (metis list.exhaust not_gr_zero)
      then have "read_loop (n - length (b # c)) (acc @ b # c) s1 = (Err (RIo k), s')"
        using "1.prems" n by (simp add: read_loop.simps [of n acc s])
      from "1.IH" [OF n r [symmetric] refl refl this] read_some_weight [OF r] show ?thesis by simp
    qed
  qed
qed

lemma io_read_exact_fail_weight:
  "io_read_exact n s = (Err k, s') \<Longrightarrow> k \<noteq> UnexpectedEof \<Longrightarrow> weight s' < weight s"
  by (auto simp: io_read_exact_def on_err_def read_exact_def split: prod.splits read_fail.splits
      elim!: map_err.elims dest!: read_loop_fail_weight)

lemma recv_ipv6_fail_weight:
  assumes "recv_ipv6 s = (Err k, s')" and "k \<noteq> UnexpectedEof"
  shows "weight s' < weight s"
proof (cases "io_read_exact 40 s")
  case (Pair r s1)
  show ?thesis
  proof (cases r)
    case (Ok hdr)
    then obtain m where "io_read_exact m s1 = (Err k, s')"
      using assms(1) Pair by (auto simp: recv_ipv6_def bnd_def split: prod.splits outcome.splits)
    then show ?thesis using io_read_exact_fail_weight assms(2) io_read_exact_weight Ok Pair
      by (metis add_lessD1 le_add1 le_trans less_le_trans nat_less_le)
  next
    case (Err e)
    then show ?thesis using assms Pair io_read_exact_fail_weight by (simp add: recv_ipv6_def)
  next
    case Panic
    then show ?thesis using assms Pair by (simp add: recv_ipv6_def)
  qed
qed

function unified_reads :: "script \<Rightarrow> bytes list" where
  "unified_reads s = (case recv_ipv6 s of
     (Ok p, s') \<Rightarrow> p # unified_reads s'
   | (Err k, s') \<Rightarrow> if k = WouldBlock \<or> k = TimedOut then unified_reads s' else []
   | (Panic, s') \<Rightarrow> [])"
  by pat_completeness auto
termination
  by (relation "measure weight")
    (auto dest!: sym [of _ "recv_ipv6 _"] recv_ipv6_weight recv_ipv6_fail_weight)

declare unified_reads.simps [simp del]

section \<open>Framing\<close>

definition cd_frame :: "bytes \<Rightarrow> bytes" where
  "cd_frame body = CD_MAGIC @ u16_be (word_of_nat (length body)) @ body"

lemma cd_send_frame_unlimited:
  "room s = None \<Longrightarrow> cd_send_frame body s = (Ok (), s\<lparr>outp := outp s @ cd_frame body\<rparr>)"
  by (simp add: cd_send_frame_def cd_frame_def)

interpretation cd: framing cd_frame cd_recv_frame "\<lambda>b. length b < 2 ^ 16"
proof
  fix b :: bytes and s rest
  assume b: "length b < 2 ^ 16" and av: "avail s = cd_frame b @ rest"
  have "avail s = CD_MAGIC @ (u16_be (word_of_nat (length b)) @ b @ rest)"
    using av by (simp add: cd_frame_def)
  moreover have "length CD_MAGIC = 8" by (simp add: CD_MAGIC_def)
  ultimately obtain s1 where s1: "io_read_exact 8 s = (Ok CD_MAGIC, s1)"
    "avail s1 = u16_be (word_of_nat (length b)) @ (b @ rest)" "after s1 = after s"
    by (rule io_read_exact_next)
  from s1(2) obtain s2 where s2: "io_read_exact 2 s1 = (Ok (u16_be (word_of_nat (length b))), s2)"
    "avail s2 = b @ rest" "after s2 = after s1"
    by (rule io_read_exact_next) simp
  from s2(2) obtain s3 where s3: "io_read_exact (length b) s2 = (Ok b, s3)" "avail s3 = rest"
    "after s3 = after s2" by (rule io_read_exact_next) simp
  have "unat (word_of_nat (length b) :: u16) = length b"
    by (rule unat_word_of_nat_less) (use b in simp)
  then show "\<exists>s'. cd_recv_frame s = (Ok b, s') \<and> avail s' = rest \<and> after s' = after s"
    using s1(1,3) s2(1,3) s3 by (intro exI [of _ s3]) (simp add: cd_recv_frame_def)
qed

definition ipv6_wf :: "bytes \<Rightarrow> bool" where
  "ipv6_wf p \<longleftrightarrow> 40 \<le> length p \<and> length p = 40 + unat (u16_of_be [p ! 4, p ! 5])"

interpretation ip: framing "\<lambda>p. p" recv_ipv6 ipv6_wf
proof
  fix p :: bytes and s rest
  assume wf: "ipv6_wf p" and av: "avail s = p @ rest"
  let ?h = "take 40 p" and ?d = "drop 40 p"
  have "avail s = ?h @ (?d @ rest)" using av by (simp only: append_assoc [symmetric] append_take_drop_id)
  then obtain s1 where s1: "io_read_exact 40 s = (Ok ?h, s1)" "avail s1 = ?d @ rest" "after s1 = after s"
    by (rule io_read_exact_next) (use wf in \<open>simp add: ipv6_wf_def\<close>)
  from s1(2) refl obtain s2 where s2: "io_read_exact (length ?d) s1 = (Ok ?d, s2)" "avail s2 = rest"
    "after s2 = after s1" by (rule io_read_exact_next)
  have "length ?d = unat (u16_of_be [?h ! 4, ?h ! 5])" using wf by (simp add: ipv6_wf_def)
  then show "\<exists>s'. recv_ipv6 s = (Ok p, s') \<and> avail s' = rest \<and> after s' = after s"
    using s1(1,3) s2 by (intro exI [of _ s2]) (simp add: recv_ipv6_def)
qed

section \<open>Packets and timeouts\<close>

lemma io_read_exact_short:
  "length (avail s) < n \<Longrightarrow> io_read_exact n s =
    (case after s of Fail k # r \<Rightarrow> (Err k, r) | _ \<Rightarrow> (Err UnexpectedEof, []))"
  by (simp add: io_read_exact_def on_err_def read_exact_short split: list.splits rd_event.splits)

lemma recv_ipv6_short:
  assumes "avail s = take k p" and "k < length p" and "ipv6_wf p"
  shows "recv_ipv6 s = (case after s of Fail e # r \<Rightarrow> (Err e, r) | _ \<Rightarrow> (Err UnexpectedEof, []))"
proof (cases "k < 40")
  case True
  then show ?thesis using io_read_exact_short [of s 40] assms
    by (auto simp: recv_ipv6_def bnd_def split: list.splits rd_event.splits)
next
  case False
  have "avail s = take 40 p @ drop 40 (take k p)"
    using assms(1) False by (metis append_take_drop_id min.absorb1 not_less take_take)
  then obtain s1 where s1: "io_read_exact 40 s = (Ok (take 40 p), s1)"
    "avail s1 = drop 40 (take k p)" "after s1 = after s"
    by (rule io_read_exact_next) (use assms(3) in \<open>simp add: ipv6_wf_def\<close>)
  have "unat (u16_of_be [take 40 p ! 4, take 40 p ! 5]) = length p - 40"
    using assms(3) by (simp add: ipv6_wf_def)
  moreover have "length (avail s1) < length p - 40" using s1(2) assms(2) False by simp
  ultimately show ?thesis using s1 io_read_exact_short [of s1 "length p - 40"]
    by (auto simp: recv_ipv6_def bnd_def split: list.splits rd_event.splits)
qed

lemma unified_reads_packets:
  assumes "list_all ipv6_wf ps" and "avail s = concat ps"
  shows "unified_reads s = ps @ (case after s of
     Fail k # r \<Rightarrow> if k = WouldBlock \<or> k = TimedOut then unified_reads r else [] | _ \<Rightarrow> [])"
  using assms
proof (induction ps arbitrary: s)
  case Nil
  then have "io_read_exact 40 s = (case after s of Fail k # r \<Rightarrow> (Err k, r) | _ \<Rightarrow> (Err UnexpectedEof, []))"
    by (intro io_read_exact_short) simp
  then show ?case
    by (auto simp: unified_reads.simps [of s] recv_ipv6_def bnd_def split: list.splits rd_event.splits)
next
  case (Cons p ps)
  then obtain s1 where "recv_ipv6 s = (Ok p, s1)" "avail s1 = concat ps" "after s1 = after s"
    using ip.get_put [of p s "concat ps"] by auto
  then show ?case using Cons by (simp add: unified_reads.simps [of s])
qed

section \<open>Properties\<close>

text \<open>
  Read timeouts that fall between packets are harmless: the loop of the TLS tunnel delivers
  every packet of every burst, in order, however each burst is cut into pieces.
\<close>

theorem timeouts_between_packets:
  assumes "list_all ipv6_wf ps" and "avail s = concat ps" and "after s = Fail TimedOut # r"
    and "list_all ipv6_wf qs" and "avail r = concat qs" and "after r = []"
  shows "unified_reads s = ps @ qs"
  using unified_reads_packets [OF assms(1,2)] unified_reads_packets [OF assms(4,5)] assms(3,6) by simp

definition demo_packet :: bytes where
  "demo_packet = [0x60, 0, 0, 0, 0, 2] @ replicate 34 0 @ [7, 8]"

lemma demo_packet_wf: "ipv6_wf demo_packet"
  by code_simp

theorem timeouts_between_packets_witness:
  "unified_reads [Data demo_packet, Fail TimedOut, Data demo_packet] = [demo_packet, demo_packet]"
  using timeouts_between_packets [of "[demo_packet]" "[Data demo_packet, Fail TimedOut, Data demo_packet]"
    "[Data demo_packet]" "[demo_packet]"] demo_packet_wf by simp

text \<open>
  A read timeout inside a packet loses the bytes that had already been read: the loop goes
  on with the rest of the packet as if a new packet started there.
\<close>

theorem timeout_inside_packet_loses_bytes:
  assumes "ipv6_wf p" and "k < length p"
  shows "unified_reads (Data (take k p) # Fail TimedOut # r) = unified_reads r"
  using recv_ipv6_short [of "Data (take k p) # Fail TimedOut # r" k p] assms
  by (simp add: unified_reads.simps [of "Data (take k p) # Fail TimedOut # r"])

theorem timeout_inside_packet_loses_bytes_witness:
  "unified_reads [Data (take 10 demo_packet), Fail TimedOut, Data (drop 10 demo_packet)] = []"
proof -
  have "10 < length demo_packet" by code_simp
  then have "unified_reads [Data (take 10 demo_packet), Fail TimedOut, Data (drop 10 demo_packet)] =
      unified_reads [Data (drop 10 demo_packet)]"
    using timeout_inside_packet_loses_bytes [OF demo_packet_wf] by simp
  also have "\<dots> = []"
    using io_read_exact_short [of "[Data (drop 10 demo_packet)]" 40]
    by (simp add: unified_reads.simps recv_ipv6_def demo_packet_def bnd_def)
  finally show ?thesis .
qed

text \<open>
  The handshake frames of the tunnel are received as sent, for bodies below 64 KiB.
\<close>

theorem cd_frames_roundtrip:
  assumes "list_all (\<lambda>b. length b < 2 ^ 16) bs" and "avail s = concat (map cd_frame bs) @ rest"
  shows "\<exists>s'. recv_n (length bs) cd_recv_frame s = (Ok bs, s') \<and> avail s' = rest"
  using cd.recv_all [OF assms] by blast

theorem cd_frames_roundtrip_witness:
  "\<exists>s'. recv_n 1 cd_recv_frame [Data (take 5 (cd_frame [1, 2])), Data (drop 5 (cd_frame [1, 2]))] =
    (Ok [[1, 2]], s') \<and> avail s' = []"
  using cd_frames_roundtrip [of "[[1, 2]]"
    "[Data (take 5 (cd_frame [1, 2])), Data (drop 5 (cd_frame [1, 2]))]" "[]"] by simp

end
