(* ===== verification/RemotePairing.thy ===== *)
theory RemotePairing
  imports Tlv8 CdTunnel PlistInstance
begin

text \<open>
  The RemotePairing session of \<open>src/src/tunnel/remote_pairing/session.rs\<close> with its framing
  (\<open>framing.rs\<close>) and stored credentials (\<open>credentials.rs\<close>). The cryptographic crates are the
  fields of the record \<open>crypto\<close>, the JSON writer and reader and the plist writer and reader are
  arguments, random bytes are arguments of the operations that draw them, and the credential
  file of each device is an entry of a map in the session state: a stored record stands for
  its JSON text. Error texts are dropped: every protocol error is \<open>TunProtocol\<close>.
\<close>

section \<open>Cryptography, credentials, session\<close>

record srp_verifier =
  srp_proof :: bytes
  srp_key :: bytes
  srp_server :: "bytes \<Rightarrow> bool"

record crypto =
  hkdf_sha512 :: "bytes option \<Rightarrow> bytes \<Rightarrow> bytes \<Rightarrow> bytes option"
  aead_seal :: "bytes \<Rightarrow> bytes \<Rightarrow> bytes \<Rightarrow> bytes option"
  aead_open :: "bytes \<Rightarrow> bytes \<Rightarrow> bytes \<Rightarrow> bytes option"
  x25519_pub :: "bytes \<Rightarrow> bytes"
  x25519_dh :: "bytes \<Rightarrow> bytes \<Rightarrow> bytes"
  ed_sign :: "bytes \<Rightarrow> bytes \<Rightarrow> bytes"
  ed_verifying :: "bytes \<Rightarrow> bytes"
  srp_public :: "bytes \<Rightarrow> bytes"
  srp_reply :: "bytes \<Rightarrow> bytes \<Rightarrow> bytes \<Rightarrow> bytes \<Rightarrow> bytes \<Rightarrow> srp_verifier option"

record rp_record =
  our_identifier :: string
  our_signing_key :: string
  peer_identifier :: string
  peer_public_key :: string

record rp_session =
  rp_stream :: sock
  rp_record :: rp_record
  rp_seq :: int
  rp_client_key :: "bytes option"
  rp_server_key :: "bytes option"
  rp_enc_seq :: u64
  rp_home :: bool
  rp_fault :: "io_kind option"
  rp_files :: "(string, rp_record) amap"

type_synonym 'a rp = "(rp_session, tun_error, 'a) prog"

definition signing_key :: "rp_record \<Rightarrow> (tun_error, bytes) outcome" where
  "signing_key r = obind (map_err (\<lambda>_. TunProtocol) (hex_decode (our_signing_key r)))
    (\<lambda>b. if length b = 32 then Ok b else Err TunProtocol)"

definition new_identity :: "bytes \<Rightarrow> bytes \<Rightarrow> rp_record" where
  "new_identity seed rnd = \<lparr>our_identifier = map (\<lambda>c. if 97 \<le> (of_char c :: nat) \<and> (of_char c :: nat) \<le> 122
      then char_of (of_char c - 32 :: nat) else c) (show_uuid (uuid_bytes rnd)),
    our_signing_key = hex_encode seed, peer_identifier = [], peer_public_key = []\<rparr>"

definition save_record :: "string \<Rightarrow> rp_record \<Rightarrow> unit rp" where
  "save_record udid r s =
    (if \<not> rp_home s then (Err TunProtocol, s)
     else case rp_fault s of
       Some k \<Rightarrow> (Err (TunIo k), s)
     | None \<Rightarrow> (Ok (), s\<lparr>rp_files := ainsert udid r (rp_files s)\<rparr>))"

definition load_record :: "string \<Rightarrow> rp_session \<Rightarrow> rp_record option" where
  "load_record udid s = (if rp_home s then map_of (rp_files s) udid else None)"

section \<open>Crypto helpers\<close>

definition hkdf32 :: "crypto \<Rightarrow> bytes \<Rightarrow> bytes \<Rightarrow> bytes \<Rightarrow> (tun_error, bytes) outcome" where
  "hkdf32 C ikm salt info =
    ok_or (hkdf_sha512 C (if salt = [] then None else Some salt) ikm info) TunProtocol"

definition chacha_encrypt :: "crypto \<Rightarrow> bytes \<Rightarrow> bytes \<Rightarrow> bytes \<Rightarrow> (tun_error, bytes) outcome" where
  "chacha_encrypt C key nonce plaintext = ok_or (aead_seal C key nonce plaintext) TunProtocol"

definition chacha_decrypt :: "crypto \<Rightarrow> bytes \<Rightarrow> bytes \<Rightarrow> bytes \<Rightarrow> (tun_error, bytes) outcome" where
  "chacha_decrypt C key nonce cipher = ok_or (aead_open C key nonce cipher) TunProtocol"

definition enc_nonce :: "u64 \<Rightarrow> bytes" where
  "enc_nonce seq = u64_le seq @ replicate 4 0"

section \<open>Messages\<close>

definition on_stream :: "(sock, tun_error, 'a) prog \<Rightarrow> 'a rp" where
  "on_stream m s = (case m (rp_stream s) of (r, k) \<Rightarrow> (r, s\<lparr>rp_stream := k\<rparr>))"

definition framing_send :: "(pvalue \<Rightarrow> bytes) \<Rightarrow> pvalue \<Rightarrow> (sock, tun_error, unit) prog" where
  "framing_send xml msg = (let body = xml msg in
    on_err TunIo (bnd (write_all (u32_be (word_of_nat (length body)))) (\<lambda>_. write_all body)))"

definition framing_recv :: "(bytes \<Rightarrow> pvalue option) \<Rightarrow> (sock, tun_error, pvalue) prog" where
  "framing_recv parse =
    bnd (on_err (\<lambda>e. case e of RIo k \<Rightarrow> TunIo k | REof \<Rightarrow> TunProtocol) (on_inp recv_lp))
      (\<lambda>body. lift_o (ok_or (parse body) TunProtocol))"

definition rp_send :: "(pvalue \<Rightarrow> bytes) \<Rightarrow> pvalue \<Rightarrow> unit rp" where
  "rp_send xml msg s = on_stream (framing_send xml msg) (s\<lparr>rp_seq := rp_seq s + 1\<rparr>)"

definition rp_recv :: "(bytes \<Rightarrow> pvalue option) \<Rightarrow> pvalue rp" where
  "rp_recv parse = on_stream (framing_recv parse)"

definition pairing_message :: "string \<Rightarrow> bool \<Rightarrow> bytes \<Rightarrow> pvalue" where
  "pairing_message kind new_session tlv =
    pdict [(''pairingData'', pdict [(''_0'', pdict [(''data'', PData tlv)])]),
      (''kind'', PString kind), (''startNewSession'', PBoolean new_session)]"

definition send_pairing_data :: "(pvalue \<Rightarrow> bytes) \<Rightarrow> string \<Rightarrow> bool \<Rightarrow> bytes \<Rightarrow> unit rp" where
  "send_pairing_data xml kind new_session tlv = rp_send xml (pairing_message kind new_session tlv)"

definition sub_dict :: "pdictionary \<Rightarrow> string \<Rightarrow> pdictionary option" where
  "sub_dict d k = Option.bind (dget d k) as_dictionary"

definition pairing_payload :: "pvalue \<Rightarrow> (tun_error, bytes) outcome" where
  "pairing_payload v =
    obind (ok_or (as_dictionary v) TunProtocol) (\<lambda>dict.
      if dget dict ''error'' \<noteq> None then Err TunProtocol
      else ok_or (Option.bind (sub_dict dict ''pairingData'') (\<lambda>d.
        Option.bind (sub_dict d ''_0'') (\<lambda>d. Option.bind (dget d ''data'') as_data))) TunProtocol)"

definition recv_pairing_data :: "(bytes \<Rightarrow> pvalue option) \<Rightarrow> bytes rp" where
  "recv_pairing_data parse = bnd (rp_recv parse) (\<lambda>v. lift_o (pairing_payload v))"

text \<open>The checks on a reply: no error entry, and where wanted a state byte.\<close>

definition no_tlv_error :: "(u8, bytes) amap \<Rightarrow> (tun_error, unit) outcome" where
  "no_tlv_error tlv = (if map_of tlv TLV_ERROR \<noteq> None then Err TunProtocol else Ok ())"

section \<open>Pair-verify\<close>

definition nonce_of :: "string \<Rightarrow> bytes" where
  "nonce_of s = bytes_of s @ replicate 4 0"

definition verify_m1 :: "crypto \<Rightarrow> bytes \<Rightarrow> bytes" where
  "verify_m1 C sk = tlv_encode [(TLV_STATE, [1]), (TLV_PUBLIC_KEY, x25519_pub C sk)]"

definition peer_key :: "(u8, bytes) amap \<Rightarrow> (tun_error, bytes) outcome" where
  "peer_key tlv = obind (ok_or (map_of tlv TLV_PUBLIC_KEY) TunProtocol)
    (\<lambda>b. if length b \<noteq> 32 then Err TunProtocol else Ok b)"

definition verify_m3 :: "crypto \<Rightarrow> rp_record \<Rightarrow> bytes \<Rightarrow> bytes \<Rightarrow> (tun_error, bytes) outcome" where
  "verify_m3 C r sk dev_pk =
    obind (hkdf32 C (x25519_dh C sk dev_pk) (bytes_of ''Pair-Verify-Encrypt-Salt'')
        (bytes_of ''Pair-Verify-Encrypt-Info'')) (\<lambda>enc_key.
      obind (signing_key r) (\<lambda>signing.
        let sig = ed_sign C signing (x25519_pub C sk @ bytes_of (our_identifier r) @ dev_pk);
            inner = tlv_encode [(TLV_IDENTIFIER, bytes_of (our_identifier r)), (TLV_SIGNATURE, sig)]
        in obind (chacha_encrypt C enc_key (nonce_of ''PV-Msg03'') inner) (\<lambda>enc.
             Ok (tlv_encode [(TLV_STATE, [3]), (TLV_ENCRYPTED_DATA, enc)]))))"

definition verify_m4 :: "(u8, bytes) amap \<Rightarrow> (tun_error, unit) outcome" where
  "verify_m4 tlv = obind (no_tlv_error tlv)
    (\<lambda>_. if tlv_get_u8 tlv TLV_STATE = Some 4 then Ok () else Err TunProtocol)"

definition set_keys :: "crypto \<Rightarrow> bytes \<Rightarrow> unit rp" where
  "set_keys C ikm =
    bnd (lift_o (hkdf32 C ikm [] (bytes_of ''ClientEncrypt-main''))) (\<lambda>ck s.
      bnd (lift_o (hkdf32 C ikm [] (bytes_of ''ServerEncrypt-main'')))
        (\<lambda>sk s. (Ok (), s\<lparr>rp_server_key := Some sk\<rparr>)) (s\<lparr>rp_client_key := Some ck\<rparr>))"

definition pair_verify ::
  "crypto \<Rightarrow> (pvalue \<Rightarrow> bytes) \<Rightarrow> (bytes \<Rightarrow> pvalue option) \<Rightarrow> bytes \<Rightarrow> unit rp" where
  "pair_verify C xml parse sk =
    bnd (send_pairing_data xml ''verifyManualPairing'' True (verify_m1 C sk)) (\<lambda>_.
    bnd (recv_pairing_data parse) (\<lambda>resp.
    bnd (lift_o (peer_key (tlv_decode resp))) (\<lambda>dev_pk.
    bnd (\<lambda>s. (verify_m3 C (rp_record s) sk dev_pk, s)) (\<lambda>m3.
    bnd (send_pairing_data xml ''verifyManualPairing'' False m3) (\<lambda>_.
    bnd (recv_pairing_data parse) (\<lambda>resp2.
    bnd (lift_o (verify_m4 (tlv_decode resp2))) (\<lambda>_.
      set_keys C (x25519_dh C sk dev_pk))))))))"

section \<open>SRP pairing\<close>

definition srp_m1 :: bytes where
  "srp_m1 = tlv_encode [(TLV_METHOD, [0]), (TLV_STATE, [1])]"

definition srp_m3 :: "bytes \<Rightarrow> bytes \<Rightarrow> bytes" where
  "srp_m3 a_pub proof_m1 =
    tlv_encode [(TLV_STATE, [3]), (TLV_PUBLIC_KEY, a_pub), (TLV_PROOF, proof_m1)]"

definition srp_m5 :: "crypto \<Rightarrow> rp_record \<Rightarrow> bytes \<Rightarrow> bytes \<Rightarrow> (tun_error, bytes) outcome" where
  "srp_m5 C r session_key setup_enc =
    obind (signing_key r) (\<lambda>signing.
      let vk = ed_verifying C signing in
      obind (hkdf32 C session_key (bytes_of ''Pair-Setup-Controller-Sign-Salt'')
          (bytes_of ''Pair-Setup-Controller-Sign-Info'')) (\<lambda>ctrl_key.
        let sig = ed_sign C signing (ctrl_key @ bytes_of (our_identifier r) @ vk);
            inner = tlv_encode [(TLV_IDENTIFIER, bytes_of (our_identifier r)), (TLV_PUBLIC_KEY, vk),
              (TLV_SIGNATURE, sig)]
        in obind (chacha_encrypt C setup_enc (nonce_of ''PS-Msg05'') inner) (\<lambda>enc.
             Ok (tlv_encode [(TLV_STATE, [5]), (TLV_ENCRYPTED_DATA, enc)]))))"

text \<open>The peer's identity, when the last message carries it and it can be opened.\<close>

definition srp_peer :: "crypto \<Rightarrow> bytes \<Rightarrow> (u8, bytes) amap \<Rightarrow> rp_record \<Rightarrow> rp_record" where
  "srp_peer C setup_enc tlv r = (case map_of tlv TLV_ENCRYPTED_DATA of
     None \<Rightarrow> r
   | Some enc \<Rightarrow> (case chacha_decrypt C setup_enc (nonce_of ''PS-Msg06'') enc of
       Ok plain \<Rightarrow>
         (let dev = tlv_decode plain;
              r1 = (case map_of dev TLV_IDENTIFIER of None \<Rightarrow> r
                | Some i \<Rightarrow> r\<lparr>peer_identifier := from_utf8_lossy i\<rparr>)
          in case map_of dev TLV_PUBLIC_KEY of None \<Rightarrow> r1
             | Some pk \<Rightarrow> r1\<lparr>peer_public_key := hex_encode pk\<rparr>)
     | _ \<Rightarrow> r))"

definition srp_pair ::
  "crypto \<Rightarrow> (pvalue \<Rightarrow> bytes) \<Rightarrow> (bytes \<Rightarrow> pvalue option) \<Rightarrow> bytes \<Rightarrow> bytes \<Rightarrow> bytes \<Rightarrow> string \<Rightarrow>
    rp_record rp" where
  "srp_pair C xml parse a_priv seed rnd udid =
    bnd (send_pairing_data xml ''setupManualPairing'' True srp_m1) (\<lambda>_.
    bnd (recv_pairing_data parse) (\<lambda>resp1. let tlv1 = tlv_decode resp1 in
    bnd (lift_o (no_tlv_error tlv1)) (\<lambda>_.
    bnd (lift_o (ok_or (map_of tlv1 TLV_SALT) TunProtocol)) (\<lambda>salt.
    bnd (lift_o (ok_or (map_of tlv1 TLV_PUBLIC_KEY) TunProtocol)) (\<lambda>b_pub.
    bnd (lift_o (ok_or (srp_reply C a_priv (bytes_of ''Pair-Setup'') (bytes_of ''000000'') salt b_pub)
        TunProtocol)) (\<lambda>ver.
    bnd (send_pairing_data xml ''setupManualPairing'' False (srp_m3 (srp_public C a_priv) (srp_proof ver))) (\<lambda>_.
    bnd (recv_pairing_data parse) (\<lambda>resp2. let tlv2 = tlv_decode resp2 in
    bnd (lift_o (no_tlv_error tlv2)) (\<lambda>_.
    bnd (lift_o (ok_or (map_of tlv2 TLV_PROOF) TunProtocol)) (\<lambda>m2.
    bnd (lift_o (if srp_server ver m2 then Ok () else Err TunProtocol)) (\<lambda>_.
    bnd (lift_o (hkdf32 C (srp_key ver) (bytes_of ''Pair-Setup-Encrypt-Salt'')
        (bytes_of ''Pair-Setup-Encrypt-Info''))) (\<lambda>setup_enc.
    bnd (\<lambda>s. (Ok (if our_signing_key (rp_record s) = [] then new_identity seed rnd else rp_record s), s)) (\<lambda>r.
    bnd (lift_o (srp_m5 C r (srp_key ver) setup_enc)) (\<lambda>m5.
    bnd (send_pairing_data xml ''setupManualPairing'' False m5) (\<lambda>_.
    bnd (recv_pairing_data parse) (\<lambda>resp3. let tlv3 = tlv_decode resp3 in
    bnd (lift_o (no_tlv_error tlv3)) (\<lambda>_. let r' = srp_peer C setup_enc tlv3 r in
    bnd (set_keys C (srp_key ver)) (\<lambda>_.
    bnd (\<lambda>s. (Ok (), s\<lparr>rp_record := r'\<rparr>)) (\<lambda>_.
    bnd (save_record udid r') (\<lambda>_. ret r'))))))))))))))))))))"

section \<open>Opening a session\<close>

definition hello_message :: pvalue where
  "hello_message = pdict [(''hostOptions'', pdict [(''attemptPairVerify'', PBoolean True)]),
    (''wireProtocolVersion'', PInteger 19)]"

definition has_creds :: "rp_record \<Rightarrow> bool" where
  "has_creds r \<longleftrightarrow> our_signing_key r \<noteq> [] \<and> peer_identifier r \<noteq> []"

text \<open>Pair-verify with stored credentials; on its failure, and without any, SRP pairing.\<close>

definition rp_open ::
  "crypto \<Rightarrow> (pvalue \<Rightarrow> bytes) \<Rightarrow> (bytes \<Rightarrow> pvalue option) \<Rightarrow> bytes \<Rightarrow> bytes \<Rightarrow> bytes \<Rightarrow> bytes \<Rightarrow>
    string \<Rightarrow> rp_record rp" where
  "rp_open C xml parse sk a_priv seed rnd udid =
    bnd (rp_send xml hello_message) (\<lambda>_.
    bnd (rp_recv parse) (\<lambda>_ s.
      if has_creds (rp_record s) then
        (case pair_verify C xml parse sk s of
           (Ok _, s') \<Rightarrow> (Ok (rp_record s'), s')
         | (Err _, s') \<Rightarrow> srp_pair C xml parse a_priv seed rnd udid s'
         | (Panic, s') \<Rightarrow> (Panic, s'))
      else srp_pair C xml parse a_priv seed rnd udid s))"

section \<open>Encrypted requests\<close>

definition encrypted_message :: "bytes \<Rightarrow> u64 \<Rightarrow> pvalue" where
  "encrypted_message cipher seq =
    pdict [(''message'', pdict [(''streamEncrypted'', pdict [(''_0'', PData cipher)])]),
      (''originatedBy'', PString ''host''), (''sequenceNumber'', PInteger (sint seq))]"

definition response_cipher :: "pdictionary \<Rightarrow> bytes option" where
  "response_cipher d = Option.bind (sub_dict d ''message'') (\<lambda>d.
    Option.bind (sub_dict d ''streamEncrypted'') (\<lambda>d. Option.bind (dget d ''_0'') as_data))"

definition response_seq :: "pdictionary \<Rightarrow> u64 \<Rightarrow> u64" where
  "response_seq d seq = (case Option.bind (dget d ''sequenceNumber'') as_signed_integer of
     None \<Rightarrow> seq | Some i \<Rightarrow> word_of_int i)"

definition encrypted_request ::
  "crypto \<Rightarrow> (pvalue \<Rightarrow> bytes) \<Rightarrow> (bytes \<Rightarrow> pvalue option) \<Rightarrow> ('j \<Rightarrow> bytes option) \<Rightarrow>
    (bytes \<Rightarrow> 'j option) \<Rightarrow> 'j \<Rightarrow> 'j rp" where
  "encrypted_request C xml parse to_vec from_slice req s =
    (case rp_client_key s of
       None \<Rightarrow> (Err TunProtocol, s)
     | Some client_key \<Rightarrow> (case rp_server_key s of
         None \<Rightarrow> (Panic, s)
       | Some server_key \<Rightarrow>
          bnd (lift_o (ok_or (to_vec req) TunJson)) (\<lambda>plaintext s.
            let seq = rp_enc_seq s in
            bnd (lift_o (chacha_encrypt C client_key (enc_nonce seq) plaintext)) (\<lambda>cipher.
            bnd (rp_send xml (encrypted_message cipher seq)) (\<lambda>_.
            bnd (rp_recv parse) (\<lambda>resp.
            bnd (lift_o (ok_or (as_dictionary resp) TunProtocol)) (\<lambda>d.
            bnd (lift_o (ok_or (response_cipher d) TunProtocol)) (\<lambda>c.
            bnd (lift_o (chacha_decrypt C server_key (enc_nonce (response_seq d seq)) c)) (\<lambda>plain.
              lift_o (ok_or (from_slice plain) TunProtocol)))))))
              (s\<lparr>rp_enc_seq := rp_enc_seq s + 1\<rparr>)) s))"

section \<open>Facts\<close>

lemma on_stream_simps [simp, prog]:
  "m (rp_stream s) = (r, k) \<Longrightarrow> on_stream m s = (r, s\<lparr>rp_stream := k\<rparr>)"
  by (simp add: on_stream_def)

lemma rp_send_unlimited:
  assumes "room (rp_stream s) = None"
  shows "rp_send xml msg s = (Ok (), s\<lparr>rp_seq := rp_seq s + 1, rp_stream := (rp_stream s)
    \<lparr>outp := outp (rp_stream s) @ lp_frame (xml msg)\<rparr>\<rparr>)"
proof -
  have "framing_send xml msg (rp_stream s) =
      (Ok (), (rp_stream s)\<lparr>outp := outp (rp_stream s) @ lp_frame (xml msg)\<rparr>)"
    using assms by (simp add: framing_send_def lp_frame_def Let_def)
  then show ?thesis by (simp add: rp_send_def)
qed

lemma recv_pairing_next:
  assumes "length (xml v) < 2 ^ 32" and "parse (xml v) = Some v"
    and "avail (inp (rp_stream s)) = lp_frame (xml v) @ rest" and "pairing_payload v = Ok b"
  shows "\<exists>i. recv_pairing_data parse s = (Ok b, s\<lparr>rp_stream := (rp_stream s)\<lparr>inp := i\<rparr>\<rparr>) \<and> avail i = rest"
proof -
  obtain i where "recv_lp (inp (rp_stream s)) = (Ok (xml v), i)" "avail i = rest"
    using lp.get_put [OF assms(1,3)] by blast
  then show ?thesis using assms(2,4)
    by (intro exI [of _ i]) (simp add: recv_pairing_data_def rp_recv_def framing_recv_def)
qed

lemma no_tlv_error_not_panic [simp]: "no_tlv_error tlv \<noteq> Panic"
  by (simp add: no_tlv_error_def)

lemma verify_m4_cases: "verify_m4 tlv = Ok () \<or> verify_m4 tlv = Err TunProtocol"
  by (auto simp: verify_m4_def no_tlv_error_def)

text \<open>What the session keeps when it sends or receives.\<close>

definition same_keys :: "rp_session \<Rightarrow> rp_session \<Rightarrow> bool" where
  "same_keys s t \<longleftrightarrow> rp_client_key t = rp_client_key s \<and> rp_server_key t = rp_server_key s"

lemma u64_le_inj: "u64_le a = u64_le b \<Longrightarrow> a = b"
  by (metis u_bytes_roundtrip(3))

text \<open>
  What a request leaves alone apart from what it sends: the keys, the room and the output of the
  stream. Receiving keeps the sequence number too.
\<close>

definition rp_view :: "rp_session \<Rightarrow> nat option \<times> bytes \<times> bytes option \<times> bytes option \<times> u64" where
  "rp_view s = (room (rp_stream s), outp (rp_stream s), rp_client_key s, rp_server_key s, rp_enc_seq s)"

lemma rp_view_iff:
  "rp_view t = (a, b, c, d, e) \<longleftrightarrow> room (rp_stream t) = a \<and> outp (rp_stream t) = b \<and>
    rp_client_key t = c \<and> rp_server_key t = d \<and> rp_enc_seq t = e"
  by (auto simp: rp_view_def)

lemma lift_o_view: "rp_view (snd (lift_o x s)) = rp_view s"
  by (cases x) simp_all

lemma framing_recv_keeps:
  "(room (snd (framing_recv parse k)), outp (snd (framing_recv parse k))) = (room k, outp k)"
  unfolding framing_recv_def
  by (rule bnd_keeps [where g = "\<lambda>k. (room k, outp k)"])
    (auto simp: on_err_def on_inp_def lift_o_def split: prod.splits outcome.splits)

lemma rp_recv_view: "rp_view (snd (rp_recv parse s)) = rp_view s"
  using framing_recv_keeps [of parse "rp_stream s"]
  by (auto simp: rp_recv_def on_stream_def rp_view_def split: prod.splits)

lemmas view_keeps = bnd_keeps [where g = rp_view] lift_o_view rp_recv_view

text \<open>The frame of a request that is sealed under a number, written out; nothing when sealing fails.\<close>

definition sealed_frame :: "(pvalue \<Rightarrow> bytes) \<Rightarrow> (bytes \<Rightarrow> bytes \<Rightarrow> bytes option) \<Rightarrow> u64 \<Rightarrow> bytes \<Rightarrow> bytes" where
  "sealed_frame xml seal n p = (case seal (u64_le n @ [0, 0, 0, 0]) p of
     None \<Rightarrow> []
   | Some c \<Rightarrow> lp_frame (xml (pdict [(''message'', pdict [(''streamEncrypted'', pdict [(''_0'', PData c)])]),
       (''originatedBy'', PString ''host''), (''sequenceNumber'', PInteger (sint n))])))"

lemma encrypted_request_view:
  assumes "rp_view s = (None, out, Some ck, Some sk, n)"
  shows "rp_view (snd (encrypted_request C xml parse to_vec from_slice r s)) = (case to_vec r of
      None \<Rightarrow> rp_view s
    | Some p \<Rightarrow> (None, out @ sealed_frame xml (aead_seal C ck) n p, Some ck, Some sk, n + 1))"
proof (cases "to_vec r")
  case (Some p)
  define t where "t = s\<lparr>rp_enc_seq := n + 1\<rparr>"
  have t: "room (rp_stream t) = None" "rp_view t = (None, out, Some ck, Some sk, n + 1)"
    using assms by (simp_all add: t_def rp_view_iff)
  have nz: "replicate 4 (0 :: byte) = [0, 0, 0, 0]" by (simp add: numeral_eq_Suc)
  show ?thesis
  proof (cases "aead_seal C ck (enc_nonce n) p")
    case None
    then show ?thesis using Some assms t(2)
      by (simp add: encrypted_request_def rp_view_iff Let_def chacha_encrypt_def t_def sealed_frame_def enc_nonce_def nz)
  next
    case (Some c)
    define u where "u = snd (rp_send xml (encrypted_message c n) t)"
    have u: "rp_send xml (encrypted_message c n) t = (Ok (), u)"
      "rp_view u = (None, out @ sealed_frame xml (aead_seal C ck) n p, Some ck, Some sk, n + 1)"
      using t rp_send_unlimited [OF t(1)] Some
      by (simp_all add: u_def rp_view_iff sealed_frame_def enc_nonce_def nz encrypted_message_def)
    have "encrypted_request C xml parse to_vec from_slice r s =
        bnd (rp_recv parse) (\<lambda>resp.
        bnd (lift_o (ok_or (as_dictionary resp) TunProtocol)) (\<lambda>d.
        bnd (lift_o (ok_or (response_cipher d) TunProtocol)) (\<lambda>c.
        bnd (lift_o (chacha_decrypt C sk (enc_nonce (response_seq d n)) c)) (\<lambda>plain.
          lift_o (ok_or (from_slice plain) TunProtocol))))) u"
      using \<open>to_vec r = Some p\<close> Some assms u(1)
      by (simp add: encrypted_request_def rp_view_iff Let_def chacha_encrypt_def t_def)
    then have "rp_view (snd (encrypted_request C xml parse to_vec from_slice r s)) = rp_view u"
      by (simp add: view_keeps)
    then show ?thesis using u(2) \<open>to_vec r = Some p\<close> by simp
  qed
qed (use assms in \<open>simp add: encrypted_request_def rp_view_iff\<close>)

interpretation seqs: cyclic_alloc "\<lambda>x :: u64. x + 1" 0
  using wrap_next_alloc [of "0 :: u64"] by (simp add: wrap_next_def [abs_def])

lemma successor_funpow: "((\<lambda>x :: u64. x + 1) ^^ i) n = n + of_nat i"
  by (induction i) simp_all

lemma run_requests_view:
  assumes "rp_view s = (None, out, Some ck, Some sk, n)"
  shows "outp (rp_stream (fold (\<lambda>r s. snd (encrypted_request C xml parse to_vec from_slice r s)) rs s)) =
    out @ concat (map2 (sealed_frame xml (aead_seal C ck))
      (alloc_seq (\<lambda>x. x + 1) (length (List.map_filter to_vec rs)) n) (List.map_filter to_vec rs))"
  using assms
proof (induction rs arbitrary: s out n)
  case Nil
  then show ?case by (simp add: rp_view_iff List.map_filter_simps)
next
  case (Cons r rs)
  note v = encrypted_request_view [OF Cons.prems, of C xml parse to_vec from_slice r]
  show ?case
  proof (cases "to_vec r")
    case None
    then show ?thesis using Cons.IH [of _ out n] Cons.prems v by (simp add: List.map_filter_simps)
  next
    case (Some p)
    then show ?thesis using Cons.IH [of _ "out @ sealed_frame xml (aead_seal C ck) n p" "n + 1"] v
      by (simp add: List.map_filter_simps)
  qed
qed

lemma verify_m3_sealed:
  assumes "hex_decode (our_signing_key r) = Ok sign_key" and "length sign_key = 32"
    and "hkdf_sha512 C (Some (bytes_of ''Pair-Verify-Encrypt-Salt'')) (x25519_dh C sk dev)
        (bytes_of ''Pair-Verify-Encrypt-Info'') = Some enc_key"
    and "aead_seal C enc_key (bytes_of ''PV-Msg03'' @ [0, 0, 0, 0])
        (tlv_encode [(1, bytes_of (our_identifier r)),
          (10, ed_sign C sign_key (x25519_pub C sk @ bytes_of (our_identifier r) @ dev))]) = Some enc"
  shows "verify_m3 C r sk dev = Ok (tlv_encode [(TLV_STATE, [3]), (TLV_ENCRYPTED_DATA, enc)])"
proof -
  have "bytes_of ''Pair-Verify-Encrypt-Salt'' \<noteq> []" by (simp add: bytes_of_def)
  moreover have "nonce_of ''PV-Msg03'' = bytes_of ''PV-Msg03'' @ [0, 0, 0, 0]"
    by (simp add: nonce_of_def numeral_eq_Suc)
  ultimately show ?thesis using assms
    by (simp add: verify_m3_def hkdf32_def signing_key_def chacha_encrypt_def Let_def tlv_types)
qed

section \<open>Properties\<close>

text \<open>
  C7: What a session writes in a run of up to \<open>2^64\<close> encrypted requests, whatever the peer answers
  and whichever of them fail: for every request that can be serialized one frame, whose ciphertext
  is its serialization sealed under the client key with the nonce of the next number (eight bytes,
  least first, and four zeros) and which names that number; and these nonces are all different. A
  request that cannot be sealed writes nothing but has used its number.
\<close>

theorem request_nonces_distinct:
  assumes "room (rp_stream s) = None" and "rp_client_key s = Some ck" and "rp_server_key s = Some sk"
    and "length rs \<le> 2 ^ 64"
  shows "\<exists>ns. ns = map (\<lambda>i. rp_enc_seq s + of_nat i) [0..<length (List.map_filter to_vec rs)] \<and>
    distinct (map (\<lambda>n :: u64. u64_le n @ [0, 0, 0, 0]) ns) \<and>
    outp (rp_stream (fold (\<lambda>r s. snd (encrypted_request C xml parse to_vec from_slice r s)) rs s)) =
      outp (rp_stream s) @ concat (map2 (\<lambda>n p.
        case aead_seal C ck (u64_le n @ [0, 0, 0, 0]) p of
          None \<Rightarrow> []
        | Some c \<Rightarrow> lp_frame (xml (pdict [(''message'', pdict [(''streamEncrypted'', pdict [(''_0'', PData c)])]),
            (''originatedBy'', PString ''host''), (''sequenceNumber'', PInteger (sint n))])))
        ns (List.map_filter to_vec rs))"
proof -
  let ?n = "length (List.map_filter to_vec rs)"
  let ?ns = "map (\<lambda>i. rp_enc_seq s + of_nat i) [0..<?n]"
  have ns: "alloc_seq (\<lambda>x :: u64. x + 1) ?n (rp_enc_seq s) = ?ns"
    by (rule nth_equalityI) (simp_all add: nth_alloc_seq successor_funpow)
  have "?n \<le> length rs" by (simp add: List.map_filter_def)
  then have "distinct (alloc_seq (\<lambda>x :: u64. x + 1) ?n (rp_enc_seq s))"
    by (intro seqs.alloc_distinct) (use assms(4) in \<open>simp_all add: seqs.span_def\<close>)
  then have d: "distinct (map (\<lambda>n. u64_le n @ [0, 0, 0, 0]) ?ns)"
    unfolding ns distinct_map by (auto simp: inj_on_def dest: u64_le_inj)
  have "rp_view s = (None, outp (rp_stream s), Some ck, Some sk, rp_enc_seq s)"
    using assms(1-3) by (simp add: rp_view_iff)
  note v = run_requests_view [OF this, of C xml parse to_vec from_slice rs,
      unfolded ns sealed_frame_def [abs_def]]
  show ?thesis by (intro exI [of _ ?ns] conjI refl d) (rule v)
qed

definition demo_crypto :: crypto where
  "demo_crypto = \<lparr>hkdf_sha512 = (\<lambda>salt ikm info. Some (ikm @ info)), aead_seal = (\<lambda>k n p. Some p),
    aead_open = (\<lambda>k n c. Some c), x25519_pub = id, x25519_dh = (\<lambda>a b. a @ b),
    ed_sign = (\<lambda>k m. k), ed_verifying = id, srp_public = id, srp_reply = (\<lambda>a u p s b. None)\<rparr>"

definition demo_session :: "script \<Rightarrow> rp_session" where
  "demo_session i = \<lparr>rp_stream = \<lparr>inp = i, outp = [], room = None\<rparr>,
    rp_record = \<lparr>our_identifier = ''ID'', our_signing_key = hex_encode (replicate 32 1),
      peer_identifier = ''P'', peer_public_key = []\<rparr>,
    rp_seq = 0, rp_client_key = None, rp_server_key = None, rp_enc_seq = 0, rp_home = True,
    rp_fault = None, rp_files = []\<rparr>"

theorem request_nonces_distinct_witness:
  "outp (rp_stream (fold (\<lambda>r s. snd (encrypted_request demo_crypto pv_enc pv_parse Some Some r s)) [[1], [2]]
      ((demo_session [])\<lparr>rp_client_key := Some [7], rp_server_key := Some [8]\<rparr>))) =
    lp_frame (pv_enc (encrypted_message [1] 0)) @ lp_frame (pv_enc (encrypted_message [2] 1))"
proof -
  define s where "s = (demo_session [])\<lparr>rp_client_key := Some [7], rp_server_key := Some [8]\<rparr>"
  have s: "room (rp_stream s) = None" "rp_client_key s = Some [7]" "rp_server_key s = Some [8]"
    "length [[1 :: byte], [2]] \<le> 2 ^ 64" "outp (rp_stream s) = []" "rp_enc_seq s = 0"
    by (simp_all add: s_def demo_session_def)
  have seal: "aead_seal demo_crypto k n p = Some p" for k n p by (simp add: demo_crypto_def)
  have f: "List.map_filter Some [[1 :: byte], [2]] = [[1], [2]]" "[0..<length [[1 :: byte], [2]]] = [0, 1]"
    by (simp_all add: List.map_filter_simps upt_rec)
  from request_nonces_distinct [OF s(1-4), of Some demo_crypto pv_enc pv_parse Some, unfolded f seal s(5,6)]
  show ?thesis unfolding s_def [symmetric] by (auto simp: encrypted_message_def)
qed

text \<open>
  C34: Pair-verify writes exactly two messages. The first says state one and carries the public key
  of the host; the second says state three and carries, sealed under the key derived from the shared
  secret with the nonce \<open>PV-Msg03\<close>, the identifier of the host and its signature over its public
  key, the identifier and the device's key. It ends as the device's last message says: state four
  and no error entry means success with both session keys derived from the shared secret, anything
  else is an error and leaves the keys of the session as they were. The device's own identity is
  not checked: any 32-byte key in its first message is accepted. The TLV types are written as
  numbers: 1 identifier, 3 public key, 5 encrypted data, 6 state, 7 error, 10 signature.
\<close>

theorem pair_verify_outcome:
  assumes "room (rp_stream s) = None"
    and "avail (inp (rp_stream s)) = lp_frame (xml v1) @ lp_frame (xml v2) @ rest"
    and "length (xml v1) < 2 ^ 32" and "length (xml v2) < 2 ^ 32"
    and "parse (xml v1) = Some v1" and "parse (xml v2) = Some v2"
    and "pairing_payload v1 = Ok r1" and "pairing_payload v2 = Ok r2"
    and "map_of (tlv_decode r1) 3 = Some dev" and "length dev = 32"
    and "hex_decode (our_signing_key (rp_record s)) = Ok sign_key" and "length sign_key = 32"
    and "hkdf_sha512 C (Some (bytes_of ''Pair-Verify-Encrypt-Salt'')) (x25519_dh C sk dev)
        (bytes_of ''Pair-Verify-Encrypt-Info'') = Some enc_key"
    and "aead_seal C enc_key (bytes_of ''PV-Msg03'' @ [0, 0, 0, 0])
        (tlv_encode [(1, bytes_of (our_identifier (rp_record s))),
          (10, ed_sign C sign_key (x25519_pub C sk @ bytes_of (our_identifier (rp_record s)) @ dev))]) = Some enc"
    and "hkdf_sha512 C None (x25519_dh C sk dev) (bytes_of ''ClientEncrypt-main'') = Some ck"
    and "hkdf_sha512 C None (x25519_dh C sk dev) (bytes_of ''ServerEncrypt-main'') = Some svk"
    and "pair_verify C xml parse sk s = (r, s')"
  shows "outp (rp_stream s') = outp (rp_stream s) @
      lp_frame (xml (pdict [(''pairingData'', pdict [(''_0'',
          pdict [(''data'', PData (tlv_encode [(6, [1]), (3, x25519_pub C sk)]))])]),
        (''kind'', PString ''verifyManualPairing''), (''startNewSession'', PBoolean True)])) @
      lp_frame (xml (pdict [(''pairingData'', pdict [(''_0'',
          pdict [(''data'', PData (tlv_encode [(6, [3]), (5, enc)]))])]),
        (''kind'', PString ''verifyManualPairing''), (''startNewSession'', PBoolean False)])) \<and>
    avail (inp (rp_stream s')) = rest \<and>
    (if map_of (tlv_decode r2) 7 = None \<and> tlv_get_u8 (tlv_decode r2) 6 = Some 4
     then r = Ok () \<and> rp_client_key s' = Some ck \<and> rp_server_key s' = Some svk
     else r = Err TunProtocol \<and> rp_client_key s' = rp_client_key s \<and> rp_server_key s' = rp_server_key s)"
proof -
  define m3 where "m3 = tlv_encode [(TLV_STATE, [3]), (TLV_ENCRYPTED_DATA, enc)]"
  define s1 where "s1 = snd (send_pairing_data xml ''verifyManualPairing'' True (verify_m1 C sk) s)"
  have s1: "send_pairing_data xml ''verifyManualPairing'' True (verify_m1 C sk) s = (Ok (), s1)"
    "room (rp_stream s1) = None" "inp (rp_stream s1) = inp (rp_stream s)" "rp_record s1 = rp_record s"
    "same_keys s s1"
    "outp (rp_stream s1) = outp (rp_stream s) @ lp_frame (xml (pairing_message ''verifyManualPairing'' True (verify_m1 C sk)))"
    using rp_send_unlimited [OF assms(1)] assms(1)
    by (simp_all add: s1_def send_pairing_data_def same_keys_def)
  have av1: "avail (inp (rp_stream s1)) = lp_frame (xml v1) @ (lp_frame (xml v2) @ rest)"
    using assms(2) s1(3) by simp
  obtain i where i: "recv_pairing_data parse s1 = (Ok r1, s1\<lparr>rp_stream := (rp_stream s1)\<lparr>inp := i\<rparr>\<rparr>)"
    "avail i = lp_frame (xml v2) @ rest"
    using recv_pairing_next [of xml v1 parse s1, OF assms(3,5) av1 assms(7)] by blast
  define s2 where "s2 = s1\<lparr>rp_stream := (rp_stream s1)\<lparr>inp := i\<rparr>\<rparr>"
  define s3 where "s3 = snd (send_pairing_data xml ''verifyManualPairing'' False m3 s2)"
  have r2: "room (rp_stream s2) = None" using s1(2) by (simp add: s2_def)
  have s3: "send_pairing_data xml ''verifyManualPairing'' False m3 s2 = (Ok (), s3)"
    "inp (rp_stream s3) = i" "same_keys s s3"
    "outp (rp_stream s3) = outp (rp_stream s1) @ lp_frame (xml (pairing_message ''verifyManualPairing'' False m3))"
    using rp_send_unlimited [OF r2] s1(5)
    by (simp_all add: s3_def send_pairing_data_def same_keys_def s2_def)
  have av3: "avail (inp (rp_stream s3)) = lp_frame (xml v2) @ rest" using s3(2) i(2) by simp
  obtain j where j: "recv_pairing_data parse s3 = (Ok r2, s3\<lparr>rp_stream := (rp_stream s3)\<lparr>inp := j\<rparr>\<rparr>)" "avail j = rest"
    using recv_pairing_next [of xml v2 parse s3, OF assms(4,6) av3 assms(8)] by blast
  define s4 where "s4 = s3\<lparr>rp_stream := (rp_stream s3)\<lparr>inp := j\<rparr>\<rparr>"
  have out: "outp (rp_stream s4) = outp (rp_stream s) @
      lp_frame (xml (pairing_message ''verifyManualPairing'' True (verify_m1 C sk))) @
      lp_frame (xml (pairing_message ''verifyManualPairing'' False m3))"
    using s1(6) s3(4) by (simp add: s4_def)
  have pk: "peer_key (tlv_decode r1) = Ok dev" using assms(9,10) by (simp add: peer_key_def tlv_types)
  have m3: "verify_m3 C (rp_record s2) sk dev = Ok m3"
    using assms(11-14) s1(4)
    by (simp add: s2_def verify_m3_sealed m3_def)
  have "pair_verify C xml parse sk s =
      bnd (lift_o (verify_m4 (tlv_decode r2))) (\<lambda>_. set_keys C (x25519_dh C sk dev)) s4"
    using s1(1) i(1) pk m3 s3(1) j by (simp add: pair_verify_def s2_def [symmetric] s4_def)
  moreover have "same_keys s s4" using s3(3) by (simp add: same_keys_def s4_def)
  moreover have "avail (inp (rp_stream s4)) = rest" using j(2) by (simp add: s4_def)
  moreover have "verify_m4 (tlv_decode r2) =
      (if map_of (tlv_decode r2) 7 = None \<and> tlv_get_u8 (tlv_decode r2) 6 = Some 4
       then Ok () else Err TunProtocol)" by (auto simp: verify_m4_def no_tlv_error_def tlv_types)
  moreover have "set_keys C (x25519_dh C sk dev) s4 =
      (Ok (), s4\<lparr>rp_client_key := Some ck, rp_server_key := Some svk\<rparr>)"
    using assms(15,16) by (simp add: set_keys_def hkdf32_def)
  ultimately show ?thesis using assms(17) out
    by (auto simp: verify_m1_def m3_def pairing_message_def tlv_types same_keys_def split: if_splits)
qed

theorem pair_verify_outcome_witness:
  "\<exists>s'. pair_verify demo_crypto pv_enc pv_parse [9]
    (demo_session [Data (lp_frame (pv_enc (pairing_message [] False
        (tlv_encode [(TLV_STATE, [2]), (TLV_PUBLIC_KEY, replicate 32 5)])))),
      Data (lp_frame (pv_enc (pairing_message [] False (tlv_encode [(TLV_STATE, [4])]))))]) = (Ok (), s') \<and>
    rp_client_key s' = Some ([9] @ replicate 32 5 @ bytes_of ''ClientEncrypt-main'')"
proof -
  let ?r1 = "tlv_encode [(TLV_STATE, [2]), (TLV_PUBLIC_KEY, replicate 32 5)]"
  let ?r2 = "tlv_encode [(TLV_STATE, [4])]"
  let ?v1 = "pairing_message [] False ?r1"
  let ?v2 = "pairing_message [] False ?r2"
  let ?s = "demo_session [Data (lp_frame (pv_enc ?v1)), Data (lp_frame (pv_enc ?v2))]"
  obtain r s' where rs: "pair_verify demo_crypto pv_enc pv_parse [9] ?s = (r, s')" by fastforce
  have l: "length (pv_enc ?v1) < 2 ^ 32" "length (pv_enc ?v2) < 2 ^ 32" by code_simp+
  have p: "pairing_payload ?v1 = Ok ?r1" "pairing_payload ?v2 = Ok ?r2" by code_simp+
  have k: "map_of (tlv_decode ?r1) 3 = Some (replicate 32 5)" by code_simp
  have e: "map_of (tlv_decode ?r2) 7 = None" "tlv_get_u8 (tlv_decode ?r2) 6 = Some 4" by code_simp+
  have h: "hkdf_sha512 demo_crypto x ikm info = Some (ikm @ info)" "aead_seal demo_crypto a b c = Some c"
    "x25519_dh demo_crypto a b = a @ b" for x ikm info a b c
    by (simp_all add: demo_crypto_def)
  have sg: "hex_decode (our_signing_key (rp_record ?s)) = Ok (replicate 32 1)"
    by (simp add: demo_session_def hex_decode_encode)
  have "room (rp_stream ?s) = None" "avail (inp (rp_stream ?s)) = lp_frame (pv_enc ?v1) @ lp_frame (pv_enc ?v2) @ []"
    by (simp_all add: demo_session_def)
  note o = pair_verify_outcome [OF this l _ _ p k _ sg _ h(1) h(2) h(1) h(1) rs]
  show ?thesis using o e rs by (simp add: h)
qed

end
