(* ===== verification/Afc.thy ===== *)
theory Afc
  imports Plist PlistInstance
begin

text \<open>
  The Apple File Conduit client, \<open>src/src/lockdown/services/afc.rs\<close>: packets with a 40-byte
  header, one request and one response at a time, the directory, path and handle operations,
  reading and uploading whole files, and the house-arrest handshake. The state is the socket
  and the packet counter. Error texts are reduced to what they report: a status code, an
  unexpected opcode, a bad magic. The copies to and from local files are in theory AfcTree.
\<close>

section \<open>Protocol\<close>

datatype afc_error =
    AfcIo io_kind | AfcClosed | AfcMagic | AfcStatus u64 | AfcUnexpected u64
  | AfcHouseArrest string | AfcPlist | AfcLocal string

record afc =
  afc_stream :: sock
  packet_num :: u64

type_synonym 'a afcp = "(afc, afc_error, 'a) prog"

definition AFC_MAGIC :: bytes where "AFC_MAGIC = bytes_of ''CFA6LPAA''"
definition AFC_HEADER :: nat where "AFC_HEADER = 40"
definition READ_CHUNK :: nat where "READ_CHUNK = 4 * 1024 * 1024"
definition WRITE_CHUNK :: nat where "WRITE_CHUNK = 256 * 1024"

definition OP_STATUS :: u64 where "OP_STATUS = 0x01"
definition OP_DATA :: u64 where "OP_DATA = 0x02"
definition OP_READ_DIR :: u64 where "OP_READ_DIR = 0x03"
definition OP_REMOVE_PATH :: u64 where "OP_REMOVE_PATH = 0x08"
definition OP_MAKE_DIR :: u64 where "OP_MAKE_DIR = 0x09"
definition OP_GET_FILE_INFO :: u64 where "OP_GET_FILE_INFO = 0x0a"
definition OP_GET_DEVINFO :: u64 where "OP_GET_DEVINFO = 0x0b"
definition OP_FILE_OPEN :: u64 where "OP_FILE_OPEN = 0x0d"
definition OP_FILE_OPEN_RES :: u64 where "OP_FILE_OPEN_RES = 0x0e"
definition OP_FILE_READ :: u64 where "OP_FILE_READ = 0x0f"
definition OP_FILE_WRITE :: u64 where "OP_FILE_WRITE = 0x10"
definition OP_FILE_CLOSE :: u64 where "OP_FILE_CLOSE = 0x14"
definition OP_RENAME_PATH :: u64 where "OP_RENAME_PATH = 0x22"
definition OP_MAKE_LINK :: u64 where "OP_MAKE_LINK = 0x28"

lemmas afc_ops = OP_STATUS_def OP_DATA_def OP_READ_DIR_def OP_REMOVE_PATH_def OP_MAKE_DIR_def
  OP_GET_FILE_INFO_def OP_GET_DEVINFO_def OP_FILE_OPEN_def OP_FILE_OPEN_RES_def OP_FILE_READ_def
  OP_FILE_WRITE_def OP_FILE_CLOSE_def OP_RENAME_PATH_def OP_MAKE_LINK_def

definition FOPEN_RDONLY :: u64 where "FOPEN_RDONLY = 0x01"
definition FOPEN_WR :: u64 where "FOPEN_WR = 0x04"
definition STATUS_SUCCESS :: u64 where "STATUS_SUCCESS = 0"
definition STATUS_OBJECT_EXISTS :: u64 where "STATUS_OBJECT_EXISTS = 16"
definition STATUS_END_OF_DATA :: u64 where "STATUS_END_OF_DATA = 14"

definition nul_str :: "string \<Rightarrow> bytes" where
  "nul_str s = bytes_of s @ [0]"

definition le_u64 :: "bytes \<Rightarrow> nat \<Rightarrow> u64" where
  "le_u64 buf offset =
    (if length buf < offset + 8 then 0 else u64_of_le (take 8 (drop offset buf)))"

definition on_afc :: "(sock, afc_error, 'a) prog \<Rightarrow> 'a afcp" where
  "on_afc m c = (case m (afc_stream c) of (r, s) \<Rightarrow> (r, c\<lparr>afc_stream := s\<rparr>))"

definition afc_read_exact :: "nat \<Rightarrow> (script, afc_error, bytes) prog" where
  "afc_read_exact n = on_err (\<lambda>e. case e of RIo k \<Rightarrow> AfcIo k | REof \<Rightarrow> AfcClosed) (read_exact n)"

definition afc_packet :: "u64 \<Rightarrow> u64 \<Rightarrow> bytes \<Rightarrow> bytes \<Rightarrow> bytes" where
  "afc_packet num op args file_data =
    (let this_length = word_of_nat (AFC_HEADER + length args) :: u64;
         entire_length = this_length + word_of_nat (length file_data)
     in AFC_MAGIC @ u64_le entire_length @ u64_le this_length @ u64_le num @ u64_le op @ args @ file_data)"

text \<open>The header, the arguments and the file data are three writes; empty parts are skipped.\<close>

definition afc_send_request :: "u64 \<Rightarrow> bytes \<Rightarrow> bytes \<Rightarrow> unit afcp" where
  "afc_send_request op args file_data c =
    (let n = packet_num c + 1 in
     on_afc (on_err AfcIo
       (bnd (write_all (take 40 (afc_packet n op args file_data))) (\<lambda>_.
        bnd (if args \<noteq> [] then write_all args else ret ()) (\<lambda>_.
             if file_data \<noteq> [] then write_all file_data else ret ()))))
       (c\<lparr>packet_num := n\<rparr>))"

text \<open>\<open>vec![0; n]\<close> panics for a length no allocation can have.\<close>

definition recv_packet :: "(script, afc_error, u64 \<times> bytes) prog" where
  "recv_packet =
    bnd (afc_read_exact AFC_HEADER) (\<lambda>hdr.
      if take 8 hdr \<noteq> AFC_MAGIC then throw AfcMagic
      else
        let entire_length = unat (le_u64 hdr 8);
            this_length = unat (le_u64 hdr 16);
            op = le_u64 hdr 32;
            len = (this_length - AFC_HEADER) + (entire_length - this_length)
        in if 2 ^ 63 \<le> len then panic
           else if len \<noteq> 0 then bnd (afc_read_exact len) (\<lambda>payload. ret (op, payload))
           else ret (op, []))"

definition recv_response :: "(u64 \<times> bytes) afcp" where
  "recv_response = on_afc (on_inp recv_packet)"

definition expect_status :: "unit afcp" where
  "expect_status = bnd recv_response (\<lambda>(op, data).
     if op = OP_STATUS then
       (let code = le_u64 data 0 in if code = STATUS_SUCCESS then ret () else throw (AfcStatus code))
     else throw (AfcUnexpected op))"

text \<open>The shape of the queries: a data packet is the answer, a status packet the error.\<close>

definition expect_data :: "u64 \<Rightarrow> (bytes \<Rightarrow> 'a) \<Rightarrow> 'a afcp" where
  "expect_data want f = bnd recv_response (\<lambda>(op, data).
     if op = want then ret (f data)
     else if op = OP_STATUS then throw (AfcStatus (le_u64 data 0))
     else throw (AfcUnexpected op))"

section \<open>Texts\<close>

text \<open>\<open>data.split(|b| b == 0)\<close>, the empty pieces dropped.\<close>

fun split_nul :: "bytes \<Rightarrow> bytes \<Rightarrow> bytes list" where
  "split_nul acc [] = [acc]"
| "split_nul acc (b # bs) = (if b = 0 then acc # split_nul [] bs else split_nul (acc @ [b]) bs)"

definition parse_nul_strings :: "bytes \<Rightarrow> string list" where
  "parse_nul_strings data = map from_utf8_lossy (filter (\<lambda>s. s \<noteq> []) (split_nul [] data))"

fun pair_up :: "'a list \<Rightarrow> ('a \<times> 'a) list" where
  "pair_up (a # b # r) = (a, b) # pair_up r"
| "pair_up _ = []"

text \<open>Collected into a map: of several values for one key the last stays.\<close>

definition parse_kv_pairs :: "bytes \<Rightarrow> (string, string) amap" where
  "parse_kv_pairs data = fold (\<lambda>(k, v). ainsert k v) (pair_up (parse_nul_strings data)) []"

datatype FileType = Regular | Directory | Symlink | OtherType

definition file_type_of :: "string \<Rightarrow> FileType" where
  "file_type_of s = (if s = ''S_IFREG'' then Regular else if s = ''S_IFDIR'' then Directory
     else if s = ''S_IFLNK'' then Symlink else OtherType)"

fun indicator :: "FileType \<Rightarrow> char" where
  "indicator Regular = CHR ''-''"
| "indicator Directory = CHR ''d''"
| "indicator Symlink = CHR ''l''"
| "indicator OtherType = CHR 0x3F"

record FileInfo =
  fi_name :: string
  fi_type :: FileType
  fi_size :: u64
  fi_modified_nanos :: u64
  fi_link_target :: "string option"

definition num_or_0 :: "(string, string) amap \<Rightarrow> string \<Rightarrow> u64" where
  "num_or_0 m k = (case Option.bind (map_of m k) parse_u64 of None \<Rightarrow> 0 | Some n \<Rightarrow> n)"

definition parse_file_info :: "string \<Rightarrow> bytes \<Rightarrow> FileInfo" where
  "parse_file_info name data = (let pairs = parse_kv_pairs data in
    \<lparr>fi_name = name,
     fi_type = (case map_of pairs ''st_ifmt'' of None \<Rightarrow> OtherType | Some s \<Rightarrow> file_type_of s),
     fi_size = num_or_0 pairs ''st_size'',
     fi_modified_nanos = num_or_0 pairs ''st_mtime'',
     fi_link_target = map_of pairs ''LinkTarget''\<rparr>)"

record AfcDeviceInfo =
  di_model :: string
  di_total_bytes :: u64
  di_free_bytes :: u64
  di_block_size :: u64

definition parse_device_info :: "bytes \<Rightarrow> AfcDeviceInfo" where
  "parse_device_info data = (let pairs = parse_kv_pairs data in
    \<lparr>di_model = (case map_of pairs ''Model'' of None \<Rightarrow> [] | Some s \<Rightarrow> s),
     di_total_bytes = num_or_0 pairs ''FSTotalBytes'',
     di_free_bytes = num_or_0 pairs ''FSFreeBytes'',
     di_block_size = num_or_0 pairs ''FSBlockSize''\<rparr>)"

text \<open>The part of a path after the last slash, and the part before it.\<close>

definition leaf :: "string \<Rightarrow> string" where
  "leaf path = rev (takeWhile (\<lambda>c. c \<noteq> CHR ''/'') (rev path))"

definition parent_dir :: "string \<Rightarrow> string option" where
  "parent_dir path =
    (if CHR ''/'' \<in> set path then Some (rev (tl (dropWhile (\<lambda>c. c \<noteq> CHR ''/'') (rev path)))) else None)"

definition status_text :: "u64 \<Rightarrow> string" where
  "status_text code =
    (if code = 0 then ''success'' else if code = 1 then ''unknown error''
     else if code = 2 then ''invalid header'' else if code = 3 then ''no resources''
     else if code = 4 then ''read error'' else if code = 5 then ''write error''
     else if code = 6 then ''unknown packet type'' else if code = 7 then ''invalid arg''
     else if code = 8 then ''not found'' else if code = 9 then ''is a directory''
     else if code = 10 then ''permission denied'' else if code = 11 then ''not connected''
     else if code = 12 then ''timeout'' else if code = 13 then ''too much data''
     else if code = 14 then ''end of data'' else if code = 15 then ''not supported''
     else if code = 16 then ''object exists'' else if code = 17 then ''object busy''
     else if code = 18 then ''no space left'' else if code = 20 then ''I/O error''
     else ''unknown'')"

definition status_name :: "u64 \<Rightarrow> string" where
  "status_name code = status_text code @ '' (code '' @ show_nat (unat code) @ '')''"

section \<open>Operations\<close>

definition list_dir :: "string \<Rightarrow> string list afcp" where
  "list_dir path = bnd (afc_send_request OP_READ_DIR (nul_str path) []) (\<lambda>_.
    expect_data OP_DATA (\<lambda>data. filter (\<lambda>n. n \<noteq> ''.'' \<and> n \<noteq> ''..'') (parse_nul_strings data)))"

definition get_file_info :: "string \<Rightarrow> FileInfo afcp" where
  "get_file_info path = bnd (afc_send_request OP_GET_FILE_INFO (nul_str path) []) (\<lambda>_.
    expect_data OP_DATA (parse_file_info (leaf path)))"

definition device_info :: "AfcDeviceInfo afcp" where
  "device_info = bnd (afc_send_request OP_GET_DEVINFO [] []) (\<lambda>_. expect_data OP_DATA parse_device_info)"

definition mkdir :: "string \<Rightarrow> unit afcp" where
  "mkdir path = bnd (afc_send_request OP_MAKE_DIR (nul_str path) []) (\<lambda>_.
    bnd recv_response (\<lambda>(op, data).
      if op = OP_STATUS then
        (let code = le_u64 data 0 in
         if code = STATUS_SUCCESS \<or> code = STATUS_OBJECT_EXISTS then ret () else throw (AfcStatus code))
      else throw (AfcUnexpected op)))"

definition remove_path :: "string \<Rightarrow> unit afcp" where
  "remove_path path = bnd (afc_send_request OP_REMOVE_PATH (nul_str path) []) (\<lambda>_. expect_status)"

definition rename :: "string \<Rightarrow> string \<Rightarrow> unit afcp" where
  "rename from_path to_path =
    bnd (afc_send_request OP_RENAME_PATH (nul_str from_path @ nul_str to_path) []) (\<lambda>_. expect_status)"

definition make_link :: "bool \<Rightarrow> string \<Rightarrow> string \<Rightarrow> unit afcp" where
  "make_link hard target link_name =
    bnd (afc_send_request OP_MAKE_LINK
        (u64_le (if hard then 1 else 2) @ nul_str target @ nul_str link_name) [])
      (\<lambda>_. expect_status)"

definition open_with_mode :: "string \<Rightarrow> u64 \<Rightarrow> u64 afcp" where
  "open_with_mode path mode =
    bnd (afc_send_request OP_FILE_OPEN (u64_le mode @ nul_str path) []) (\<lambda>_.
      expect_data OP_FILE_OPEN_RES (\<lambda>data. le_u64 data 0))"

definition file_open_read :: "string \<Rightarrow> u64 afcp" where
  "file_open_read path = open_with_mode path FOPEN_RDONLY"

definition file_open :: "string \<Rightarrow> u64 afcp" where
  "file_open path = open_with_mode path FOPEN_WR"

definition file_read :: "u64 \<Rightarrow> nat \<Rightarrow> bytes afcp" where
  "file_read handle n =
    bnd (afc_send_request OP_FILE_READ (u64_le handle @ u64_le (word_of_nat n)) []) (\<lambda>_.
      bnd recv_response (\<lambda>(op, data).
        if op = OP_DATA then ret data
        else if op = OP_STATUS then
          (let code = le_u64 data 0 in
           if code = STATUS_SUCCESS \<or> code = STATUS_END_OF_DATA then ret [] else throw (AfcStatus code))
        else throw (AfcUnexpected op)))"

definition file_write :: "u64 \<Rightarrow> bytes \<Rightarrow> unit afcp" where
  "file_write handle data = bnd (afc_send_request OP_FILE_WRITE (u64_le handle) data) (\<lambda>_. expect_status)"

definition file_close :: "u64 \<Rightarrow> unit afcp" where
  "file_close handle = bnd (afc_send_request OP_FILE_CLOSE (u64_le handle) []) (\<lambda>_. expect_status)"

text \<open>On a failed transfer the handle is closed, the close's own result is dropped.\<close>

definition close_and_fail :: "u64 \<Rightarrow> afc_error \<Rightarrow> 'a afcp" where
  "close_and_fail handle e c = (case file_close handle c of
     (Panic, c') \<Rightarrow> (Panic, c') | (_, c') \<Rightarrow> (Err e, c'))"

fun write_chunks :: "u64 \<Rightarrow> bytes list \<Rightarrow> unit afcp" where
  "write_chunks handle [] c = (Ok (), c)"
| "write_chunks handle (d # ds) c = (case file_write handle d c of
     (Ok _, c') \<Rightarrow> write_chunks handle ds c'
   | (Err e, c') \<Rightarrow> close_and_fail handle e c'
   | (Panic, c') \<Rightarrow> (Panic, c'))"

definition put_file :: "string \<Rightarrow> bytes \<Rightarrow> unit afcp" where
  "put_file remote_path data =
    bnd (case parent_dir remote_path of
           Some dir \<Rightarrow> if dir \<noteq> [] then mkdir dir else ret ()
         | None \<Rightarrow> ret ()) (\<lambda>_.
    bnd (file_open remote_path) (\<lambda>handle.
    bnd (write_chunks handle (chunks WRITE_CHUNK data)) (\<lambda>_. file_close handle)))"

section \<open>Reading whole files\<close>

lemma on_afc_simps [simp, prog]:
  "m (afc_stream c) = (r, s) \<Longrightarrow> on_afc m c = (r, c\<lparr>afc_stream := s\<rparr>)"
  by (simp add: on_afc_def)

lemma write_inp_keeps: "inp (snd ((if b then write_all xs else ret ()) s)) = inp s"
  by (simp add: write_all_inp)

lemma afc_send_request_inp: "inp (afc_stream (snd (afc_send_request op a d c))) = inp (afc_stream c)"
proof -
  let ?m = "on_err AfcIo (bnd (write_all (take 40 (afc_packet (packet_num c + 1) op a d))) (\<lambda>_.
        bnd (if a \<noteq> [] then write_all a else ret ()) (\<lambda>_.
             if d \<noteq> [] then write_all d else ret ())))"
  have e: "inp (snd (on_err f m s)) = inp s" if "\<And>s. inp (snd (m s)) = inp s"
    for f :: "io_kind \<Rightarrow> afc_error" and m :: "(sock, io_kind, unit) prog" and s
    using that [of s] by (cases "m s") (simp add: on_err_def)
  have "inp (snd (?m (afc_stream c))) = inp (afc_stream c)"
    by (rule e, rule bnd_keeps, rule write_all_inp, rule bnd_keeps) (rule write_inp_keeps)+
  then show ?thesis
    by (cases "?m (afc_stream c)") (simp add: afc_send_request_def Let_def)
qed

lemma recv_packet_weight: "recv_packet s = (Ok (op, p), s') \<Longrightarrow> weight s' < weight s"
  by (auto simp: recv_packet_def bnd_Ok_iff afc_read_exact_def on_err_Ok_iff Let_def AFC_HEADER_def
      throw_def panic_def dest!: read_exact_weight split: if_splits)

lemma recv_response_weight:
  "recv_response c = (Ok (op, p), c') \<Longrightarrow> weight (inp (afc_stream c')) < weight (inp (afc_stream c))"
  by (auto simp: recv_response_def on_afc_def on_inp_def split: prod.splits dest!: recv_packet_weight)

lemma file_read_weight:
  assumes "file_read h n c = (Ok d, c')"
  shows "weight (inp (afc_stream c')) < weight (inp (afc_stream c))"
proof -
  from assms obtain u c1 where s: "afc_send_request OP_FILE_READ (u64_le h @ u64_le (word_of_nat n)) [] c = (Ok u, c1)"
    and r: "bnd recv_response (\<lambda>(op, data).
        if op = OP_DATA then ret data
        else if op = OP_STATUS then
          (let code = le_u64 data 0 in
           if code = STATUS_SUCCESS \<or> code = STATUS_END_OF_DATA then ret [] else throw (AfcStatus code))
        else throw (AfcUnexpected op)) c1 = (Ok d, c')"
    by (auto simp: file_read_def bnd_Ok_iff [of "afc_send_request _ _ _"])
  have "inp (afc_stream c1) = inp (afc_stream c)"
    using afc_send_request_inp [of OP_FILE_READ "u64_le h @ u64_le (word_of_nat n)" "[]" c] s by simp
  moreover obtain op p c2 where "recv_response c1 = (Ok (op, p), c2)" "c' = c2"
    using r by (auto simp: bnd_Ok_iff Let_def throw_def ret_def split: if_splits)
  ultimately show ?thesis using recv_response_weight by metis
qed

function read_chunks :: "u64 \<Rightarrow> bytes \<Rightarrow> bytes afcp" where
  "read_chunks handle buf c = (case file_read handle READ_CHUNK c of
     (Ok d, c') \<Rightarrow> if d = [] then (Ok buf, c') else read_chunks handle (buf @ d) c'
   | (Err e, c') \<Rightarrow> close_and_fail handle e c'
   | (Panic, c') \<Rightarrow> (Panic, c'))"
  by pat_completeness auto
termination
  by (relation "measure (\<lambda>(h, b, c). weight (inp (afc_stream c)))")
    (auto dest!: sym [of _ "file_read _ _ _"] file_read_weight)

declare read_chunks.simps [simp del]

definition read_file :: "string \<Rightarrow> bytes afcp" where
  "read_file path = bnd (file_open_read path) (\<lambda>handle.
    bnd (read_chunks handle []) (\<lambda>buf. bnd (file_close handle) (\<lambda>_. ret buf)))"

section \<open>House arrest\<close>

text \<open>
  The read loop that takes the end of the stream, also one reported as an error, for a short
  read and zero-fills the rest.
\<close>

function read_eof_ok :: "nat \<Rightarrow> bytes \<Rightarrow> (script, afc_error, bytes) prog" where
  "read_eof_ok n acc s =
    (if n = 0 then (Ok acc, s)
     else case read_some n s of
       (Inr [], s') \<Rightarrow> (Ok (acc @ replicate n 0), s')
     | (Inr (b # c), s') \<Rightarrow> read_eof_ok (n - length (b # c)) (acc @ b # c) s'
     | (Inl k, s') \<Rightarrow>
         if k = UnexpectedEof then (Ok (acc @ replicate n 0), s') else (Err (AfcIo k), s'))"
  by pat_completeness auto
termination
  by (relation "measure (\<lambda>(n, acc, s). n)") auto

declare read_eof_ok.simps [simp del]

definition house_arrest_error :: "pvalue \<Rightarrow> string option" where
  "house_arrest_error v = Option.bind (as_dictionary v) (\<lambda>d.
    Option.bind (Option.bind (dget d ''Error'') as_string) (\<lambda>err.
      Some (case Option.bind (dget d ''ErrorDescription'') as_string of None \<Rightarrow> err | Some t \<Rightarrow> t)))"

definition house_arrest_on_stream ::
  "(pvalue \<Rightarrow> bytes) \<Rightarrow> (bytes \<Rightarrow> pvalue option) \<Rightarrow> string \<Rightarrow> string \<Rightarrow> (sock, afc_error, afc) prog" where
  "house_arrest_on_stream xml parse command bundle_id =
    (let body = xml (pdict [(''Command'', PString command), (''Identifier'', PString bundle_id)]) in
     bnd (on_err AfcIo (bnd (write_all (u32_be (word_of_nat (length body)))) (\<lambda>_. write_all body))) (\<lambda>_.
     bnd (on_inp (read_eof_ok 4 [])) (\<lambda>len_buf.
       let resp_len = unat (u32_of_be len_buf) in
       if resp_len = 0 \<or> resp_len > 1024 * 1024 then throw (AfcHouseArrest bundle_id)
       else bnd (on_inp (read_eof_ok resp_len [])) (\<lambda>resp_body.
         bnd (lift_o (ok_or (parse resp_body) AfcPlist)) (\<lambda>resp s.
           case house_arrest_error resp of
             Some desc \<Rightarrow> (Err (AfcHouseArrest desc), s)
           | None \<Rightarrow> (Ok \<lparr>afc_stream = s, packet_num = 0\<rparr>, s))))))"

definition afc_from_stream :: "sock \<Rightarrow> afc" where
  "afc_from_stream s = \<lparr>afc_stream = s, packet_num = 0\<rparr>"

definition connect_app_shim ::
  "(pvalue \<Rightarrow> bytes) \<Rightarrow> (bytes \<Rightarrow> pvalue option) \<Rightarrow> string \<Rightarrow> (sock, afc_error, afc) prog" where
  "connect_app_shim xml parse bundle_id = house_arrest_on_stream xml parse ''VendContainer'' bundle_id"

definition connect_app_documents_shim ::
  "(pvalue \<Rightarrow> bytes) \<Rightarrow> (bytes \<Rightarrow> pvalue option) \<Rightarrow> string \<Rightarrow> (sock, afc_error, afc) prog" where
  "connect_app_documents_shim xml parse bundle_id =
    house_arrest_on_stream xml parse ''VendDocuments'' bundle_id"

section \<open>Packets\<close>

definition afc_wf :: "u64 \<times> bytes \<Rightarrow> bool" where
  "afc_wf m \<longleftrightarrow> length (snd m) < 2 ^ 62"

text \<open>A device's answer: all of its payload as arguments, or all of it as file data.\<close>

definition afc_put :: "u64 \<times> bytes \<Rightarrow> bytes" where
  "afc_put m = afc_packet 0 (fst m) (snd m) []"

lemma length_AFC_MAGIC [simp]: "length AFC_MAGIC = 8"
  by (simp add: AFC_MAGIC_def)

lemma afc_packet_fields:
  fixes args d :: bytes and num op :: u64
  assumes "length args + length d < 2 ^ 62"
  defines "h \<equiv> take 40 (afc_packet num op args d)"
  shows "length h = 40" "afc_packet num op args d = h @ args @ d" "take 8 h = AFC_MAGIC"
    "unat (le_u64 h 8) = 40 + length args + length d" "unat (le_u64 h 16) = 40 + length args"
    "le_u64 h 32 = op"
proof -
  define a :: u64 where "a = word_of_nat (AFC_HEADER + length args)"
  define e :: u64 where "e = a + word_of_nat (length d)"
  have h: "h = AFC_MAGIC @ u64_le e @ u64_le a @ u64_le num @ u64_le op"
    by (simp add: h_def afc_packet_def Let_def a_def e_def)
  show "length h = 40" "take 8 h = AFC_MAGIC" "le_u64 h 32 = op" by (simp_all add: h le_u64_def)
  show "afc_packet num op args d = h @ args @ d"
    by (simp add: h afc_packet_def Let_def a_def e_def)
  have "unat (word_of_nat (40 + length args) :: u64) = 40 + length args"
    by (rule unat_word_of_nat_less) (use assms(1) in simp)
  then show "unat (le_u64 h 16) = 40 + length args"
    by (simp add: h le_u64_def a_def AFC_HEADER_def)
  have "e = word_of_nat (40 + length args + length d)" by (simp add: e_def a_def AFC_HEADER_def)
  moreover have "unat (word_of_nat (40 + length args + length d) :: u64) = 40 + length args + length d"
    by (rule unat_word_of_nat_less) (use assms(1) in simp)
  ultimately show "unat (le_u64 h 8) = 40 + length args + length d" by (simp add: h le_u64_def)
qed

lemma afc_read_exact_next:
  assumes "avail s = xs @ rest" and "length xs = n"
  obtains s' where "afc_read_exact n s = (Ok xs, s')" and "avail s' = rest" and "after s' = after s"
  using read_exact_next [OF assms] by (metis afc_read_exact_def on_err_simps(1))

lemma recv_packet_next:
  assumes "length args + length d < 2 ^ 62" and "avail s = afc_packet num op args d @ rest"
  shows "\<exists>s'. recv_packet s = (Ok (op, args @ d), s') \<and> avail s' = rest \<and> after s' = after s"
proof -
  define h where "h = take 40 (afc_packet num op args d)"
  note f = afc_packet_fields [OF assms(1), of num op, folded h_def]
  have "avail s = h @ (args @ d @ rest)" using assms(2) unfolding f(2) by simp
  then obtain s1 where s1: "afc_read_exact 40 s = (Ok h, s1)" "avail s1 = args @ d @ rest"
    "after s1 = after s" using f(1) by (rule afc_read_exact_next)
  have len: "(unat (le_u64 h 16) - AFC_HEADER) + (unat (le_u64 h 8) - unat (le_u64 h 16)) =
      length (args @ d)" by (simp add: f(4,5) AFC_HEADER_def)
  have small: "\<not> 2 ^ 63 \<le> length (args @ d)" using assms(1) by simp
  show ?thesis
  proof (cases "args @ d = []")
    case True
    then show ?thesis using s1 f(3,6) len
      by (intro exI [of _ s1]) (simp add: recv_packet_def AFC_HEADER_def Let_def)
  next
    case False
    have "avail s1 = (args @ d) @ rest" using s1(2) by simp
    then obtain s2 where "afc_read_exact (length (args @ d)) s1 = (Ok (args @ d), s2)"
      "avail s2 = rest" "after s2 = after s1" using refl by (rule afc_read_exact_next)
    then show ?thesis using s1 f(3,6) len small False
      by (intro exI [of _ s2])
        (simp add: recv_packet_def AFC_HEADER_def Let_def del: length_append append_is_Nil_conv)
  qed
qed

interpretation afcf: framing afc_put recv_packet afc_wf
proof
  fix m s rest
  assume "afc_wf m" and "avail s = afc_put m @ rest"
  then show "\<exists>s'. recv_packet s = (Ok m, s') \<and> avail s' = rest \<and> after s' = after s"
    using recv_packet_next [of "snd m" "[]" s 0 "fst m" rest] by (simp add: afc_wf_def afc_put_def)
qed

section \<open>Exchanges\<close>

text \<open>A connection with the answers the device will still give.\<close>

definition afc_sees :: "afc \<Rightarrow> (u64 \<times> bytes) list \<Rightarrow> bool" where
  "afc_sees c rs \<longleftrightarrow> room (afc_stream c) = None \<and> list_all afc_wf rs \<and>
    avail (inp (afc_stream c)) = concat (map afc_put rs)"

type_synonym afc_req = "u64 \<times> bytes \<times> bytes"

fun req_bytes :: "u64 \<Rightarrow> afc_req list \<Rightarrow> bytes" where
  "req_bytes n [] = []"
| "req_bytes n ((op, a, d) # r) = afc_packet (n + 1) op a d @ req_bytes (n + 1) r"

text \<open>What a run did: the requests it sent, numbered on, and the answers it left.\<close>

definition afc_did :: "afc \<Rightarrow> afc_req list \<Rightarrow> (u64 \<times> bytes) list \<Rightarrow> afc \<Rightarrow> bool" where
  "afc_did c reqs rs c' \<longleftrightarrow> afc_sees c' rs \<and>
    outp (afc_stream c') = outp (afc_stream c) @ req_bytes (packet_num c) reqs \<and>
    packet_num c' = packet_num c + word_of_nat (length reqs)"

lemma req_bytes_append:
  "req_bytes n (xs @ ys) = req_bytes n xs @ req_bytes (n + word_of_nat (length xs)) ys"
  by (induction n xs rule: req_bytes.induct) (simp_all add: algebra_simps)

lemma afc_did_trans:
  "afc_did c xs rs1 c1 \<Longrightarrow> afc_did c1 ys rs2 c2 \<Longrightarrow> afc_did c (xs @ ys) rs2 c2"
  by (simp add: afc_did_def req_bytes_append)

lemma afc_did_refl: "afc_sees c rs \<Longrightarrow> afc_did c [] rs c"
  by (simp add: afc_did_def)

lemma afc_did_sees: "afc_did c xs rs c' \<Longrightarrow> afc_sees c' rs"
  by (simp add: afc_did_def)

lemma take_packet: "take 40 (afc_packet n op a d) @ a @ d = afc_packet n op a d"
  by (simp add: afc_packet_def Let_def)

lemma afc_send_unlimited:
  assumes "room (afc_stream c) = None"
  shows "afc_send_request op a d c = (Ok (), c\<lparr>packet_num := packet_num c + 1, afc_stream :=
    (afc_stream c)\<lparr>outp := outp (afc_stream c) @ afc_packet (packet_num c + 1) op a d\<rparr>\<rparr>)"
proof -
  let ?h = "take 40 (afc_packet (packet_num c + 1) op a d)"
  have "on_err AfcIo (bnd (write_all ?h) (\<lambda>_. bnd (if a \<noteq> [] then write_all a else ret ()) (\<lambda>_.
      if d \<noteq> [] then write_all d else ret ()))) (afc_stream c) =
      (Ok (), (afc_stream c)\<lparr>outp := outp (afc_stream c) @ ?h @ a @ d\<rparr>)"
    using assms by simp
  then show ?thesis by (simp add: afc_send_request_def Let_def take_packet)
qed

lemma exchange:
  assumes "afc_sees c (m # rs)"
  obtains c1 c' where "afc_send_request op a d c = (Ok (), c1)" and "recv_response c1 = (Ok m, c')"
    and "afc_did c [(op, a, d)] rs c'"
proof -
  have r: "room (afc_stream c) = None" and wf: "afc_wf m"
    and av: "avail (inp (afc_stream c)) = afc_put m @ concat (map afc_put rs)"
    using assms by (simp_all add: afc_sees_def)
  let ?c1 = "snd (afc_send_request op a d c)"
  have s: "afc_send_request op a d c = (Ok (), ?c1)" using afc_send_unlimited [OF r] by simp
  obtain i where i: "recv_packet (inp (afc_stream c)) = (Ok m, i)" "avail i = concat (map afc_put rs)"
    using afcf.get_put [OF wf av] by blast
  have "recv_packet (inp (afc_stream ?c1)) = (Ok m, i)" using i(1) afc_send_request_inp by simp
  then have "recv_response ?c1 = (Ok m, ?c1\<lparr>afc_stream := (afc_stream ?c1)\<lparr>inp := i\<rparr>\<rparr>)"
    by (simp add: recv_response_def)
  moreover have "afc_did c [(op, a, d)] rs (?c1\<lparr>afc_stream := (afc_stream ?c1)\<lparr>inp := i\<rparr>\<rparr>)"
    using assms i(2) r by (simp add: afc_did_def afc_sees_def afc_send_unlimited)
  ultimately show thesis using s that by blast
qed

text \<open>What the operations make of one answer.\<close>

fun status_result :: "u64 \<times> bytes \<Rightarrow> (afc_error, unit) outcome" where
  "status_result (op, data) =
    (if op = OP_STATUS then if le_u64 data 0 = STATUS_SUCCESS then Ok () else Err (AfcStatus (le_u64 data 0))
     else Err (AfcUnexpected op))"

fun read_result :: "u64 \<times> bytes \<Rightarrow> (afc_error, bytes) outcome" where
  "read_result (op, data) =
    (if op = OP_DATA then Ok data
     else if op = OP_STATUS then
       if le_u64 data 0 = STATUS_SUCCESS \<or> le_u64 data 0 = STATUS_END_OF_DATA then Ok []
       else Err (AfcStatus (le_u64 data 0))
     else Err (AfcUnexpected op))"

fun open_result :: "u64 \<times> bytes \<Rightarrow> (afc_error, u64) outcome" where
  "open_result (op, data) =
    (if op = OP_FILE_OPEN_RES then Ok (le_u64 data 0)
     else if op = OP_STATUS then Err (AfcStatus (le_u64 data 0)) else Err (AfcUnexpected op))"

lemma expect_status_result: "recv_response c1 = (Ok m, c') \<Longrightarrow> expect_status c1 = (status_result m, c')"
  by (cases m) (simp add: expect_status_def Let_def)

lemma file_ops:
  assumes "afc_sees c (m # rs)"
  shows "\<exists>c'. file_close h c = (status_result m, c') \<and> afc_did c [(OP_FILE_CLOSE, u64_le h, [])] rs c'"
    and "\<exists>c'. file_write h d c = (status_result m, c') \<and> afc_did c [(OP_FILE_WRITE, u64_le h, d)] rs c'"
    and "\<exists>c'. file_read h n c = (read_result m, c') \<and>
      afc_did c [(OP_FILE_READ, u64_le h @ u64_le (word_of_nat n), [])] rs c'"
    and "\<exists>c'. open_with_mode path mode c = (open_result m, c') \<and>
      afc_did c [(OP_FILE_OPEN, u64_le mode @ nul_str path, [])] rs c'"
    and "\<exists>c'. mkdir path c = ((case m of (op, data) \<Rightarrow>
        if op = OP_STATUS \<and> le_u64 data 0 = STATUS_OBJECT_EXISTS then Ok () else status_result m), c') \<and>
      afc_did c [(OP_MAKE_DIR, nul_str path, [])] rs c'"
proof -
  obtain op data where m: "m = (op, data)" by (cases m)
  show "\<exists>c'. file_close h c = (status_result m, c') \<and> afc_did c [(OP_FILE_CLOSE, u64_le h, [])] rs c'"
    using assms by (rule exchange [where op = OP_FILE_CLOSE and a = "u64_le h" and d = "[]"])
      (auto simp: file_close_def expect_status_result)
  show "\<exists>c'. file_write h d c = (status_result m, c') \<and> afc_did c [(OP_FILE_WRITE, u64_le h, d)] rs c'"
    using assms by (rule exchange [where op = OP_FILE_WRITE and a = "u64_le h" and d = d])
      (auto simp: file_write_def expect_status_result)
  show "\<exists>c'. file_read h n c = (read_result m, c') \<and>
      afc_did c [(OP_FILE_READ, u64_le h @ u64_le (word_of_nat n), [])] rs c'"
    using assms by (rule exchange [where op = OP_FILE_READ and a = "u64_le h @ u64_le (word_of_nat n)" and d = "[]"])
      (simp add: file_read_def m Let_def)
  show "\<exists>c'. open_with_mode path mode c = (open_result m, c') \<and>
      afc_did c [(OP_FILE_OPEN, u64_le mode @ nul_str path, [])] rs c'"
    using assms by (rule exchange [where op = OP_FILE_OPEN and a = "u64_le mode @ nul_str path" and d = "[]"])
      (simp add: open_with_mode_def expect_data_def m Let_def)
  show "\<exists>c'. mkdir path c = ((case m of (op, data) \<Rightarrow>
        if op = OP_STATUS \<and> le_u64 data 0 = STATUS_OBJECT_EXISTS then Ok () else status_result m), c') \<and>
      afc_did c [(OP_MAKE_DIR, nul_str path, [])] rs c'"
    using assms by (rule exchange [where op = OP_MAKE_DIR and a = "nul_str path" and d = "[]"])
      (auto simp: mkdir_def m Let_def)
qed

abbreviation read_req :: "u64 \<Rightarrow> afc_req" where
  "read_req h \<equiv> (OP_FILE_READ, u64_le h @ u64_le (word_of_nat READ_CHUNK), [])"

abbreviation close_req :: "u64 \<Rightarrow> afc_req" where
  "close_req h \<equiv> (OP_FILE_CLOSE, u64_le h, [])"

lemma read_result_data [simp]: "read_result (OP_DATA, d) = Ok d"
  by simp

text \<open>Reading the chunks \<open>ds\<close> and then the answer \<open>m\<close>.\<close>

lemma read_chunks_run:
  assumes "afc_sees c (map (Pair OP_DATA) ds @ m # rs)" and "\<forall>d \<in> set ds. d \<noteq> []"
  shows "\<exists>c'. afc_did c (replicate (length ds + 1) (read_req h)) rs c' \<and>
    read_chunks h buf c = (case read_result m of
       Ok d \<Rightarrow> if d = [] then (Ok (buf @ concat ds), c') else read_chunks h (buf @ concat ds @ d) c'
     | Err e \<Rightarrow> close_and_fail h e c'
     | Panic \<Rightarrow> (Panic, c'))"
  using assms
proof (induction ds arbitrary: c buf)
  case Nil
  then have "afc_sees c (m # rs)" by simp
  from file_ops(3) [OF this, of h READ_CHUNK] obtain c' where
    "file_read h READ_CHUNK c = (read_result m, c')" "afc_did c [read_req h] rs c'" by blast
  then show ?case
    by (intro exI [of _ c']) (simp add: read_chunks.simps [of h buf c] split: outcome.splits)
next
  case (Cons d ds)
  then have "afc_sees c ((OP_DATA, d) # (map (Pair OP_DATA) ds @ m # rs))" by simp
  from file_ops(3) [OF this, of h READ_CHUNK] obtain c1 where
    c1: "file_read h READ_CHUNK c = (read_result (OP_DATA, d), c1)"
    "afc_did c [read_req h] (map (Pair OP_DATA) ds @ m # rs) c1" by blast
  have e: "read_chunks h buf c = read_chunks h (buf @ d) c1"
    using c1(1) Cons.prems(2) by (simp add: read_chunks.simps [of h buf c])
  obtain c' where c': "afc_did c1 (replicate (length ds + 1) (read_req h)) rs c'"
    "read_chunks h (buf @ d) c1 = (case read_result m of
       Ok d' \<Rightarrow> if d' = [] then (Ok ((buf @ d) @ concat ds), c') else read_chunks h ((buf @ d) @ concat ds @ d') c'
     | Err e \<Rightarrow> close_and_fail h e c'
     | Panic \<Rightarrow> (Panic, c'))"
    using Cons.IH [OF afc_did_sees [OF c1(2)], of "buf @ d"] Cons.prems(2) by auto
  have "afc_did c ([read_req h] @ replicate (length ds + 1) (read_req h)) rs c'"
    using c1(2) c'(1) by (rule afc_did_trans)
  then show ?case using e c'(2) by (intro exI [of _ c']) (simp split: outcome.splits)
qed

lemma write_chunks_run:
  assumes "afc_sees c (map (Pair OP_STATUS) ss @ rs)" and "\<forall>s \<in> set ss. le_u64 s 0 = STATUS_SUCCESS"
    and "length ss = length ds"
  shows "\<exists>c'. write_chunks h ds c = (Ok (), c') \<and>
    afc_did c (map (\<lambda>d. (OP_FILE_WRITE, u64_le h, d)) ds) rs c'"
  using assms
proof (induction ds arbitrary: c ss)
  case Nil
  then show ?case by (auto intro: afc_did_refl)
next
  case (Cons d ds)
  then obtain s ss' where ss: "ss = s # ss'" by (cases ss) auto
  then have "afc_sees c ((OP_STATUS, s) # (map (Pair OP_STATUS) ss' @ rs))" using Cons.prems(1) by simp
  from file_ops(2) [OF this, of h d] obtain c1 where
    c1: "file_write h d c = (Ok (), c1)"
      "afc_did c [(OP_FILE_WRITE, u64_le h, d)] (map (Pair OP_STATUS) ss' @ rs) c1"
    using Cons.prems(2) ss by auto
  from Cons.IH [OF afc_did_sees [OF c1(2)]] Cons.prems(2,3) ss obtain c' where
    "write_chunks h ds c1 = (Ok (), c')"
    "afc_did c1 (map (\<lambda>d. (OP_FILE_WRITE, u64_le h, d)) ds) rs c'" by auto
  then show ?case using c1 afc_did_trans [OF c1(2)] by (intro exI [of _ c']) simp
qed

section \<open>Attribute lists\<close>

definition attr_ok :: "string \<Rightarrow> bool" where
  "attr_ok s \<longleftrightarrow> s \<noteq> [] \<and> valid_str s \<and> 0 \<notin> set (bytes_of s)"

lemma split_nul_append: "0 \<notin> set xs \<Longrightarrow> split_nul acc (xs @ 0 # r) = (acc @ xs) # split_nul [] r"
  by (induction xs arbitrary: acc) auto

lemma parse_nul_strings_nul_str:
  assumes "attr_ok s"
  shows "parse_nul_strings (nul_str s @ r) = s # parse_nul_strings r"
proof -
  have "split_nul [] (nul_str s @ r) = bytes_of s # split_nul [] r"
    using assms split_nul_append [of "bytes_of s" "[]" r] by (simp add: attr_ok_def nul_str_def)
  moreover have "from_utf8_lossy (bytes_of s) = s"
    using assms by (simp add: from_utf8_lossy_def attr_ok_def valid_str_def lossy_valid)
  moreover have "bytes_of s \<noteq> []" using assms by (simp add: attr_ok_def bytes_of_def)
  ultimately show ?thesis by (simp add: parse_nul_strings_def)
qed

lemma parse_nul_strings_Nil [simp]: "parse_nul_strings [] = []"
  by (simp add: parse_nul_strings_def)

definition attr_bytes :: "(string \<times> string) list \<Rightarrow> bytes" where
  "attr_bytes kvs = concat (map (\<lambda>(k, v). nul_str k @ nul_str v) kvs)"

lemma pair_up_attr:
  "list_all (\<lambda>(k, v). attr_ok k \<and> attr_ok v) kvs \<Longrightarrow>
    pair_up (parse_nul_strings (attr_bytes kvs)) = kvs"
  by (induction kvs) (auto simp: attr_bytes_def parse_nul_strings_nul_str)

section \<open>Properties\<close>

text \<open>
  An attribute list of non-empty keys and values is parsed into the same entries, and an
  entry count or size in it is read as the number it denotes.
\<close>

theorem attributes_roundtrip:
  assumes "list_all (\<lambda>(k, v). attr_ok k \<and> attr_ok v) kvs" and "distinct (map fst kvs)"
  shows "parse_kv_pairs (attr_bytes kvs) = kvs \<and>
    (map_of kvs ''st_size'' = Some (show_nat (unat n)) \<longrightarrow>
      fi_size (parse_file_info name (attr_bytes kvs)) = n)"
proof -
  have "parse_kv_pairs (attr_bytes kvs) = kvs"
    using pair_up_attr [OF assms(1)] fold_ainsert_new [OF assms(2), of "[]"]
    by (simp add: parse_kv_pairs_def)
  then show ?thesis by (simp add: parse_file_info_def Let_def num_or_0_def)
qed

theorem attributes_roundtrip_witness:
  "fi_size (parse_file_info ''f'' (attr_bytes [(''st_ifmt'', ''S_IFREG''), (''st_size'', ''12'')])) = 12"
proof -
  have "show_nat (unat (12 :: u64)) = ''12''" by code_simp
  moreover have "list_all (\<lambda>(k, v). attr_ok k \<and> attr_ok v) [(''st_ifmt'', ''S_IFREG''), (''st_size'', ''12'')]"
    by code_simp
  ultimately show ?thesis
    using attributes_roundtrip [of "[(''st_ifmt'', ''S_IFREG''), (''st_size'', ''12'')]" 12 "''f''"] by simp
qed

text \<open>
  An empty attribute value is dropped before the list is paired up, so it shifts every later
  pair: the size that follows an empty link target is lost.
\<close>

theorem empty_attribute_shifts_pairs:
  "parse_kv_pairs (attr_bytes [(''LinkTarget'', []), (''st_size'', ''12'')]) =
    [(''LinkTarget'', ''st_size'')]"
  by code_simp

text \<open>
  C30: Reading a file returns the concatenation of all chunks the device sends, of any number and
  sizes, and sends exactly one open, one read more than there are chunks, and one close of the
  handle it was given.
\<close>

theorem read_file_concat:
  assumes "afc_sees c ((OP_FILE_OPEN_RES, hb) # map (Pair OP_DATA) ds @ [(OP_STATUS, e), (OP_STATUS, s)] @ rs)"
    and "\<forall>d \<in> set ds. d \<noteq> []" and "le_u64 e 0 \<in> {STATUS_SUCCESS, STATUS_END_OF_DATA}"
    and "le_u64 s 0 = STATUS_SUCCESS"
  shows "\<exists>c'. read_file path c = (Ok (concat ds), c') \<and>
    afc_did c ([(OP_FILE_OPEN, u64_le FOPEN_RDONLY @ nul_str path, [])] @
      replicate (length ds + 1) (read_req (le_u64 hb 0)) @ [close_req (le_u64 hb 0)]) rs c'"
proof -
  let ?h = "le_u64 hb 0"
  obtain c1 where c1: "open_with_mode path FOPEN_RDONLY c = (Ok ?h, c1)"
    "afc_did c [(OP_FILE_OPEN, u64_le FOPEN_RDONLY @ nul_str path, [])]
       (map (Pair OP_DATA) ds @ (OP_STATUS, e) # (OP_STATUS, s) # rs) c1"
    using file_ops(4) [OF assms(1), of path FOPEN_RDONLY] by auto
  have "read_result (OP_STATUS, e) = Ok []" using assms(3) by (auto simp: afc_ops)
  with read_chunks_run [OF afc_did_sees [OF c1(2)] assms(2), of ?h "[]"] obtain c2 where
    c2: "afc_did c1 (replicate (length ds + 1) (read_req ?h)) ((OP_STATUS, s) # rs) c2"
      "read_chunks ?h [] c1 = (Ok (concat ds), c2)" by auto
  obtain c3 where c3: "file_close ?h c2 = (Ok (), c3)" "afc_did c2 [close_req ?h] rs c3"
    using file_ops(1) [OF afc_did_sees [OF c2(1)], of ?h] assms(4) by auto
  have "afc_did c ([(OP_FILE_OPEN, u64_le FOPEN_RDONLY @ nul_str path, [])] @
      replicate (length ds + 1) (read_req ?h) @ [close_req ?h]) rs c3"
    by (rule afc_did_trans [OF c1(2) afc_did_trans [OF c2(1) c3(2)]])
  then show ?thesis using c1(1) c2(2) c3(1)
    by (intro exI [of _ c3]) (simp add: read_file_def file_open_read_def)
qed

definition demo_afc :: "(u64 \<times> bytes) list \<Rightarrow> afc" where
  "demo_afc rs = \<lparr>afc_stream = \<lparr>inp = [Data (concat (map afc_put rs))], outp = [], room = None\<rparr>,
    packet_num = 0\<rparr>"

lemma demo_afc_sees: "list_all afc_wf rs \<Longrightarrow> afc_sees (demo_afc rs) rs"
  by (simp add: afc_sees_def demo_afc_def)

theorem read_file_concat_witness:
  "\<exists>c'. read_file ''/a'' (demo_afc [(OP_FILE_OPEN_RES, u64_le 7), (OP_DATA, [1, 2]), (OP_DATA, [3]),
      (OP_STATUS, u64_le 14), (OP_STATUS, u64_le 0)]) = (Ok [1, 2, 3], c')"
proof -
  let ?rs = "[(OP_FILE_OPEN_RES, u64_le 7), (OP_DATA, [1, 2]), (OP_DATA, [3]),
      (OP_STATUS, u64_le 14), (OP_STATUS, u64_le 0)]"
  have "afc_sees (demo_afc ?rs) ?rs" by (rule demo_afc_sees) (simp add: afc_wf_def)
  then show ?thesis
    using read_file_concat [of "demo_afc ?rs" "u64_le 7" "[[1, 2], [3]]" "u64_le 14" "u64_le 0" "[]" "''/a''"]
    by (auto simp: le_u64_def STATUS_END_OF_DATA_def STATUS_SUCCESS_def)
qed

text \<open>
  When the device refuses a read, the error is returned, but only after the handle has been
  closed, whatever the device answers to the close.
\<close>

theorem read_file_error_closes:
  assumes "afc_sees c ((OP_FILE_OPEN_RES, hb) # map (Pair OP_DATA) ds @ [(OP_STATUS, e), m] @ rs)"
    and "\<forall>d \<in> set ds. d \<noteq> []" and "le_u64 e 0 \<notin> {STATUS_SUCCESS, STATUS_END_OF_DATA}"
  shows "\<exists>c'. read_file path c = (Err (AfcStatus (le_u64 e 0)), c') \<and>
    afc_did c ([(OP_FILE_OPEN, u64_le FOPEN_RDONLY @ nul_str path, [])] @
      replicate (length ds + 1) (read_req (le_u64 hb 0)) @ [close_req (le_u64 hb 0)]) rs c'"
proof -
  let ?h = "le_u64 hb 0"
  obtain c1 where c1: "open_with_mode path FOPEN_RDONLY c = (Ok ?h, c1)"
    "afc_did c [(OP_FILE_OPEN, u64_le FOPEN_RDONLY @ nul_str path, [])]
       (map (Pair OP_DATA) ds @ (OP_STATUS, e) # m # rs) c1"
    using file_ops(4) [OF assms(1), of path FOPEN_RDONLY] by auto
  have "read_result (OP_STATUS, e) = Err (AfcStatus (le_u64 e 0))" using assms(3) by (auto simp: afc_ops)
  with read_chunks_run [OF afc_did_sees [OF c1(2)] assms(2), of ?h "[]"] obtain c2 where
    c2: "afc_did c1 (replicate (length ds + 1) (read_req ?h)) (m # rs) c2"
      "read_chunks ?h [] c1 = close_and_fail ?h (AfcStatus (le_u64 e 0)) c2" by auto
  obtain c3 where c3: "file_close ?h c2 = (status_result m, c3)" "afc_did c2 [close_req ?h] rs c3"
    using file_ops(1) [OF afc_did_sees [OF c2(1)], of ?h] by blast
  have "close_and_fail ?h (AfcStatus (le_u64 e 0)) c2 =
      (Err (AfcStatus (le_u64 e 0)) :: (afc_error, bytes) outcome, c3)"
    using c3(1) by (cases m) (simp add: close_and_fail_def)
  moreover have "afc_did c ([(OP_FILE_OPEN, u64_le FOPEN_RDONLY @ nul_str path, [])] @
      replicate (length ds + 1) (read_req ?h) @ [close_req ?h]) rs c3"
    by (rule afc_did_trans [OF c1(2) afc_did_trans [OF c2(1) c3(2)]])
  ultimately show ?thesis using c1(1) c2(2)
    by (intro exI [of _ c3]) (simp add: read_file_def file_open_read_def)
qed

theorem read_file_error_closes_witness:
  "\<exists>c'. read_file ''/a'' (demo_afc [(OP_FILE_OPEN_RES, u64_le 7), (OP_STATUS, u64_le 4), (OP_STATUS, [])]) =
    (Err (AfcStatus 4), c')"
proof -
  let ?rs = "[(OP_FILE_OPEN_RES, u64_le 7), (OP_STATUS, u64_le 4), (OP_STATUS, [])]"
  have "afc_sees (demo_afc ?rs) ?rs" by (rule demo_afc_sees) (simp add: afc_wf_def)
  then show ?thesis
    using read_file_error_closes [of "demo_afc ?rs" "u64_le 7" "[]" "u64_le 4" "(OP_STATUS, [])" "[]" "''/a''"]
    by (auto simp: le_u64_def STATUS_END_OF_DATA_def STATUS_SUCCESS_def)
qed

lemma put_file_sent:
  assumes "parent_dir path = Some dir" and "dir \<noteq> []"
    and "afc_sees c ([(OP_STATUS, s0), (OP_FILE_OPEN_RES, hb)] @ map (Pair OP_STATUS) ss @ [(OP_STATUS, s1)] @ rs)"
    and "le_u64 s0 0 \<in> {STATUS_SUCCESS, STATUS_OBJECT_EXISTS}" and "le_u64 s1 0 = STATUS_SUCCESS"
    and "\<forall>s \<in> set ss. le_u64 s 0 = STATUS_SUCCESS" and "length ss = length (chunks WRITE_CHUNK data)"
  shows "\<exists>c'. put_file path data c = (Ok (), c') \<and>
    afc_did c ([(OP_MAKE_DIR, nul_str dir, []), (OP_FILE_OPEN, u64_le FOPEN_WR @ nul_str path, [])] @
      map (\<lambda>p. (OP_FILE_WRITE, u64_le (le_u64 hb 0), p)) (chunks WRITE_CHUNK data) @ [close_req (le_u64 hb 0)]) rs c'"
proof -
  let ?h = "le_u64 hb 0" and ?ps = "chunks WRITE_CHUNK data"
  have "afc_sees c ((OP_STATUS, s0) # ((OP_FILE_OPEN_RES, hb) # map (Pair OP_STATUS) ss @ (OP_STATUS, s1) # rs))"
    using assms(3) by simp
  from file_ops(5) [OF this, of dir] obtain c0 where c0: "mkdir dir c = (Ok (), c0)"
    "afc_did c [(OP_MAKE_DIR, nul_str dir, [])]
      ((OP_FILE_OPEN_RES, hb) # map (Pair OP_STATUS) ss @ (OP_STATUS, s1) # rs) c0"
    using assms(4) by (auto simp: STATUS_OBJECT_EXISTS_def STATUS_SUCCESS_def)
  obtain c1 where c1: "open_with_mode path FOPEN_WR c0 = (Ok ?h, c1)"
    "afc_did c0 [(OP_FILE_OPEN, u64_le FOPEN_WR @ nul_str path, [])]
       (map (Pair OP_STATUS) ss @ (OP_STATUS, s1) # rs) c1"
    using file_ops(4) [OF afc_did_sees [OF c0(2)], of path FOPEN_WR] by auto
  obtain c2 where c2: "write_chunks ?h ?ps c1 = (Ok (), c2)"
    "afc_did c1 (map (\<lambda>d. (OP_FILE_WRITE, u64_le ?h, d)) ?ps) ((OP_STATUS, s1) # rs) c2"
    using write_chunks_run [OF afc_did_sees [OF c1(2)] assms(6,7), of ?h] by blast
  obtain c3 where c3: "file_close ?h c2 = (Ok (), c3)" "afc_did c2 [close_req ?h] rs c3"
    using file_ops(1) [OF afc_did_sees [OF c2(2)], of ?h] assms(5) by auto
  have "afc_did c ([(OP_MAKE_DIR, nul_str dir, [])] @ [(OP_FILE_OPEN, u64_le FOPEN_WR @ nul_str path, [])] @
      map (\<lambda>p. (OP_FILE_WRITE, u64_le ?h, p)) ?ps @ [close_req ?h]) rs c3"
    by (rule afc_did_trans [OF c0(2) afc_did_trans [OF c1(2) afc_did_trans [OF c2(2) c3(2)]]])
  then show ?thesis using c0(1) c1(1) c2(1) c3(1) assms(1,2)
    by (intro exI [of _ c3]) (simp add: put_file_def file_open_def)
qed

text \<open>
  Uploading data to a file in a directory makes the directory, opens the file, writes the
  data in order in pieces of at most 256 KiB under the handle it was given, and closes the handle.
\<close>

theorem put_file_uploads:
  assumes "parent_dir path = Some dir" and "dir \<noteq> []"
    and "afc_sees c ([(OP_STATUS, s0), (OP_FILE_OPEN_RES, hb)] @ map (Pair OP_STATUS) ss @ [(OP_STATUS, s1)] @ rs)"
    and "le_u64 s0 0 \<in> {STATUS_SUCCESS, STATUS_OBJECT_EXISTS}" and "le_u64 s1 0 = STATUS_SUCCESS"
    and "\<forall>s \<in> set ss. le_u64 s 0 = STATUS_SUCCESS" and "length ss = length (chunks WRITE_CHUNK data)"
  shows "\<exists>c' ps. put_file path data c = (Ok (), c') \<and> concat ps = data \<and>
    list_all (\<lambda>p. length p \<le> 262144) ps \<and>
    afc_did c ([(OP_MAKE_DIR, nul_str dir, []), (OP_FILE_OPEN, u64_le FOPEN_WR @ nul_str path, [])] @
      map (\<lambda>p. (OP_FILE_WRITE, u64_le (le_u64 hb 0), p)) ps @ [close_req (le_u64 hb 0)]) rs c'"
proof -
  have "concat (chunks WRITE_CHUNK data) = data" by (rule concat_chunks) (simp add: WRITE_CHUNK_def)
  moreover have "list_all (\<lambda>p. length p \<le> 262144) (chunks WRITE_CHUNK data)"
    using chunks_le [of _ WRITE_CHUNK data] by (auto simp: list_all_iff WRITE_CHUNK_def)
  ultimately show ?thesis using put_file_sent [OF assms] by blast
qed

theorem put_file_uploads_witness:
  "\<exists>c'. put_file ''/d/f'' [1, 2, 3] (demo_afc [(OP_STATUS, u64_le 16), (OP_FILE_OPEN_RES, u64_le 7),
      (OP_STATUS, u64_le 0), (OP_STATUS, u64_le 0)]) = (Ok (), c')"
proof -
  let ?rs = "[(OP_STATUS, u64_le 16), (OP_FILE_OPEN_RES, u64_le 7), (OP_STATUS, u64_le 0), (OP_STATUS, u64_le 0)]"
  have "afc_sees (demo_afc ?rs) ?rs" by (rule demo_afc_sees) (simp add: afc_wf_def)
  moreover have "parent_dir ''/d/f'' = Some ''/d''" by code_simp
  moreover have "length (chunks WRITE_CHUNK [1, 2, 3 :: byte]) = 1" by code_simp
  ultimately show ?thesis
    using put_file_uploads [of "''/d/f''" "''/d''" "demo_afc ?rs" "u64_le 16" "u64_le 7" "[u64_le 0]"
      "u64_le 0" "[]" "[1, 2, 3]"]
    by (auto simp: le_u64_def STATUS_OBJECT_EXISTS_def STATUS_SUCCESS_def)
qed

end
