(* ===== verification/Der.thy ===== *)
theory Der
  imports TextFmt
begin

text \<open>
  The pure half of \<open>src/src/lockdown/pairing.rs\<close>: the hand-written DER writer and reader, object
  identifiers, calendar dates and UTC times, base64 and PEM. Machine integers are kept at their
  width where the code can lose bits: a DER length is two bytes, the length of the reader is a
  64-bit \<open>usize\<close> whose sum wraps. The main facts are round trips against reference decoders, and
  the exact bounds up to which they hold.
\<close>

section \<open>DER writer\<close>

definition der_len :: "nat \<Rightarrow> bytes" where
  "der_len n =
    (if n < 0x80 then [word_of_nat n]
     else if n < 0x100 then [0x81, word_of_nat n]
     else [0x82, word_of_nat (n div 256), word_of_nat n])"

definition der_tag :: "u8 \<Rightarrow> bytes \<Rightarrow> bytes" where
  "der_tag tag content = tag # der_len (length content) @ content"

definition der_seq :: "bytes list \<Rightarrow> bytes" where
  "der_seq items = der_tag 0x30 (concat items)"

definition der_ctx :: "u8 \<Rightarrow> bytes \<Rightarrow> bytes" where
  "der_ctx n content = der_tag (0xa0 OR n) content"

definition der_int :: "bytes \<Rightarrow> ('e, bytes) outcome" where
  "der_int v = (case v of
     [] \<Rightarrow> Panic
   | b # _ \<Rightarrow> Ok (der_tag 0x02 ((if b AND 0x80 \<noteq> 0 then [0x00] else []) @ v)))"

definition der_bool :: "bool \<Rightarrow> bytes" where
  "der_bool b = der_tag 0x01 [if b then 0xff else 0x00]"

text \<open>
  One arc of an object identifier, base 128, most significant group first. The groups go into a
  buffer of five bytes from its end; \<open>i\<close> is the free space in front of them.
\<close>

primrec arc_loop :: "nat \<Rightarrow> u32 \<Rightarrow> bytes \<Rightarrow> ('e, bytes) outcome" where
  "arc_loop 0 a acc = (if a = 0 then Ok acc else Panic)"
| "arc_loop (Suc i) a acc =
    (if a = 0 then Ok acc
     else arc_loop i (drop_bit 7 a) (ucast ((a AND 0x7f) OR 0x80) # acc))"

definition der_arc :: "u32 \<Rightarrow> ('e, bytes) outcome" where
  "der_arc a = arc_loop 4 (drop_bit 7 a) [ucast (a AND 0x7f)]"

primrec der_arcs :: "u32 list \<Rightarrow> ('e, bytes) outcome" where
  "der_arcs [] = Ok []"
| "der_arcs (a # as) = obind (der_arc a) (\<lambda>x. obind (der_arcs as) (\<lambda>xs. Ok (x @ xs)))"

fun der_oid :: "u32 list \<Rightarrow> ('e, bytes) outcome" where
  "der_oid (a # b # rest) =
    obind (der_arcs rest) (\<lambda>xs. Ok (der_tag 0x06 (ucast (40 * a + b) # xs)))"
| "der_oid _ = Panic"

definition sha1_with_rsa_oid :: "('e, bytes) outcome" where
  "sha1_with_rsa_oid = obind (der_oid [1, 2, 840, 113549, 1, 1, 5]) (\<lambda>x. Ok (der_seq [x, [0x05, 0x00]]))"

definition sha1_oid :: "('e, bytes) outcome" where
  "sha1_oid = obind (der_oid [1, 3, 14, 3, 2, 26]) (\<lambda>x. Ok (der_seq [x, [0x05, 0x00]]))"

section \<open>Dates\<close>

definition is_leap :: "nat \<Rightarrow> bool" where
  "is_leap y \<longleftrightarrow> y mod 4 = 0 \<and> (y mod 100 \<noteq> 0 \<or> y mod 400 = 0)"

definition year_days :: "nat \<Rightarrow> nat" where
  "year_days y = (if is_leap y then 366 else 365)"

function year_loop :: "nat \<Rightarrow> nat \<Rightarrow> nat \<times> nat" where
  "year_loop y days =
    (if days < year_days y then (y, days) else year_loop (y + 1) (days - year_days y))"
  by pat_completeness auto
termination
  by (relation "measure snd") (auto simp: year_days_def split: if_splits)

declare year_loop.simps [simp del]

definition month_days :: "nat \<Rightarrow> nat list" where
  "month_days y = [31, if is_leap y then 29 else 28, 31, 30, 31, 30, 31, 31, 30, 31, 30, 31]"

fun month_loop :: "nat list \<Rightarrow> nat \<Rightarrow> nat \<Rightarrow> nat \<times> nat" where
  "month_loop [] m days = (m, days)"
| "month_loop (dm # ms) m days =
    (if days < dm then (m, days) else month_loop ms (m + 1) (days - dm))"

definition days_to_ymd :: "nat \<Rightarrow> nat \<times> nat \<times> nat" where
  "days_to_ymd days0 =
    (let (y, days) = year_loop 1970 days0; (m, d) = month_loop (month_days y) 1 days
     in (y, m, d + 1))"

text \<open>\<open>format!("{n:02}")\<close>\<close>

definition pad2 :: "nat \<Rightarrow> string" where
  "pad2 n = (if n < 10 then CHR ''0'' # show_nat n else show_nat n)"

definition utc_text :: "nat \<Rightarrow> string" where
  "utc_text unix =
    (let days = unix div 86400; rest = unix mod 86400; h = rest div 3600; m = (rest mod 3600) div 60; s = rest mod 60;
         (yr, mo, da) = days_to_ymd days
     in pad2 (yr mod 100) @ pad2 mo @ pad2 da @ pad2 h @ pad2 m @ pad2 s @ ''Z'')"

definition der_utc_time :: "nat \<Rightarrow> bytes" where
  "der_utc_time unix = der_tag 0x17 (bytes_of (utc_text unix))"

section \<open>DER reader\<close>

text \<open>\<open>None\<close> of the source is \<open>Err ()\<close>; the end of a value is a sum of 64-bit integers.\<close>

definition peel_at :: "bytes \<Rightarrow> nat \<Rightarrow> nat \<Rightarrow> (unit, bytes \<times> bytes) outcome" where
  "peel_at buf len start =
    (let fin = (start + len) mod 2 ^ 64
     in if length buf < fin then Err ()
        else if fin < start then Panic
        else Ok (take (fin - start) (drop start buf), drop fin buf))"

definition peel_length :: "bytes \<Rightarrow> (unit, bytes \<times> bytes) outcome" where
  "peel_length buf = (case buf of
     [] \<Rightarrow> Err ()
   | first # _ \<Rightarrow>
       if first < 0x80 then peel_at buf (unat first) 1
       else let n = unat (first AND 0x7f)
         in if length buf < 1 + n then Err ()
            else peel_at buf (fold (\<lambda>b len. (len * 256) mod 2 ^ 64 + unat b) (take n (drop 1 buf)) 0) (1 + n))"

definition peel_tag :: "bytes \<Rightarrow> u8 \<Rightarrow> (unit, bytes \<times> bytes) outcome" where
  "peel_tag buf expected = (case buf of
     [] \<Rightarrow> Err ()
   | t # r \<Rightarrow> if t \<noteq> expected then Err () else peel_length r)"

definition peel_tlv :: "bytes \<Rightarrow> (unit, bytes \<times> bytes) outcome" where
  "peel_tlv buf = (case buf of [] \<Rightarrow> Err () | _ # r \<Rightarrow> peel_length r)"

text \<open>The second component of a peeled pair is what follows the value, not what is in it.\<close>

definition extract_spki_bits :: "bytes \<Rightarrow> (unit, bytes) outcome" where
  "extract_spki_bits spki =
    obind (peel_tag spki 0x30) (\<lambda>(_, inner).
    obind (peel_tlv inner) (\<lambda>(_, rest).
    obind (peel_tag rest 0x03) (\<lambda>(_, bs_content).
      if bs_content = [] then Panic else Ok (tl bs_content))))"

definition ski_hash :: "(bytes \<Rightarrow> bytes) \<Rightarrow> bytes \<Rightarrow> ('e, bytes) outcome" where
  "ski_hash sha1 spki_der = (case extract_spki_bits spki_der of
     Ok inner \<Rightarrow> Ok (sha1 inner) | Err _ \<Rightarrow> Ok (sha1 spki_der) | Panic \<Rightarrow> Panic)"

section \<open>Base64 and PEM\<close>

definition B64_TABLE :: string where
  "B64_TABLE = ''ABCDEFGHIJKLMNOPQRSTUVWXYZabcdefghijklmnopqrstuvwxyz0123456789+/''"

definition b64_char :: "nat \<Rightarrow> u32 \<Rightarrow> char" where
  "b64_char k b = B64_TABLE ! unat (drop_bit k b AND 63)"

fun base64_encode :: "bytes \<Rightarrow> string" where
  "base64_encode (x # y # z # rest) =
    (let b = push_bit 16 (ucast x) OR push_bit 8 (ucast y) OR ucast z
     in [b64_char 18 b, b64_char 12 b, b64_char 6 b, b64_char 0 b] @ base64_encode rest)"
| "base64_encode [x, y] =
    (let b = push_bit 16 (ucast x) OR push_bit 8 (ucast y)
     in [b64_char 18 b, b64_char 12 b, b64_char 6 b, CHR ''=''])"
| "base64_encode [x] =
    (let b = push_bit 16 (ucast x) in [b64_char 18 b, b64_char 12 b, CHR ''='', CHR ''=''])"
| "base64_encode [] = ''''"

definition pem_encode :: "string \<Rightarrow> bytes \<Rightarrow> bytes" where
  "pem_encode label der =
    bytes_of (''-----BEGIN '' @ label @ ''-----'' @ [CHR 0x0A] @
      concat (map (\<lambda>c. c @ [CHR 0x0A]) (chunks 64 (base64_encode der))) @
      ''-----END '' @ label @ ''-----'' @ [CHR 0x0A])"

section \<open>DER lengths\<close>

lemma unat_word_of_nat_byte: "unat (word_of_nat n :: byte) = n mod 256"
  by (simp add: unat_of_nat)

lemma peel_at_prefix:
  assumes "length pre = start" and "start + len < 2 ^ 64" and "len \<le> length c"
  shows "peel_at (pre @ c) len start = Ok (take len c, drop len c)"
  using assms by (simp add: peel_at_def Let_def)

text \<open>Reading back a written length gives the length modulo \<open>2^16\<close>.\<close>

lemma peel_der_len:
  "peel_length (der_len (length c) @ c @ rest) = Ok (take (length c mod 65536) (c @ rest), drop (length c mod 65536) (c @ rest))"
proof -
  let ?n = "length c"
  consider "?n < 0x80" | "0x80 \<le> ?n" "?n < 0x100" | "0x100 \<le> ?n" by linarith
  then show ?thesis
  proof cases
    case 1
    then have w: "unat (word_of_nat ?n :: byte) = ?n" by (simp add: unat_word_of_nat_byte)
    then have "(word_of_nat ?n :: byte) < 0x80" using 1 by (simp add: word_less_nat_alt)
    then show ?thesis using 1 w peel_at_prefix [of "[word_of_nat ?n]" 1 ?n "c @ rest"]
      by (simp add: der_len_def peel_length_def)
  next
    case 2
    then have "unat (word_of_nat ?n :: byte) = ?n" by (simp add: unat_word_of_nat_byte)
    then show ?thesis using 2 peel_at_prefix [of "[0x81, word_of_nat ?n]" "Suc (Suc 0)" ?n "c @ rest"]
      by (simp add: der_len_def peel_length_def Let_def)
  next
    case 3
    define hi lo where "hi = (word_of_nat (?n div 256) :: byte)" and "lo = (word_of_nat ?n :: byte)"
    have "?n div 256 mod 256 * 256 + ?n mod 256 = ?n mod 65536"
      using mod_mult2_eq [of ?n 256 256] by simp
    then have v: "unat hi * 256 + unat lo = ?n mod 65536"
      by (simp add: hi_def lo_def unat_word_of_nat_byte)
    have "?n mod 65536 \<le> length (c @ rest)" using mod_less_eq_dividend [of ?n 65536] by simp
    then have "peel_at ([0x82, hi, lo] @ (c @ rest)) (?n mod 65536) 3 =
        Ok (take (?n mod 65536) (c @ rest), drop (?n mod 65536) (c @ rest))"
      by (intro peel_at_prefix) (simp_all add: less_imp_le order.strict_trans [OF mod_less_divisor])
    then show ?thesis using 3 v
      by (simp add: der_len_def peel_length_def Let_def hi_def [symmetric] lo_def [symmetric] numeral_2_eq_2 [symmetric])
  qed
qed

lemma peel_der_tag: "length c < 65536 \<Longrightarrow> peel_tag (der_tag t c @ rest) t = Ok (c, rest)"
  using peel_der_len [of c rest] by (simp add: peel_tag_def der_tag_def)

lemma peel_tlv_der_tag: "length c < 65536 \<Longrightarrow> peel_tlv (der_tag t c @ rest) = Ok (c, rest)"
  using peel_der_len [of c rest] by (simp add: peel_tlv_def der_tag_def)

lemma length_der_tag: "length (der_tag t c) \<le> length c + 4"
  by (simp add: der_tag_def der_len_def)

text \<open>
  Peeling a written DER value gives its content and what follows it, up to 65535 bytes of
  content; beyond that the writer keeps only the low sixteen bits of the length and the value
  is cut there.
\<close>

theorem der_tag_roundtrip:
  "peel_tag (der_tag t c @ rest) t = (if length c < 65536 then Ok (c, rest)
     else Ok (take (length c mod 65536) c, drop (length c mod 65536) c @ rest))"
proof (cases "length c < 65536")
  case False
  have "length c mod 65536 \<le> length c" by simp
  then show ?thesis using False peel_der_len [of c rest] by (simp add: peel_tag_def der_tag_def)
qed (simp add: peel_der_tag)

lemma peel_length_wraps: "peel_length (0x88 # replicate 8 0xff) = Panic"
  by code_simp

section \<open>Object identifiers\<close>

text \<open>The standard reader of base-128 arcs.\<close>

fun arcs_of :: "nat \<Rightarrow> bytes \<Rightarrow> nat list" where
  "arcs_of acc [] = []"
| "arcs_of acc (b # bs) =
    (if unat b < 128 then (acc * 128 + unat b) # arcs_of 0 bs else arcs_of (acc * 128 + (unat b - 128)) bs)"

lemma low7: "(a :: u32) AND 0x7f = take_bit 7 a"
  by (simp add: take_bit_eq_mask mask_eq_exp_minus_1)

lemma unat_take7: "unat (take_bit 7 (a :: u32)) = unat a mod 128"
  unfolding unsigned_take_bit_eq by (simp add: take_bit_eq_mod)

lemma unat_to_u8: "unat (ucast (a :: u32) :: u8) = unat a mod 256"
  by (simp add: unsigned_ucast_eq take_bit_eq_mod)

lemma unat_low7: "unat (ucast ((a :: u32) AND 0x7f) :: u8) = unat a mod 128"
  unfolding low7 unat_to_u8 unat_take7 by simp

lemma unat_low7_or: "unat (ucast (((a :: u32) AND 0x7f) OR 0x80) :: u8) = 128 + unat a mod 128"
proof -
  have e: "(0x80 :: u32) = push_bit 7 1" by simp
  have "take_bit 7 a + push_bit 7 1 = take_bit 7 a OR push_bit 7 1"
    by (rule disjunctive_add) (auto simp only: bit_push_bit_iff bit_take_bit_iff)
  then have "take_bit 7 a OR 0x80 = take_bit 7 a + 0x80" unfolding e by (rule sym)
  moreover have "unat (take_bit 7 a + 0x80) = unat a mod 128 + 128"
    unfolding unat_word_ariths(1) unat_take7 by simp
  ultimately show ?thesis unfolding low7 unat_to_u8 by simp
qed

lemma unat_drop7: "unat (drop_bit 7 (a :: u32)) = unat a div 128"
  by (simp add: drop_bit_eq_div unat_div_distrib)

lemma arc_loop_spec:
  assumes "unat a < 128 ^ i"
  shows "\<exists>xs. (arc_loop i a acc :: ('e, bytes) outcome) = Ok xs \<and> length xs \<le> i + length acc \<and>
    (\<forall>r. arcs_of 0 (xs @ r) = arcs_of (unat a) (acc @ r))"
  using assms
proof (induction i arbitrary: a acc)
  case 0
  then have "a = 0" by (simp add: unat_eq_zero)
  then show ?case by simp
next
  case (Suc i)
  let ?b = "ucast ((a AND 0x7f) OR 0x80) :: u8"
  show ?case
  proof (cases "a = 0")
    case False
    have "unat (drop_bit 7 a) < 128 ^ i" using Suc.prems by (simp add: unat_drop7 div_less_iff_less_mult mult.commute)
    from Suc.IH [OF this, of "?b # acc"] obtain xs where
      xs: "(arc_loop i (drop_bit 7 a) (?b # acc) :: ('e, bytes) outcome) = Ok xs" "length xs \<le> i + length (?b # acc)"
      "\<forall>r. arcs_of 0 (xs @ r) = arcs_of (unat a div 128) ((?b # acc) @ r)"
      unfolding unat_drop7 by (elim exE conjE) (rule that)
    have "arcs_of (unat a div 128) ((?b # acc) @ r) = arcs_of (unat a) (acc @ r)" for r
      by (simp add: unat_low7_or)
    then show ?thesis using False xs by (intro exI [of _ xs]) simp
  qed auto
qed

lemma der_arc_spec:
  "\<exists>xs. (der_arc a :: ('e, bytes) outcome) = Ok xs \<and> length xs \<le> 5 \<and> (\<forall>r. arcs_of 0 (xs @ r) = unat a # arcs_of 0 r)"
proof -
  have "unat (drop_bit 7 a) < 128 ^ 4" using unat_lt2p [of a] by (simp add: unat_drop7)
  from arc_loop_spec [OF this, of "[ucast (a AND 0x7f)]"] show ?thesis
    by (auto simp: der_arc_def unat_drop7 unat_low7)
qed

lemma der_arcs_spec:
  "\<exists>bs. (der_arcs as :: ('e, bytes) outcome) = Ok bs \<and> length bs \<le> 5 * length as \<and>
    (\<forall>r. arcs_of 0 (bs @ r) = map unat as @ arcs_of 0 r)"
proof (induction as)
  case (Cons a as)
  from Cons.IH obtain bs where "(der_arcs as :: ('e, bytes) outcome) = Ok bs" "length bs \<le> 5 * length as"
    "\<forall>r. arcs_of 0 (bs @ r) = map unat as @ arcs_of 0 r" by (elim exE conjE) (rule that)
  moreover obtain xs where "(der_arc a :: ('e, bytes) outcome) = Ok xs" "length xs \<le> 5" "\<And>r. arcs_of 0 (xs @ r) = unat a # arcs_of 0 r"
    using der_arc_spec [of a] by blast
  ultimately show ?case by (intro exI [of _ "xs @ bs"]) simp
qed simp

text \<open>
  Writing the arcs of an object identifier never runs out of its five-byte buffer: every
  32-bit arc takes at most five bytes, and the standard base-128 reader gives all arcs back.
\<close>

theorem der_arcs_roundtrip:
  "\<exists>bs. (der_arcs as :: ('e, bytes) outcome) = Ok bs \<and> length bs \<le> 5 * length as \<and> arcs_of 0 bs = map unat as"
  using der_arcs_spec [of as] by (metis append_Nil2 arcs_of.simps(1))

section \<open>The calendar\<close>

text \<open>The closed form: leap years by divisions, days before a year and before a month.\<close>

definition leaps :: "nat \<Rightarrow> nat" where
  "leaps n = n div 4 - n div 100 + n div 400"

definition days_before_year :: "nat \<Rightarrow> nat" where
  "days_before_year y = 365 * (y - 1970) + (leaps (y - 1) - leaps 1969)"

definition day_number :: "nat \<Rightarrow> nat \<Rightarrow> nat \<Rightarrow> nat" where
  "day_number y m d = days_before_year y + sum_list (take (m - 1) (month_days y)) + (d - 1)"

lemma leaps_Suc: "leaps (Suc n) = leaps n + (if is_leap (Suc n) then 1 else 0)"
proof -
  have d: "Suc n div k = n div k + (if Suc n mod k = 0 then 1 else 0)" for k :: nat
    by (simp add: div_Suc)
  have "Suc n mod 4 = 0" if "Suc n mod 100 = 0"
    using that mod_mod_cancel [of 4 100 "Suc n"] by simp
  moreover have "Suc n mod 100 = 0" if "Suc n mod 400 = 0"
    using that mod_mod_cancel [of 100 400 "Suc n"] by simp
  moreover have "n div 100 \<le> n div 4" by (rule div_le_mono2) simp_all
  ultimately show ?thesis unfolding leaps_def is_leap_def d by auto
qed

lemma leaps_mono: "m \<le> n \<Longrightarrow> leaps m \<le> leaps n"
  by (induction n rule: dec_induct) (auto simp: leaps_Suc)

lemma days_before_Suc: "1970 \<le> y \<Longrightarrow> days_before_year (Suc y) = days_before_year y + year_days y"
proof -
  assume y: "1970 \<le> y"
  then obtain n where n: "y = Suc n" by (cases y) auto
  have "leaps 1969 \<le> leaps n" using y n by (intro leaps_mono) simp
  moreover have "Suc n - 1969 = Suc (n - 1969)" "Suc n - 1970 = n - 1969" using y n by auto
  ultimately show ?thesis using leaps_Suc [of n] unfolding n days_before_year_def year_days_def by auto
qed

lemma year_loop_spec:
  "1970 \<le> y \<Longrightarrow> year_loop y days = (y', d) \<Longrightarrow>
    y \<le> y' \<and> d < year_days y' \<and> days_before_year y' + d = days_before_year y + days"
proof (induction y days rule: year_loop.induct)
  case (1 y days)
  show ?case
  proof (cases "days < year_days y")
    case True
    then show ?thesis using 1(3) by (simp add: year_loop.simps [of y])
  next
    case False
    then have "year_loop (y + 1) (days - year_days y) = (y', d)" using 1(3) by (simp add: year_loop.simps [of y])
    with 1(1) [OF False] 1(2) have "y + 1 \<le> y' \<and> d < year_days y' \<and>
        days_before_year y' + d = days_before_year (y + 1) + (days - year_days y)" by simp
    then show ?thesis using days_before_Suc [OF 1(2)] False by simp
  qed
qed

lemma month_loop_spec:
  "days < sum_list ms \<Longrightarrow> month_loop ms m days = (m', d) \<Longrightarrow>
    \<exists>k < length ms. m' = m + k \<and> d < ms ! k \<and> days = sum_list (take k ms) + d"
proof (induction ms m days rule: month_loop.induct)
  case (2 dm ms m days)
  show ?case
  proof (cases "days < dm")
    case True
    then show ?thesis using 2(3) by (intro exI [of _ 0]) simp
  next
    case False
    have "days - dm < sum_list ms" "month_loop ms (m + 1) (days - dm) = (m', d)" using False 2(2,3) by auto
    then obtain k where "k < length ms" "m' = m + 1 + k" "d < ms ! k" "days - dm = sum_list (take k ms) + d"
      using 2(1) [OF False] by blast
    then show ?thesis using False by (intro exI [of _ "Suc k"]) simp
  qed
qed simp

lemma sum_month_days: "sum_list (month_days y) = year_days y"
  by (simp add: month_days_def year_days_def)

lemma days_to_ymd_spec:
  "case days_to_ymd days of (y, m, d) \<Rightarrow> 1970 \<le> y \<and> 1 \<le> m \<and> m \<le> 12 \<and> 1 \<le> d \<and>
    d \<le> month_days y ! (m - 1) \<and> day_number y m d = days"
proof -
  obtain y r where y: "year_loop 1970 days = (y, r)" by (cases "year_loop 1970 days")
  have ys: "1970 \<le> y" "r < year_days y" "days_before_year y + r = days"
    using year_loop_spec [OF _ y] by (simp_all add: days_before_year_def)
  obtain m d where m: "month_loop (month_days y) 1 r = (m, d)" by (cases "month_loop (month_days y) 1 r")
  obtain k where k: "k < length (month_days y)" "m = 1 + k" "d < month_days y ! k"
    "r = sum_list (take k (month_days y)) + d"
    using month_loop_spec [OF _ m] ys(2) by (auto simp: sum_month_days)
  have "days_to_ymd days = (y, m, d + 1)" using y m by (simp add: days_to_ymd_def)
  then show ?thesis using ys k by (simp add: day_number_def) (simp add: month_days_def)
qed

text \<open>
  C38: The year and month loops compute the Gregorian calendar: for every number of days since
  1970-01-01 they give a valid date, and the closed-form day number of that date is the number
  of days it was computed from.
\<close>

theorem days_to_ymd_correct:
  "case days_to_ymd days of (y, m, d) \<Rightarrow> 1970 \<le> y \<and> 1 \<le> m \<and> m \<le> 12 \<and> 1 \<le> d \<and>
    d \<le> month_days y ! (m - 1) \<and> day_number y m d = days"
  by (rule days_to_ymd_spec)

section \<open>UTC times\<close>

text \<open>The reader of X.509 UTC times: years from 50 on are of the last century.\<close>

fun two_digits :: "string \<Rightarrow> (nat \<times> string) option" where
  "two_digits (a # b # r) = (case (char_digit a, char_digit b) of
     (Some x, Some y) \<Rightarrow> Some (10 * x + y, r) | _ \<Rightarrow> None)"
| "two_digits _ = None"

primrec read_fields :: "nat \<Rightarrow> string \<Rightarrow> (nat list \<times> string) option" where
  "read_fields 0 s = Some ([], s)"
| "read_fields (Suc n) s = (case two_digits s of
     None \<Rightarrow> None
   | Some (x, r) \<Rightarrow> (case read_fields n r of None \<Rightarrow> None | Some (xs, r') \<Rightarrow> Some (x # xs, r')))"

definition x509_year :: "nat \<Rightarrow> nat" where
  "x509_year yy = (if yy < 50 then 2000 + yy else 1900 + yy)"

definition utc_decode :: "string \<Rightarrow> nat option" where
  "utc_decode s = (case read_fields 6 s of
     Some ([yy, mo, da, h, mi, sec], ''Z'') \<Rightarrow>
       Some (day_number (x509_year yy) mo da * 86400 + h * 3600 + mi * 60 + sec)
   | _ \<Rightarrow> None)"

lemma digit_char_0: "digit_char 0 = CHR ''0''"
  by code_simp

lemma pad2_digits: "n < 100 \<Longrightarrow> pad2 n = [digit_char (n div 10), digit_char (n mod 10)]"
  by (auto simp: pad2_def show_nat.simps [of n] show_nat.simps [of "n div 10"] digit_char_0)

lemma two_digits_pad2: "n < 100 \<Longrightarrow> two_digits (pad2 n @ r) = Some (n, r)"
  by (simp add: pad2_digits)

lemma read_fields_pad2: "list_all (\<lambda>n. n < 100) ns \<Longrightarrow>
    read_fields (length ns) (concat (map pad2 ns) @ r) = Some (ns, r)"
  by (induction ns) (simp_all add: two_digits_pad2)

lemma days_before_mono:
  assumes "1970 \<le> a" and "a \<le> b"
  shows "days_before_year a \<le> days_before_year b"
  using assms(2)
proof (induction rule: dec_induct)
  case (step n)
  then show ?case using assms(1) by (simp add: days_before_Suc)
qed simp

lemma length_utc_text: "length (utc_text unix) \<le> 100"
proof -
  obtain y m d where ymd: "days_to_ymd (unix div 86400) = (y, m, d)" by (cases "days_to_ymd (unix div 86400)")
  have v: "1 \<le> m" "m \<le> 12" "d \<le> month_days y ! (m - 1)" using days_to_ymd_spec [of "unix div 86400"] ymd by simp_all
  have "month_days y ! (m - 1) \<in> set (month_days y)" using v(1,2) by (intro nth_mem) (simp add: month_days_def)
  then have "d \<le> 31" using v(3) by (auto simp: month_days_def split: if_splits)
  moreover have "unix mod 86400 div 3600 < 100" "unix mod 86400 mod 3600 div 60 < 100"
    by (simp_all add: less_mult_imp_div_less)
  ultimately show ?thesis using v(2) by (simp add: utc_text_def ymd Let_def pad2_digits)
qed

text \<open>
  The time in a certificate is thirteen characters that an X.509 reader decodes to the same
  second, for every time before 2050-01-01; from then on the two-digit year means the last
  century.
\<close>

theorem utc_time_decodes:
  assumes "unix < 2524608000"
  shows "utc_decode (utc_text unix) = Some unix \<and> length (utc_text unix) = 13"
proof -
  let ?days = "unix div 86400" and ?r = "unix mod 86400"
  let ?h = "?r div 3600" and ?mi = "(?r mod 3600) div 60" and ?s = "?r mod 60"
  obtain y m d where ymd: "days_to_ymd ?days = (y, m, d)" by (cases "days_to_ymd ?days")
  have v: "1970 \<le> y" "1 \<le> m" "m \<le> 12" "1 \<le> d" "d \<le> month_days y ! (m - 1)" "day_number y m d = ?days"
    using days_to_ymd_spec [of ?days] ymd by simp_all
  have "month_days y ! (m - 1) \<in> set (month_days y)" using v(2,3) by (intro nth_mem) (simp add: month_days_def)
  then have d31: "d \<le> 31" using v(5) by (auto simp: month_days_def split: if_splits)
  have "days_before_year y \<le> ?days" using v(6) by (simp add: day_number_def)
  also have "\<dots> < 29220" using assms by (simp add: div_less_iff_less_mult)
  also have "(29220 :: nat) = days_before_year 2050" by code_simp
  finally have "y < 2050" using days_before_mono [of 2050 y] by (cases "y < 2050") simp_all
  moreover have "y mod 100 = y - 1900" if "y < 2000" by (rule mod_nat_eqI) (use v(1) that in simp_all)
  moreover have "y mod 100 = y - 2000" if "2000 \<le> y" "y < 2050" by (rule mod_nat_eqI) (use that in simp_all)
  ultimately have yr: "x509_year (y mod 100) = y" using v(1) by (cases "y < 2000") (auto simp: x509_year_def)
  let ?ns = "[y mod 100, m, d, ?h, ?mi, ?s]"
  have t: "utc_text unix = concat (map pad2 ?ns) @ ''Z''" by (simp add: utc_text_def ymd Let_def)
  have ok: "list_all (\<lambda>n. n < 100) ?ns" using v(3) d31 by (simp add: less_mult_imp_div_less)
  have l: "6 = length ?ns" by simp
  have "?h * 3600 + ?r mod 3600 = ?r" by (rule div_mult_mod_eq)
  moreover have "?mi * 60 + (?r mod 3600) mod 60 = ?r mod 3600" by (rule div_mult_mod_eq)
  moreover have "(?r mod 3600) mod 60 = ?s" by (rule mod_mod_cancel) simp
  ultimately have "?h * 3600 + ?mi * 60 + ?s = ?r" by linarith
  moreover have "read_fields 6 (utc_text unix) = Some (?ns, ''Z'')"
    unfolding t l by (rule read_fields_pad2 [OF ok])
  ultimately have "utc_decode (utc_text unix) = Some unix" by (simp add: utc_decode_def yr v(6) add.assoc)
  moreover have "length (utc_text unix) = 13" using ok by (simp add: t pad2_digits)
  ultimately show ?thesis ..
qed

theorem utc_time_decodes_witness:
  "utc_decode (utc_text 1709210096) = Some 1709210096 \<and> length (utc_text 1709210096) = 13"
  using utc_time_decodes [of 1709210096] by simp

lemma utc_time_2050: "utc_decode (utc_text 2524608000) \<noteq> Some 2524608000"
  by code_simp

section \<open>Base64\<close>

definition b64_index :: "char \<Rightarrow> nat option" where
  "b64_index c = (if c \<in> set B64_TABLE then Some (length (takeWhile (\<lambda>d. d \<noteq> c) B64_TABLE)) else None)"

fun base64_decode :: "string \<Rightarrow> bytes option" where
  "base64_decode [] = Some []"
| "base64_decode (a # b # c # d # rest) = (case (b64_index a, b64_index b, b64_index c, b64_index d) of
     (Some p, Some q, Some r, Some s) \<Rightarrow> map_option
       (\<lambda>bs. [word_of_nat (4 * p + q div 16), word_of_nat (q mod 16 * 16 + r div 4), word_of_nat (r mod 4 * 64 + s)] @ bs)
       (base64_decode rest)
   | (Some p, Some q, Some r, None) \<Rightarrow> if d = CHR ''='' \<and> rest = []
       then Some [word_of_nat (4 * p + q div 16), word_of_nat (q mod 16 * 16 + r div 4)] else None
   | (Some p, Some q, None, None) \<Rightarrow> if c = CHR ''='' \<and> d = CHR ''='' \<and> rest = []
       then Some [word_of_nat (4 * p + q div 16)] else None
   | _ \<Rightarrow> None)"
| "base64_decode _ = None"

lemma b64_index_table: "i < 64 \<Longrightarrow> b64_index (B64_TABLE ! i) = Some i"
proof -
  have "list_all (\<lambda>i. b64_index (B64_TABLE ! i) = Some i) [0..<64]" by code_simp
  then show "i < 64 \<Longrightarrow> b64_index (B64_TABLE ! i) = Some i" by (simp add: list_all_iff)
qed

lemma b64_index_pad [simp]: "b64_index CHR ''='' = None"
  by code_simp

lemma b64_index_char: "b64_index (b64_char k b) = Some (unat b div 2 ^ k mod 64)"
proof -
  have "drop_bit k b AND 63 = take_bit 6 (drop_bit k b)" by (simp add: take_bit_eq_mask mask_eq_exp_minus_1)
  then have "unat (drop_bit k b AND 63) = unat (drop_bit k b) mod 64"
    by (simp only: unsigned_take_bit_eq) (simp add: take_bit_eq_mod)
  also have "unat (drop_bit k b) = unat b div 2 ^ k"
    unfolding unsigned_drop_bit_eq by (simp add: drop_bit_eq_div take_bit_nat_eq_self unat_lt2p [of b, simplified])
  finally show ?thesis by (simp add: b64_char_def b64_index_table)
qed

lemma unat_group:
  "unat (push_bit 16 (ucast (x :: byte)) OR push_bit 8 (ucast (y :: byte)) OR ucast (z :: byte) :: u32) =
    unat x * 65536 + unat y * 256 + unat z"
proof -
  let ?x = "push_bit 16 (ucast x) :: u32" and ?y = "push_bit 8 (ucast y) :: u32" and ?z = "ucast z :: u32"
  have yz: "?y + ?z = ?y OR ?z"
    by (rule disjunctive_add) (auto simp: bit_simps dest: bit_imp_le_length)
  have "?x + (?y OR ?z) = ?x OR (?y OR ?z)"
    by (rule disjunctive_add) (auto simp: bit_simps dest: bit_imp_le_length)
  then have e: "?x OR ?y OR ?z = ?x + (?y + ?z)" by (simp add: yz or.assoc)
  have u: "unat (push_bit k (ucast b) :: u32) = unat b * 2 ^ k" if "k \<le> 16" for k and b :: byte
  proof -
    have "(2 :: nat) ^ k \<le> 2 ^ 16" by (rule power_increasing) (use that in simp_all)
    then have "unat b * 2 ^ k < 256 * 2 ^ 16" by (intro mult_less_le_imp_less) simp_all
    moreover have "unat b < 2 ^ 32" by (rule less_trans [OF unat_byte_less]) simp
    ultimately show ?thesis unfolding unsigned_push_bit_eq unsigned_ucast_eq
      by (simp add: push_bit_eq_mult take_bit_nat_eq_self)
  qed
  have "unat x < 256" "unat y < 256" "unat z < 256" by (rule unat_byte_less)+
  then have "unat x * 65536 + (unat y * 256 + unat z) < 4294967296" by linarith
  then show ?thesis unfolding e unat_word_ariths(1) using u [of 16 x] u [of 8 y] u [of 0 z] by simp
qed

lemma div_shift: "a < b \<Longrightarrow> (a + k * b) div b = (k :: nat)"
  by simp

lemma digit_split:
  fixes w m x k :: nat
  assumes "w < m"
  shows "(x * m + w) mod (m * k) = x mod k * m + w" "(x * m + w) div m = x" "(x * m + w) mod m = w"
  using assms by (simp_all add: mod_mult2_eq)

lemma b64_bytes:
  fixes x y z :: nat
  assumes "x < 256" and "y < 256" and "z < 256"
  defines "n \<equiv> x * 65536 + y * 256 + z"
  shows "4 * (n div 2 ^ 18 mod 64) + n div 2 ^ 12 mod 64 div 16 = x"
    "n div 2 ^ 12 mod 64 mod 16 * 16 + n div 2 ^ 6 mod 64 div 4 = y"
    "n div 2 ^ 6 mod 64 mod 4 * 64 + n div 2 ^ 0 mod 64 = z"
proof -
  have "n = (y * 256 + z) + x * 65536" "n = z + (x * 256 + y) * 256" "n = z + (x * 1024 + y * 4) * 64"
    unfolding n_def by simp_all
  then have d: "n div 65536 = x" "n div 256 = x * 256 + y" "n div 64 = (x * 1024 + y * 4) + z div 64"
    using div_shift [of "y * 256 + z" 65536 x] div_shift [of z 256 "x * 256 + y"] assms(2,3) by simp_all
  have e: "n div 2 ^ 18 = n div 65536 div 4" "n div 2 ^ 12 = n div 256 div 16" by (simp_all flip: div_mult2_eq)
  have "x * 256 + y = y + (x * 16) * 16" by simp
  then have p: "(x * 256 + y) div 16 = x * 16 + y div 16" by (metis add.commute div_mult_self1 zero_neq_numeral)
  have q: "(x * 16 + y div 16) mod 64 = x mod 4 * 16 + y div 16"
    using digit_split(1) [of "y div 16" 16 x 4] assms(2) by (simp add: div_less_iff_less_mult)
  have "(x * 256 + y) mod 16 = y mod 16" using mod_mult_self1 [of y "x * 16" 16] by (simp add: ac_simps)
  then have r: "(x * 1024 + y * 4 + z div 64) mod 64 = y mod 16 * 4 + z div 64"
    using digit_split(1) [of "z div 64" 4 "x * 256 + y" 16] assms(3) by (simp add: div_less_iff_less_mult algebra_simps)
  have w: "n mod 64 = z mod 64" using mod_mult_self1 [of z "x * 1024 + y * 4" 64] unfolding n_def by (simp add: algebra_simps)
  have h: "n div 2 ^ 18 mod 64 = x div 4" "n div 2 ^ 12 mod 64 = x mod 4 * 16 + y div 16"
    "n div 2 ^ 6 mod 64 = y mod 16 * 4 + z div 64" "n div 2 ^ 0 mod 64 = z mod 64"
    using assms(1) d e p q r w by (simp_all add: div_less_iff_less_mult)
  show "4 * (n div 2 ^ 18 mod 64) + n div 2 ^ 12 mod 64 div 16 = x"
    "n div 2 ^ 12 mod 64 mod 16 * 16 + n div 2 ^ 6 mod 64 div 4 = y"
    "n div 2 ^ 6 mod 64 mod 4 * 64 + n div 2 ^ 0 mod 64 = z"
    unfolding h using assms(1-3) digit_split(2,3) [of "y div 16" 16 "x mod 4"] digit_split(2,3) [of "z div 64" 4 "y mod 16"]
    by (simp_all add: div_less_iff_less_mult)
qed

text \<open>
  The base64 text of any bytes, of every length modulo three, decodes to those bytes with the
  standard reader.
\<close>

theorem base64_roundtrip: "base64_decode (base64_encode bs) = Some bs"
proof (induction bs rule: base64_encode.induct)
  case (1 x y z rest)
  note v = b64_bytes [of "unat x" "unat y" "unat z"]
  show ?case using 1 unfolding base64_encode.simps Let_def append.simps base64_decode.simps b64_index_char unat_group
    by (simp only: v unat_byte_less option.case prod.case option.map) simp
next
  case (2 x y)
  note v = b64_bytes [of "unat x" "unat y" 0]
  have "unat (push_bit 16 (ucast x) OR push_bit 8 (ucast y) :: u32) = unat x * 65536 + unat y * 256 + 0"
    using unat_group [of x y 0] by simp
  then show ?case unfolding base64_encode.simps Let_def base64_decode.simps b64_index_char b64_index_pad
    by (simp only: v unat_byte_less option.case prod.case option.map) simp
next
  case (3 x)
  note v = b64_bytes [of "unat x" 0 0]
  have "unat (push_bit 16 (ucast x) :: u32) = unat x * 65536 + 0 * 256 + 0" using unat_group [of x 0 0] by simp
  then show ?case unfolding base64_encode.simps Let_def base64_decode.simps b64_index_char b64_index_pad
    by (simp only: v unat_byte_less option.case prod.case option.map) simp
qed simp

end
