(* ===== verification/Lockdown.thy ===== *)
theory Lockdown
  imports UsbmuxConn PlistInstance
begin

text \<open>
  The lockdownd session: \<open>src/src/lockdown/session.rs\<close>, \<open>types.rs\<close>, \<open>pair_record.rs\<close> and
  \<open>error.rs\<close>. A session is a stream (plain, wrapped in TLS, or in the transient state of an
  upgrade that did not finish), the id of the active session and the pair record. Commands are
  one request and one response. The TLS and PEM crates are the record \<open>tls\<close>: what they parse
  from the pair record, whether a client connection can be made, and what the handshake leaves,
  the failed socket or the stream of plaintext over the connection. Texts that quote an error of
  such a crate are dropped.
\<close>

section \<open>Types\<close>

datatype ld_error =
    LdUsbmux usb_error | LdIo io_kind | LdPlist | LdLockdown string | LdBadResponse
  | LdPairRecord string | LdTls | LdAfc string | LdClosed

record pair_record =
  host_id :: string
  system_buid :: string
  host_certificate :: bytes
  host_private_key :: bytes
  device_certificate :: bytes
  root_certificate :: bytes

definition string_field :: "pdictionary \<Rightarrow> string \<Rightarrow> (ld_error, string) outcome" where
  "string_field d key = ok_or (Option.bind (dget d key) as_string) (LdPairRecord (''missing string key '' @ key))"

definition data_field :: "pdictionary \<Rightarrow> string \<Rightarrow> (ld_error, bytes) outcome" where
  "data_field d key = ok_or
    (case dget d key of
       Some (PData b) \<Rightarrow> Some b
     | Some (PString s) \<Rightarrow> Some (bytes_of s)
     | _ \<Rightarrow> None) (LdPairRecord (''missing data key '' @ key))"

definition from_plist_bytes :: "(bytes \<Rightarrow> pvalue option) \<Rightarrow> bytes \<Rightarrow> (ld_error, pair_record) outcome" where
  "from_plist_bytes parse data =
    obind (ok_or (parse data) (LdPairRecord ''plist parse'')) (\<lambda>v.
    obind (ok_or (as_dictionary v) (LdPairRecord ''not a dictionary'')) (\<lambda>d.
    obind (string_field d ''HostID'') (\<lambda>hid.
    obind (string_field d ''SystemBUID'') (\<lambda>buid.
    obind (data_field d ''HostCertificate'') (\<lambda>hc.
    obind (data_field d ''HostPrivateKey'') (\<lambda>hk.
    obind (data_field d ''DeviceCertificate'') (\<lambda>dc.
    obind (data_field d ''RootCertificate'') (\<lambda>rc.
      Ok \<lparr>host_id = hid, system_buid = buid, host_certificate = hc, host_private_key = hk,
          device_certificate = dc, root_certificate = rc\<rparr>))))))))"

definition read_from_usbmuxd :: "(pvalue \<Rightarrow> bytes) \<Rightarrow> (bytes \<Rightarrow> pvalue option) \<Rightarrow> string \<Rightarrow>
    (connection, ld_error, pair_record) prog" where
  "read_from_usbmuxd xml parse udid =
    bnd (on_err LdUsbmux (conn_read_pair_record xml parse udid)) (\<lambda>raw. lift_o (from_plist_bytes parse raw))"

record service_info =
  si_port :: u16
  si_enable_service_ssl :: bool

record device_info =
  di_device_name :: string
  di_product_type :: string
  di_product_version :: string
  di_serial_number :: string
  di_hardware_model :: string
  di_unique_device_id :: string
  di_cpu_architecture :: string
  di_extra :: pdictionary

definition take_str :: "pdictionary \<Rightarrow> string \<Rightarrow> string \<times> pdictionary" where
  "take_str d k =
    ((case dget d k of Some (PString s) \<Rightarrow> s | _ \<Rightarrow> ''''), AList.delete k d)"

definition device_info_from_dict :: "pdictionary \<Rightarrow> device_info" where
  "device_info_from_dict d0 =
    (let (dn, d1) = take_str d0 ''DeviceName'';
         (pt, d2) = take_str d1 ''ProductType'';
         (pv, d3) = take_str d2 ''ProductVersion'';
         (sn, d4) = take_str d3 ''SerialNumber'';
         (hm, d5) = take_str d4 ''HardwareModel'';
         (ud, d6) = take_str d5 ''UniqueDeviceID'';
         (ca, d7) = take_str d6 ''CPUArchitecture''
     in \<lparr>di_device_name = dn, di_product_type = pt, di_product_version = pv, di_serial_number = sn,
         di_hardware_model = hm, di_unique_device_id = ud, di_cpu_architecture = ca, di_extra = d7\<rparr>)"

section \<open>The session\<close>

record ('c, 'd) tls =
  pem_certs :: "bytes \<Rightarrow> bytes list option"
  pem_key :: "bytes \<Rightarrow> bytes option option"
  client_config :: "bytes list \<Rightarrow> bytes \<Rightarrow> 'c option"
  client_connection :: "'c \<Rightarrow> 'd option"
  complete_handshake :: "'d \<Rightarrow> sock \<Rightarrow> sock + sock"

datatype ls_stream = LsPlain sock | LsTls sock | LsUpgrading

record lockdown_session =
  ls_stream :: ls_stream
  ls_session_id :: "string option"
  ls_device_id :: u32
  ls_pair_record :: "pair_record option"

type_synonym 'a ls = "(lockdown_session, ld_error, 'a) prog"

text \<open>Reading or writing in the transient state is \<open>unreachable!\<close>.\<close>

definition with_stream :: "(sock, plist_io_error, 'a) prog \<Rightarrow> 'a ls" where
  "with_stream p c =
    (let conv = map_err (\<lambda>e. case e of PIo k \<Rightarrow> LdIo k | PClosed \<Rightarrow> LdClosed | PPlist \<Rightarrow> LdPlist)
     in case ls_stream c of
       LsPlain s \<Rightarrow> (case p s of (r, s') \<Rightarrow> (conv r, c\<lparr>ls_stream := LsPlain s'\<rparr>))
     | LsTls s \<Rightarrow> (case p s of (r, s') \<Rightarrow> (conv r, c\<lparr>ls_stream := LsTls s'\<rparr>))
     | LsUpgrading \<Rightarrow> (Panic, c))"

definition send_raw :: "(pvalue \<Rightarrow> bytes) \<Rightarrow> pvalue \<Rightarrow> unit ls" where
  "send_raw xml v = with_stream (send_plist xml v)"

definition recv_raw :: "(bytes \<Rightarrow> pvalue option) \<Rightarrow> pvalue ls" where
  "recv_raw parse = with_stream (recv_plist parse)"

record base_response =
  br_error :: "string option"
  br_value :: "pvalue option"
  br_port :: "u16 option"
  br_enable_service_ssl :: "bool option"
  br_session_id :: "string option"
  br_enable_session_ssl :: "bool option"

definition response_of_value :: "pvalue \<Rightarrow> base_response option" where
  "response_of_value v = (case v of
     PDictionary d \<Rightarrow>
       (case (opt_field as_string d ''Error'', opt_field Some d ''Value'', opt_field value_u16 d ''Port'',
              opt_field as_boolean d ''EnableServiceSSL'', opt_field as_string d ''SessionID'',
              opt_field as_boolean d ''EnableSessionSSL'') of
          (Some e, Some x, Some p, Some ss, Some i, Some es) \<Rightarrow>
            Some \<lparr>br_error = e, br_value = x, br_port = p, br_enable_service_ssl = ss, br_session_id = i,
                  br_enable_session_ssl = es\<rparr>
        | _ \<Rightarrow> None)
   | _ \<Rightarrow> None)"

definition check_response :: "pvalue \<Rightarrow> (ld_error, base_response) outcome" where
  "check_response v =
    obind (ok_or (response_of_value v) LdBadResponse) (\<lambda>r.
      case br_error r of Some e \<Rightarrow> Err (LdLockdown e) | None \<Rightarrow> Ok r)"

definition expect_response :: "(bytes \<Rightarrow> pvalue option) \<Rightarrow> base_response ls" where
  "expect_response parse = bnd (recv_raw parse) (\<lambda>v. lift_o (check_response v))"

text \<open>\<open>Request\<close> with the optional fields left out.\<close>

definition opt_pair :: "string \<Rightarrow> string option \<Rightarrow> (string \<times> pvalue) list" where
  "opt_pair k x = (case x of None \<Rightarrow> [] | Some s \<Rightarrow> [(k, PString s)])"

definition ls_request :: "string \<Rightarrow> string option \<Rightarrow> string option \<Rightarrow> string option \<Rightarrow> pvalue" where
  "ls_request request domain key service =
    PDictionary ([(''Request'', PString request)] @ opt_pair ''Domain'' domain @ opt_pair ''Key'' key @
      [(''Label'', PString ''devicelink'')] @ opt_pair ''Service'' service)"

definition set_value_request :: "string option \<Rightarrow> string \<Rightarrow> pvalue \<Rightarrow> pvalue" where
  "set_value_request domain key v =
    PDictionary ([(''Request'', PString ''SetValue'')] @ opt_pair ''Domain'' domain @
      [(''Key'', PString key), (''Value'', v), (''Label'', PString ''devicelink'')])"

definition ls_get_all_values :: "(pvalue \<Rightarrow> bytes) \<Rightarrow> (bytes \<Rightarrow> pvalue option) \<Rightarrow> device_info ls" where
  "ls_get_all_values xml parse =
    bnd (send_raw xml (ls_request ''GetValue'' None None None)) (\<lambda>_.
    bnd (expect_response parse) (\<lambda>r.
      case br_value r of
        Some (PDictionary d) \<Rightarrow> ret (device_info_from_dict d)
      | _ \<Rightarrow> throw (LdLockdown ''GetValue returned unexpected payload'')))"

definition ls_set_value :: "(pvalue \<Rightarrow> bytes) \<Rightarrow> (bytes \<Rightarrow> pvalue option) \<Rightarrow>
    string option \<Rightarrow> string \<Rightarrow> pvalue \<Rightarrow> unit ls" where
  "ls_set_value xml parse domain key v =
    bnd (send_raw xml (set_value_request domain key v)) (\<lambda>_.
    bnd (expect_response parse) (\<lambda>r.
      case br_error r of
        Some e \<Rightarrow> throw (LdLockdown (''SetValue('' @ key @ ''): '' @ e))
      | None \<Rightarrow> ret ()))"

definition ls_get_value :: "(pvalue \<Rightarrow> bytes) \<Rightarrow> (bytes \<Rightarrow> pvalue option) \<Rightarrow>
    string option \<Rightarrow> string \<Rightarrow> pvalue ls" where
  "ls_get_value xml parse domain key =
    bnd (send_raw xml (ls_request ''GetValue'' domain (Some key) None)) (\<lambda>_.
    bnd (expect_response parse) (\<lambda>r.
      lift_o (ok_or (br_value r) (LdLockdown (''no Value for key '' @ key)))))"

definition services_of :: "base_response \<Rightarrow> string list" where
  "services_of r = (case br_value r of
     Some (PDictionary d) \<Rightarrow> (case dget d ''Services'' of Some (PDictionary s) \<Rightarrow> map fst s | _ \<Rightarrow> [])
   | _ \<Rightarrow> [])"

definition ls_list_services :: "(pvalue \<Rightarrow> bytes) \<Rightarrow> (bytes \<Rightarrow> pvalue option) \<Rightarrow> string list ls" where
  "ls_list_services xml parse c =
    (case ls_get_value xml parse (Some ''com.apple.mobile.lockdown'') ''Services'' c of
       (Ok (PDictionary d), c1) \<Rightarrow> (Ok (map fst d), c1)
     | (Panic, c1) \<Rightarrow> (Panic, c1)
     | (_, c1) \<Rightarrow>
         bnd (send_raw xml (ls_request ''GetValue'' None None None)) (\<lambda>_.
         bnd (expect_response parse) (\<lambda>r. ret (services_of r))) c1)"

definition ls_start_service :: "(pvalue \<Rightarrow> bytes) \<Rightarrow> (bytes \<Rightarrow> pvalue option) \<Rightarrow> string \<Rightarrow> service_info ls" where
  "ls_start_service xml parse name =
    bnd (send_raw xml (ls_request ''StartService'' None None (Some name))) (\<lambda>_.
    bnd (expect_response parse) (\<lambda>r.
      case br_port r of
        Some p \<Rightarrow> ret \<lparr>si_port = p,
          si_enable_service_ssl = (case br_enable_service_ssl r of Some b \<Rightarrow> b | None \<Rightarrow> False)\<rparr>
      | None \<Rightarrow> throw (LdLockdown (''StartService('' @ name @ '') failed: '' @
          (case br_error r of Some e \<Rightarrow> e | None \<Rightarrow> ''no port returned'')))))"

definition ls_query_type :: "(pvalue \<Rightarrow> bytes) \<Rightarrow> (bytes \<Rightarrow> pvalue option) \<Rightarrow> string ls" where
  "ls_query_type xml parse =
    bnd (send_raw xml (PDictionary [(''Request'', PString ''QueryType'')])) (\<lambda>_.
    bnd (recv_raw parse) (\<lambda>v. lift_o (case v of
        PDictionary d \<Rightarrow> ok_or (case dget d ''Type'' of Some (PString s) \<Rightarrow> Some s | _ \<Rightarrow> None)
          (LdLockdown ''QueryType: no Type field'')
      | _ \<Rightarrow> Err (LdLockdown ''QueryType: unexpected response''))))"

section \<open>TLS and the session life cycle\<close>

definition build_tls_config :: "('c, 'd) tls \<Rightarrow> pair_record \<Rightarrow> (ld_error, 'c) outcome" where
  "build_tls_config T pair =
    (case pem_certs T (host_certificate pair) of
       None \<Rightarrow> Err LdTls
     | Some [] \<Rightarrow> Err LdTls
     | Some certs \<Rightarrow> (case pem_key T (host_private_key pair) of
         Some (Some key) \<Rightarrow> ok_or (client_config T certs key) LdTls
       | _ \<Rightarrow> Err LdTls))"

text \<open>
  The stream is replaced by the transient state before the client connection is made, and only
  a failed handshake puts the plain socket back.
\<close>

definition upgrade_to_tls :: "('c, 'd) tls \<Rightarrow> pair_record \<Rightarrow> unit ls" where
  "upgrade_to_tls T pair c = (case build_tls_config T pair of
     Err e \<Rightarrow> (Err e, c)
   | Panic \<Rightarrow> (Panic, c)
   | Ok config \<Rightarrow> (case ls_stream c of
       LsPlain s \<Rightarrow> (case client_connection T config of
           None \<Rightarrow> (Err LdTls, c\<lparr>ls_stream := LsUpgrading\<rparr>)
         | Some conn \<Rightarrow> (case complete_handshake T conn s of
             Inl s' \<Rightarrow> (Err LdTls, c\<lparr>ls_stream := LsPlain s'\<rparr>)
           | Inr s' \<Rightarrow> (Ok (), c\<lparr>ls_stream := LsTls s'\<rparr>)))
     | _ \<Rightarrow> (Ok (), c)))"

definition start_session_request :: "pair_record \<Rightarrow> pvalue" where
  "start_session_request pair =
    PDictionary [(''Request'', PString ''StartSession''), (''HostID'', PString (host_id pair)),
      (''SystemBUID'', PString (system_buid pair)), (''Label'', PString ''devicelink'')]"

definition start_session :: "(pvalue \<Rightarrow> bytes) \<Rightarrow> (bytes \<Rightarrow> pvalue option) \<Rightarrow> ('c, 'd) tls \<Rightarrow>
    pair_record \<Rightarrow> string ls" where
  "start_session xml parse T pair =
    bnd (send_raw xml (start_session_request pair)) (\<lambda>_.
    bnd (expect_response parse) (\<lambda>r.
    bnd (lift_o (ok_or (br_session_id r) (LdLockdown ''StartSession: no SessionID''))) (\<lambda>sid c.
      bnd (if br_enable_session_ssl r = Some True then upgrade_to_tls T pair else ret ()) (\<lambda>_. ret sid)
        (c\<lparr>ls_session_id := Some sid, ls_pair_record := Some pair\<rparr>))))"

definition stop_session_request :: "string \<Rightarrow> pvalue" where
  "stop_session_request sid =
    PDictionary [(''Request'', PString ''StopSession''), (''SessionID'', PString sid),
      (''Label'', PString ''devicelink'')]"

definition stop_session :: "(pvalue \<Rightarrow> bytes) \<Rightarrow> (bytes \<Rightarrow> pvalue option) \<Rightarrow> unit ls" where
  "stop_session xml parse c = (case ls_session_id c of
     None \<Rightarrow> (Ok (), c)
   | Some sid \<Rightarrow>
       let c1 = c\<lparr>ls_session_id := None\<rparr>
       in if ls_stream c = LsUpgrading then (Ok (), c1)
          else bnd (send_raw xml (stop_session_request sid)) (\<lambda>_ c2.
            (case recv_raw parse c2 of (Panic, c3) \<Rightarrow> (Panic, c3) | (_, c3) \<Rightarrow> (Ok (), c3))) c1)"

definition drop_session :: "(pvalue \<Rightarrow> bytes) \<Rightarrow> (bytes \<Rightarrow> pvalue option) \<Rightarrow> lockdown_session \<Rightarrow> lockdown_session" where
  "drop_session xml parse c = snd (stop_session xml parse c)"

definition LOCKDOWN_PORT :: u16 where "LOCKDOWN_PORT = 62078"

text \<open>The usbmux connections that the code opens are arguments.\<close>

definition ls_connect :: "(pvalue \<Rightarrow> bytes) \<Rightarrow> (bytes \<Rightarrow> pvalue option) \<Rightarrow> u32 \<Rightarrow> connection \<Rightarrow>
    (ld_error, lockdown_session) outcome" where
  "ls_connect xml parse device_id mux =
    (case open_tunnel xml parse device_id LOCKDOWN_PORT mux of
       (Ok _, mux') \<Rightarrow> Ok \<lparr>ls_stream = LsPlain (conn_socket mux'), ls_session_id = None,
           ls_device_id = device_id, ls_pair_record = None\<rparr>
     | (Err e, _) \<Rightarrow> Err (LdUsbmux e)
     | (Panic, _) \<Rightarrow> Panic)"

definition open_paired :: "(pvalue \<Rightarrow> bytes) \<Rightarrow> (bytes \<Rightarrow> pvalue option) \<Rightarrow> ('c, 'd) tls \<Rightarrow> u32 \<Rightarrow> string \<Rightarrow>
    connection \<Rightarrow> connection \<Rightarrow> (ld_error, lockdown_session) outcome" where
  "open_paired xml parse T device_id udid mux mux2 =
    obind (ls_connect xml parse device_id mux) (\<lambda>c.
    obind (fst (read_from_usbmuxd xml parse udid mux2)) (\<lambda>pair.
      case start_session xml parse T pair c of
        (Ok _, c') \<Rightarrow> Ok c' | (Err e, _) \<Rightarrow> Err e | (Panic, _) \<Rightarrow> Panic))"

definition connect_service :: "(pvalue \<Rightarrow> bytes) \<Rightarrow> (bytes \<Rightarrow> pvalue option) \<Rightarrow> ('c, 'd) tls \<Rightarrow> string \<Rightarrow>
    connection \<Rightarrow> sock ls" where
  "connect_service xml parse T name mux =
    bnd (ls_start_service xml parse name) (\<lambda>svc c.
      (case open_tunnel xml parse (ls_device_id c) (si_port svc) mux of
         (Panic, _) \<Rightarrow> (Panic, c)
       | (Err e, _) \<Rightarrow> (Err (LdUsbmux e), c)
       | (Ok _, mux') \<Rightarrow>
           if si_enable_service_ssl svc then
             bnd (lift_o (obind (ok_or (ls_pair_record c) LdTls) (build_tls_config T))) (\<lambda>config.
             bnd (lift_o (ok_or (client_connection T config) LdTls)) (\<lambda>conn.
               lift_o (case complete_handshake T conn (conn_socket mux') of
                 Inl _ \<Rightarrow> Err LdTls | Inr s \<Rightarrow> Ok s))) c
           else (Ok (conn_socket mux'), c)))"

section \<open>Commands and responses\<close>

datatype ls_cmd =
    CmdGetAll | CmdGet "string option" string | CmdSet "string option" string pvalue
  | CmdService string | CmdType

datatype ls_result = ResInfo device_info | ResValue pvalue | ResSet | ResService service_info | ResType string

fun run_cmd :: "(pvalue \<Rightarrow> bytes) \<Rightarrow> (bytes \<Rightarrow> pvalue option) \<Rightarrow> ls_cmd \<Rightarrow> ls_result ls" where
  "run_cmd xml parse CmdGetAll = bnd (ls_get_all_values xml parse) (\<lambda>x. ret (ResInfo x))"
| "run_cmd xml parse (CmdGet d k) = bnd (ls_get_value xml parse d k) (\<lambda>x. ret (ResValue x))"
| "run_cmd xml parse (CmdSet d k v) = bnd (ls_set_value xml parse d k v) (\<lambda>x. ret ResSet)"
| "run_cmd xml parse (CmdService n) = bnd (ls_start_service xml parse n) (\<lambda>x. ret (ResService x))"
| "run_cmd xml parse CmdType = bnd (ls_query_type xml parse) (\<lambda>x. ret (ResType x))"

text \<open>What a command asks for and what it makes of one response, without any I/O.\<close>

fun cmd_request :: "ls_cmd \<Rightarrow> pvalue" where
  "cmd_request CmdGetAll = ls_request ''GetValue'' None None None"
| "cmd_request (CmdGet d k) = ls_request ''GetValue'' d (Some k) None"
| "cmd_request (CmdSet d k v) = set_value_request d k v"
| "cmd_request (CmdService n) = ls_request ''StartService'' None None (Some n)"
| "cmd_request CmdType = PDictionary [(''Request'', PString ''QueryType'')]"

fun cmd_result :: "ls_cmd \<Rightarrow> pvalue \<Rightarrow> (ld_error, ls_result) outcome" where
  "cmd_result CmdGetAll v = obind (check_response v) (\<lambda>r. case br_value r of
      Some (PDictionary d) \<Rightarrow> Ok (ResInfo (device_info_from_dict d))
    | _ \<Rightarrow> Err (LdLockdown ''GetValue returned unexpected payload''))"
| "cmd_result (CmdGet d k) v = obind (check_response v) (\<lambda>r. case br_value r of
      Some x \<Rightarrow> Ok (ResValue x) | None \<Rightarrow> Err (LdLockdown (''no Value for key '' @ k)))"
| "cmd_result (CmdSet d k x) v = obind (check_response v) (\<lambda>_. Ok ResSet)"
| "cmd_result (CmdService n) v = obind (check_response v) (\<lambda>r. case br_port r of
      Some p \<Rightarrow> Ok (ResService \<lparr>si_port = p, si_enable_service_ssl = (br_enable_service_ssl r = Some True)\<rparr>)
    | None \<Rightarrow> Err (LdLockdown (''StartService('' @ n @ '') failed: no port returned'')))"
| "cmd_result CmdType v = (case v of
      PDictionary d \<Rightarrow> (case dget d ''Type'' of
          Some (PString s) \<Rightarrow> Ok (ResType s) | _ \<Rightarrow> Err (LdLockdown ''QueryType: no Type field''))
    | _ \<Rightarrow> Err (LdLockdown ''QueryType: unexpected response''))"

fun run_cmds :: "(pvalue \<Rightarrow> bytes) \<Rightarrow> (bytes \<Rightarrow> pvalue option) \<Rightarrow> ls_cmd list \<Rightarrow> lockdown_session \<Rightarrow>
    (ld_error, ls_result) outcome list \<times> lockdown_session" where
  "run_cmds xml parse [] c = ([], c)"
| "run_cmds xml parse (cmd # cmds) c =
    (let (r, c1) = run_cmd xml parse cmd c; (rs, c2) = run_cmds xml parse cmds c1 in (r # rs, c2))"

fun ls_sock :: "lockdown_session \<Rightarrow> sock option" where
  "ls_sock c = (case ls_stream c of LsPlain s \<Rightarrow> Some s | LsTls s \<Rightarrow> Some s | LsUpgrading \<Rightarrow> None)"

definition set_sock :: "sock \<Rightarrow> lockdown_session \<Rightarrow> lockdown_session" where
  "set_sock s c = (case ls_stream c of LsPlain _ \<Rightarrow> c\<lparr>ls_stream := LsPlain s\<rparr>
    | LsTls _ \<Rightarrow> c\<lparr>ls_stream := LsTls s\<rparr> | LsUpgrading \<Rightarrow> c)"

lemma set_sock_simps [simp]:
  "ls_sock c = Some s \<Longrightarrow> ls_sock (set_sock s' c) = Some s'"
  "set_sock s (set_sock s' c) = set_sock s c" "ls_session_id (set_sock s c) = ls_session_id c"
  "ls_pair_record (set_sock s c) = ls_pair_record c" "ls_device_id (set_sock s c) = ls_device_id c"
  "ls_sock c = Some s \<Longrightarrow> set_sock s c = c"
  by (auto simp: set_sock_def split: ls_stream.splits)

declare ls_sock.simps [simp del]

lemma with_stream_Ok:
  assumes "ls_sock c = Some s" and "p s = (Ok x, s')"
  shows "with_stream p c = (Ok x, set_sock s' c)"
  using assms by (auto simp: with_stream_def ls_sock.simps set_sock_def split: ls_stream.splits)

lemma with_stream_Upgrading [simp]: "ls_stream c = LsUpgrading \<Longrightarrow> with_stream p c = (Panic, c)"
  by (simp add: with_stream_def)

text \<open>Sending a request and receiving a response, on a socket that takes and has them.\<close>

definition ls_ready :: "(pvalue \<Rightarrow> bytes) \<Rightarrow> (bytes \<Rightarrow> pvalue option) \<Rightarrow> pvalue list \<Rightarrow> bytes \<Rightarrow> lockdown_session \<Rightarrow> bool" where
  "ls_ready xml parse resps rest c \<longleftrightarrow> (\<exists>s. ls_sock c = Some s \<and> room s = None \<and>
      avail (inp s) = concat (map (\<lambda>v. lp_frame (xml v)) resps) @ rest) \<and>
    list_all (\<lambda>v. length (xml v) < 2 ^ 32 \<and> parse (xml v) = Some v) resps"

definition ls_out :: "lockdown_session \<Rightarrow> bytes" where
  "ls_out c = (case ls_sock c of Some s \<Rightarrow> outp s | None \<Rightarrow> [])"

lemma ls_exchange:
  assumes "ls_ready xml parse (v # vs) rest c"
  obtains c1 c2 where "send_raw xml q c = (Ok (), c1)" and "recv_raw parse c1 = (Ok v, c2)"
    and "ls_ready xml parse vs rest c2" and "ls_out c2 = ls_out c @ lp_frame (xml q)"
    and "ls_session_id c2 = ls_session_id c" and "ls_pair_record c2 = ls_pair_record c"
    and "(\<exists>s. ls_stream c = LsPlain s) \<longrightarrow> (\<exists>s. ls_stream c2 = LsPlain s)"
proof -
  obtain s where s: "ls_sock c = Some s" "room s = None"
    "avail (inp s) = lp_frame (xml v) @ (concat (map (\<lambda>v. lp_frame (xml v)) vs) @ rest)"
    using assms by (auto simp: ls_ready_def)
  let ?s1 = "s\<lparr>outp := outp s @ lp_frame (xml q)\<rparr>"
  have 1: "send_raw xml q c = (Ok (), set_sock ?s1 c)"
    unfolding send_raw_def using s(1) send_plist_unlimited [OF s(2)] by (rule with_stream_Ok)
  have v: "length (xml v) < 2 ^ 32" "parse (xml v) = Some v" using assms by (auto simp: ls_ready_def)
  obtain i where i: "recv_plist parse ?s1 = (Ok v, ?s1\<lparr>inp := i\<rparr>)"
    "avail i = concat (map (\<lambda>v. lp_frame (xml v)) vs) @ rest"
    using recv_plist_next [of xml v parse ?s1, OF v] s(3) by auto
  have 2: "recv_raw parse (set_sock ?s1 c) = (Ok v, set_sock (?s1\<lparr>inp := i\<rparr>) c)"
    unfolding recv_raw_def using with_stream_Ok [of "set_sock ?s1 c" ?s1 "recv_plist parse", OF set_sock_simps(1) [OF s(1)] i(1)] by simp
  show thesis
  proof (rule that [OF 1 2])
    show "ls_ready xml parse vs rest (set_sock (?s1\<lparr>inp := i\<rparr>) c)"
      using assms s i(2) by (auto simp: ls_ready_def)
    show "ls_out (set_sock (?s1\<lparr>inp := i\<rparr>) c) = ls_out c @ lp_frame (xml q)"
      using s(1) by (simp add: ls_out_def)
  qed (simp_all, auto simp: set_sock_def)
qed

lemma ls_exchange_response:
  assumes "ls_ready xml parse (v # vs) rest c"
  obtains c2 where "bnd (send_raw xml q) (\<lambda>_. bnd (expect_response parse) f) c =
      bnd (lift_o (check_response v)) f c2"
    and "ls_ready xml parse vs rest c2" and "ls_out c2 = ls_out c @ lp_frame (xml q)"
    and "ls_session_id c2 = ls_session_id c" and "ls_pair_record c2 = ls_pair_record c"
    and "(\<exists>s. ls_stream c = LsPlain s) \<longrightarrow> (\<exists>s. ls_stream c2 = LsPlain s)"
proof -
  obtain c1 c2 where c: "send_raw xml q c = (Ok (), c1)" "recv_raw parse c1 = (Ok v, c2)"
    "ls_ready xml parse vs rest c2" "ls_out c2 = ls_out c @ lp_frame (xml q)"
    "ls_session_id c2 = ls_session_id c" "ls_pair_record c2 = ls_pair_record c"
    "(\<exists>s. ls_stream c = LsPlain s) \<longrightarrow> (\<exists>s. ls_stream c2 = LsPlain s)"
    using ls_exchange [OF assms] by metis
  have "expect_response parse c1 = lift_o (check_response v) c2"
    using c(2) by (simp add: expect_response_def)
  then have "bnd (send_raw xml q) (\<lambda>_. bnd (expect_response parse) f) c = bnd (lift_o (check_response v)) f c2"
    using c(1) by (simp add: bnd_def)
  then show thesis using that c(3-7) by blast
qed

lemma check_response_no_error: "check_response v = Ok r \<Longrightarrow> br_error r = None"
  by (auto simp: check_response_def obind_Ok_iff split: option.splits)

lemma run_cmd_spec:
  assumes "ls_ready xml parse (v # vs) rest c"
  shows "\<exists>c'. run_cmd xml parse cmd c = (cmd_result cmd v, c') \<and> ls_ready xml parse vs rest c' \<and>
    ls_out c' = ls_out c @ lp_frame (xml (cmd_request cmd)) \<and> ls_session_id c' = ls_session_id c \<and>
    ls_pair_record c' = ls_pair_record c"
proof -
  have typed: ?thesis if c: "run_cmd xml parse cmd = bnd (bnd (send_raw xml (cmd_request cmd))
      (\<lambda>_. bnd (expect_response parse) f)) g"
    and r: "\<And>c2. bnd (bnd (lift_o (check_response v)) f) g c2 = (cmd_result cmd v, c2)" for f and g :: "'z \<Rightarrow> _"
  proof -
    obtain c2 where "bnd (send_raw xml (cmd_request cmd)) (\<lambda>_. bnd (expect_response parse) f) c =
        bnd (lift_o (check_response v)) f c2"
      "ls_ready xml parse vs rest c2" "ls_out c2 = ls_out c @ lp_frame (xml (cmd_request cmd))"
      "ls_session_id c2 = ls_session_id c" "ls_pair_record c2 = ls_pair_record c"
      using ls_exchange_response [OF assms] by metis
    then show ?thesis using c r [of c2] by (intro exI [of _ c2]) (simp add: bnd_def)
  qed
  show ?thesis
  proof (cases cmd)
    case CmdGetAll
    show ?thesis
      by (rule typed [where g = "\<lambda>x. ret (ResInfo x)"])
        (auto simp: CmdGetAll ls_get_all_values_def bnd_def lift_o_def ret_def throw_def
          split: outcome.split option.split pvalue.split)
  next
    case (CmdGet d k)
    show ?thesis
      by (rule typed [where g = "\<lambda>x. ret (ResValue x)"])
        (auto simp: CmdGet ls_get_value_def bnd_def lift_o_def ret_def ok_or_def
          split: outcome.split option.split)
  next
    case (CmdSet d k x)
    show ?thesis
      by (rule typed [where g = "\<lambda>x. ret ResSet"])
        (auto simp: CmdSet ls_set_value_def bnd_def lift_o_def ret_def throw_def dest: check_response_no_error
          split: outcome.split option.split)
  next
    case (CmdService n)
    show ?thesis
      by (rule typed [where g = "\<lambda>x. ret (ResService x)"])
        (auto simp: CmdService ls_start_service_def bnd_def lift_o_def ret_def throw_def
          dest: check_response_no_error split: outcome.split option.split)
  next
    case CmdType
    obtain c1 c2 where c: "send_raw xml (cmd_request cmd) c = (Ok (), c1)" "recv_raw parse c1 = (Ok v, c2)"
      "ls_ready xml parse vs rest c2" "ls_out c2 = ls_out c @ lp_frame (xml (cmd_request cmd))"
      "ls_session_id c2 = ls_session_id c" "ls_pair_record c2 = ls_pair_record c"
      using ls_exchange [OF assms] by metis
    have "run_cmd xml parse cmd c = (cmd_result cmd v, c2)"
      using c(1,2) by (auto simp: CmdType ls_query_type_def bnd_def lift_o_def ret_def ok_or_def
          split: outcome.split option.split pvalue.split)
    then show ?thesis using c(3-6) by blast
  qed
qed

lemma run_cmds_spec:
  assumes "ls_ready xml parse (resps @ more_resps) rest c" and "length resps = length cmds"
  shows "\<exists>c'. run_cmds xml parse cmds c = (map2 cmd_result cmds resps, c') \<and>
    ls_ready xml parse more_resps rest c' \<and>
    ls_out c' = ls_out c @ concat (map (\<lambda>q. lp_frame (xml (cmd_request q))) cmds) \<and>
    ls_session_id c' = ls_session_id c \<and> ls_pair_record c' = ls_pair_record c"
  using assms
proof (induction cmds arbitrary: resps c)
  case Nil
  then show ?case by simp
next
  case (Cons cmd cmds)
  then obtain v vs where vs: "resps = v # vs" "length vs = length cmds" by (cases resps) auto
  obtain c1 where c1: "run_cmd xml parse cmd c = (cmd_result cmd v, c1)" "ls_ready xml parse (vs @ more_resps) rest c1"
    "ls_out c1 = ls_out c @ lp_frame (xml (cmd_request cmd))" "ls_session_id c1 = ls_session_id c"
    "ls_pair_record c1 = ls_pair_record c"
    using run_cmd_spec [of xml parse v "vs @ more_resps" rest c cmd] Cons.prems(1) vs(1) by auto
  show ?case using Cons.IH [OF c1(2) vs(2)] c1 vs(1) by auto
qed

text \<open>
  C8: On a plain or TLS stream, any sequence of commands refines the pure functions of their
  responses: the n-th command returns what its own response says, error responses included, the
  wire carries exactly one request per command in order, and the session stays as it was. An
  error response never leaves a stale answer behind for the next command.
\<close>

theorem lockdown_commands_in_step:
  assumes "ls_ready xml parse resps rest c" and "length resps = length cmds"
  shows "\<exists>c'. run_cmds xml parse cmds c = (map2 cmd_result cmds resps, c') \<and>
    ls_ready xml parse [] rest c' \<and>
    ls_out c' = ls_out c @ concat (map (\<lambda>q. lp_frame (xml (cmd_request q))) cmds) \<and>
    ls_session_id c' = ls_session_id c"
  using run_cmds_spec [of xml parse resps "[]" rest c cmds] assms by auto

definition demo_ls :: "pvalue list \<Rightarrow> lockdown_session" where
  "demo_ls vs = \<lparr>ls_stream = LsPlain \<lparr>inp = [Data (concat (map (\<lambda>v. lp_frame (pv_enc v)) vs))], outp = [], room = None\<rparr>,
    ls_session_id = None, ls_device_id = 3, ls_pair_record = None\<rparr>"

lemma demo_ls_ready:
  assumes "list_all (\<lambda>v. length (pv_enc v) < 2 ^ 32 \<and> pv_parse (pv_enc v) = Some v) vs"
  shows "ls_ready pv_enc pv_parse vs [] (demo_ls vs)"
  using assms by (simp add: ls_ready_def demo_ls_def ls_sock.simps)

theorem lockdown_commands_in_step_witness:
  "fst (run_cmds pv_enc pv_parse [CmdService ''a'', CmdGet None ''k'']
      (demo_ls [PDictionary [(''Error'', PString ''no'')], PDictionary [(''Value'', PInteger 7)]])) =
    [Err (LdLockdown ''no''), Ok (ResValue (PInteger 7))]"
proof -
  let ?vs = "[PDictionary [(''Error'', PString ''no'')], PDictionary [(''Value'', PInteger 7)]]"
  have "list_all (\<lambda>v. length (pv_enc v) < 2 ^ 32 \<and> pv_parse (pv_enc v) = Some v) ?vs" by code_simp
  from lockdown_commands_in_step [OF demo_ls_ready [OF this], of "[CmdService ''a'', CmdGet None ''k'']"]
  obtain c' where "run_cmds pv_enc pv_parse [CmdService ''a'', CmdGet None ''k''] (demo_ls ?vs) =
      (map2 cmd_result [CmdService ''a'', CmdGet None ''k''] ?vs, c')" by auto
  moreover have "map2 cmd_result [CmdService ''a'', CmdGet None ''k''] ?vs =
      [Err (LdLockdown ''no''), Ok (ResValue (PInteger 7))]" by code_simp
  ultimately show ?thesis by simp
qed

section \<open>Life cycle\<close>

lemma start_session_reply:
  assumes "ls_ready xml parse (v # vs) rest c" and "check_response v = Ok r" and "br_session_id r = Some sid"
  obtains c1 where "start_session xml parse T pair c =
      bnd (if br_enable_session_ssl r = Some True then upgrade_to_tls T pair else ret ()) (\<lambda>_. ret sid)
        (c1\<lparr>ls_session_id := Some sid, ls_pair_record := Some pair\<rparr>)"
    and "ls_ready xml parse vs rest c1" and "ls_out c1 = ls_out c @ lp_frame (xml (start_session_request pair))"
    and "(\<exists>s. ls_stream c = LsPlain s) \<longrightarrow> (\<exists>s. ls_stream c1 = LsPlain s)"
proof -
  let ?f = "\<lambda>r. bnd (lift_o (ok_or (br_session_id r) (LdLockdown ''StartSession: no SessionID''))) (\<lambda>sid c.
      bnd (if br_enable_session_ssl r = Some True then upgrade_to_tls T pair else ret ()) (\<lambda>_. ret sid)
        (c\<lparr>ls_session_id := Some sid, ls_pair_record := Some pair\<rparr>))"
  obtain c1 where c1: "bnd (send_raw xml (start_session_request pair)) (\<lambda>_. bnd (expect_response parse) ?f) c =
      bnd (lift_o (check_response v)) ?f c1" "ls_ready xml parse vs rest c1"
    "ls_out c1 = ls_out c @ lp_frame (xml (start_session_request pair))"
    "(\<exists>s. ls_stream c = LsPlain s) \<longrightarrow> (\<exists>s. ls_stream c1 = LsPlain s)"
    by (rule ls_exchange_response [OF assms(1)])
  have "start_session xml parse T pair c = ?f r c1"
    unfolding start_session_def c1(1) assms(2) by simp
  also have "\<dots> = bnd (if br_enable_session_ssl r = Some True then upgrade_to_tls T pair else ret ()) (\<lambda>_. ret sid)
      (c1\<lparr>ls_session_id := Some sid, ls_pair_record := Some pair\<rparr>)"
    unfolding assms(3) ok_or_def by simp
  finally show thesis using that c1(2-4) by blast
qed

lemma ls_ready_upd [simp]:
  "ls_ready xml parse vs rest (c\<lparr>ls_session_id := i, ls_pair_record := p\<rparr>) = ls_ready xml parse vs rest c"
  "ls_ready xml parse vs rest (c\<lparr>ls_session_id := i\<rparr>) = ls_ready xml parse vs rest c"
  by (simp_all add: ls_ready_def ls_sock.simps)

lemma ls_out_upd [simp]:
  "ls_out (c\<lparr>ls_session_id := i, ls_pair_record := p\<rparr>) = ls_out c" "ls_out (c\<lparr>ls_session_id := i\<rparr>) = ls_out c"
  by (simp_all add: ls_out_def ls_sock.simps)

lemma stop_session_active:
  assumes "ls_ready xml parse (v # vs) rest c" and "ls_session_id c = Some sid"
  shows "\<exists>c'. stop_session xml parse c = (Ok (), c') \<and> ls_session_id c' = None \<and> ls_ready xml parse vs rest c' \<and>
    ls_out c' = ls_out c @ lp_frame (xml (stop_session_request sid))"
proof -
  have up: "ls_stream c \<noteq> LsUpgrading" using assms(1) by (auto simp: ls_ready_def ls_sock.simps)
  let ?c = "c\<lparr>ls_session_id := None\<rparr>"
  have "ls_ready xml parse (v # vs) rest ?c" using assms(1) by simp
  then obtain c1 c2 where "send_raw xml (stop_session_request sid) ?c = (Ok (), c1)" "recv_raw parse c1 = (Ok v, c2)"
    "ls_ready xml parse vs rest c2" "ls_out c2 = ls_out ?c @ lp_frame (xml (stop_session_request sid))"
    "ls_session_id c2 = ls_session_id ?c"
    using ls_exchange [of xml parse v vs rest ?c] by metis
  then show ?thesis using assms(2) up by (auto simp: stop_session_def Let_def bnd_def)
qed

lemma stop_session_inactive: "ls_session_id c = None \<Longrightarrow> stop_session xml parse c = (Ok (), c)"
  by (simp add: stop_session_def)

text \<open>
  A whole session without TLS: it starts, runs its commands, is stopped and dropped. The wire
  carries the start request, one request per command and exactly one stop request with the id
  the device gave; dropping the stopped session sends nothing.
\<close>

theorem lockdown_session_wire:
  assumes "ls_ready xml parse (v # resps @ [w]) rest c" and "length resps = length cmds"
    and "check_response v = Ok r" and "br_session_id r = Some sid" and "br_enable_session_ssl r \<noteq> Some True"
  shows "\<exists>c1 c2 c3. start_session xml parse T pair c = (Ok sid, c1) \<and>
    run_cmds xml parse cmds c1 = (map2 cmd_result cmds resps, c2) \<and>
    stop_session xml parse c2 = (Ok (), c3) \<and> drop_session xml parse c3 = c3 \<and>
    ls_out c3 = ls_out c @ lp_frame (xml (start_session_request pair)) @
      concat (map (\<lambda>q. lp_frame (xml (cmd_request q))) cmds) @ lp_frame (xml (stop_session_request sid))"
proof -
  obtain c0 where c0: "start_session xml parse T pair c =
      bnd (if br_enable_session_ssl r = Some True then upgrade_to_tls T pair else ret ()) (\<lambda>_. ret sid)
        (c0\<lparr>ls_session_id := Some sid, ls_pair_record := Some pair\<rparr>)"
    "ls_ready xml parse (resps @ [w]) rest c0" "ls_out c0 = ls_out c @ lp_frame (xml (start_session_request pair))"
    using start_session_reply [OF assms(1,3,4)] by metis
  define c1 where "c1 = c0\<lparr>ls_session_id := Some sid, ls_pair_record := Some pair\<rparr>"
  have st: "start_session xml parse T pair c = (Ok sid, c1)" using c0(1) assms(5) by (simp add: c1_def)
  have "ls_ready xml parse (resps @ [w]) rest c1" using c0(2) by (simp add: c1_def)
  from run_cmds_spec [OF this assms(2)] obtain c2 where
    c2: "run_cmds xml parse cmds c1 = (map2 cmd_result cmds resps, c2)" "ls_ready xml parse [w] rest c2"
    "ls_out c2 = ls_out c1 @ concat (map (\<lambda>q. lp_frame (xml (cmd_request q))) cmds)"
    "ls_session_id c2 = Some sid" by (auto simp: c1_def)
  obtain c3 where c3: "stop_session xml parse c2 = (Ok (), c3)" "ls_session_id c3 = None"
    "ls_out c3 = ls_out c2 @ lp_frame (xml (stop_session_request sid))"
    using stop_session_active [OF c2(2,4)] by blast
  have "drop_session xml parse c3 = c3" using stop_session_inactive [OF c3(2)] by (simp add: drop_session_def)
  then show ?thesis using st c2(1,3) c3(1,3) c0(3) by (auto simp: c1_def)
qed

definition demo_pair :: pair_record where
  "demo_pair = \<lparr>host_id = ''H'', system_buid = ''B'', host_certificate = [1], host_private_key = [2],
    device_certificate = [], root_certificate = []\<rparr>"

definition demo_tls :: "(unit, unit) tls" where
  "demo_tls = \<lparr>pem_certs = (\<lambda>b. Some [b]), pem_key = (\<lambda>b. Some (Some b)), client_config = (\<lambda>_ _. Some ()),
    client_connection = (\<lambda>_. None), complete_handshake = (\<lambda>_ s. Inr s)\<rparr>"

theorem lockdown_session_wire_witness:
  "\<exists>c1 c2. start_session pv_enc pv_parse demo_tls demo_pair (demo_ls [PDictionary [(''SessionID'', PString ''s'')],
      PDictionary [(''Type'', PString ''t'')], PDictionary []]) = (Ok ''s'', c1) \<and>
    run_cmds pv_enc pv_parse [CmdType] c1 = ([Ok (ResType ''t'')], c2)"
proof -
  let ?v = "PDictionary [(''SessionID'', PString ''s'')]" and ?u = "PDictionary [(''Type'', PString ''t'')]"
  have ok: "list_all (\<lambda>v. length (pv_enc v) < 2 ^ 32 \<and> pv_parse (pv_enc v) = Some v) (?v # [?u] @ [PDictionary []])"
    by code_simp
  have cr: "check_response ?v = Ok \<lparr>br_error = None, br_value = None, br_port = None, br_enable_service_ssl = None,
      br_session_id = Some ''s'', br_enable_session_ssl = None\<rparr>" by code_simp
  have "map2 cmd_result [CmdType] [?u] = [Ok (ResType ''t'')]" by code_simp
  then show ?thesis
    using lockdown_session_wire [OF demo_ls_ready [OF ok] _ cr, of "[CmdType]" "''s''" demo_tls demo_pair] by auto
qed

text \<open>
  If the TLS library refuses to make a client connection after the device has accepted the
  session, the error leaves the transient stream behind: every later command panics, and stopping
  or dropping the session neither panics nor tells the device.
\<close>

theorem failed_upgrade_strands_session:
  assumes "ls_ready xml parse (v # vs) rest c" and "ls_stream c = LsPlain s0"
    and "check_response v = Ok r" and "br_session_id r = Some sid" and "br_enable_session_ssl r = Some True"
    and "build_tls_config T pair = Ok config" and "client_connection T config = None"
  shows "\<exists>c'. start_session xml parse T pair c = (Err LdTls, c') \<and> ls_session_id c' = Some sid \<and>
    run_cmd xml parse cmd c' = (Panic, c') \<and>
    stop_session xml parse c' = (Ok (), c'\<lparr>ls_session_id := None\<rparr>)"
proof -
  obtain c0 where c0: "start_session xml parse T pair c =
      bnd (if br_enable_session_ssl r = Some True then upgrade_to_tls T pair else ret ()) (\<lambda>_. ret sid)
        (c0\<lparr>ls_session_id := Some sid, ls_pair_record := Some pair\<rparr>)"
    "(\<exists>s. ls_stream c = LsPlain s) \<longrightarrow> (\<exists>s. ls_stream c0 = LsPlain s)"
    using start_session_reply [OF assms(1,3,4)] by metis
  obtain s where s: "ls_stream c0 = LsPlain s" using c0(2) assms(2) by blast
  let ?c = "c0\<lparr>ls_session_id := Some sid, ls_pair_record := Some pair, ls_stream := LsUpgrading\<rparr>"
  have "start_session xml parse T pair c = (Err LdTls, ?c)"
    using c0(1) s assms(5-7) by (simp add: upgrade_to_tls_def bnd_def)
  moreover have "run_cmd xml parse cmd ?c = (Panic, ?c)"
    by (cases cmd) (simp_all add: ls_get_all_values_def ls_get_value_def ls_set_value_def ls_start_service_def
        ls_query_type_def send_raw_def bnd_def)
  ultimately show ?thesis by (intro exI [of _ ?c]) (simp add: stop_session_def)
qed

theorem failed_upgrade_strands_session_witness:
  "\<exists>c'. start_session pv_enc pv_parse demo_tls demo_pair (demo_ls [PDictionary [(''SessionID'', PString ''s''),
      (''EnableSessionSSL'', PBoolean True)]]) = (Err LdTls, c') \<and>
    run_cmd pv_enc pv_parse CmdType c' = (Panic, c')"
proof -
  let ?v = "PDictionary [(''SessionID'', PString ''s''), (''EnableSessionSSL'', PBoolean True)]"
  have ok: "list_all (\<lambda>v. length (pv_enc v) < 2 ^ 32 \<and> pv_parse (pv_enc v) = Some v) [?v]" by code_simp
  have pl: "ls_stream (demo_ls [?v]) = LsPlain \<lparr>inp = [Data (concat (map (\<lambda>v. lp_frame (pv_enc v)) [?v]))],
      outp = [], room = None\<rparr>" by (simp add: demo_ls_def)
  have cr: "check_response ?v = Ok \<lparr>br_error = None, br_value = None, br_port = None, br_enable_service_ssl = None,
      br_session_id = Some ''s'', br_enable_session_ssl = Some True\<rparr>" by code_simp
  have "build_tls_config demo_tls demo_pair = Ok ()" by (simp add: build_tls_config_def demo_tls_def ok_or_def)
  from failed_upgrade_strands_session [OF demo_ls_ready [OF ok] pl cr _ _ this, of "''s''" CmdType]
  show ?thesis by (auto simp: demo_tls_def)
qed

end
