(* ===== verification/Pairing.thy ===== *)
theory Pairing
  imports Der Lockdown
begin

text \<open>
  Pairing with a device, the rest of \<open>src/src/lockdown/pairing.rs\<close>: certificates, the PKCS7 answer
  to a supervision challenge, and the exchanges with lockdownd and usbmuxd. The RSA and SHA1 crates
  are the record \<open>rsa_lib\<close>; key generation, the clock and the usbmux connections the code opens are
  arguments. Error texts that quote a crate or a debug-printed value are cut before it.
\<close>

section \<open>Certificates\<close>

record ('p, 'k) rsa_lib =
  rsa_public :: "'k \<Rightarrow> 'p"
  rsa_spki :: "'p \<Rightarrow> bytes option"
  rsa_sign :: "'k \<Rightarrow> bytes \<Rightarrow> bytes"
  rsa_sha1 :: "bytes \<Rightarrow> bytes"
  rsa_pub_pem :: "string \<Rightarrow> 'p option"
  rsa_key_pem :: "'k \<Rightarrow> bytes option"
  from_pkcs8_pem :: "string \<Rightarrow> 'k option"
  from_pkcs1_pem :: "string \<Rightarrow> 'k option"
  from_pkcs8_der :: "bytes \<Rightarrow> 'k option"
  from_pkcs1_der :: "bytes \<Rightarrow> 'k option"

datatype CertKind = Root | Leaf

definition build_extensions :: "bytes \<Rightarrow> CertKind \<Rightarrow> (ld_error, bytes list) outcome" where
  "build_extensions ski kind =
    obind (der_oid [2, 5, 29, 14]) (\<lambda>ski_oid.
      let ski_ext = der_seq [ski_oid, der_tag 0x04 (der_tag 0x04 ski)]
      in case kind of
        Root \<Rightarrow> obind (der_oid [2, 5, 29, 19]) (\<lambda>bc.
          Ok [ski_ext, der_seq [bc, der_bool True, der_tag 0x04 (der_seq [der_bool True])]])
      | Leaf \<Rightarrow> obind (der_oid [2, 5, 29, 15]) (\<lambda>ku.
          Ok [ski_ext, der_seq [ku, der_bool True, der_tag 0x04 (der_tag 0x03 [0x05, 0xa0])]]))"

definition build_tbs :: "bytes \<Rightarrow> bytes \<Rightarrow> CertKind \<Rightarrow> nat \<Rightarrow> nat \<Rightarrow> (ld_error, bytes) outcome" where
  "build_tbs spki ski kind not_before not_after =
    obind (der_int [2]) (\<lambda>version.
    obind (der_int [0]) (\<lambda>serial.
    obind sha1_with_rsa_oid (\<lambda>alg.
    obind (build_extensions ski kind) (\<lambda>exts.
      Ok (der_seq [der_ctx 0 version, serial, alg, der_seq [],
        der_seq [der_utc_time not_before, der_utc_time not_after], der_seq [], spki,
        der_ctx 3 (der_seq exts)])))))"

definition build_cert :: "('p, 'k) rsa_lib \<Rightarrow> 'p \<Rightarrow> CertKind \<Rightarrow> 'k \<Rightarrow> nat \<Rightarrow> nat \<Rightarrow> (ld_error, bytes) outcome" where
  "build_cert R pub_key kind signing_key not_before not_after =
    obind (ok_or (rsa_spki R pub_key) (LdLockdown ''encode spki'')) (\<lambda>spki.
    obind (ski_hash (rsa_sha1 R) spki) (\<lambda>ski.
    obind (build_tbs spki ski kind not_before not_after) (\<lambda>tbs.
    obind sha1_with_rsa_oid (\<lambda>alg.
      Ok (der_seq [tbs, alg, der_tag 0x03 (0 # rsa_sign R signing_key tbs)])))))"

record pair_certs =
  pc_root_cert :: bytes
  pc_host_cert :: bytes
  pc_device_cert :: bytes
  pc_root_key :: bytes
  pc_host_key :: bytes

definition VALIDITY :: nat where "VALIDITY = 10 * 365 * 24 * 3600"

definition create_pairing_certs :: "('p, 'k) rsa_lib \<Rightarrow> 'k option \<Rightarrow> 'k option \<Rightarrow> nat \<Rightarrow> bytes \<Rightarrow>
    (ld_error, pair_certs) outcome" where
  "create_pairing_certs R new_root new_host now device_pub_pem =
    obind (ok_or new_root (LdLockdown ''root keygen'')) (\<lambda>root_key.
    obind (ok_or new_host (LdLockdown ''host keygen'')) (\<lambda>host_key.
    obind (ok_or (from_utf8 device_pub_pem) (LdLockdown ''device key not utf8'')) (\<lambda>pem.
    obind (ok_or (rsa_pub_pem R pem) (LdLockdown ''parse device public key'')) (\<lambda>device_pub.
    obind (build_cert R (rsa_public R root_key) Root root_key now (now + VALIDITY)) (\<lambda>root_cert.
    obind (build_cert R (rsa_public R host_key) Leaf root_key now (now + VALIDITY)) (\<lambda>host_cert.
    obind (build_cert R device_pub Leaf root_key now (now + VALIDITY)) (\<lambda>device_cert.
    obind (ok_or (rsa_key_pem R root_key) (LdLockdown ''root key pem'')) (\<lambda>rk.
    obind (ok_or (rsa_key_pem R host_key) (LdLockdown ''host key pem'')) (\<lambda>hk.
      Ok \<lparr>pc_root_cert = pem_encode ''CERTIFICATE'' root_cert, pc_host_cert = pem_encode ''CERTIFICATE'' host_cert,
          pc_device_cert = pem_encode ''CERTIFICATE'' device_cert, pc_root_key = rk, pc_host_key = hk\<rparr>)))))))))"

text \<open>\<open>random_upper_uuid\<close>: the bytes of the clock in microseconds.\<close>

definition random_upper_uuid :: "nat \<Rightarrow> string" where
  "random_upper_uuid micros =
    (let b = le_bytes 16 micros; h = (\<lambda>i. hex2_up (b ! i))
     in h 0 @ h 1 @ h 2 @ h 3 @ ''-'' @ h 4 @ h 5 @ ''-'' @
        hex2_up ((b ! 6 AND 0x0f) OR 0x40) @ h 7 @ ''-'' @ hex2_up ((b ! 8 AND 0x3f) OR 0x80) @ h 9 @ ''-'' @
        h 10 @ h 11 @ h 12 @ h 13 @ h 14 @ h 15)"

section \<open>The supervision challenge\<close>

definition extract_pairing_challenge :: "pdictionary \<Rightarrow> (ld_error, bytes) outcome" where
  "extract_pairing_challenge resp =
    (if (case Option.bind (dget resp ''Error'') as_string of Some e \<Rightarrow> e | None \<Rightarrow> '''') \<noteq> ''MCChallengeRequired''
     then Err (LdLockdown ''expected MCChallengeRequired'')
     else obind (ok_or (Option.bind (dget resp ''ExtendedResponse'') as_dictionary) (LdLockdown ''missing ExtendedResponse''))
       (\<lambda>ext. case dget ext ''PairingChallenge'' of
          Some (PData b) \<Rightarrow> Ok b
        | _ \<Rightarrow> Err (LdLockdown ''missing PairingChallenge'')))"

definition parse_rsa_key_bytes :: "('p, 'k) rsa_lib \<Rightarrow> bytes \<Rightarrow> (ld_error, 'k) outcome" where
  "parse_rsa_key_bytes R bs =
    (let der = (case from_pkcs8_der R bs of
           Some k \<Rightarrow> Ok k
         | None \<Rightarrow> ok_or (from_pkcs1_der R bs) (LdLockdown ''parse supervision key (tried PEM+PKCS8+PKCS1 DER)''))
     in case from_utf8 bs of
       None \<Rightarrow> der
     | Some s \<Rightarrow>
         if contains_str ''-----'' s then
           (case from_pkcs8_pem R s of
              Some k \<Rightarrow> Ok k
            | None \<Rightarrow> (case from_pkcs1_pem R s of Some k \<Rightarrow> Ok k | None \<Rightarrow> der))
         else der)"

definition peel_or :: "string \<Rightarrow> (unit, bytes \<times> bytes) outcome \<Rightarrow> (ld_error, bytes \<times> bytes) outcome" where
  "peel_or msg = map_err (\<lambda>_. LdLockdown msg)"

definition extract_issuer_serial :: "bytes \<Rightarrow> (ld_error, bytes \<times> bytes) outcome" where
  "extract_issuer_serial cert_der =
    obind (peel_or ''cert: bad outer SEQUENCE'' (peel_tag cert_der 0x30)) (\<lambda>(cert_content, _).
    obind (peel_or ''cert: bad TBSCertificate SEQUENCE'' (peel_tag cert_content 0x30)) (\<lambda>(tbs_body, _).
    obind (case tbs_body of
        b # _ \<Rightarrow> if b = 0xa0 then obind (peel_or ''cert: bad version'' (peel_tlv tbs_body)) (\<lambda>(_, r). Ok r)
                 else Ok tbs_body
      | [] \<Rightarrow> Ok tbs_body) (\<lambda>pos.
    obind (peel_or ''cert: bad serial'' (peel_tag pos 0x02)) (\<lambda>(_, pos1).
    obind (peel_or ''cert: bad sigAlgo'' (peel_tlv pos1)) (\<lambda>(_, pos2).
    obind (peel_or ''cert: bad issuer SEQUENCE'' (peel_tag pos2 0x30)) (\<lambda>(_, pos3).
      Ok (take (length pos2 - length pos3) pos2, take (length pos - length pos1) pos)))))))"

definition build_pkcs7_signed_data :: "('p, 'k) rsa_lib \<Rightarrow> bytes \<Rightarrow> bytes \<Rightarrow> 'k \<Rightarrow> (ld_error, bytes) outcome" where
  "build_pkcs7_signed_data R content cert_der key =
    obind (extract_issuer_serial cert_der) (\<lambda>(issuer_der, serial_der).
    obind (der_oid [1, 2, 840, 113549, 1, 9, 3]) (\<lambda>id_content_type.
    obind (der_oid [1, 2, 840, 113549, 1, 7, 1]) (\<lambda>pkcs7_data.
    obind (der_oid [1, 2, 840, 113549, 1, 9, 4]) (\<lambda>id_message_digest.
    obind (der_oid [1, 2, 840, 113549, 1, 7, 2]) (\<lambda>signed_data_oid.
    obind (der_int [1]) (\<lambda>version.
    obind sha1_oid (\<lambda>digest_alg.
    obind sha1_with_rsa_oid (\<lambda>sig_alg.
      let digest = rsa_sha1 R content;
          attrs_body = der_seq [id_content_type, der_tag 0x31 pkcs7_data] @
            der_seq [id_message_digest, der_tag 0x31 (der_tag 0x04 digest)];
          sig_bytes = rsa_sign R key (der_tag 0x31 attrs_body);
          signer_info = der_seq [version, der_seq [issuer_der, serial_der], digest_alg,
            der_tag 0xa0 attrs_body, sig_alg, der_tag 0x04 sig_bytes];
          signed_data = der_seq [version, der_tag 0x31 digest_alg,
            der_seq [pkcs7_data, der_tag 0xa0 (der_tag 0x04 content)],
            der_tag 0xa0 cert_der, der_tag 0x31 signer_info]
      in Ok (der_seq [signed_data_oid, der_tag 0xa0 signed_data])))))))))"

section \<open>The exchanges\<close>

record 'k pair_env =
  env_root_key :: "'k option"
  env_host_key :: "'k option"
  env_now :: nat
  env_micros :: nat

definition record_dict :: "pair_certs \<Rightarrow> string \<Rightarrow> string \<Rightarrow> pvalue" where
  "record_dict C buid hid =
    pdict [(''DeviceCertificate'', PData (pc_device_cert C)), (''HostCertificate'', PData (pc_host_cert C)),
      (''RootCertificate'', PData (pc_root_cert C)), (''SystemBUID'', PString buid), (''HostID'', PString hid)]"

definition pair_request :: "pvalue \<Rightarrow> (string \<times> pvalue) list \<Rightarrow> pvalue" where
  "pair_request rec opts =
    pdict [(''Label'', PString ''ios-rs''), (''ProtocolVersion'', PString ''2''), (''Request'', PString ''Pair''),
      (''PairRecord'', rec), (''PairingOptions'', pdict opts)]"

definition save_dict :: "pair_certs \<Rightarrow> bytes \<Rightarrow> string \<Rightarrow> string \<Rightarrow> string \<Rightarrow> pvalue" where
  "save_dict C escrow wifi hid buid =
    pdict [(''DeviceCertificate'', PData (pc_device_cert C)), (''HostPrivateKey'', PData (pc_host_key C)),
      (''HostCertificate'', PData (pc_host_cert C)), (''RootPrivateKey'', PData (pc_root_key C)),
      (''RootCertificate'', PData (pc_root_cert C)), (''EscrowBag'', PData escrow),
      (''WiFiMACAddress'', PString wifi), (''HostID'', PString hid), (''SystemBUID'', PString buid)]"

text \<open>The two values that both pairing functions read first.\<close>

definition device_values :: "(pvalue \<Rightarrow> bytes) \<Rightarrow> (bytes \<Rightarrow> pvalue option) \<Rightarrow> (bytes \<times> string) ls" where
  "device_values xml parse =
    bnd (ls_get_value xml parse None ''DevicePublicKey'') (\<lambda>k.
      case k of
        PData pem \<Rightarrow> bnd (ls_get_value xml parse None ''WiFiAddress'') (\<lambda>w.
          case w of PString s \<Rightarrow> ret (pem, s) | _ \<Rightarrow> throw (LdLockdown ''WiFiAddress unexpected type''))
      | _ \<Rightarrow> throw (LdLockdown ''DevicePublicKey unexpected type''))"

definition exchange_raw :: "(pvalue \<Rightarrow> bytes) \<Rightarrow> (bytes \<Rightarrow> pvalue option) \<Rightarrow> pvalue \<Rightarrow> string \<Rightarrow> pdictionary ls" where
  "exchange_raw xml parse req msg =
    bnd (send_raw xml req) (\<lambda>_. bnd (recv_raw parse) (\<lambda>v. lift_o (ok_or (as_dictionary v) (LdLockdown msg))))"

definition escrow_of :: "pdictionary \<Rightarrow> string \<Rightarrow> (ld_error, bytes) outcome" where
  "escrow_of d msg = (case dget d ''EscrowBag'' of Some (PData b) \<Rightarrow> Ok b | _ \<Rightarrow> Err (LdLockdown msg))"

text \<open>The dash of the message is three UTF-8 bytes.\<close>

definition PENDING :: string where
  "PENDING = ''trust dialog open '' @ [CHR 0xE2, CHR 0x80, CHR 0x94] @
     '' accept '' @ [CHR 0x27] @ ''Trust This Computer'' @ [CHR 0x27] @ '' on the device, then run '' @
     [CHR 0x27] @ ''ios pair'' @ [CHR 0x27] @ '' again''"

text \<open>Everything \<open>pair\<close> does on the lockdown session; the result is the value it saves.\<close>

definition pair_session :: "(pvalue \<Rightarrow> bytes) \<Rightarrow> (bytes \<Rightarrow> pvalue option) \<Rightarrow> ('p, 'k) rsa_lib \<Rightarrow> 'k pair_env \<Rightarrow>
    string \<Rightarrow> pvalue ls" where
  "pair_session xml parse R E buid =
    bnd (device_values xml parse) (\<lambda>(pem, wifi).
    bnd (lift_o (create_pairing_certs R (env_root_key E) (env_host_key E) (env_now E) pem)) (\<lambda>C.
      let hid = random_upper_uuid (env_micros E)
      in bnd (exchange_raw xml parse
           (pair_request (record_dict C buid hid) [(''ExtendedPairingErrors'', PBoolean True)])
           ''Pair response not a dictionary'') (\<lambda>d.
         bnd (case dget d ''Error'' of
             Some (PString e) \<Rightarrow>
               if e = ''PairingDialogResponsePending'' then throw (LdLockdown PENDING)
               else throw (LdLockdown (''lockdownd error: '' @ e))
           | _ \<Rightarrow> lift_o (escrow_of d ''no EscrowBag in pair response'')) (\<lambda>escrow.
         ret (save_dict C escrow wifi hid buid)))))"

definition supervised_session :: "(pvalue \<Rightarrow> bytes) \<Rightarrow> (bytes \<Rightarrow> pvalue option) \<Rightarrow> ('p, 'k) rsa_lib \<Rightarrow> 'k pair_env \<Rightarrow>
    string \<Rightarrow> bytes \<Rightarrow> 'k \<Rightarrow> pvalue ls" where
  "supervised_session xml parse R E buid cert key =
    bnd (device_values xml parse) (\<lambda>(pem, wifi).
    bnd (lift_o (create_pairing_certs R (env_root_key E) (env_host_key E) (env_now E) pem)) (\<lambda>C.
      let hid = random_upper_uuid (env_micros E); rec = record_dict C buid hid
      in bnd (exchange_raw xml parse
           (pair_request rec [(''SupervisorCertificate'', PData cert), (''ExtendedPairingErrors'', PBoolean True)])
           ''first Pair response not a dictionary'') (\<lambda>d1.
         bnd (lift_o (obind (extract_pairing_challenge d1) (\<lambda>ch. build_pkcs7_signed_data R ch cert key))) (\<lambda>signed.
         bnd (exchange_raw xml parse (pair_request rec [(''ChallengeResponse'', PData signed)])
           ''second Pair response not a dictionary'') (\<lambda>d2.
         bnd (case dget d2 ''Error'' of
             Some (PString e) \<Rightarrow> throw (LdLockdown (''supervised pair error: '' @ e))
           | _ \<Rightarrow> lift_o (escrow_of d2 ''no EscrowBag in supervised pair response'')) (\<lambda>escrow.
         ret (save_dict C escrow wifi hid buid)))))))"

text \<open>Reading the BUID, running a session and saving its record over three usbmux connections.\<close>

definition pair_with :: "(pvalue \<Rightarrow> bytes) \<Rightarrow> (bytes \<Rightarrow> pvalue option) \<Rightarrow> (string \<Rightarrow> pvalue ls) \<Rightarrow> string \<Rightarrow> u32 \<Rightarrow> string \<Rightarrow>
    connection \<Rightarrow> connection \<Rightarrow> connection \<Rightarrow> (ld_error, unit) outcome \<times> connection" where
  "pair_with xml parse session save_msg device_id udid mux mux_ld mux_save =
    (case fst (conn_read_buid xml parse mux) of
       Panic \<Rightarrow> (Panic, mux_save)
     | Err _ \<Rightarrow> (Err (LdLockdown ''read BUID''), mux_save)
     | Ok buid \<Rightarrow> (case ls_connect xml parse device_id mux_ld of
         Panic \<Rightarrow> (Panic, mux_save)
       | Err e \<Rightarrow> (Err e, mux_save)
       | Ok c \<Rightarrow> (case fst (session buid c) of
           Panic \<Rightarrow> (Panic, mux_save)
         | Err e \<Rightarrow> (Err e, mux_save)
         | Ok rec \<Rightarrow> on_err (\<lambda>_. LdLockdown save_msg)
             (conn_save_pair_record xml parse udid (xml rec)) mux_save)))"

definition pair :: "(pvalue \<Rightarrow> bytes) \<Rightarrow> (bytes \<Rightarrow> pvalue option) \<Rightarrow> ('p, 'k) rsa_lib \<Rightarrow> 'k pair_env \<Rightarrow> u32 \<Rightarrow> string \<Rightarrow>
    connection \<Rightarrow> connection \<Rightarrow> connection \<Rightarrow> (ld_error, unit) outcome \<times> connection" where
  "pair xml parse R E device_id udid = pair_with xml parse (pair_session xml parse R E) ''save pair record'' device_id udid"

definition pair_supervised :: "(pvalue \<Rightarrow> bytes) \<Rightarrow> (bytes \<Rightarrow> pvalue option) \<Rightarrow> ('p, 'k) rsa_lib \<Rightarrow> 'k pair_env \<Rightarrow> u32 \<Rightarrow>
    string \<Rightarrow> bytes \<Rightarrow> bytes \<Rightarrow> connection \<Rightarrow> connection \<Rightarrow> connection \<Rightarrow> (ld_error, unit) outcome \<times> connection" where
  "pair_supervised xml parse R E device_id udid cert key_pem mux mux_ld mux_save =
    (case parse_rsa_key_bytes R key_pem of
       Panic \<Rightarrow> (Panic, mux_save)
     | Err e \<Rightarrow> (Err e, mux_save)
     | Ok key \<Rightarrow> pair_with xml parse (\<lambda>buid. supervised_session xml parse R E buid cert key)
         ''save supervised pair record'' device_id udid mux mux_ld mux_save)"

definition unpair_request :: "pair_record option \<Rightarrow> pvalue" where
  "unpair_request pr =
    pdict ([(''Label'', PString ''ios-rs''), (''Request'', PString ''Unpair'')] @
      (case pr of None \<Rightarrow> [] | Some p \<Rightarrow>
         [(''PairRecord'', pdict [(''HostID'', PString (host_id p)), (''SystemBUID'', PString (system_buid p))])]))"

text \<open>Telling the device is best effort: only the deletion in usbmuxd decides the result.\<close>

definition unpair_notify :: "(pvalue \<Rightarrow> bytes) \<Rightarrow> (bytes \<Rightarrow> pvalue option) \<Rightarrow> string \<Rightarrow> connection \<Rightarrow> unit ls" where
  "unpair_notify xml parse udid mux_rec =
    (case fst (conn_read_pair_record xml parse udid mux_rec) of
       Panic \<Rightarrow> lift_o Panic
     | Err _ \<Rightarrow> send_raw xml (unpair_request None)
     | Ok raw \<Rightarrow> (case from_plist_bytes parse raw of
         Panic \<Rightarrow> lift_o Panic
       | Err _ \<Rightarrow> send_raw xml (unpair_request None)
       | Ok p \<Rightarrow> send_raw xml (unpair_request (Some p))))"

definition unpair :: "(pvalue \<Rightarrow> bytes) \<Rightarrow> (bytes \<Rightarrow> pvalue option) \<Rightarrow> u32 \<Rightarrow> string \<Rightarrow>
    connection \<Rightarrow> connection \<Rightarrow> connection \<Rightarrow> (ld_error, unit) outcome \<times> lockdown_session option \<times> connection" where
  "unpair xml parse device_id udid mux_ld mux_rec mux_del =
    (let del = (\<lambda>s. case on_err (\<lambda>_. LdLockdown ''delete pair record'')
           (conn_delete_pair_record xml parse udid) mux_del of (r, m) \<Rightarrow> (r, s, m))
     in case ls_connect xml parse device_id mux_ld of
       Panic \<Rightarrow> (Panic, None, mux_del)
     | Err _ \<Rightarrow> del None
     | Ok c \<Rightarrow> (case unpair_notify xml parse udid mux_rec c of
         (Panic, c') \<Rightarrow> (Panic, Some c', mux_del)
       | (_, c') \<Rightarrow> del (Some c')))"

section \<open>Certificates built and read\<close>

lemma outcome_consts:
  "der_int [2] = Ok [0x02, 0x01, 0x02]" "der_int [0] = Ok [0x02, 0x01, 0x00]"
  "\<exists>alg. sha1_with_rsa_oid = (Ok (der_tag 0x30 alg) :: ('e, bytes) outcome) \<and> length alg < 100"
proof -
  show "der_int [2] = Ok [0x02, 0x01, 0x02]" "der_int [0] = Ok [0x02, 0x01, 0x00]"
    by (simp_all add: der_int_def der_tag_def der_len_def)
  obtain bs where bs: "(der_arcs [840, 113549, 1, 1, 5] :: ('e, bytes) outcome) = Ok bs" "length bs \<le> 5 * 5"
    using der_arcs_spec [of "[840, 113549, 1, 1, 5]"] by auto
  then show "\<exists>alg. sha1_with_rsa_oid = (Ok (der_tag 0x30 alg) :: ('e, bytes) outcome) \<and> length alg < 100"
    using length_der_tag [of 6 "42 # bs"] by (auto simp: sha1_with_rsa_oid_def der_seq_def)
qed

lemma extract_issuer_serial_der:
  assumes "length serial < 65536" and "length alg < 65536" and "length issuer < 65536" and "length ver < 65536"
    and "length body < 65536" and "length tail < 65536"
    and "body = der_tag 0xa0 ver @ der_tag 0x02 serial @ der_tag 0x30 alg @ der_tag 0x30 issuer @ more_tbs"
    and "tail = der_tag 0x30 body @ more_cert"
  shows "extract_issuer_serial (der_tag 0x30 tail) = Ok (der_tag 0x30 issuer, der_tag 0x02 serial)"
proof -
  have 1: "peel_tag (der_tag 0x30 tail) 0x30 = Ok (tail, [])" using peel_der_tag [of tail "0x30" "[]"] assms(6) by simp
  have 2: "peel_tag tail 0x30 = Ok (body, more_cert)" using assms(5,8) by (simp add: peel_der_tag)
  let ?r3 = "der_tag 0x30 issuer @ more_tbs" let ?r2 = "der_tag 0x30 alg @ ?r3" let ?r1 = "der_tag 0x02 serial @ ?r2"
  have "\<exists>x. body = 0xa0 # x" using assms(7) by (simp add: der_tag_def)
  moreover have "peel_tlv body = Ok (ver, ?r1)" using assms(4,7) by (simp add: peel_tlv_der_tag)
  moreover have "peel_tag ?r1 0x02 = Ok (serial, ?r2)" "peel_tlv ?r2 = Ok (alg, ?r3)"
    "peel_tag ?r3 0x30 = Ok (issuer, more_tbs)" using assms(1-3) by (simp_all add: peel_der_tag peel_tlv_der_tag)
  ultimately show ?thesis using 1 2 by (auto simp: extract_issuer_serial_def peel_or_def)
qed


lemma der_oid_short: "\<exists>x. (der_oid (a # b # as) :: ('e, bytes) outcome) = Ok x \<and> length x \<le> 5 * length as + 5"
proof -
  obtain bs where "(der_arcs as :: ('e, bytes) outcome) = Ok bs" "length bs \<le> 5 * length as"
    using der_arcs_spec [of as] by auto
  then show ?thesis using length_der_tag [of 6 "ucast (40 * a + b) # bs"] by auto
qed

lemma length_der_seq: "length (der_seq xs) \<le> length (concat xs) + 4"
  using length_der_tag [of "0x30" "concat xs"] by (simp add: der_seq_def)

lemma build_extensions_short:
  "\<exists>exts. build_extensions ski kind = Ok exts \<and> length (concat exts) \<le> length ski + 60"
proof -
  obtain o1 :: bytes where 1: "(der_oid [2, 5, 29, 14] :: (ld_error, bytes) outcome) = Ok o1" "length o1 \<le> 15"
    using der_oid_short [of 2 5 "[29, 14]"] by auto
  obtain o2 :: bytes where 2: "(der_oid [2, 5, 29, 19] :: (ld_error, bytes) outcome) = Ok o2" "length o2 \<le> 15"
    using der_oid_short [of 2 5 "[29, 19]"] by auto
  obtain o3 :: bytes where 3: "(der_oid [2, 5, 29, 15] :: (ld_error, bytes) outcome) = Ok o3" "length o3 \<le> 15"
    using der_oid_short [of 2 5 "[29, 15]"] by auto
  have c: "length (der_bool True) = 3" "length (der_tag 0x04 (der_seq [der_bool True])) = 7"
    "length (der_tag 0x04 (der_tag 0x03 [0x05, 0xa0])) = 6"
    by (simp_all add: der_bool_def der_seq_def der_tag_def der_len_def)
  have s: "length (der_seq [o1, der_tag 0x04 (der_tag 0x04 ski)]) \<le> length ski + 27"
    using length_der_seq [of "[o1, der_tag 0x04 (der_tag 0x04 ski)]"] length_der_tag [of 4 "der_tag 0x04 ski"]
      length_der_tag [of 4 ski] 1(2) by simp
  show ?thesis
  proof (cases kind)
    case Root
    show ?thesis using s 1(1) 2 c length_der_seq [of "[o2, der_bool True, der_tag 0x04 (der_seq [der_bool True])]"]
      by (simp add: build_extensions_def Root Let_def)
  next
    case Leaf
    show ?thesis using s 1(1) 3 c length_der_seq [of "[o3, der_bool True, der_tag 0x04 (der_tag 0x03 [0x05, 0xa0])]"]
      by (simp add: build_extensions_def Leaf Let_def)
  qed
qed


lemma spki_bits_missed:
  assumes "length c < 65536"
  shows "extract_spki_bits (der_tag 0x30 c) = Err ()"
  using peel_der_tag [of c "0x30" "[]"] assms by (simp add: extract_spki_bits_def peel_tlv_def)

lemma ctx0: "der_ctx 0 v = der_tag 0xa0 v"
  by (simp add: der_ctx_def)

lemma der_tag02: "[0x02, 0x01, 0x00] = der_tag 0x02 [0x00]"
  by (simp add: der_tag_def der_len_def)

lemma build_tbs_shape:
  assumes "length spki + length ski < 60000"
  obtains alg more_tbs body where "build_tbs spki ski kind t0 t1 = Ok (der_tag 0x30 body)"
    and "body = der_tag 0xa0 [0x02, 0x01, 0x02] @ der_tag 0x02 [0x00] @ der_tag 0x30 alg @ der_tag 0x30 [] @ more_tbs"
    and "length alg < 100" and "length body < 60400" and "(sha1_with_rsa_oid :: (ld_error, bytes) outcome) = Ok (der_tag 0x30 alg)"
proof -
  obtain alg where a: "(sha1_with_rsa_oid :: (ld_error, bytes) outcome) = Ok (der_tag 0x30 alg)" "length alg < 100"
    using outcome_consts(3) by blast
  obtain exts where e: "build_extensions ski kind = Ok exts" "length (concat exts) \<le> length ski + 60"
    using build_extensions_short by blast
  let ?v = "der_seq [der_utc_time t0, der_utc_time t1]" and ?e = "der_ctx 3 (der_seq exts)"
  let ?more = "?v @ der_seq [] @ spki @ ?e"
  let ?body = "der_tag 0xa0 [0x02, 0x01, 0x02] @ der_tag 0x02 [0x00] @ der_tag 0x30 alg @ der_tag 0x30 [] @ ?more"
  have "length (utc_text t) \<le> 100" for t by (rule length_utc_text)
  then have u: "length (der_utc_time t) \<le> 104" for t
    using length_der_tag [of "0x17" "bytes_of (utc_text t)"] by (simp add: der_utc_time_def bytes_of_def le_trans)
  have "length ?v \<le> 212" using length_der_seq [of "[der_utc_time t0, der_utc_time t1]"] u [of t0] u [of t1] by simp
  moreover have "length ?e \<le> length ski + 68"
    using length_der_tag [of "0xa3" "der_seq exts"] length_der_seq [of exts] e(2) by (simp add: der_ctx_def)
  moreover have "length (der_tag 0x30 alg) < 104" using length_der_tag [of "0x30" alg] a(2) by simp
  moreover have "length (der_tag 0xa0 [0x02, 0x01, 0x02]) = 5" "length (der_tag 0x02 [0x00]) = 3"
    "length (der_tag 0x30 []) = 2" "length (der_seq []) = 2"
    by (simp_all add: der_seq_def der_tag_def der_len_def)
  ultimately have l: "length ?body < 60400" using assms unfolding length_append by linarith
  have "build_tbs spki ski kind t0 t1 = Ok (der_tag 0x30 ?body)"
    unfolding build_tbs_def outcome_consts(1,2) obind.simps a(1) e(1)
    by (simp add: ctx0 der_seq_def [of "[]"] der_tag02) (simp add: der_seq_def)
  then show thesis by (rule that [OF _ refl a(2) l a(1)])
qed

lemma build_cert_spec:
  assumes "rsa_spki R pub = Some (der_tag 0x30 c)" and "length c < 1000" and "\<And>x. length (rsa_sha1 R x) = 20"
    and "\<And>x. length (rsa_sign R key x) \<le> 1000"
  shows "\<exists>cert tbs more. build_cert R pub kind key t0 t1 = Ok cert \<and> cert = der_tag 0x30 (tbs @ more) \<and>
    build_tbs (der_tag 0x30 c) (rsa_sha1 R (der_tag 0x30 c)) kind t0 t1 = Ok tbs \<and>
    extract_issuer_serial cert = Ok (der_seq [], [0x02, 0x01, 0x00])"
proof -
  let ?spki = "der_tag 0x30 c"
  have k: "(ski_hash (rsa_sha1 R) ?spki :: (ld_error, bytes) outcome) = Ok (rsa_sha1 R ?spki)"
    using spki_bits_missed [of c] assms(2) by (simp add: ski_hash_def)
  have l: "length ?spki + length (rsa_sha1 R ?spki) < 60000" using length_der_tag [of "0x30" c] assms(2,3) by simp
  obtain alg more_tbs body where b: "build_tbs ?spki (rsa_sha1 R ?spki) kind t0 t1 = Ok (der_tag 0x30 body)"
    "body = der_tag 0xa0 [0x02, 0x01, 0x02] @ der_tag 0x02 [0x00] @ der_tag 0x30 alg @ der_tag 0x30 [] @ more_tbs"
    "length alg < 100" "length body < 60400" "(sha1_with_rsa_oid :: (ld_error, bytes) outcome) = Ok (der_tag 0x30 alg)"
    by (rule build_tbs_shape [OF l])
  let ?sig = "der_tag 0x03 (0 # rsa_sign R key (der_tag 0x30 body))"
  let ?tail = "der_tag 0x30 body @ (der_tag 0x30 alg @ ?sig)"
  have "length ?sig \<le> 1005" using length_der_tag [of 3 "0 # rsa_sign R key (der_tag 0x30 body)"] assms(4) [of "der_tag 0x30 body"]
    by simp
  then have t: "length ?tail < 65536" using length_der_tag [of "0x30" body] length_der_tag [of "0x30" alg] b(3,4) by simp
  have "extract_issuer_serial (der_tag 0x30 ?tail) = Ok (der_tag 0x30 [], der_tag 0x02 [0x00])"
    by (rule extract_issuer_serial_der [OF _ _ _ _ _ t b(2) refl]) (use b(3,4) in simp_all)
  moreover have "build_cert R pub kind key t0 t1 = Ok (der_tag 0x30 ?tail)"
    unfolding build_cert_def assms(1) ok_or_simps obind.simps k b(1) b(5) der_seq_def by simp
  moreover have "der_tag 0x02 [0x00] = [0x02, 0x01, 0x00]" by (simp add: der_tag_def der_len_def)
  ultimately show ?thesis using b(1)
    by (intro exI [of _ "der_tag 0x30 ?tail"] exI [of _ "der_tag 0x30 body"] exI [of _ "der_tag 0x30 alg @ ?sig"])
      (simp add: der_seq_def)
qed

text \<open>
  A certificate whose public key and signature fit is built, names no issuer, has serial
  number zero, and the reader that prepares the answer to a supervision challenge gets exactly
  these two fields back. Its subject key identifier is the hash of the whole encoded public
  key: the search for the bit string inside it always fails.
\<close>

theorem built_cert_issuer_serial:
  assumes "rsa_spki R pub = Some (der_tag 0x30 c)" and "length c < 1000" and "\<And>x. length (rsa_sha1 R x) = 20"
    and "\<And>x. length (rsa_sign R key x) \<le> 1000"
  shows "\<exists>cert tbs more. build_cert R pub kind key t0 t1 = Ok cert \<and> cert = der_tag 0x30 (tbs @ more) \<and>
    build_tbs (der_tag 0x30 c) (rsa_sha1 R (der_tag 0x30 c)) kind t0 t1 = Ok tbs \<and>
    extract_issuer_serial cert = Ok (der_seq [], [0x02, 0x01, 0x00])"
  by (rule build_cert_spec [OF assms])

definition demo_rsa :: "(unit, unit) rsa_lib" where
  "demo_rsa = \<lparr>rsa_public = (\<lambda>k. k), rsa_spki = (\<lambda>_. Some (der_tag 0x30 [0x30, 0x00, 0x03, 0x01, 0x00])),
     rsa_sign = (\<lambda>_ _. replicate 8 0x55), rsa_sha1 = (\<lambda>_. replicate 20 0x11), rsa_pub_pem = (\<lambda>_. Some ()),
     rsa_key_pem = (\<lambda>_. Some [0x4b]), from_pkcs8_pem = (\<lambda>_. Some ()), from_pkcs1_pem = (\<lambda>_. None),
     from_pkcs8_der = (\<lambda>_. None), from_pkcs1_der = (\<lambda>_. None)\<rparr>"

theorem built_cert_issuer_serial_witness:
  "\<exists>cert. build_cert demo_rsa () Leaf () 1700000000 2000000000 = Ok cert \<and>
    extract_issuer_serial cert = Ok (der_seq [], [0x02, 0x01, 0x00])"
  using built_cert_issuer_serial [of demo_rsa "()" "[0x30, 0x00, 0x03, 0x01, 0x00]" "()" Leaf 1700000000 2000000000]
  by (auto simp: demo_rsa_def)


section \<open>Pairing sessions\<close>

lemma ls_get_value_spec:
  assumes "ls_ready xml parse (v # vs) rest c" and "cmd_result (CmdGet d k) v = Ok (ResValue x)"
  obtains c' where "ls_get_value xml parse d k c = (Ok x, c')" and "ls_ready xml parse vs rest c'"
    and "ls_out c' = ls_out c @ lp_frame (xml (ls_request ''GetValue'' d (Some k) None))"
proof -
  obtain c' where c: "run_cmd xml parse (CmdGet d k) c = (Ok (ResValue x), c')" "ls_ready xml parse vs rest c'"
    "ls_out c' = ls_out c @ lp_frame (xml (cmd_request (CmdGet d k)))"
    using run_cmd_spec [OF assms(1), of "CmdGet d k"] assms(2) by auto
  from c(1) have "ls_get_value xml parse d k c = (Ok x, c')" by (auto simp: bnd_Ok_iff)
  then show thesis using that c(2,3) by simp
qed

lemma device_values_spec:
  assumes "ls_ready xml parse (k # w # vs) rest c"
    and "cmd_result (CmdGet None ''DevicePublicKey'') k = Ok (ResValue (PData pem))"
    and "cmd_result (CmdGet None ''WiFiAddress'') w = Ok (ResValue (PString wifi))"
  obtains c' where "device_values xml parse c = (Ok (pem, wifi), c')" and "ls_ready xml parse vs rest c'"
    and "ls_out c' = ls_out c @ lp_frame (xml (ls_request ''GetValue'' None (Some ''DevicePublicKey'') None)) @
      lp_frame (xml (ls_request ''GetValue'' None (Some ''WiFiAddress'') None))"
proof -
  obtain c1 where c1: "ls_get_value xml parse None ''DevicePublicKey'' c = (Ok (PData pem), c1)"
    "ls_ready xml parse (w # vs) rest c1"
    "ls_out c1 = ls_out c @ lp_frame (xml (ls_request ''GetValue'' None (Some ''DevicePublicKey'') None))"
    by (rule ls_get_value_spec [OF assms(1,2)])
  obtain c2 where c2: "ls_get_value xml parse None ''WiFiAddress'' c1 = (Ok (PString wifi), c2)"
    "ls_ready xml parse vs rest c2"
    "ls_out c2 = ls_out c1 @ lp_frame (xml (ls_request ''GetValue'' None (Some ''WiFiAddress'') None))"
    by (rule ls_get_value_spec [OF c1(2) assms(3)])
  show thesis by (rule that) (use c1 c2 in \<open>simp_all add: device_values_def\<close>)
qed

lemma exchange_raw_spec:
  assumes "ls_ready xml parse (PDictionary d # vs) rest c"
  obtains c' where "exchange_raw xml parse req msg c = (Ok d, c')" and "ls_ready xml parse vs rest c'"
    and "ls_out c' = ls_out c @ lp_frame (xml req)"
proof -
  obtain c1 c2 where "send_raw xml req c = (Ok (), c1)" "recv_raw parse c1 = (Ok (PDictionary d), c2)"
    "ls_ready xml parse vs rest c2" "ls_out c2 = ls_out c @ lp_frame (xml req)"
    using ls_exchange [OF assms] by metis
  then show thesis by (intro that) (simp_all add: exchange_raw_def)
qed

lemma pair_session_spec:
  assumes "ls_ready xml parse [k, w, PDictionary d] rest c"
    and "cmd_result (CmdGet None ''DevicePublicKey'') k = Ok (ResValue (PData pem))"
    and "cmd_result (CmdGet None ''WiFiAddress'') w = Ok (ResValue (PString wifi))"
    and "create_pairing_certs R (env_root_key E) (env_host_key E) (env_now E) pem = Ok C"
  defines "hid \<equiv> random_upper_uuid (env_micros E)"
  shows "\<exists>c'. pair_session xml parse R E buid c =
      ((case dget d ''Error'' of
          Some (PString e) \<Rightarrow> Err (LdLockdown
            (if e = ''PairingDialogResponsePending'' then PENDING else ''lockdownd error: '' @ e))
        | _ \<Rightarrow> (case dget d ''EscrowBag'' of
            Some (PData b) \<Rightarrow> Ok (save_dict C b wifi hid buid)
          | _ \<Rightarrow> Err (LdLockdown ''no EscrowBag in pair response''))), c') \<and>
    ls_out c' = ls_out c @ lp_frame (xml (ls_request ''GetValue'' None (Some ''DevicePublicKey'') None)) @
      lp_frame (xml (ls_request ''GetValue'' None (Some ''WiFiAddress'') None)) @
      lp_frame (xml (pair_request (record_dict C buid hid) [(''ExtendedPairingErrors'', PBoolean True)]))"
proof -
  obtain c1 where c1: "device_values xml parse c = (Ok (pem, wifi), c1)" "ls_ready xml parse [PDictionary d] rest c1"
    "ls_out c1 = ls_out c @ lp_frame (xml (ls_request ''GetValue'' None (Some ''DevicePublicKey'') None)) @
      lp_frame (xml (ls_request ''GetValue'' None (Some ''WiFiAddress'') None))"
    by (rule device_values_spec [OF assms(1-3)])
  obtain c2 where c2: "exchange_raw xml parse
      (pair_request (record_dict C buid hid) [(''ExtendedPairingErrors'', PBoolean True)])
      ''Pair response not a dictionary'' c1 = (Ok d, c2)"
    "ls_out c2 = ls_out c1 @ lp_frame (xml (pair_request (record_dict C buid hid) [(''ExtendedPairingErrors'', PBoolean True)]))"
    by (rule exchange_raw_spec [OF c1(2)])
  have "pair_session xml parse R E buid c = bnd (case dget d ''Error'' of
             Some (PString e) \<Rightarrow>
               if e = ''PairingDialogResponsePending'' then throw (LdLockdown PENDING)
               else throw (LdLockdown (''lockdownd error: '' @ e))
           | _ \<Rightarrow> lift_o (escrow_of d ''no EscrowBag in pair response'')) (\<lambda>escrow.
         ret (save_dict C escrow wifi hid buid)) c2"
    using c1(1) c2(1) assms(4) by (simp add: pair_session_def hid_def Let_def)
  then show ?thesis using c1(3) c2(2)
    by (auto simp: escrow_of_def bnd_def split: option.split pvalue.split)
qed

text \<open>
  C20: On a fresh session whose device answers the two value requests, pairing sends exactly
  three requests, the third with the new certificates, and its result is decided by the third
  answer alone: a pending trust dialog and every other error is reported and nothing is saved,
  an answer without an escrow bag is refused, and with one the record to save holds the three
  certificates, both private keys, the escrow bag and the identifiers that were sent.
\<close>

theorem pair_session_outcome:
  assumes "ls_ready xml parse [k, w, PDictionary d] rest c"
    and "cmd_result (CmdGet None ''DevicePublicKey'') k = Ok (ResValue (PData pem))"
    and "cmd_result (CmdGet None ''WiFiAddress'') w = Ok (ResValue (PString wifi))"
    and "create_pairing_certs R (env_root_key E) (env_host_key E) (env_now E) pem = Ok C"
  defines "hid \<equiv> random_upper_uuid (env_micros E)"
  shows "\<exists>c'. pair_session xml parse R E buid c =
      ((case dget d ''Error'' of
          Some (PString e) \<Rightarrow> Err (LdLockdown
            (if e = ''PairingDialogResponsePending'' then PENDING else ''lockdownd error: '' @ e))
        | _ \<Rightarrow> (case dget d ''EscrowBag'' of
            Some (PData b) \<Rightarrow> Ok (save_dict C b wifi hid buid)
          | _ \<Rightarrow> Err (LdLockdown ''no EscrowBag in pair response''))), c') \<and>
    ls_out c' = ls_out c @ lp_frame (xml (ls_request ''GetValue'' None (Some ''DevicePublicKey'') None)) @
      lp_frame (xml (ls_request ''GetValue'' None (Some ''WiFiAddress'') None)) @
      lp_frame (xml (pair_request (record_dict C buid hid) [(''ExtendedPairingErrors'', PBoolean True)]))"
  unfolding hid_def by (rule pair_session_spec [OF assms(1-4)])

definition demo_env :: "unit pair_env" where
  "demo_env = \<lparr>env_root_key = Some (), env_host_key = Some (), env_now = 1700000000, env_micros = 1700000000000001\<rparr>"

definition demo_answers :: "pdictionary \<Rightarrow> pvalue list" where
  "demo_answers d = [PDictionary [(''Value'', PData [0x41])], PDictionary [(''Value'', PString ''aa:bb'')], PDictionary d]"

lemma demo_answers_ready:
  assumes "length (pv_enc (PDictionary d)) < 1000"
  shows "ls_ready pv_enc pv_parse (demo_answers d) [] (demo_ls (demo_answers d))"
proof -
  have "length (pv_enc (PDictionary [(''Value'', PData [0x41])])) < 1000"
    "length (pv_enc (PDictionary [(''Value'', PString ''aa:bb'')])) < 1000" by code_simp+
  then show ?thesis using assms by (intro demo_ls_ready) (simp add: demo_answers_def)
qed

lemma demo_values:
  "cmd_result (CmdGet None ''DevicePublicKey'') (PDictionary [(''Value'', PData [0x41])]) = Ok (ResValue (PData [0x41]))"
  "cmd_result (CmdGet None ''WiFiAddress'') (PDictionary [(''Value'', PString ''aa:bb'')]) = Ok (ResValue (PString ''aa:bb''))"
  by code_simp+

lemma demo_cert: "\<exists>cert. build_cert demo_rsa () kind () t0 t1 = Ok cert"
  using build_cert_spec [of demo_rsa "()" "[0x30, 0x00, 0x03, 0x01, 0x00]" "()" kind t0 t1]
  by (auto simp: demo_rsa_def)

lemma demo_certs:
  "\<exists>C. create_pairing_certs demo_rsa (env_root_key demo_env) (env_host_key demo_env) (env_now demo_env) [0x41] = Ok C"
proof -
  obtain r l where "build_cert demo_rsa () Root () 1700000000 (1700000000 + VALIDITY) = Ok r"
    "build_cert demo_rsa () Leaf () 1700000000 (1700000000 + VALIDITY) = Ok l"
    using demo_cert by metis
  moreover have "from_utf8 [0x41] = Some ''A''" by code_simp
  moreover have "rsa_pub_pem demo_rsa x = Some ()" "rsa_key_pem demo_rsa () = Some [0x4b]" "rsa_public demo_rsa () = ()" for x
    by (simp_all add: demo_rsa_def)
  ultimately show ?thesis by (simp add: create_pairing_certs_def demo_env_def)
qed

theorem pair_session_outcome_witness:
  "fst (pair_session pv_enc pv_parse demo_rsa demo_env ''B''
      (demo_ls (demo_answers [(''Error'', PString ''PairingDialogResponsePending'')]))) = Err (LdLockdown PENDING)"
proof -
  obtain C where C: "create_pairing_certs demo_rsa (env_root_key demo_env) (env_host_key demo_env) (env_now demo_env) [0x41] = Ok C"
    using demo_certs by blast
  have "length (pv_enc (PDictionary [(''Error'', PString ''PairingDialogResponsePending'')])) < 1000" by code_simp
  from pair_session_outcome [OF demo_answers_ready [OF this, unfolded demo_answers_def] demo_values C, where buid = "''B''"]
  show ?thesis by (auto simp: demo_answers_def)
qed

lemma saved_record_read:
  assumes "parse (xml (save_dict C escrow wifi hid buid)) = Some (save_dict C escrow wifi hid buid)"
  shows "from_plist_bytes parse (xml (save_dict C escrow wifi hid buid)) =
    Ok \<lparr>host_id = hid, system_buid = buid, host_certificate = pc_host_cert C, host_private_key = pc_host_key C,
        device_certificate = pc_device_cert C, root_certificate = pc_root_cert C\<rparr>"
  using assms by (simp add: from_plist_bytes_def save_dict_def pdict_distinct string_field_def data_field_def)

text \<open>
  C21: Whatever record a successful pairing hands to usbmuxd, supervised or not, the reader of
  pair records accepts it, and a later session is started with the host identifier and system
  identifier that the device was paired with and the host certificate and key made for it.
\<close>

theorem paired_record_usable:
  assumes "pair_session xml parse R E buid c = (Ok rec, c') \<or>
      supervised_session xml parse R E buid cert key c = (Ok rec, c')" and "parse (xml rec) = Some rec"
  shows "\<exists>pem C pr. create_pairing_certs R (env_root_key E) (env_host_key E) (env_now E) pem = Ok C \<and>
    from_plist_bytes parse (xml rec) = Ok pr \<and> host_certificate pr = pc_host_cert C \<and>
    host_private_key pr = pc_host_key C \<and> device_certificate pr = pc_device_cert C \<and>
    root_certificate pr = pc_root_cert C \<and>
    start_session_request pr = PDictionary [(''Request'', PString ''StartSession''),
      (''HostID'', PString (random_upper_uuid (env_micros E))), (''SystemBUID'', PString buid),
      (''Label'', PString ''devicelink'')]"
proof -
  obtain pem C escrow wifi where C: "create_pairing_certs R (env_root_key E) (env_host_key E) (env_now E) pem = Ok C"
    "rec = save_dict C escrow wifi (random_upper_uuid (env_micros E)) buid"
    using assms(1) by (auto simp: pair_session_def supervised_session_def bnd_Ok_iff Let_def)
  show ?thesis
    by (rule exI [of _ pem], rule exI [of _ C])
      (use C saved_record_read [of parse xml C escrow wifi "random_upper_uuid (env_micros E)" buid] assms(2)
        in \<open>simp add: start_session_request_def\<close>)
qed

theorem paired_record_usable_witness:
  "\<exists>rec pr. fst (pair_session pv_enc pv_parse demo_rsa demo_env ''B'' (demo_ls (demo_answers [(''EscrowBag'', PData [1])]))) =
      Ok rec \<and> from_plist_bytes pv_parse (pv_enc rec) = Ok pr \<and> system_buid pr = ''B''"
proof -
  let ?c = "demo_ls (demo_answers [(''EscrowBag'', PData [1])])"
  obtain C where C: "create_pairing_certs demo_rsa (env_root_key demo_env) (env_host_key demo_env) (env_now demo_env) [0x41] = Ok C"
    using demo_certs by blast
  have "length (pv_enc (PDictionary [(''EscrowBag'', PData [1])])) < 1000" by code_simp
  from pair_session_spec [OF demo_answers_ready [OF this, unfolded demo_answers_def] demo_values C, where buid = "''B''"]
  obtain rec c' where r: "pair_session pv_enc pv_parse demo_rsa demo_env ''B'' ?c = (Ok rec, c')"
    by (auto simp: demo_answers_def)
  from paired_record_usable [OF disjI1 [OF r] pv_parse_enc] obtain pr where
    "from_plist_bytes pv_parse (pv_enc rec) = Ok pr" "start_session_request pr = PDictionary [(''Request'', PString ''StartSession''),
      (''HostID'', PString (random_upper_uuid (env_micros demo_env))), (''SystemBUID'', PString ''B''),
      (''Label'', PString ''devicelink'')]" by blast
  with r show ?thesis by (auto simp: start_session_request_def)
qed

end
