(* ===== verification/Dtx.thy ===== *)
theory Dtx
  imports H2 Plist PlistInstance
begin

text \<open>
  The wire format of \<open>src/src/dtx/mod.rs\<close>: message encoding, the keyed archives of its
  arguments, and decoding with fragment reassembly and the acknowledgement of fragments. Signed
  fields are kept as their bits, and \<open>conv_id + 1\<close> wraps, as in a release build. The binary
  plist writer and the plist reader are the parameters \<open>bin\<close> and \<open>parse\<close>. The connection and its
  reader thread are in \<open>DtxConn\<close>.
\<close>

section \<open>Messages\<close>

datatype dtx_error = DtxIo io_kind | DtxPlist | DtxBadMagic u32 | DtxProtocol | DtxClosed

datatype MsgType = MtAck | MtUnknown1 | MtMethodInvoke | MtReply | MtError

fun msg_type_code :: "MsgType \<Rightarrow> u32" where
  "msg_type_code MtAck = 0"
| "msg_type_code MtUnknown1 = 1"
| "msg_type_code MtMethodInvoke = 2"
| "msg_type_code MtReply = 3"
| "msg_type_code MtError = 4"

definition msg_type_of :: "u32 \<Rightarrow> u32 + MsgType" where
  "msg_type_of v = (if v = 0 then Inr MtAck else if v = 1 then Inr MtUnknown1
     else if v = 2 then Inr MtMethodInvoke else if v = 3 then Inr MtReply
     else if v = 4 then Inr MtError else Inl v)"

datatype AuxValue = AInt32 u32 | AInt64 u64 | ABytes bytes

record dtx_message =
  dm_msg_id :: u32
  dm_conv_id :: u32
  dm_channel :: u32
  dm_expects_reply :: bool
  dm_msg_type :: u32
  dm_aux :: "AuxValue list"
  dm_payload :: "pvalue option"

definition DTX_MAGIC :: bytes where "DTX_MAGIC = [0x79, 0x5B, 0x3D, 0x1F]"
definition T_NULL :: u32 where "T_NULL = 0x0A"
definition T_UINT32 :: u32 where "T_UINT32 = 0x03"
definition T_INT64 :: u32 where "T_INT64 = 0x06"
definition T_BYTEARRAY :: u32 where "T_BYTEARRAY = 0x02"
definition AUX_MAGIC :: u32 where "AUX_MAGIC = 0x1F0"

lemmas aux_types = T_NULL_def T_UINT32_def T_INT64_def T_BYTEARRAY_def

section \<open>Encoding\<close>

fun encode_aux_entry :: "AuxValue \<Rightarrow> bytes" where
  "encode_aux_entry (AInt32 v) = u32_le T_NULL @ u32_le T_UINT32 @ u32_le v"
| "encode_aux_entry (AInt64 v) = u32_le T_NULL @ u32_le T_INT64 @ u64_le v"
| "encode_aux_entry (ABytes b) =
    u32_le T_NULL @ u32_le T_BYTEARRAY @ u32_le (word_of_nat (length b)) @ b"

definition encode_aux_entries :: "AuxValue list \<Rightarrow> bytes" where
  "encode_aux_entries args = concat (map encode_aux_entry args)"

definition flag_word :: "bool \<Rightarrow> u32" where "flag_word b = (if b then 1 else 0)"

definition dtx_header ::
  "u16 \<Rightarrow> u16 \<Rightarrow> nat \<Rightarrow> u32 \<Rightarrow> u32 \<Rightarrow> u32 \<Rightarrow> bool \<Rightarrow> bytes" where
  "dtx_header fragment_index fragment_count len msg_id conv_id channel expects_reply =
    DTX_MAGIC @ u32_le 32 @ u16_le fragment_index @ u16_le fragment_count @
    u32_le (word_of_nat len) @ u32_le msg_id @ u32_le conv_id @ u32_le channel @
    u32_le (flag_word expects_reply)"

definition aux_len_with_hdr :: "AuxValue list \<Rightarrow> nat" where
  "aux_len_with_hdr aux =
    (let n = length (encode_aux_entries aux) in if n > 0 then n + 16 else 0)"

text \<open>Everything after the header.\<close>

definition dtx_body :: "u32 \<Rightarrow> AuxValue list \<Rightarrow> bytes \<Rightarrow> bytes" where
  "dtx_body msg_type aux payload =
    (let aux_entries = encode_aux_entries aux;
         aux_len = aux_len_with_hdr aux;
         total_payload = aux_len + length payload
     in if total_payload = 0 then []
        else u32_le msg_type @ u32_le (word_of_nat aux_len) @ u32_le (word_of_nat total_payload) @ u32_le 0 @
          (if aux_entries \<noteq> [] then u32_le AUX_MAGIC @ u32_le 0 @ u32_le (word_of_nat (length aux_entries)) @
             u32_le 0 @ aux_entries else []) @
          payload)"

definition encode_raw ::
  "u32 \<Rightarrow> u32 \<Rightarrow> u32 \<Rightarrow> bool \<Rightarrow> MsgType \<Rightarrow> AuxValue list \<Rightarrow> bytes \<Rightarrow> bytes" where
  "encode_raw msg_id conv_id channel expects_reply msg_type aux payload =
    (let body = dtx_body (msg_type_code msg_type) aux payload in
     dtx_header 0 1 (length body) msg_id conv_id channel expects_reply @ body)"

definition keyed_archive :: "pvalue list \<Rightarrow> nat \<Rightarrow> pvalue" where
  "keyed_archive objects root =
    pdict [(''$version'', PInteger 100000), (''$archiver'', PString ''NSKeyedArchiver''),
      (''$top'', pdict [(''root'', PUid root)]), (''$objects'', PArray objects)]"

definition archive_primitive :: "(pvalue \<Rightarrow> bytes) \<Rightarrow> pvalue \<Rightarrow> bytes" where
  "archive_primitive bin v = bin (keyed_archive [PString ''$null'', v] 1)"

definition archive_string :: "(pvalue \<Rightarrow> bytes) \<Rightarrow> string \<Rightarrow> bytes" where
  "archive_string bin s = archive_primitive bin (PString s)"

definition archive_u64 :: "(pvalue \<Rightarrow> bytes) \<Rightarrow> u64 \<Rightarrow> bytes" where
  "archive_u64 bin n = archive_primitive bin (PInteger (uint n))"

definition archive_bool :: "(pvalue \<Rightarrow> bytes) \<Rightarrow> bool \<Rightarrow> bytes" where
  "archive_bool bin b = archive_primitive bin (PBoolean b)"

definition capabilities_objects :: "pvalue list" where
  "capabilities_objects =
    [PString ''$null'',
     pdict [(''$classname'', PString ''NSDictionary''),
       (''$classes'', PArray [PString ''NSDictionary'', PString ''NSObject''])],
     PString ''com.apple.private.DTXBlockCompression'',
     PString ''com.apple.private.DTXConnection'',
     PInteger 0,
     PInteger 1,
     pdict [(''NS.keys'', PArray [PUid 2, PUid 3]), (''NS.objects'', PArray [PUid 4, PUid 5]),
       (''$class'', PUid 1)]]"

definition archive_capabilities_dict :: "(pvalue \<Rightarrow> bytes) \<Rightarrow> bytes" where
  "archive_capabilities_dict bin = bin (keyed_archive capabilities_objects 6)"

definition encode_call ::
  "(pvalue \<Rightarrow> bytes) \<Rightarrow> u32 \<Rightarrow> u32 \<Rightarrow> u32 \<Rightarrow> bool \<Rightarrow> string \<Rightarrow> AuxValue list \<Rightarrow> bytes" where
  "encode_call bin msg_id conv_id channel expects_reply selector aux =
    encode_raw msg_id conv_id channel expects_reply MtMethodInvoke aux (archive_string bin selector)"

definition encode_ack_raw :: "u32 \<Rightarrow> u32 \<Rightarrow> u32 \<Rightarrow> bytes" where
  "encode_ack_raw msg_id conv_id channel =
    dtx_header 0 1 16 msg_id conv_id channel False @ u32_le (msg_type_code MtAck) @ replicate 12 0"

definition encode_ack :: "dtx_message \<Rightarrow> bytes" where
  "encode_ack msg = encode_ack_raw (dm_msg_id msg) (dm_conv_id msg + 1) (dm_channel msg)"

definition encode_reply :: "dtx_message \<Rightarrow> bytes \<Rightarrow> bytes" where
  "encode_reply req payload =
    encode_raw (dm_msg_id req) (dm_conv_id req + 1) (dm_channel req) False MtReply [] payload"

section \<open>Decoding\<close>

text \<open>\<open>decode_aux_entries\<close>: entries until one is unexpected or does not fit.\<close>

function decode_aux_entries :: "bytes \<Rightarrow> AuxValue list" where
  "decode_aux_entries data =
    (if length data < 8 \<or> u32_of_le (take 4 data) \<noteq> T_NULL then []
     else
       let val_type = u32_of_le (take 4 (drop 4 data)); rest = drop 8 data in
       if val_type = T_UINT32 \<and> 4 \<le> length rest then
         AInt32 (u32_of_le (take 4 rest)) # decode_aux_entries (drop 4 rest)
       else if val_type = T_INT64 \<and> 8 \<le> length rest then
         AInt64 (u64_of_le (take 8 rest)) # decode_aux_entries (drop 8 rest)
       else if val_type = T_BYTEARRAY \<and> 4 \<le> length rest then
         (let len = unat (u32_of_le (take 4 rest)); r = drop 4 rest in
          if len \<le> length r then ABytes (take len r) # decode_aux_entries (drop len r) else [])
       else [])"
  by pat_completeness auto
termination
  by (relation "measure length") auto

declare decode_aux_entries.simps [simp del]

record dtx_hdr =
  h_fragment_index :: u16
  h_fragment_count :: u16
  h_len :: nat
  h_msg_id :: u32
  h_conv_id :: u32
  h_channel :: u32
  h_expects :: bool

definition parse_hdr :: "bytes \<Rightarrow> dtx_hdr" where
  "parse_hdr h = \<lparr>h_fragment_index = u16_of_le (take 2 (drop 8 h)),
    h_fragment_count = u16_of_le (take 2 (drop 10 h)),
    h_len = unat (u32_of_le (take 4 (drop 12 h))),
    h_msg_id = u32_of_le (take 4 (drop 16 h)),
    h_conv_id = u32_of_le (take 4 (drop 20 h)),
    h_channel = u32_of_le (take 4 (drop 24 h)),
    h_expects = (u32_of_le (take 4 (drop 28 h)) \<noteq> 0)\<rparr>"

definition dtx_read :: "nat \<Rightarrow> (sock, dtx_error, bytes) prog" where
  "dtx_read n = on_inp (on_err DtxIo (io_read_exact n))"

text \<open>
  The continuation fragments: each has its own header, which may ask for an acknowledgement; the
  result of writing that is dropped.
\<close>

primrec read_fragments :: "bool \<Rightarrow> nat \<Rightarrow> bytes \<Rightarrow> (sock, dtx_error, bytes) prog" where
  "read_fragments acks 0 data = ret data"
| "read_fragments acks (Suc n) data =
    bnd (dtx_read 32) (\<lambda>fb s.
      let f = parse_hdr fb;
          s1 = (if h_expects f \<and> acks
                then snd (write_all (encode_ack_raw (h_msg_id f) (h_conv_id f + 1) (h_channel f)) s)
                else s)
      in bnd (if 0 < h_len f then dtx_read (h_len f) else ret [])
           (\<lambda>d. read_fragments acks n (data @ d)) s1)"

text \<open>The payload header is sliced before its length is checked.\<close>

definition parse_payload ::
  "(bytes \<Rightarrow> pvalue option) \<Rightarrow> bytes \<Rightarrow> (dtx_error, u32 \<times> AuxValue list \<times> pvalue option) outcome" where
  "parse_payload parse payload =
    obind (slice_idx payload 0 4) (\<lambda>t.
    obind (slice_idx payload 4 8) (\<lambda>a.
    obind (slice_idx payload 8 12) (\<lambda>tt.
      let aux_len = unat (u32_of_le a); total_len = unat (u32_of_le tt);
          entries_size = aux_len - 16;
          aux = (if 0 < aux_len \<and> 32 + entries_size \<le> length payload
                 then decode_aux_entries (take entries_size (drop 32 payload)) else []);
          body_start = 16 + aux_len; body_len = total_len - aux_len
      in if 0 < body_len \<and> body_start + body_len \<le> length payload then
           (case parse (take body_len (drop body_start payload)) of
              None \<Rightarrow> Err DtxPlist
            | Some v \<Rightarrow> Ok (u32_of_le t, aux, Some v))
         else Ok (u32_of_le t, aux, None))))"

definition hdr_message :: "dtx_hdr \<Rightarrow> u32 \<Rightarrow> AuxValue list \<Rightarrow> pvalue option \<Rightarrow> dtx_message" where
  "hdr_message h t aux p = \<lparr>dm_msg_id = h_msg_id h, dm_conv_id = h_conv_id h,
    dm_channel = h_channel h, dm_expects_reply = h_expects h, dm_msg_type = t, dm_aux = aux,
    dm_payload = p\<rparr>"

definition read_message_inner ::
  "(bytes \<Rightarrow> pvalue option) \<Rightarrow> bool \<Rightarrow> (sock, dtx_error, dtx_message) prog" where
  "read_message_inner parse acks =
    bnd (dtx_read 32) (\<lambda>hb.
      if u32_of_be (take 4 hb) \<noteq> 0x795B3D1F then throw (DtxBadMagic (u32_of_be (take 4 hb)))
      else let h = parse_hdr hb in
        if h_len h = 0 then ret (hdr_message h 0 [] None)
        else bnd (if h_fragment_index h = 0 \<and> 1 < h_fragment_count h
                  then read_fragments acks (unat (h_fragment_count h) - 1) []
                  else dtx_read (h_len h))
          (\<lambda>payload. bnd (lift_o (parse_payload parse payload))
             (\<lambda>(t, aux, p). ret (hdr_message h t aux p))))"

definition read_message :: "(bytes \<Rightarrow> pvalue option) \<Rightarrow> (sock, dtx_error, dtx_message) prog" where
  "read_message parse = read_message_inner parse False"

section \<open>Round trips\<close>

definition aux_ok :: "AuxValue \<Rightarrow> bool" where
  "aux_ok a \<longleftrightarrow> (case a of ABytes b \<Rightarrow> length b < 2 ^ 32 | _ \<Rightarrow> True)"

lemma decode_aux_append:
  assumes "aux_ok a"
  shows "decode_aux_entries (encode_aux_entry a @ r) = a # decode_aux_entries r"
proof (cases a)
  case (AInt32 v)
  then show ?thesis by (subst decode_aux_entries.simps) (simp add: aux_types)
next
  case (AInt64 v)
  then show ?thesis by (subst decode_aux_entries.simps) (simp add: aux_types)
next
  case (ABytes b)
  have "unat (word_of_nat (length b) :: u32) = length b"
    by (rule unat_word_of_nat_less) (use assms ABytes in \<open>simp add: aux_ok_def\<close>)
  then show ?thesis using ABytes by (subst decode_aux_entries.simps) (simp add: aux_types)
qed

lemma decode_encode_aux: "list_all aux_ok as \<Longrightarrow> decode_aux_entries (encode_aux_entries as) = as"
proof (induction as)
  case Nil
  then show ?case by (simp add: encode_aux_entries_def decode_aux_entries.simps)
next
  case (Cons a as)
  then show ?case using decode_aux_append [of a "encode_aux_entries as"]
    by (simp add: encode_aux_entries_def)
qed

lemma length_dtx_header [simp]: "length (dtx_header fi fc len i c ch e) = 32"
  by (simp add: dtx_header_def DTX_MAGIC_def)

lemma flag_word_iff [simp]: "(flag_word b \<noteq> 0) = b"
  by (simp add: flag_word_def)

lemma parse_dtx_header:
  assumes "len < 2 ^ 32"
  shows "parse_hdr (dtx_header fi fc len i c ch e) =
      \<lparr>h_fragment_index = fi, h_fragment_count = fc, h_len = len, h_msg_id = i, h_conv_id = c,
       h_channel = ch, h_expects = e\<rparr>"
    and "u32_of_be (take 4 (dtx_header fi fc len i c ch e)) = 0x795B3D1F"
proof -
  have l: "unat (word_of_nat len :: u32) = len" by (rule unat_word_of_nat_less) (use assms in simp)
  have m: "length DTX_MAGIC = 4" by (simp add: DTX_MAGIC_def)
  show "parse_hdr (dtx_header fi fc len i c ch e) =
      \<lparr>h_fragment_index = fi, h_fragment_count = fc, h_len = len, h_msg_id = i, h_conv_id = c,
       h_channel = ch, h_expects = e\<rparr>"
    using l m by (simp add: parse_hdr_def dtx_header_def)
  have "u32_of_be DTX_MAGIC = 0x795B3D1F" by code_simp
  then show "u32_of_be (take 4 (dtx_header fi fc len i c ch e)) = 0x795B3D1F"
    using m by (simp add: dtx_header_def)
qed

lemma parse_payload_body:
  assumes "list_all aux_ok aux" and "length (dtx_body t aux pl) < 2 ^ 32" and "parse pl = Some v" and "pl \<noteq> []"
  shows "parse_payload parse (dtx_body t aux pl) = Ok (t, aux, Some v)"
proof -
  define en where "en = encode_aux_entries aux"
  define al where "al = aux_len_with_hdr aux"
  have al: "al = (if en = [] then 0 else length en + 16)"
    by (simp add: al_def en_def aux_len_with_hdr_def Let_def)
  define ah where "ah = (if en \<noteq> [] then u32_le AUX_MAGIC @ u32_le 0 @ u32_le (word_of_nat (length en)) @
      u32_le 0 @ en else [])"
  have la: "length ah = al" by (simp add: ah_def al)
  define ph where "ph = u32_le t @ u32_le (word_of_nat al) @ u32_le (word_of_nat (al + length pl)) @ u32_le 0"
  have body: "dtx_body t aux pl = ph @ ah @ pl"
    using assms(4) by (simp add: dtx_body_def Let_def al_def [symmetric] en_def [symmetric] ah_def ph_def)
  have lph: "length ph = 16" by (simp add: ph_def)
  have sz: "unat (word_of_nat al :: u32) = al" "unat (word_of_nat (al + length pl) :: u32) = al + length pl"
    by (rule unat_word_of_nat_less, use assms(2) body la lph in simp)+
  have sl: "slice_idx (ph @ ah @ pl) 0 4 = (Ok (u32_le t) :: (dtx_error, bytes) outcome)"
    "slice_idx (ph @ ah @ pl) 4 8 = (Ok (u32_le (word_of_nat al)) :: (dtx_error, bytes) outcome)"
    "slice_idx (ph @ ah @ pl) 8 12 = (Ok (u32_le (word_of_nat (al + length pl))) :: (dtx_error, bytes) outcome)"
    by (simp_all add: slice_idx_def slice_get_def ph_def del: of_nat_add)
  have auxd: "(if 0 < al \<and> 32 + (al - 16) \<le> length (ph @ ah @ pl)
      then decode_aux_entries (take (al - 16) (drop 32 (ph @ ah @ pl))) else []) = aux"
  proof (cases "en = []")
    case True
    then have "aux = []" by (cases aux; cases "hd aux") (auto simp: en_def encode_aux_entries_def)
    then show ?thesis using True by (simp add: al)
  next
    case False
    have "drop 32 (ph @ ah @ pl) = en @ pl" using False lph by (simp add: ah_def)
    moreover have "al - 16 = length en" using False by (simp add: al)
    ultimately show ?thesis using False la lph decode_encode_aux [OF assms(1)] by (simp add: al en_def [symmetric])
  qed
  have pl: "take (length pl) (drop (16 + al) (ph @ ah @ pl)) = pl" using la lph by simp
  have le: "0 < length pl \<and> 16 + al + length pl \<le> length (ph @ ah @ pl)" using la lph assms(4) by simp
  show ?thesis
    unfolding parse_payload_def body sl obind.simps Let_def u_bytes_roundtrip sz auxd add_diff_cancel_left'
    using le by (simp only: pl assms(3) if_True option.case simp_thms)
qed

lemma dtx_read_next:
  assumes "avail (inp s) = xs @ rest" and "length xs = n"
  shows "\<exists>i. dtx_read n s = (Ok xs, s\<lparr>inp := i\<rparr>) \<and> avail i = rest"
proof -
  obtain i where "io_read_exact n (inp s) = (Ok xs, i)" "avail i = rest"
    using assms by (rule io_read_exact_next)
  then show ?thesis by (intro exI [of _ i]) (simp add: dtx_read_def)
qed

text \<open>A continuation fragment: index, ids, channel, whether it wants an acknowledgement, data.\<close>

type_synonym dtx_fragment = "u16 \<times> u32 \<times> u32 \<times> u32 \<times> bool \<times> bytes"

definition fragment_bytes :: "u16 \<Rightarrow> dtx_fragment \<Rightarrow> bytes" where
  "fragment_bytes count f = (case f of (fi, fid, fconv, fch, fexp, d) \<Rightarrow>
     dtx_header fi count (length d) fid fconv fch fexp @ d)"

abbreviation frag_data :: "dtx_fragment \<Rightarrow> bytes" where
  "frag_data f \<equiv> snd (snd (snd (snd (snd f))))"

fun fragment_ack :: "dtx_fragment \<Rightarrow> bytes" where
  "fragment_ack (fi, fid, fconv, fch, fexp, d) = (if fexp then encode_ack_raw fid (fconv + 1) fch else [])"

lemma read_fragments_run:
  assumes "avail (inp s) = concat (map (fragment_bytes count) fs) @ rest"
    and "list_all (\<lambda>f. length (frag_data f) < 2 ^ 32) fs" and "room s = None"
  shows "\<exists>i. read_fragments acks (length fs) data s =
      (Ok (data @ concat (map frag_data fs)), s\<lparr>inp := i,
        outp := outp s @ (if acks then concat (map fragment_ack fs) else [])\<rparr>) \<and> avail i = rest"
  using assms
proof (induction fs arbitrary: s data)
  case Nil
  then show ?case by (intro exI [of _ "inp s"]) simp
next
  case (Cons f fs)
  obtain fi fid fconv fch fexp d where f: "f = (fi, fid, fconv, fch, fexp, d)" by (cases f)
  let ?h = "dtx_header fi count (length d) fid fconv fch fexp"
  let ?tl = "concat (map (fragment_bytes count) fs) @ rest"
  have "fragment_bytes count f = ?h @ d" by (simp add: f fragment_bytes_def)
  then have "avail (inp s) = ?h @ (d @ ?tl)" using Cons.prems(1) by simp
  from dtx_read_next [OF this length_dtx_header] obtain i1 where
    i1: "dtx_read 32 s = (Ok ?h, s\<lparr>inp := i1\<rparr>)" "avail i1 = d @ ?tl" by blast
  have ph: "parse_hdr ?h = \<lparr>h_fragment_index = fi, h_fragment_count = count, h_len = length d,
      h_msg_id = fid, h_conv_id = fconv, h_channel = fch, h_expects = fexp\<rparr>"
    by (rule parse_dtx_header(1)) (use Cons.prems(2) f in simp)
  define s1 where "s1 = s\<lparr>inp := i1, outp := outp s @ (if acks then fragment_ack f else [])\<rparr>"
  have ack: "(if fexp \<and> acks then snd (write_all (encode_ack_raw fid (fconv + 1) fch) (s\<lparr>inp := i1\<rparr>))
      else s\<lparr>inp := i1\<rparr>) = s1"
    using Cons.prems(3) f by (simp add: s1_def)
  obtain i2 where i2: "(if 0 < length d then dtx_read (length d) else ret []) s1 = (Ok d, s1\<lparr>inp := i2\<rparr>)"
    "avail i2 = ?tl"
  proof (cases "d = []")
    case True
    then show thesis using that [of i1] i1(2) by (simp add: s1_def)
  next
    case False
    then show thesis using that dtx_read_next [of s1 d ?tl] i1(2) by (auto simp: s1_def)
  qed
  have "read_fragments acks (Suc (length fs)) data s =
      bnd (if 0 < length d then dtx_read (length d) else ret [])
        (\<lambda>x. read_fragments acks (length fs) (data @ x)) s1"
    unfolding read_fragments.simps bnd_Ok [of "dtx_read 32" s, OF i1(1)] ph Let_def dtx_hdr.select_convs ack ..
  also have "\<dots> = read_fragments acks (length fs) (data @ d) (s1\<lparr>inp := i2\<rparr>)"
    using i2(1) by (rule bnd_Ok)
  finally have step: "read_fragments acks (Suc (length fs)) data s =
      read_fragments acks (length fs) (data @ d) (s1\<lparr>inp := i2\<rparr>)" .
  have "\<exists>i. read_fragments acks (length fs) (data @ d) (s1\<lparr>inp := i2\<rparr>) =
      (Ok ((data @ d) @ concat (map frag_data fs)), s1\<lparr>inp := i2, inp := i,
        outp := outp (s1\<lparr>inp := i2\<rparr>) @ (if acks then concat (map fragment_ack fs) else [])\<rparr>) \<and> avail i = rest"
    by (rule Cons.IH) (use i2(2) Cons.prems(2,3) in \<open>simp_all add: s1_def\<close>)
  then show ?case using step f by (auto simp: s1_def)
qed

text \<open>Reading a message whose payload bytes are the given body, plain or fragmented.\<close>

lemma read_plain:
  assumes "avail (inp s) = dtx_header 0 1 (length body) i c ch e @ body @ rest"
    and "length body < 2 ^ 32" and "body \<noteq> []" and "parse_payload parse body = Ok (t, aux, p)"
  shows "\<exists>j. read_message_inner parse acks s = (Ok \<lparr>dm_msg_id = i, dm_conv_id = c, dm_channel = ch,
      dm_expects_reply = e, dm_msg_type = t, dm_aux = aux, dm_payload = p\<rparr>, s\<lparr>inp := j\<rparr>) \<and> avail j = rest"
proof -
  let ?h = "dtx_header 0 1 (length body) i c ch e"
  obtain i1 where i1: "dtx_read 32 s = (Ok ?h, s\<lparr>inp := i1\<rparr>)" "avail i1 = body @ rest"
    using dtx_read_next [OF assms(1) length_dtx_header] by blast
  obtain i2 where i2: "dtx_read (length body) (s\<lparr>inp := i1\<rparr>) = (Ok body, s\<lparr>inp := i2\<rparr>)" "avail i2 = rest"
    using dtx_read_next [of "s\<lparr>inp := i1\<rparr>" body rest] i1(2) by auto
  show ?thesis using i1(1) i2 parse_dtx_header [OF assms(2), of 0 1 i c ch e] assms(3,4)
    by (intro exI [of _ i2]) (simp add: read_message_inner_def hdr_message_def Let_def)
qed

lemma read_fragmented:
  assumes "avail (inp s) = dtx_header 0 count (length body) i c ch e @
      concat (map (fragment_bytes count) fs) @ rest"
    and "unat count = Suc (length fs)" and "fs \<noteq> []" and "concat (map frag_data fs) = body"
    and "length body < 2 ^ 32" and "body \<noteq> []" and "room s = None"
    and "parse_payload parse body = Ok (t, aux, p)"
  shows "\<exists>j. read_message_inner parse acks s = (Ok \<lparr>dm_msg_id = i, dm_conv_id = c, dm_channel = ch,
      dm_expects_reply = e, dm_msg_type = t, dm_aux = aux, dm_payload = p\<rparr>,
      s\<lparr>inp := j, outp := outp s @ (if acks then concat (map fragment_ack fs) else [])\<rparr>) \<and> avail j = rest"
proof -
  let ?h = "dtx_header 0 count (length body) i c ch e"
  obtain i1 where i1: "dtx_read 32 s = (Ok ?h, s\<lparr>inp := i1\<rparr>)"
    "avail i1 = concat (map (fragment_bytes count) fs) @ rest"
    using dtx_read_next [OF assms(1) length_dtx_header] by blast
  have small: "list_all (\<lambda>f. length (frag_data f) < 2 ^ 32) fs"
  proof (unfold list_all_iff, intro ballI)
    fix f assume "f \<in> set fs"
    then have "length (frag_data f) \<le> length (concat (map frag_data fs))"
      by (induction fs) auto
    then show "length (frag_data f) < 2 ^ 32" using assms(4,5) by simp
  qed
  obtain j where j: "read_fragments acks (length fs) [] (s\<lparr>inp := i1\<rparr>) = (Ok body, s\<lparr>inp := j,
      outp := outp s @ (if acks then concat (map fragment_ack fs) else [])\<rparr>)" "avail j = rest"
    using read_fragments_run [of "s\<lparr>inp := i1\<rparr>" count fs rest acks "[]"] i1(2) small assms(4,7) by auto
  have "1 < count" using assms(2,3) by (simp add: word_less_nat_alt)
  then show ?thesis using i1(1) j parse_dtx_header [OF assms(5), of 0 count i c ch e] assms(2,6,8)
    by (intro exI [of _ j]) (simp add: read_message_inner_def hdr_message_def Let_def)
qed

section \<open>Properties\<close>

lemma encode_raw_eq: "encode_raw i c ch e t aux pl = dtx_header 0 1
    (length (dtx_body (msg_type_code t) aux pl)) i c ch e @ dtx_body (msg_type_code t) aux pl"
  by (simp add: encode_raw_def Let_def)

lemma dtx_body_ne: "pl \<noteq> [] \<Longrightarrow> dtx_body t aux pl \<noteq> []"
  by (simp add: dtx_body_def Let_def)

text \<open>
  C32: Reading what \<open>encode_raw\<close> wrote gives back the ids, the channel, the reply flag, the message
  type, every auxiliary argument and the payload value, and leaves the bytes that follow; nothing
  is written, whatever the pieces in which the bytes arrive.
\<close>

theorem dtx_message_roundtrip:
  assumes "avail (inp s) = encode_raw i c ch e t aux pl @ rest" and "list_all aux_ok aux"
    and "length (dtx_body (msg_type_code t) aux pl) < 2 ^ 32" and "parse pl = Some v" and "pl \<noteq> []"
  shows "\<exists>j. read_message_inner parse acks s = (Ok \<lparr>dm_msg_id = i, dm_conv_id = c, dm_channel = ch,
      dm_expects_reply = e, dm_msg_type = msg_type_code t, dm_aux = aux, dm_payload = Some v\<rparr>,
      s\<lparr>inp := j\<rparr>) \<and> avail j = rest"
  by (rule read_plain) (use assms parse_payload_body [of aux "msg_type_code t" pl parse v, OF assms(2-5)] in \<open>simp_all add: encode_raw_eq dtx_body_ne\<close>)

definition demo_call :: bytes where
  "demo_call = encode_raw 5 0 1 True MtMethodInvoke [AInt32 7, ABytes [1, 2, 3], AInt64 9] (pv_enc (PBoolean True))"

definition demo_sock :: "bytes \<Rightarrow> sock" where
  "demo_sock bs = \<lparr>inp = [Data (take 11 bs), Data [], Data (drop 11 bs)], outp = [], room = None\<rparr>"

lemma avail_demo_sock [simp]: "avail (inp (demo_sock bs)) = bs" "room (demo_sock bs) = None"
    "outp (demo_sock bs) = []"
  by (simp_all add: demo_sock_def)

lemma demo_body_ok:
  "list_all aux_ok [AInt32 7, ABytes [1, 2, 3], AInt64 9]"
  "length (dtx_body 2 [AInt32 7, ABytes [1, 2, 3], AInt64 9] (pv_enc (PBoolean True))) < 2 ^ 32"
  "pv_parse (pv_enc (PBoolean True)) = Some (PBoolean True)" "pv_enc (PBoolean True) \<noteq> []"
  by (simp add: aux_ok_def, code_simp+)

theorem dtx_message_roundtrip_witness:
  "fst (read_message_inner pv_parse True (demo_sock demo_call)) = Ok \<lparr>dm_msg_id = 5, dm_conv_id = 0,
     dm_channel = 1, dm_expects_reply = True, dm_msg_type = 2,
     dm_aux = [AInt32 7, ABytes [1, 2, 3], AInt64 9], dm_payload = Some (PBoolean True)\<rparr>"
proof -
  have "avail (inp (demo_sock demo_call)) = encode_raw 5 0 1 True MtMethodInvoke
      [AInt32 7, ABytes [1, 2, 3], AInt64 9] (pv_enc (PBoolean True)) @ []"
    by (simp add: demo_call_def)
  from dtx_message_roundtrip [of _ _ _ _ _ _ _ _ _ pv_parse _ True, OF this demo_body_ok(1) _ demo_body_ok(3,4)]
  show ?thesis using demo_body_ok(2) by auto
qed

text \<open>
  C15: A message cut into fragments is read as the same message as if it had come in one piece:
  the header-only first fragment gives the ids, the payloads of the others are joined in order.
  Each fragment that asks for it is acknowledged once, in order, with its own id and its
  conversation id plus one.
\<close>

theorem dtx_fragments_reassembled:
  assumes "avail (inp s) = dtx_header 0 count (length body) i c ch e @
      concat (map (fragment_bytes count) fs) @ rest"
    and "avail (inp s') = dtx_header 0 1 (length body) i c ch e @ body @ rest"
    and "unat count = Suc (length fs)" and "fs \<noteq> []" and "concat (map frag_data fs) = body"
    and "length body < 2 ^ 32" and "body \<noteq> []" and "room s = None"
    and "parse_payload parse body = Ok (t, aux, p)"
  shows "\<exists>m j j'. read_message_inner parse acks s =
      (Ok m, s\<lparr>inp := j, outp := outp s @ (if acks then concat (map fragment_ack fs) else [])\<rparr>) \<and>
    read_message_inner parse acks s' = (Ok m, s'\<lparr>inp := j'\<rparr>) \<and> avail j = rest \<and> avail j' = rest"
  using read_fragmented [OF assms(1,3-9), of acks] read_plain [OF assms(2,6,7,9), of acks] by blast

definition demo_frags :: "dtx_fragment list" where
  "demo_frags = (let b = dtx_body 2 [] [2, 1] in
     [(1, 5, 0, 1, False, take 7 b), (2, 6, 0, 1, True, drop 7 b)])"

theorem dtx_fragments_reassembled_witness:
  "\<exists>m s1 s2. read_message_inner pv_parse True (demo_sock (dtx_header 0 3 18 5 0 1 False @
      concat (map (fragment_bytes 3) demo_frags))) = (Ok m, s1) \<and>
    read_message_inner pv_parse True (demo_sock (dtx_header 0 1 18 5 0 1 False @ dtx_body 2 [] [2, 1])) = (Ok m, s2) \<and>
    outp s1 = encode_ack_raw 6 1 1"
proof -
  let ?b = "dtx_body 2 [] [2, 1] :: bytes"
  let ?s = "demo_sock (dtx_header 0 3 18 5 0 1 False @ concat (map (fragment_bytes 3) demo_frags))"
  let ?s' = "demo_sock (dtx_header 0 1 18 5 0 1 False @ ?b)"
  have l: "length ?b = 18" and ne: "?b \<noteq> []" by code_simp+
  have d: "concat (map frag_data demo_frags) = ?b" by (simp add: demo_frags_def Let_def)
  have p: "parse_payload pv_parse ?b = Ok (2, [], Some (PBoolean True))" by code_simp
  have a: "concat (map fragment_ack demo_frags) = encode_ack_raw 6 1 1" by (simp add: demo_frags_def Let_def)
  have "\<exists>m j j'. read_message_inner pv_parse True ?s = (Ok m, ?s\<lparr>inp := j, outp := outp ?s @
      (if True then concat (map fragment_ack demo_frags) else [])\<rparr>) \<and>
    read_message_inner pv_parse True ?s' = (Ok m, ?s'\<lparr>inp := j'\<rparr>) \<and> avail j = [] \<and> avail j' = []"
    by (rule dtx_fragments_reassembled [OF _ _ _ _ d _ ne _ p])
      (simp_all add: l, simp_all add: demo_frags_def Let_def)
  then show ?thesis using a by auto
qed

text \<open>
  A message whose payload is shorter than the twelve bytes of the payload header that are
  read from it, but not empty, makes the reader panic: the slices are taken before any check.
\<close>

theorem dtx_short_payload_panics:
  "0 < length body \<and> length body < 12 \<longrightarrow>
    avail (inp s) = dtx_header 0 1 (length body) i c ch e @ body @ rest \<longrightarrow>
    fst (read_message_inner parse acks s) = Panic"
proof (intro impI, elim conjE)
  assume l: "0 < length body" "length body < 12"
    and a: "avail (inp s) = dtx_header 0 1 (length body) i c ch e @ body @ rest"
  let ?h = "dtx_header 0 1 (length body) i c ch e"
  have l32: "length body < 2 ^ 32" using l(2) by simp
  obtain i1 where i1: "dtx_read 32 s = (Ok ?h, s\<lparr>inp := i1\<rparr>)" "avail i1 = body @ rest"
    using dtx_read_next [OF a length_dtx_header] by blast
  obtain i2 where i2: "dtx_read (length body) (s\<lparr>inp := i1\<rparr>) = (Ok body, s\<lparr>inp := i2\<rparr>)"
    using dtx_read_next [of "s\<lparr>inp := i1\<rparr>" body rest] i1(2) by auto
  have "slice_idx body 8 12 = (Panic :: (dtx_error, bytes) outcome)"
    using l(2) by (simp add: slice_idx_def slice_get_def)
  then have "parse_payload parse body = Panic"
    by (cases "length body < 4"; cases "length body < 8")
      (simp_all add: parse_payload_def slice_idx_def slice_get_def)
  then show "fst (read_message_inner parse acks s) = Panic"
    using i1(1) i2 parse_dtx_header [OF l32, of 0 1 i c ch e] l(1)
    by (simp add: read_message_inner_def Let_def lift_o_def)
qed

theorem dtx_short_payload_panics_witness:
  "fst (read_message_inner pv_parse True (demo_sock (dtx_header 0 1 3 5 0 1 False @ [1, 2, 3]))) = Panic"
  using dtx_short_payload_panics [of "[1, 2, 3]" "demo_sock (dtx_header 0 1 3 5 0 1 False @ [1, 2, 3])"
    5 0 1 False "[]" pv_parse True] by (simp add: numeral_3_eq_3)

end
