(* ===== verification/DtxConn.thy ===== *)
theory DtxConn
  imports Dtx
begin

text \<open>
  The blocking connection of \<open>src/src/dtx/mod.rs\<close>: \<open>DtxConn\<close> and its \<open>reader_loop\<close>. Each map of the
  connection has its own lock, held for one access, so starting a call, registering a channel,
  writing a frame and handling one received message are atomic steps; the paths of \<open>dtx_reach\<close>
  are their interleavings. Every \<open>mpsc::sync_channel\<close> is a queue with a number: \<open>dx_calls\<close> holds
  those of \<open>call\<close> and \<open>call_full\<close> (with the message id the caller waits for), \<open>dx_queues\<close> those
  that \<open>register_channel\<close> returns, \<open>None\<close> once the receiver is dropped. The maps hold the number
  of the queue instead of its sender. A send on a full queue of 32 messages blocks the reader
  thread, which keeps the lock on the dispatchers: \<open>dx_blocked\<close> is the send it is blocked in.
\<close>

section \<open>The connection\<close>

record dtx_conn =
  dx_sock :: sock
  dx_next_id :: u32
  dx_next_chan :: u32
  dx_waiters :: "u32 \<rightharpoonup> nat"
  dx_calls :: "(u32 \<times> dtx_message list) list"
  dx_dispatchers :: "u32 \<rightharpoonup> nat"
  dx_queues :: "dtx_message list option list"
  dx_blocked :: "(nat \<times> dtx_message) option"
  dx_reading :: bool

type_synonym 'a dtx = "(dtx_conn, dtx_error, 'a) prog"

definition dtx_new :: "sock \<Rightarrow> dtx_conn" where
  "dtx_new s = \<lparr>dx_sock = s, dx_next_id = 5, dx_next_chan = 1, dx_waiters = Map.empty, dx_calls = [],
    dx_dispatchers = Map.empty, dx_queues = [], dx_blocked = None, dx_reading = True\<rparr>"

definition dtx_alloc_id :: "dtx_conn \<Rightarrow> u32 \<times> dtx_conn" where
  "dtx_alloc_id c = (dx_next_id c, c\<lparr>dx_next_id := max (dx_next_id c + 1) 1\<rparr>)"

definition write_bytes :: "bytes \<Rightarrow> unit dtx" where
  "write_bytes data c = (case on_err DtxIo (write_all data) (dx_sock c) of
     (r, s) \<Rightarrow> (r, c\<lparr>dx_sock := s\<rparr>))"

text \<open>
  \<open>call\<close> and \<open>call_full\<close> up to the wait: the waiter is registered before the frame is written and
  stays when the write fails. The result is the number of the queue the caller waits on.
\<close>

definition call_start ::
  "(pvalue \<Rightarrow> bytes) \<Rightarrow> u32 \<Rightarrow> string \<Rightarrow> AuxValue list \<Rightarrow> nat dtx" where
  "call_start bin channel selector aux c =
    (let (id, c1) = dtx_alloc_id c; k = length (dx_calls c);
         c2 = c1\<lparr>dx_calls := dx_calls c @ [(id, [])], dx_waiters := (dx_waiters c)(id \<mapsto> k)\<rparr>
     in bnd (write_bytes (encode_call bin id 0 channel True selector aux)) (\<lambda>_. ret k) c2)"

text \<open>
  \<open>rx.recv_timeout\<close> at its deadline: the reply if one was delivered, a disconnect if the sender is
  gone without one, otherwise a timeout. The sender is in the waiter map until a reply takes it
  out or a later call with the same id replaces it.
\<close>

definition call_wait :: "nat \<Rightarrow> dtx_message dtx" where
  "call_wait k c = (case dx_calls c ! k of (i, ms) \<Rightarrow>
     (case ms of
        m # _ \<Rightarrow> Ok m
      | [] \<Rightarrow> if dx_waiters c i = Some k then Err DtxProtocol else Err DtxClosed, c))"

definition call_async ::
  "(pvalue \<Rightarrow> bytes) \<Rightarrow> u32 \<Rightarrow> string \<Rightarrow> AuxValue list \<Rightarrow> unit dtx" where
  "call_async bin channel selector aux c =
    (let (id, c1) = dtx_alloc_id c
     in write_bytes (encode_call bin id 0 channel False selector aux) c1)"

definition dtx_handshake :: "(pvalue \<Rightarrow> bytes) \<Rightarrow> unit dtx" where
  "dtx_handshake bin =
    call_async bin 0 ''_notifyOfPublishedCapabilities:'' [ABytes (archive_capabilities_dict bin)]"

definition request_channel_start :: "(pvalue \<Rightarrow> bytes) \<Rightarrow> string \<Rightarrow> (u32 \<times> nat) dtx" where
  "request_channel_start bin identifier c =
    (let code = dx_next_chan c; c1 = c\<lparr>dx_next_chan := code + 1\<rparr>
     in bnd (call_start bin 0 ''_requestChannelWithCode:identifier:''
               [AInt32 code, ABytes (archive_string bin identifier)])
          (\<lambda>k. ret (code, k)) c1)"

definition register_channel :: "u32 \<Rightarrow> dtx_conn \<Rightarrow> nat \<times> dtx_conn" where
  "register_channel channel c =
    (let q = length (dx_queues c)
     in (q, c\<lparr>dx_queues := dx_queues c @ [Some []],
              dx_dispatchers := (dx_dispatchers c)(channel \<mapsto> q)\<rparr>))"

definition dtx_ack :: "dtx_message \<Rightarrow> unit dtx" where
  "dtx_ack req = write_bytes (encode_ack req)"

definition dtx_reply :: "dtx_message \<Rightarrow> bytes \<Rightarrow> unit dtx" where
  "dtx_reply req payload = write_bytes (encode_reply req payload)"

text \<open>The receiver that \<open>register_channel\<close> returned: taking a message from it, dropping it.\<close>

definition queue_recv :: "nat \<Rightarrow> dtx_conn \<Rightarrow> dtx_message option \<times> dtx_conn" where
  "queue_recv q c = (case dx_queues c ! q of
     Some (m # ms) \<Rightarrow> (Some m, c\<lparr>dx_queues := (dx_queues c)[q := Some ms]\<rparr>)
   | _ \<Rightarrow> (None, c))"

definition queue_drop :: "nat \<Rightarrow> dtx_conn \<Rightarrow> dtx_conn" where
  "queue_drop q c = c\<lparr>dx_queues := (dx_queues c)[q := None]\<rparr>"

section \<open>The reader thread\<close>

definition QUEUE_LEN :: nat where "QUEUE_LEN = 32"

text \<open>\<open>tx.send(msg)\<close> on a registered channel.\<close>

definition queue_send :: "nat \<Rightarrow> dtx_message \<Rightarrow> dtx_conn \<Rightarrow> dtx_conn" where
  "queue_send q m c = (case dx_queues c ! q of
     None \<Rightarrow> c\<lparr>dx_blocked := None\<rparr>
   | Some ms \<Rightarrow>
       if length ms < QUEUE_LEN
       then c\<lparr>dx_queues := (dx_queues c)[q := Some (ms @ [m])], dx_blocked := None\<rparr>
       else c\<lparr>dx_blocked := Some (q, m)\<rparr>)"

text \<open>
  The body of \<open>reader_loop\<close> after a message was read. The code takes the lock on the dispatchers
  twice, to see whether there is a handler and to send to it; here both looks are one step, so a
  channel that is registered or dropped exactly between them is not modelled.
\<close>

definition dispatch :: "dtx_message \<Rightarrow> dtx_conn \<Rightarrow> dtx_conn" where
  "dispatch msg c =
    (if 0 < dm_conv_id msg then
       (case dx_waiters c (dm_msg_id msg) of
          None \<Rightarrow> c
        | Some k \<Rightarrow> c\<lparr>dx_waiters := (dx_waiters c)(dm_msg_id msg := None),
            dx_calls := (dx_calls c)[k := (fst (dx_calls c ! k), snd (dx_calls c ! k) @ [msg])]\<rparr>)
     else if dm_msg_type msg = msg_type_code MtAck then c
     else
       let handler = dx_dispatchers c (dm_channel msg);
           c1 = (if dm_expects_reply msg \<and> handler = None then snd (write_bytes (encode_ack msg) c) else c)
       in case handler of None \<Rightarrow> c1 | Some q \<Rightarrow> queue_send q msg c1)"

text \<open>One turn of the thread: it retries the send it is blocked in, or handles the next message.\<close>

definition reader_step :: "(bytes \<Rightarrow> pvalue option) \<Rightarrow> dtx_conn \<Rightarrow> dtx_conn" where
  "reader_step parse c =
    (if \<not> dx_reading c then c
     else case dx_blocked c of
       Some (q, m) \<Rightarrow> queue_send q m c
     | None \<Rightarrow> (case read_message_inner parse True (dx_sock c) of
         (Ok m, s) \<Rightarrow> dispatch m (c\<lparr>dx_sock := s\<rparr>)
       | (_, s) \<Rightarrow> c\<lparr>dx_sock := s, dx_reading := False\<rparr>))"

definition reader_run :: "(bytes \<Rightarrow> pvalue option) \<Rightarrow> nat \<Rightarrow> dtx_conn \<Rightarrow> dtx_conn" where
  "reader_run parse n = (reader_step parse) ^^ n"

text \<open>
  Whole calls, with the number of turns the reader thread takes before the caller's deadline.
\<close>

definition call_full :: "(pvalue \<Rightarrow> bytes) \<Rightarrow> (bytes \<Rightarrow> pvalue option) \<Rightarrow> nat \<Rightarrow>
    u32 \<Rightarrow> string \<Rightarrow> AuxValue list \<Rightarrow> dtx_message dtx" where
  "call_full bin parse n channel selector aux =
    bnd (call_start bin channel selector aux) (\<lambda>k c. call_wait k (reader_run parse n c))"

definition dtx_call :: "(pvalue \<Rightarrow> bytes) \<Rightarrow> (bytes \<Rightarrow> pvalue option) \<Rightarrow> nat \<Rightarrow>
    u32 \<Rightarrow> string \<Rightarrow> AuxValue list \<Rightarrow> pvalue option dtx" where
  "dtx_call bin parse n channel selector aux =
    bnd (call_full bin parse n channel selector aux) (\<lambda>m. ret (dm_payload m))"

definition request_channel :: "(pvalue \<Rightarrow> bytes) \<Rightarrow> (bytes \<Rightarrow> pvalue option) \<Rightarrow> nat \<Rightarrow> string \<Rightarrow> u32 dtx" where
  "request_channel bin parse n identifier =
    bnd (request_channel_start bin identifier)
      (\<lambda>(code, k) c. bnd (call_wait k) (\<lambda>_. ret code) (reader_run parse n c))"

section \<open>Interleavings\<close>

text \<open>
  The states after any sequence of calls, channel requests and registrations, sent frames, turns
  of the reader thread, receives, drops and arrivals of bytes; the number counts the message ids
  handed out. A registration waits while the reader thread holds the lock on the dispatchers.
\<close>

inductive dtx_reach :: "(pvalue \<Rightarrow> bytes) \<Rightarrow> (bytes \<Rightarrow> pvalue option) \<Rightarrow> nat \<Rightarrow> dtx_conn \<Rightarrow> bool"
  for bin parse where
  new: "dtx_reach bin parse 0 (dtx_new s)"
| call: "dtx_reach bin parse n c \<Longrightarrow> dtx_reach bin parse (Suc n) (snd (call_start bin ch sel aux c))"
| async: "dtx_reach bin parse n c \<Longrightarrow> dtx_reach bin parse (Suc n) (snd (call_async bin ch sel aux c))"
| channel: "dtx_reach bin parse n c \<Longrightarrow> dtx_reach bin parse (Suc n) (snd (request_channel_start bin name c))"
| register: "dtx_reach bin parse n c \<Longrightarrow> dx_blocked c = None \<Longrightarrow>
    dtx_reach bin parse n (snd (register_channel ch c))"
| send: "dtx_reach bin parse n c \<Longrightarrow> dtx_reach bin parse n (snd (write_bytes bs c))"
| reader: "dtx_reach bin parse n c \<Longrightarrow> dtx_reach bin parse n (reader_step parse c)"
| recv: "dtx_reach bin parse n c \<Longrightarrow> dtx_reach bin parse n (snd (queue_recv q c))"
| drop: "dtx_reach bin parse n c \<Longrightarrow> dtx_reach bin parse n (queue_drop q c)"
| arrive: "dtx_reach bin parse n c \<Longrightarrow> dtx_reach bin parse n (c\<lparr>dx_sock := (dx_sock c)\<lparr>inp := i\<rparr>\<rparr>)"

interpretation dids: cyclic_alloc "\<lambda>x :: u32. max (x + 1) 1" 1
  using wrap_next_alloc [of "1 :: u32"] by (simp add: wrap_next_def [abs_def])

abbreviation id_seq :: "nat \<Rightarrow> u32 list" where
  "id_seq n \<equiv> alloc_seq (\<lambda>x. max (x + 1) 1) n 5"

lemma fresh_id:
  assumes "Suc n \<le> 2 ^ 32 - 1"
  shows "((\<lambda>x :: u32. max (x + 1) 1) ^^ n) 5 \<notin> set (id_seq n)"
proof -
  have "distinct (id_seq (Suc n))"
    by (rule dids.alloc_distinct) (use assms in \<open>simp_all add: dids.span_def\<close>)
  then show ?thesis by (simp add: alloc_seq_snoc del: alloc_seq.simps)
qed

text \<open>
  A call is settled when it has one reply, with its id, or none and is still in the waiter map.
\<close>

fun settled :: "(u32 \<rightharpoonup> nat) \<Rightarrow> nat \<Rightarrow> u32 \<times> dtx_message list \<Rightarrow> bool" where
  "settled w k (i, ms) = (case ms of
     [] \<Rightarrow> w i = Some k
   | m # r \<Rightarrow> r = [] \<and> w i = None \<and> dm_msg_id m = i \<and> 0 < dm_conv_id m)"

definition calls_inv :: "nat \<Rightarrow> dtx_conn \<Rightarrow> bool" where
  "calls_inv n c \<longleftrightarrow> dx_next_id c = ((\<lambda>x. max (x + 1) 1) ^^ n) 5 \<and>
    set (map fst (dx_calls c)) \<subseteq> set (id_seq n) \<and> distinct (map fst (dx_calls c)) \<and>
    (\<forall>i k. dx_waiters c i = Some k \<longrightarrow> k < length (dx_calls c) \<and> dx_calls c ! k = (i, [])) \<and>
    (\<forall>k < length (dx_calls c). settled (dx_waiters c) k (dx_calls c ! k))"

text \<open>Only these three fields matter to the invariant.\<close>

definition call_part :: "dtx_conn \<Rightarrow> u32 \<times> (u32 \<rightharpoonup> nat) \<times> (u32 \<times> dtx_message list) list" where
  "call_part c = (dx_next_id c, dx_waiters c, dx_calls c)"

lemma calls_inv_cong: "call_part c = call_part d \<Longrightarrow> calls_inv n c = calls_inv n d"
  by (simp add: calls_inv_def call_part_def)

lemma call_part_write: "call_part (snd (write_bytes bs c)) = call_part c"
  by (simp add: write_bytes_def call_part_def split: prod.splits)

lemma call_part_queue:
  "call_part (snd (queue_recv q c)) = call_part c" "call_part (queue_drop q c) = call_part c"
  "call_part (queue_send q m c) = call_part c" "call_part (snd (register_channel ch c)) = call_part c"
  by (auto simp: queue_recv_def queue_drop_def queue_send_def register_channel_def call_part_def Let_def
      split: option.splits list.splits)

lemma calls_inv_new: "calls_inv 0 (dtx_new s)"
  by (simp add: calls_inv_def dtx_new_def)

lemma settled_upd: "i \<noteq> j \<Longrightarrow> settled (w(i := x)) k (j, ms) = settled w k (j, ms)"
  by (simp split: list.splits)

lemma calls_inv_waiter:
  "calls_inv n c \<Longrightarrow> dx_waiters c i = Some k \<Longrightarrow> k < length (dx_calls c) \<and> dx_calls c ! k = (i, [])"
  by (auto simp: calls_inv_def)

lemma calls_inv_deliver:
  assumes "calls_inv n c" and "0 < dm_conv_id m" and "dx_waiters c (dm_msg_id m) = Some k"
  shows "calls_inv n (dispatch m c)"
proof -
  let ?i = "dm_msg_id m"
  have k: "k < length (dx_calls c)" "dx_calls c ! k = (?i, [])"
    using assms by (auto simp: calls_inv_def)
  have d: "dispatch m c = c\<lparr>dx_waiters := (dx_waiters c)(?i := None), dx_calls := (dx_calls c)[k := (?i, [m])]\<rparr>"
    using assms(2,3) k(2) by (simp add: dispatch_def)
  have other: "fst (dx_calls c ! l) \<noteq> ?i" if "l < length (dx_calls c)" "l \<noteq> k" for l
    using assms(1) that k nth_eq_iff_index_eq [of "map fst (dx_calls c)" l k] by (auto simp: calls_inv_def)
  have ids: "map fst ((dx_calls c)[k := (?i, [m])]) = map fst (dx_calls c)"
    using k by (simp add: map_update list_update_same_conv)
  have w: "(dx_calls c)[k := (?i, [m])] ! k' = (i, [])" if "dx_waiters c i = Some k'" "i \<noteq> ?i" for i k'
    using calls_inv_waiter [OF assms(1) that(1)] that(2) k(2) by (cases "k' = k") auto
  have s: "settled ((dx_waiters c)(?i := None)) l ((dx_calls c)[k := (?i, [m])] ! l)"
    if "l < length (dx_calls c)" for l
  proof (cases "l = k")
    case True
    then show ?thesis using k assms(2) by simp
  next
    case False
    have "settled (dx_waiters c) l (dx_calls c ! l)" using assms(1) that by (simp add: calls_inv_def)
    then show ?thesis using False other [OF that False]
      by (cases "dx_calls c ! l") (simp add: settled_upd del: settled.simps)
  qed
  show ?thesis using assms(1) ids w s by (auto simp: calls_inv_def d split: if_splits)
qed

lemma calls_inv_dispatch:
  assumes "calls_inv n c"
  shows "calls_inv n (dispatch m c)"
proof (cases "0 < dm_conv_id m")
  case True
  show ?thesis
  proof (cases "dx_waiters c (dm_msg_id m)")
    case None
    then show ?thesis using True assms by (simp add: dispatch_def)
  next
    case (Some k)
    with assms True show ?thesis by (rule calls_inv_deliver)
  qed
next
  case False
  have "call_part (dispatch m c) = call_part c"
    using False by (auto simp: dispatch_def Let_def call_part_write call_part_queue split: option.splits)
  from calls_inv_cong [OF this] assms show ?thesis by blast
qed

lemma calls_inv_read:
  assumes "calls_inv n c"
  shows "calls_inv n (reader_step parse c)"
proof -
  have up: "call_part (c\<lparr>dx_sock := s, dx_reading := b\<rparr>) = call_part c" 
    "call_part (c\<lparr>dx_sock := s\<rparr>) = call_part c" for s b by (simp_all add: call_part_def)
  note cong = calls_inv_cong [OF up(1)] calls_inv_cong [OF up(2)] calls_inv_cong [OF call_part_queue(3)]
  show ?thesis using assms calls_inv_dispatch
    by (auto simp: reader_step_def cong split: option.split prod.split outcome.split)
qed

lemma call_start_part:
  "call_part (snd (call_start bin ch sel aux c)) =
    (max (dx_next_id c + 1) 1, (dx_waiters c)(dx_next_id c \<mapsto> length (dx_calls c)), dx_calls c @ [(dx_next_id c, [])])"
proof -
  let ?c = "c\<lparr>dx_next_id := max (dx_next_id c + 1) 1, dx_calls := dx_calls c @ [(dx_next_id c, [])],
      dx_waiters := (dx_waiters c)(dx_next_id c \<mapsto> length (dx_calls c))\<rparr>"
  have "call_part (snd (bnd (write_bytes bs) (\<lambda>_. ret k) ?c)) = call_part ?c" for bs and k :: nat
    using call_part_write [of bs ?c] by (auto simp: bnd_def split: prod.splits outcome.splits)
  then show ?thesis by (simp add: call_start_def dtx_alloc_id_def Let_def call_part_def)
qed

lemma calls_inv_call:
  assumes "calls_inv n c" and "Suc n \<le> 2 ^ 32 - 1"
    and "call_part d = (max (dx_next_id c + 1) 1, (dx_waiters c)(dx_next_id c \<mapsto> length (dx_calls c)),
      dx_calls c @ [(dx_next_id c, [])])"
  shows "calls_inv (Suc n) d"
proof -
  let ?i = "dx_next_id c" and ?k = "length (dx_calls c)"
  have d: "dx_next_id d = max (?i + 1) 1" "dx_waiters d = (dx_waiters c)(?i \<mapsto> ?k)"
    "dx_calls d = dx_calls c @ [(?i, [])]" using assms(3) by (simp_all add: call_part_def)
  have i: "?i = ((\<lambda>x. max (x + 1) 1) ^^ n) 5" using assms(1) by (simp add: calls_inv_def)
  have new: "?i \<notin> set (map fst (dx_calls c))"
    using fresh_id [OF assms(2)] assms(1) i by (auto simp: calls_inv_def)
  have w: "k < length (dx_calls d) \<and> dx_calls d ! k = (i, [])" if "dx_waiters d i = Some k" for i k
    using calls_inv_waiter [OF assms(1), of i k] that by (cases "i = ?i") (auto simp: d nth_append)
  have s: "settled (dx_waiters d) l (dx_calls d ! l)" if l: "l < length (dx_calls d)" for l
  proof (cases "l < ?k")
    case True
    then have "settled (dx_waiters c) l (dx_calls c ! l)" using assms(1) by (simp add: calls_inv_def)
    moreover have "fst (dx_calls c ! l) \<noteq> ?i" using new nth_mem [OF True] by force
    ultimately show ?thesis using True
      by (cases "dx_calls c ! l") (simp add: d nth_append settled_upd del: settled.simps)
  next
    case False
    then show ?thesis using l by (simp add: d nth_append)
  qed
  have "set (map fst (dx_calls d)) \<subseteq> set (id_seq (Suc n))"
    using assms(1) i by (auto simp: d calls_inv_def alloc_seq_snoc simp del: alloc_seq.simps)
  moreover have "distinct (map fst (dx_calls d))"
    using assms(1) new by (auto simp: d calls_inv_def)
  ultimately show ?thesis using w s i by (simp add: calls_inv_def d(1) del: alloc_seq.simps)
qed

lemma calls_inv_async:
  assumes "calls_inv n c"
  shows "calls_inv (Suc n) (snd (call_async bin ch sel aux c))"
proof -
  have "calls_inv (Suc n) (c\<lparr>dx_next_id := max (dx_next_id c + 1) 1\<rparr>)"
    using assms by (auto simp: calls_inv_def alloc_seq_snoc simp del: alloc_seq.simps)
  then show ?thesis
    using calls_inv_cong [OF call_part_write] by (simp add: call_async_def dtx_alloc_id_def)
qed

lemma calls_inv_reach: "dtx_reach bin parse n c \<Longrightarrow> n \<le> 2 ^ 32 - 1 \<Longrightarrow> calls_inv n c"
proof (induction rule: dtx_reach.induct)
  case (new s)
  then show ?case by (simp add: calls_inv_new)
next
  case (call n c ch sel aux)
  then show ?case by (intro calls_inv_call [OF _ _ call_start_part]) simp_all
next
  case (async n c ch sel aux)
  then show ?case by (intro calls_inv_async) simp
next
  case (channel n c name)
  let ?c = "c\<lparr>dx_next_chan := dx_next_chan c + 1\<rparr>"
  have "snd (request_channel_start bin name c) = snd (call_start bin 0 ''_requestChannelWithCode:identifier:''
      [AInt32 (dx_next_chan c), ABytes (archive_string bin name)] ?c)"
    by (auto simp: request_channel_start_def Let_def bnd_def split: prod.splits outcome.splits)
  moreover have "calls_inv n ?c" using channel calls_inv_cong [of ?c c] by (simp add: call_part_def)
  ultimately show ?case using channel.prems by (simp only:) (rule calls_inv_call [OF _ _ call_start_part])
next
  case (register n c ch)
  then show ?case using calls_inv_cong [OF call_part_queue(4)] by blast
next
  case (send n c bs)
  then show ?case using calls_inv_cong [OF call_part_write] by blast
next
  case (reader n c)
  then show ?case by (intro calls_inv_read) simp
next
  case (recv n c q)
  then show ?case using calls_inv_cong [OF call_part_queue(1)] by blast
next
  case (drop n c q)
  then show ?case using calls_inv_cong [OF call_part_queue(2)] by blast
next
  case (arrive n c i)
  then show ?case by (subst calls_inv_cong [of _ c]) (simp_all add: call_part_def)
qed

text \<open>
  C2: In every interleaving in which at most \<open>2^32 - 1\<close> message ids were handed out, each call has
  either got exactly one message, a reply that carries the call's own id, or none, and then the
  wait ends in a timeout and never in \<open>Closed\<close>, even if the reader thread has stopped.
\<close>

theorem dtx_replies_demultiplexed:
  assumes "dtx_reach bin parse n c" and "n \<le> 2 ^ 32 - 1" and "k < length (dx_calls c)"
  shows "(\<exists>i m. dx_calls c ! k = (i, [m]) \<and> dm_msg_id m = i \<and> 0 < dm_conv_id m \<and>
        fst (call_wait k c) = Ok m) \<or>
    (\<exists>i. dx_calls c ! k = (i, []) \<and> fst (call_wait k c) = Err DtxProtocol)"
proof -
  obtain i ms where im: "dx_calls c ! k = (i, ms)" by (cases "dx_calls c ! k")
  have "settled (dx_waiters c) k (i, ms)"
    using calls_inv_reach [OF assms(1,2)] assms(3) im by (auto simp: calls_inv_def)
  then show ?thesis using im by (cases ms) (auto simp: call_wait_def)
qed

definition demo_reply :: dtx_message where
  "demo_reply = \<lparr>dm_msg_id = 5, dm_conv_id = 1, dm_channel = 0, dm_expects_reply = False, dm_msg_type = 3,
     dm_aux = [], dm_payload = Some (PBoolean True)\<rparr>"


section \<open>Messages on the wire\<close>

text \<open>A message with a payload, or with an empty payload header as in an acknowledgement.\<close>

definition dtx_wire :: "(pvalue \<Rightarrow> bytes) \<Rightarrow> dtx_message \<Rightarrow> bytes" where
  "dtx_wire bin m =
    (let body = (case dm_payload m of
           None \<Rightarrow> u32_le (dm_msg_type m) @ replicate 12 0
         | Some v \<Rightarrow> dtx_body (dm_msg_type m) (dm_aux m) (bin v))
     in dtx_header 0 1 (length body) (dm_msg_id m) (dm_conv_id m) (dm_channel m) (dm_expects_reply m) @ body)"

definition wire_ok :: "(pvalue \<Rightarrow> bytes) \<Rightarrow> (bytes \<Rightarrow> pvalue option) \<Rightarrow> dtx_message \<Rightarrow> bool" where
  "wire_ok bin parse m = (case dm_payload m of
     None \<Rightarrow> dm_aux m = []
   | Some v \<Rightarrow> list_all aux_ok (dm_aux m) \<and> length (dtx_body (dm_msg_type m) (dm_aux m) (bin v)) < 2 ^ 32 \<and>
       parse (bin v) = Some v \<and> bin v \<noteq> [])"

lemma parse_payload_empty: "parse_payload parse (u32_le t @ replicate 12 0) = Ok (t, [], None)"
proof -
  have "u32_of_le [0, 0, 0, 0] = 0" by code_simp
  then show ?thesis by (simp add: parse_payload_def slice_idx_def slice_get_def numeral_eq_Suc)
qed

lemma read_wire:
  assumes "wire_ok bin parse m" and "avail (inp s) = dtx_wire bin m @ rest"
  shows "\<exists>j. read_message_inner parse acks s = (Ok m, s\<lparr>inp := j\<rparr>) \<and> avail j = rest"
proof (cases "dm_payload m")
  case None
  have "\<exists>j. read_message_inner parse acks s = (Ok \<lparr>dm_msg_id = dm_msg_id m, dm_conv_id = dm_conv_id m,
      dm_channel = dm_channel m, dm_expects_reply = dm_expects_reply m, dm_msg_type = dm_msg_type m,
      dm_aux = [], dm_payload = None\<rparr>, s\<lparr>inp := j\<rparr>) \<and> avail j = rest"
    by (rule read_plain [OF _ _ _ parse_payload_empty]) (use assms(2) None in \<open>simp_all add: dtx_wire_def\<close>)
  then show ?thesis using assms(1) None by (cases m) (simp add: wire_ok_def)
next
  case (Some v)
  then have ok: "list_all aux_ok (dm_aux m)" "length (dtx_body (dm_msg_type m) (dm_aux m) (bin v)) < 2 ^ 32"
    "parse (bin v) = Some v" "bin v \<noteq> []" using assms(1) by (simp_all add: wire_ok_def)
  have "\<exists>j. read_message_inner parse acks s = (Ok \<lparr>dm_msg_id = dm_msg_id m, dm_conv_id = dm_conv_id m,
      dm_channel = dm_channel m, dm_expects_reply = dm_expects_reply m, dm_msg_type = dm_msg_type m,
      dm_aux = dm_aux m, dm_payload = Some v\<rparr>, s\<lparr>inp := j\<rparr>) \<and> avail j = rest"
    by (rule read_plain [OF _ ok(2) dtx_body_ne [OF ok(4)] parse_payload_body [of _ _ _ parse, OF ok]])
      (use assms(2) Some in \<open>simp add: dtx_wire_def Let_def\<close>)
  then show ?thesis using Some by (cases m) simp
qed

lemma reader_step_wire:
  assumes "dx_reading c" and "dx_blocked c = None" and "wire_ok bin parse m"
    and "avail (inp (dx_sock c)) = dtx_wire bin m @ rest"
  shows "\<exists>j. reader_step parse c = dispatch m (c\<lparr>dx_sock := (dx_sock c)\<lparr>inp := j\<rparr>\<rparr>) \<and> avail j = rest"
  using read_wire [OF assms(3,4), of True] assms(1,2) by (auto simp: reader_step_def)

lemma reader_run_Suc: "reader_run parse (Suc n) c = reader_run parse n (reader_step parse c)"
  by (simp add: reader_run_def funpow_swap1)

section \<open>A call and its reply\<close>

text \<open>What the reader thread writes for a message on a channel nobody registered.\<close>

definition auto_ack :: "dtx_message \<Rightarrow> bytes" where
  "auto_ack m = (if dm_conv_id m = 0 \<and> dm_msg_type m \<noteq> 0 \<and> dm_expects_reply m then encode_ack m else [])"

definition call_pending :: "nat \<Rightarrow> nat \<Rightarrow> u32 \<Rightarrow> dtx_conn \<Rightarrow> bool" where
  "call_pending n k i c \<longleftrightarrow> calls_inv n c \<and> k < length (dx_calls c) \<and> dx_calls c ! k = (i, []) \<and>
    dx_reading c \<and> dx_blocked c = None \<and> room (dx_sock c) = None"

lemma dispatch_other:
  assumes "call_pending n k i c" and "dm_conv_id m = 0 \<or> dm_msg_id m \<noteq> i"
    and "dx_dispatchers c (dm_channel m) = None"
  shows "call_pending n k i (dispatch m c) \<and> dx_dispatchers (dispatch m c) = dx_dispatchers c \<and>
    dx_sock (dispatch m c) = (dx_sock c)\<lparr>outp := outp (dx_sock c) @ auto_ack m\<rparr>"
proof (cases "dm_conv_id m = 0")
  case True
  have inv: "calls_inv n (dispatch m c)" using assms(1) calls_inv_dispatch by (simp add: call_pending_def)
  have "dispatch m c = c\<lparr>dx_sock := (dx_sock c)\<lparr>outp := outp (dx_sock c) @ auto_ack m\<rparr>\<rparr>"
    using assms True by (simp add: dispatch_def auto_ack_def write_bytes_def on_err_def call_pending_def)
  then show ?thesis using assms(1) inv by (simp add: call_pending_def)
next
  case False
  then have pos: "0 < dm_conv_id m" by (simp add: word_neq_0_conv)
  have inv: "calls_inv n (dispatch m c)" using assms(1) calls_inv_dispatch by (simp add: call_pending_def)
  show ?thesis
  proof (cases "dx_waiters c (dm_msg_id m)")
    case None
    then show ?thesis using assms(1) False pos by (simp add: dispatch_def auto_ack_def)
  next
    case (Some l)
    have "dx_calls c ! l = (dm_msg_id m, [])"
      using calls_inv_waiter [of n c, OF _ Some] assms(1) by (simp add: call_pending_def)
    then have "l \<noteq> k" using assms(1,2) False by (auto simp: call_pending_def)
    then show ?thesis using assms(1) False pos inv Some
      by (auto simp: dispatch_def auto_ack_def call_pending_def)
  qed
qed

lemma run_others:
  assumes "call_pending n k i c" and "list_all (wire_ok bin parse) ms"
    and "list_all (\<lambda>m. (dm_conv_id m = 0 \<or> dm_msg_id m \<noteq> i) \<and> dx_dispatchers c (dm_channel m) = None) ms"
    and "avail (inp (dx_sock c)) = concat (map (dtx_wire bin) ms) @ rest"
  shows "\<exists>c'. reader_run parse (length ms) c = c' \<and> call_pending n k i c' \<and> avail (inp (dx_sock c')) = rest \<and>
    outp (dx_sock c') = outp (dx_sock c) @ concat (map auto_ack ms)"
  using assms
proof (induction ms arbitrary: c)
  case Nil
  then show ?case by (simp add: reader_run_def)
next
  case (Cons m ms)
  let ?tl = "concat (map (dtx_wire bin) ms) @ rest"
  obtain j where j: "reader_step parse c = dispatch m (c\<lparr>dx_sock := (dx_sock c)\<lparr>inp := j\<rparr>\<rparr>)" "avail j = ?tl"
    using reader_step_wire [of c bin parse m ?tl] Cons.prems by (auto simp: call_pending_def)
  let ?c = "c\<lparr>dx_sock := (dx_sock c)\<lparr>inp := j\<rparr>\<rparr>"
  have "call_pending n k i ?c" using Cons.prems(1) calls_inv_cong [of ?c c]
    by (simp add: call_pending_def call_part_def)
  from dispatch_other [OF this, of m] have d: "call_pending n k i (dispatch m ?c)"
    "dx_dispatchers (dispatch m ?c) = dx_dispatchers c"
    "dx_sock (dispatch m ?c) = (dx_sock c)\<lparr>inp := j, outp := outp (dx_sock c) @ auto_ack m\<rparr>"
    using Cons.prems(3) by simp_all
  show ?case using Cons.IH [OF d(1)] Cons.prems(2,3) d(2,3) j by (simp add: reader_run_Suc)
qed

lemma reader_run_add: "reader_run parse (a + b) c = reader_run parse b (reader_run parse a c)"
  by (simp add: reader_run_def add.commute [of a] funpow_add)

lemma call_wait_state: "call_wait k c = (fst (call_wait k c), c)"
  by (simp add: call_wait_def split: prod.split)

lemma dispatch_own:
  assumes "call_pending n k (dm_msg_id m) c" and "0 < dm_conv_id m"
  shows "fst (call_wait k (dispatch m c)) = Ok m \<and> dx_sock (dispatch m c) = dx_sock c"
proof -
  have "settled (dx_waiters c) k (dm_msg_id m, [])" using assms(1) by (auto simp: call_pending_def calls_inv_def)
  then have "dx_waiters c (dm_msg_id m) = Some k" by simp
  then show ?thesis using assms by (simp add: dispatch_def call_wait_def call_pending_def)
qed

text \<open>
  C16: A call returns the reply with its own id, whatever messages come before that reply: other
  replies, stray acknowledgements and invocations on channels nobody registered. On the wire
  there is the call's frame, then one acknowledgement for each such invocation that expects one,
  in the order they came, and nothing else.
\<close>

theorem dtx_call_returns_own_reply:
  assumes "dtx_reach bin parse n c" and "n < 2 ^ 32 - 1"
    and "dx_reading c" and "dx_blocked c = None" and "room (dx_sock c) = None"
    and "avail (inp (dx_sock c)) = concat (map (dtx_wire bin) (pre @ [m])) @ rest"
    and "list_all (wire_ok bin parse) (pre @ [m])"
    and "list_all (\<lambda>x. (dm_conv_id x = 0 \<or> dm_msg_id x \<noteq> dx_next_id c) \<and> dx_dispatchers c (dm_channel x) = None) pre"
    and "0 < dm_conv_id m" and "dm_msg_id m = dx_next_id c"
  shows "\<exists>c'. call_full bin parse (Suc (length pre)) ch sel aux c = (Ok m, c') \<and>
    outp (dx_sock c') = outp (dx_sock c) @ encode_call bin (dx_next_id c) 0 ch True sel aux @ concat (map auto_ack pre)"
proof -
  let ?i = "dx_next_id c" and ?k = "length (dx_calls c)"
  let ?f = "encode_call bin ?i 0 ch True sel aux"
  define c1 where "c1 = c\<lparr>dx_next_id := max (?i + 1) 1, dx_calls := dx_calls c @ [(?i, [])],
    dx_waiters := (dx_waiters c)(?i \<mapsto> ?k), dx_sock := (dx_sock c)\<lparr>outp := outp (dx_sock c) @ ?f\<rparr>\<rparr>"
  have st: "call_start bin ch sel aux c = (Ok ?k, c1)"
    using assms(5) by (simp add: call_start_def dtx_alloc_id_def Let_def c1_def write_bytes_def on_err_def bnd_def)
  have "calls_inv n c" using assms(1,2) by (intro calls_inv_reach) simp_all
  then have "calls_inv (Suc n) c1"
    by (rule calls_inv_call) (use assms(2) in \<open>simp_all add: c1_def call_part_def\<close>)
  then have p1: "call_pending (Suc n) ?k ?i c1" using assms(3,4,5) by (simp add: call_pending_def c1_def)
  have "\<exists>c'. reader_run parse (length pre) c1 = c' \<and> call_pending (Suc n) ?k ?i c' \<and>
      avail (inp (dx_sock c')) = dtx_wire bin m @ rest \<and> outp (dx_sock c') = outp (dx_sock c1) @ concat (map auto_ack pre)"
    by (rule run_others [OF p1]) (use assms(6-8) in \<open>simp_all add: c1_def\<close>)
  then obtain c2 where c2: "reader_run parse (length pre) c1 = c2" "call_pending (Suc n) ?k ?i c2"
    "avail (inp (dx_sock c2)) = dtx_wire bin m @ rest" "outp (dx_sock c2) = outp (dx_sock c1) @ concat (map auto_ack pre)"
    by blast
  obtain j where j: "reader_step parse c2 = dispatch m (c2\<lparr>dx_sock := (dx_sock c2)\<lparr>inp := j\<rparr>\<rparr>)"
    using reader_step_wire [of c2 bin parse m rest] c2 assms(7) by (auto simp: call_pending_def)
  let ?c3 = "c2\<lparr>dx_sock := (dx_sock c2)\<lparr>inp := j\<rparr>\<rparr>"
  have "call_pending (Suc n) ?k (dm_msg_id m) ?c3" using c2(2) assms(10) calls_inv_cong [of ?c3 c2]
    by (simp add: call_pending_def call_part_def)
  from dispatch_own [OF this assms(9)] have r: "fst (call_wait ?k (dispatch m ?c3)) = Ok m"
    "dx_sock (dispatch m ?c3) = dx_sock ?c3" by blast+
  have "reader_run parse (Suc (length pre)) c1 = dispatch m ?c3"
    using reader_run_add [of parse "length pre" 1 c1] c2(1) j by (simp add: reader_run_def)
  then have "call_full bin parse (Suc (length pre)) ch sel aux c = (Ok m, dispatch m ?c3)"
    using st r(1) call_wait_state [of ?k "dispatch m ?c3"] by (simp add: call_full_def)
  then show ?thesis using r(2) c2(4) by (simp add: c1_def)
qed

definition demo_event :: dtx_message where
  "demo_event = \<lparr>dm_msg_id = 9, dm_conv_id = 0, dm_channel = 3, dm_expects_reply = True, dm_msg_type = 2,
     dm_aux = [AInt32 4], dm_payload = Some (PBoolean False)\<rparr>"

definition demo_dtx :: "dtx_message list \<Rightarrow> dtx_conn" where
  "demo_dtx ms = dtx_new (demo_sock (concat (map (dtx_wire pv_enc) ms)))"

lemma demo_dtx_simps [simp]:
  "dx_reading (demo_dtx ms)" "dx_blocked (demo_dtx ms) = None" "room (dx_sock (demo_dtx ms)) = None"
  "avail (inp (dx_sock (demo_dtx ms))) = concat (map (dtx_wire pv_enc) ms)" "dx_next_id (demo_dtx ms) = 5"
  "dx_dispatchers (demo_dtx ms) = Map.empty" "outp (dx_sock (demo_dtx ms)) = []" "dx_calls (demo_dtx ms) = []"
  by (simp_all add: demo_dtx_def dtx_new_def)

lemma demo_wire_ok: "wire_ok pv_enc pv_parse demo_reply" "wire_ok pv_enc pv_parse demo_event"
  by code_simp+

theorem dtx_call_returns_own_reply_witness:
  "\<exists>c'. call_full pv_enc pv_parse 2 0 ''f'' [] (demo_dtx [demo_event, demo_reply]) = (Ok demo_reply, c') \<and>
    outp (dx_sock c') = encode_call pv_enc 5 0 0 True ''f'' [] @ encode_ack demo_event"
proof -
  have "dtx_reach pv_enc pv_parse 0 (demo_dtx [demo_event, demo_reply])"
    unfolding demo_dtx_def by (rule dtx_reach.new)
  moreover have "(0 :: nat) < 2 ^ 32 - 1" by simp
  ultimately have "\<exists>c'. call_full pv_enc pv_parse (Suc (length [demo_event])) 0 ''f'' [] (demo_dtx [demo_event, demo_reply]) =
      (Ok demo_reply, c') \<and> outp (dx_sock c') = [] @ encode_call pv_enc 5 0 0 True ''f'' [] @ concat (map auto_ack [demo_event])"
    using dtx_call_returns_own_reply [of pv_enc pv_parse 0 "demo_dtx [demo_event, demo_reply]" "[demo_event]"
      demo_reply "[]" 0 "''f''" "[]"] demo_wire_ok by (simp add: demo_event_def demo_reply_def)
  then show ?thesis by (simp add: numeral_2_eq_2 auto_ack_def demo_event_def)
qed

theorem dtx_replies_demultiplexed_witness:
  "fst (call_wait 0 (reader_step pv_parse (snd (call_start pv_enc 0 ''f'' [] (demo_dtx []))))) = Err DtxProtocol"
proof -
  let ?c = "reader_step pv_parse (snd (call_start pv_enc 0 ''f'' [] (demo_dtx [])))"
  have "dtx_reach pv_enc pv_parse 0 (demo_dtx [])" unfolding demo_dtx_def by (rule dtx_reach.new)
  then have r: "dtx_reach pv_enc pv_parse 1 ?c"
    unfolding One_nat_def by (intro dtx_reach.reader dtx_reach.call)
  have "dx_calls ?c = [(5, [])]" by code_simp
  then show ?thesis using dtx_replies_demultiplexed [OF r, of 0] by auto
qed

section \<open>Registered channels\<close>

definition handled :: "u32 \<Rightarrow> dtx_message \<Rightarrow> bool" where
  "handled ch m \<longleftrightarrow> dm_conv_id m = 0 \<and> dm_msg_type m \<noteq> 0 \<and> dm_channel m = ch"

lemma reader_step_handled:
  assumes "dx_reading c" and "dx_blocked c = None" and "dx_dispatchers c ch = Some q"
    and "wire_ok bin parse m" and "handled ch m" and "avail (inp (dx_sock c)) = dtx_wire bin m @ rest"
  shows "\<exists>j. reader_step parse c = queue_send q m (c\<lparr>dx_sock := (dx_sock c)\<lparr>inp := j\<rparr>\<rparr>) \<and> avail j = rest"
  using reader_step_wire [OF assms(1,2,4,6)] assms(3,5) by (auto simp: dispatch_def handled_def)

lemma reader_run_handled:
  assumes "dx_reading c" and "dx_blocked c = None" and "dx_dispatchers c ch = Some q"
    and "q < length (dx_queues c)" and "dx_queues c ! q = Some old" and "length old + length ms \<le> QUEUE_LEN"
    and "list_all (wire_ok bin parse) ms" and "list_all (handled ch) ms"
    and "avail (inp (dx_sock c)) = concat (map (dtx_wire bin) ms) @ rest"
  shows "\<exists>j. reader_run parse (length ms) c = c\<lparr>dx_sock := (dx_sock c)\<lparr>inp := j\<rparr>,
      dx_queues := (dx_queues c)[q := Some (old @ ms)]\<rparr> \<and> avail j = rest"
  using assms
proof (induction ms arbitrary: c old)
  case Nil
  then have "(dx_queues c)[q := Some (old @ [])] = dx_queues c" by (simp add: list_update_same_conv)
  then show ?case using Nil.prems(9) by (intro exI [of _ "inp (dx_sock c)"]) (simp add: reader_run_def)
next
  case (Cons m ms)
  let ?tl = "concat (map (dtx_wire bin) ms) @ rest"
  obtain j where j: "reader_step parse c = queue_send q m (c\<lparr>dx_sock := (dx_sock c)\<lparr>inp := j\<rparr>\<rparr>)" "avail j = ?tl"
    using reader_step_handled [OF Cons.prems(1-3), of bin parse m ?tl] Cons.prems(7-9) by auto
  define d where "d = c\<lparr>dx_sock := (dx_sock c)\<lparr>inp := j\<rparr>, dx_queues := (dx_queues c)[q := Some (old @ [m])]\<rparr>"
  have d: "reader_step parse c = d" using Cons.prems(2,5,6) j(1) by (simp add: queue_send_def d_def)
  have "\<exists>i. reader_run parse (length ms) d = d\<lparr>dx_sock := (dx_sock d)\<lparr>inp := i\<rparr>,
      dx_queues := (dx_queues d)[q := Some ((old @ [m]) @ ms)]\<rparr> \<and> avail i = rest"
    by (rule Cons.IH) (use Cons.prems j(2) in \<open>simp_all add: d_def\<close>)
  then show ?case using d by (simp add: reader_run_Suc d_def)
qed

lemma reader_stuck:
  assumes "dx_reading c" and "dx_blocked c = Some (q, m)" and "dx_queues c ! q = Some ms" and "QUEUE_LEN \<le> length ms"
  shows "reader_run parse n c = c"
proof (induction n)
  case (Suc n)
  have "reader_step parse c = c" using assms by (simp add: reader_step_def queue_send_def)
  then show ?case using Suc by (simp add: reader_run_Suc)
qed (simp add: reader_run_def)

text \<open>
  C37: Invocations on a registered channel reach its receiver in order and unacknowledged. When the
  receiver has not taken the first 32 of them, the next one stops the reader thread: no later
  turn of it changes anything, so no call gets its reply.
\<close>

theorem dtx_handler_queue:
  assumes "dx_reading c" and "dx_blocked c = None" and "dx_dispatchers c ch = Some q"
    and "q < length (dx_queues c)" and "dx_queues c ! q = Some []" and "length ms = 32"
    and "list_all (wire_ok bin parse) (ms @ [m])" and "list_all (handled ch) (ms @ [m])"
    and "avail (inp (dx_sock c)) = concat (map (dtx_wire bin) (ms @ [m])) @ rest"
  shows "dx_queues (reader_run parse 32 c) ! q = Some ms \<and> dx_blocked (reader_run parse 32 c) = None \<and>
    outp (dx_sock (reader_run parse 32 c)) = outp (dx_sock c) \<and>
    dx_blocked (reader_run parse 33 c) = Some (q, m) \<and>
    reader_run parse (33 + n) c = reader_run parse 33 c"
proof -
  have "\<exists>j. reader_run parse (length ms) c = c\<lparr>dx_sock := (dx_sock c)\<lparr>inp := j\<rparr>,
      dx_queues := (dx_queues c)[q := Some ([] @ ms)]\<rparr> \<and> avail j = dtx_wire bin m @ rest"
    by (rule reader_run_handled [OF assms(1-5)]) (use assms(6-9) in \<open>simp_all add: QUEUE_LEN_def\<close>)
  then obtain j where j: "reader_run parse 32 c = c\<lparr>dx_sock := (dx_sock c)\<lparr>inp := j\<rparr>,
      dx_queues := (dx_queues c)[q := Some ms]\<rparr>" "avail j = dtx_wire bin m @ rest"
    using assms(6) by auto
  let ?d = "reader_run parse 32 c"
  have "\<exists>i. reader_step parse ?d = queue_send q m (?d\<lparr>dx_sock := (dx_sock ?d)\<lparr>inp := i\<rparr>\<rparr>) \<and> avail i = rest"
    by (rule reader_step_handled [of _ ch]) (use assms(1-3,7,8) j in auto)
  then obtain i where i: "reader_step parse ?d = queue_send q m (?d\<lparr>dx_sock := (dx_sock ?d)\<lparr>inp := i\<rparr>\<rparr>)" by blast
  have e: "reader_run parse 33 c = reader_step parse ?d"
    using reader_run_add [of parse 32 1 c] by (simp add: reader_run_def)
  have b: "dx_blocked (reader_run parse 33 c) = Some (q, m)" "dx_queues (reader_run parse 33 c) ! q = Some ms"
    "dx_reading (reader_run parse 33 c)"
    unfolding e i by (use j(1) assms(1,4,6) in \<open>simp_all add: queue_send_def QUEUE_LEN_def\<close>)
  have "reader_run parse n (reader_run parse 33 c) = reader_run parse 33 c"
    by (rule reader_stuck [OF b(3,1,2)]) (simp add: assms(6) QUEUE_LEN_def)
  then show ?thesis using j(1) b(1) assms(2,4) reader_run_add [of parse 33 n c] by simp
qed

theorem dtx_handler_queue_witness:
  "dx_blocked (reader_run pv_parse 33 (snd (register_channel 3 (demo_dtx (replicate 33 demo_event))))) = Some (0, demo_event)"
proof -
  let ?c = "snd (register_channel 3 (demo_dtx (replicate 33 demo_event)))"
  have c: "dx_reading ?c" "dx_blocked ?c = None" "dx_dispatchers ?c 3 = Some 0" "0 < length (dx_queues ?c)"
    "dx_queues ?c ! 0 = Some []" by (simp_all add: register_channel_def demo_dtx_def dtx_new_def)
  have r: "replicate 32 demo_event @ [demo_event] = replicate 33 demo_event"
    by (simp add: replicate_append_same numeral_eq_Suc)
  have w: "avail (inp (dx_sock ?c)) = concat (map (dtx_wire pv_enc) (replicate 33 demo_event)) @ []"
    by (simp add: register_channel_def Let_def)
  have h: "handled 3 demo_event" by (simp add: handled_def demo_event_def)
  show ?thesis
    using dtx_handler_queue [OF c, of "replicate 32 demo_event" pv_enc pv_parse demo_event "[]"] w r demo_wire_ok(2) h
    by (simp add: list_all_iff)
qed

end
