(* ===== verification/PlistSvc.thy ===== *)
theory PlistSvc
  imports Lockdown
begin

text \<open>
  What the lockdown services and the tunnel daemon share: messages of a four-byte big-endian
  length and a property list, most readers with a bound on the length. The contract of such a
  connection is the locale \<open>plist_peer\<close>: as long as the peer has answers ready, a request goes
  out whole and the next answer comes in. From it follow, once for every client, that sequences
  of exchanges stay in step and that a loop that polls answers computes a fold over them.
\<close>

section \<open>Bounded frames\<close>

text \<open>\<open>bad\<close> is the check on the length, \<open>mk\<close> the error it gives.\<close>

definition recv_plist_lim :: "(nat \<Rightarrow> bool) \<Rightarrow> (nat \<Rightarrow> 'e) \<Rightarrow> (plist_io_error \<Rightarrow> 'e) \<Rightarrow> (bytes \<Rightarrow> pvalue option) \<Rightarrow>
    (sock, 'e, pvalue) prog" where
  "recv_plist_lim bad mk conv parse =
    bnd (on_err (conv \<circ> plist_io_of) (on_inp (read_exact 4))) (\<lambda>h.
      let n = unat (u32_of_be h)
      in if bad n then throw (mk n)
         else bnd (on_err (conv \<circ> plist_io_of) (on_inp (read_exact n))) (\<lambda>body.
           lift_o (ok_or (parse body) (conv PPlist))))"

definition wf_answer :: "(nat \<Rightarrow> bool) \<Rightarrow> (pvalue \<Rightarrow> bytes) \<Rightarrow> (bytes \<Rightarrow> pvalue option) \<Rightarrow> pvalue \<Rightarrow> bool" where
  "wf_answer bad xml parse v \<longleftrightarrow> length (xml v) < 2 ^ 32 \<and> \<not> bad (length (xml v)) \<and> parse (xml v) = Some v"

lemma recv_plist_lim_next:
  assumes "wf_answer bad xml parse v" and "avail (inp s) = lp_frame (xml v) @ rest"
  shows "\<exists>i. recv_plist_lim bad mk conv parse s = (Ok v, s\<lparr>inp := i\<rparr>) \<and> avail i = rest \<and> after i = after (inp s)"
proof -
  let ?n = "length (xml v)"
  have "avail (inp s) = u32_be (word_of_nat ?n) @ (xml v @ rest)" using assms(2) by (simp add: lp_frame_def)
  then obtain s1 where s1: "read_exact 4 (inp s) = (Ok (u32_be (word_of_nat ?n)), s1)" "avail s1 = xml v @ rest"
    "after s1 = after (inp s)" by (rule read_exact_next) simp
  obtain s2 where s2: "read_exact ?n s1 = (Ok (xml v), s2)" "avail s2 = rest" "after s2 = after s1"
    using s1(2) by (rule read_exact_next) simp
  have "unat (u32_of_be (u32_be (word_of_nat ?n))) = ?n" using assms(1) by (simp add: wf_answer_def)
  then show ?thesis using assms(1) s1 s2 by (intro exI [of _ s2]) (simp add: recv_plist_lim_def wf_answer_def)
qed

text \<open>A length out of bounds is an error before any of the body is read.\<close>

lemma recv_plist_lim_bad:
  assumes "avail (inp s) = u32_be n @ rest" and "bad (unat n)"
  shows "\<exists>i. recv_plist_lim bad mk conv parse s = (Err (mk (unat n)), s\<lparr>inp := i\<rparr>) \<and> avail i = rest"
proof -
  obtain s1 where "read_exact 4 (inp s) = (Ok (u32_be n), s1)" "avail s1 = rest"
    using assms(1) by (rule read_exact_next) simp
  then show ?thesis using assms(2) by (intro exI [of _ s1]) (simp add: recv_plist_lim_def)
qed

lemma recv_plist_lim_weight:
  "recv_plist_lim bad mk conv parse s = (Ok v, s') \<Longrightarrow> weight (inp s') < weight (inp s)"
  by (auto simp: recv_plist_lim_def bnd_Ok_iff on_err_Ok_iff on_inp_Ok_iff Let_def split: if_splits
      dest!: read_exact_weight)

section \<open>Exchanges\<close>

text \<open>One request, one answer, and what a client makes of it.\<close>

definition ask :: "(pvalue \<Rightarrow> ('s, 'e, unit) prog) \<Rightarrow> ('s, 'e, pvalue) prog \<Rightarrow> pvalue \<Rightarrow>
    (pvalue \<Rightarrow> ('e, 'a) outcome) \<Rightarrow> ('s, 'e, 'a) prog" where
  "ask snd_v rcv_v q f = bnd (snd_v q) (\<lambda>_. bnd rcv_v (\<lambda>v. lift_o (f v)))"

primrec ask_all :: "(pvalue \<Rightarrow> ('s, 'e, unit) prog) \<Rightarrow> ('s, 'e, pvalue) prog \<Rightarrow>
    (pvalue \<times> (pvalue \<Rightarrow> ('e, 'a) outcome)) list \<Rightarrow> 's \<Rightarrow> ('e, 'a) outcome list \<times> 's" where
  "ask_all snd_v rcv_v [] s = ([], s)"
| "ask_all snd_v rcv_v (c # cs) s =
    (let (r, s1) = ask snd_v rcv_v (fst c) (snd c) s; (rs, s2) = ask_all snd_v rcv_v cs s1 in (r # rs, s2))"

text \<open>
  A loop that receives until \<open>step\<close> gives a result: \<open>Inl\<close> goes on with a new accumulator. What
  it computes over the answers alone is \<open>poll_ref\<close>.
\<close>

fun poll_ref :: "('a \<Rightarrow> pvalue \<Rightarrow> 'a + ('e, 'b) outcome) \<Rightarrow> 'a \<Rightarrow> pvalue list \<Rightarrow> (('e, 'b) outcome \<times> pvalue list) option" where
  "poll_ref step acc [] = None"
| "poll_ref step acc (v # vs) = (case step acc v of Inl acc' \<Rightarrow> poll_ref step acc' vs | Inr r \<Rightarrow> Some (r, vs))"

locale plist_peer =
  fixes snd_v :: "pvalue \<Rightarrow> ('s, 'e, unit) prog" and rcv_v :: "('s, 'e, pvalue) prog"
    and ready :: "pvalue list \<Rightarrow> 's \<Rightarrow> bool" and out :: "'s \<Rightarrow> bytes" and enc :: "pvalue \<Rightarrow> bytes"
  assumes sends: "ready vs s \<Longrightarrow> \<exists>s'. snd_v q s = (Ok (), s') \<and> ready vs s' \<and> out s' = out s @ enc q"
    and receives: "ready (v # vs) s \<Longrightarrow> \<exists>s'. rcv_v s = (Ok v, s') \<and> ready vs s' \<and> out s' = out s"
begin

lemma ask_spec:
  assumes "ready (v # vs) s"
  shows "\<exists>s'. ask snd_v rcv_v q f s = (f v, s') \<and> ready vs s' \<and> out s' = out s @ enc q"
proof -
  obtain s1 where s1: "snd_v q s = (Ok (), s1)" "ready (v # vs) s1" "out s1 = out s @ enc q"
    using sends [OF assms, of q] by blast
  obtain s2 where "rcv_v s1 = (Ok v, s2)" "ready vs s2" "out s2 = out s1" using receives [OF s1(2)] by blast
  with s1 show ?thesis by (simp add: ask_def)
qed

lemma ask_all_spec:
  assumes "ready (vs @ ws) s" and "length vs = length cs"
  shows "\<exists>s'. ask_all snd_v rcv_v cs s = (map2 (\<lambda>c v. snd c v) cs vs, s') \<and> ready ws s' \<and>
    out s' = out s @ concat (map (\<lambda>c. enc (fst c)) cs)"
  using assms
proof (induction cs arbitrary: vs s)
  case (Cons c cs)
  then obtain v vs' where vs: "vs = v # vs'" "length vs' = length cs" by (cases vs) auto
  obtain s1 where s1: "ask snd_v rcv_v (fst c) (snd c) s = (snd c v, s1)" "ready (vs' @ ws) s1"
    "out s1 = out s @ enc (fst c)"
    using ask_spec [of v "vs' @ ws" s "fst c" "snd c"] Cons.prems(1) vs(1) by auto
  obtain s2 where "ask_all snd_v rcv_v cs s1 = (map2 (\<lambda>c v. snd c v) cs vs', s2)" "ready ws s2"
    "out s2 = out s1 @ concat (map (\<lambda>c. enc (fst c)) cs)"
    using Cons.IH [OF s1(2) vs(2)] by blast
  with s1 vs(1) show ?case by simp
qed simp

end

section \<open>Service sockets\<close>

fun ld_of :: "plist_io_error \<Rightarrow> ld_error" where
  "ld_of (PIo k) = LdIo k"
| "ld_of PClosed = LdClosed"
| "ld_of PPlist = LdPlist"

definition svc_ready :: "(nat \<Rightarrow> bool) \<Rightarrow> (pvalue \<Rightarrow> bytes) \<Rightarrow> (bytes \<Rightarrow> pvalue option) \<Rightarrow> bytes \<Rightarrow> pvalue list \<Rightarrow> sock \<Rightarrow> bool" where
  "svc_ready bad xml parse rest vs s \<longleftrightarrow> room s = None \<and>
    avail (inp s) = concat (map (\<lambda>v. lp_frame (xml v)) vs) @ rest \<and> list_all (wf_answer bad xml parse) vs"

lemma plist_peer_sock:
  "plist_peer (\<lambda>v. on_err conv (send_plist xml v)) (recv_plist_lim bad mk conv parse)
    (svc_ready bad xml parse rest) outp (\<lambda>v. lp_frame (xml v))"
proof
  fix vs s q assume "svc_ready bad xml parse rest vs s"
  then show "\<exists>s'. on_err conv (send_plist xml q) s = (Ok (), s') \<and> svc_ready bad xml parse rest vs s' \<and>
      outp s' = outp s @ lp_frame (xml q)"
    by (simp add: svc_ready_def send_plist_unlimited)
next
  fix v vs s assume r: "svc_ready bad xml parse rest (v # vs) s"
  then have "wf_answer bad xml parse v"
    "avail (inp s) = lp_frame (xml v) @ (concat (map (\<lambda>v. lp_frame (xml v)) vs) @ rest)"
    by (simp_all add: svc_ready_def)
  from recv_plist_lim_next [OF this, of mk conv] obtain i where
    "recv_plist_lim bad mk conv parse s = (Ok v, s\<lparr>inp := i\<rparr>)"
    "avail i = concat (map (\<lambda>v. lp_frame (xml v)) vs) @ rest" by blast
  with r show "\<exists>s'. recv_plist_lim bad mk conv parse s = (Ok v, s') \<and> svc_ready bad xml parse rest vs s' \<and> outp s' = outp s"
    by (simp add: svc_ready_def)
qed

function plist_loop :: "(nat \<Rightarrow> bool) \<Rightarrow> (nat \<Rightarrow> ld_error) \<Rightarrow> (bytes \<Rightarrow> pvalue option) \<Rightarrow>
    ('a \<Rightarrow> pvalue \<Rightarrow> 'a + (ld_error, 'b) outcome) \<Rightarrow> 'a \<Rightarrow> (sock, ld_error, 'b) prog" where
  "plist_loop bad mk parse step acc s = (case recv_plist_lim bad mk ld_of parse s of
     (Ok v, s') \<Rightarrow> (case step acc v of Inl acc' \<Rightarrow> plist_loop bad mk parse step acc' s' | Inr r \<Rightarrow> (r, s'))
   | (Err e, s') \<Rightarrow> (Err e, s')
   | (Panic, s') \<Rightarrow> (Panic, s'))"
  by pat_completeness auto
termination
  by (relation "measure (\<lambda>(bad, mk, parse, step, acc, s). weight (inp s))")
    (auto dest!: sym [of _ "recv_plist_lim _ _ _ _ _"] recv_plist_lim_weight)

declare plist_loop.simps [simp del]

lemma plist_loop_spec:
  assumes "svc_ready bad xml parse rest vs s" and "poll_ref step acc vs = Some (r, ws)"
  shows "\<exists>s'. plist_loop bad mk parse step acc s = (r, s') \<and> svc_ready bad xml parse rest ws s' \<and> outp s' = outp s"
  using assms
proof (induction vs arbitrary: acc s)
  case (Cons v vs)
  obtain s1 where s1: "recv_plist_lim bad mk ld_of parse s = (Ok v, s1)" "svc_ready bad xml parse rest vs s1"
    "outp s1 = outp s"
    using plist_peer.receives [OF plist_peer_sock Cons.prems(1), of mk ld_of] by blast
  show ?case
  proof (cases "step acc v")
    case (Inl acc')
    then have "poll_ref step acc' vs = Some (r, ws)" using Cons.prems(2) by simp
    from Cons.IH [OF s1(2) this] obtain s' where "plist_loop bad mk parse step acc' s1 = (r, s')"
      "svc_ready bad xml parse rest ws s'" "outp s' = outp s1" by blast
    with Inl s1 show ?thesis by (simp add: plist_loop.simps [of bad mk parse step acc s])
  next
    case (Inr x)
    with Cons.prems(2) s1 show ?thesis by (simp add: plist_loop.simps [of bad mk parse step acc s])
  qed
qed simp

interpretation svc: plist_peer "\<lambda>v. on_err conv (send_plist xml v)" "recv_plist_lim bad mk conv parse"
  "svc_ready bad xml parse rest" outp "\<lambda>v. lp_frame (xml v)" for bad mk conv xml parse rest
  by (rule plist_peer_sock)

text \<open>The lockdown session is such a peer too.\<close>

lemma ls_sends:
  assumes "ls_ready xml parse vs rest c"
  shows "\<exists>c'. send_raw xml q c = (Ok (), c') \<and> ls_ready xml parse vs rest c' \<and> ls_out c' = ls_out c @ lp_frame (xml q)"
proof -
  obtain s where s: "ls_sock c = Some s" "room s = None" using assms by (auto simp: ls_ready_def)
  let ?s1 = "s\<lparr>outp := outp s @ lp_frame (xml q)\<rparr>"
  have "send_raw xml q c = (Ok (), set_sock ?s1 c)"
    unfolding send_raw_def using s(1) send_plist_unlimited [OF s(2)] by (rule with_stream_Ok)
  moreover have "ls_ready xml parse vs rest (set_sock ?s1 c)" using assms s by (auto simp: ls_ready_def)
  ultimately show ?thesis using s(1) by (simp add: ls_out_def)
qed

lemma ls_receives:
  assumes "ls_ready xml parse (v # vs) rest c"
  shows "\<exists>c'. recv_raw parse c = (Ok v, c') \<and> ls_ready xml parse vs rest c' \<and> ls_out c' = ls_out c"
proof -
  obtain s where s: "ls_sock c = Some s" "room s = None"
    "avail (inp s) = lp_frame (xml v) @ (concat (map (\<lambda>v. lp_frame (xml v)) vs) @ rest)"
    using assms by (auto simp: ls_ready_def)
  have v: "length (xml v) < 2 ^ 32" "parse (xml v) = Some v" using assms by (auto simp: ls_ready_def)
  obtain i where i: "recv_plist parse s = (Ok v, s\<lparr>inp := i\<rparr>)"
    "avail i = concat (map (\<lambda>v. lp_frame (xml v)) vs) @ rest"
    using recv_plist_next [of xml v parse s, OF v s(3)] by blast
  have "recv_raw parse c = (Ok v, set_sock (s\<lparr>inp := i\<rparr>) c)"
    unfolding recv_raw_def using s(1) i(1) by (rule with_stream_Ok)
  moreover have "ls_ready xml parse vs rest (set_sock (s\<lparr>inp := i\<rparr>) c)" using assms s i(2) by (auto simp: ls_ready_def)
  ultimately show ?thesis using s(1) by (simp add: ls_out_def)
qed

interpretation ls_peer: plist_peer "send_raw xml" "recv_raw parse" "\<lambda>vs. ls_ready xml parse vs rest"
  ls_out "\<lambda>v. lp_frame (xml v)" for xml parse rest
  by unfold_locales (rule ls_sends ls_receives, assumption)+

end
