(* ===== verification/Services.thy ===== *)
theory Services
  imports PlistSvc
begin

text \<open>
  The lockdown services that speak property lists: \<open>amfi.rs\<close>, \<open>wireless.rs\<close>, \<open>activation.rs\<close>,
  \<open>diagnostics.rs\<close>, \<open>springboard.rs\<close>, \<open>mcinstall.rs\<close>, \<open>screenshot.rs\<close> and
  \<open>installation_proxy.rs\<close> under \<open>src/src/lockdown/services\<close>. A client is its stream. The files
  repeat the same framing with different bounds on the length of an answer, which are the
  functions of \<open>service\<close>; every method is a definition. Texts that print a value with \<open>{:?}\<close> are
  cut before it.
\<close>

section \<open>Framing of the services\<close>

datatype service = Amfi | Wireless | Activation | Diagnostics | SpringBoard | McInstall | Screenshot | InstallationProxy

fun SERVICE :: "service \<Rightarrow> string" where
  "SERVICE Amfi = ''com.apple.amfi.lockdown''"
| "SERVICE Wireless = ''com.apple.mobile.wireless_lockdown''"
| "SERVICE Activation = ''com.apple.mobileactivationd''"
| "SERVICE Diagnostics = ''com.apple.mobile.diagnostics_relay''"
| "SERVICE SpringBoard = ''com.apple.springboardservices''"
| "SERVICE McInstall = ''com.apple.mobile.MCInstall''"
| "SERVICE Screenshot = ''com.apple.mobile.screenshotr''"
| "SERVICE InstallationProxy = ''com.apple.mobile.installation_proxy''"

fun svc_max :: "service \<Rightarrow> nat option" where
  "svc_max Amfi = Some (1024 * 1024)"
| "svc_max Wireless = Some (1024 * 1024)"
| "svc_max Activation = Some (8 * 1024 * 1024)"
| "svc_max Diagnostics = Some (4 * 1024 * 1024)"
| "svc_max McInstall = Some (8 * 1024 * 1024)"
| "svc_max Screenshot = Some (32 * 1024 * 1024)"
| "svc_max SpringBoard = None"
| "svc_max InstallationProxy = None"

definition svc_bad :: "service \<Rightarrow> nat \<Rightarrow> bool" where
  "svc_bad k n = (case svc_max k of None \<Rightarrow> False | Some m \<Rightarrow> n = 0 \<or> m < n)"

fun svc_len_error :: "service \<Rightarrow> nat \<Rightarrow> ld_error" where
  "svc_len_error Amfi n = LdLockdown (''amfi: bad response length '' @ show_nat n)"
| "svc_len_error Wireless n = LdLockdown (''wireless: bad response length '' @ show_nat n)"
| "svc_len_error Activation n = LdLockdown (''activation: bad response length '' @ show_nat n)"
| "svc_len_error McInstall n = LdLockdown (''MCInstall: bad response length '' @ show_nat n)"
| "svc_len_error Diagnostics n = LdAfc (''diagnostics: implausible length '' @ show_nat n)"
| "svc_len_error Screenshot n = LdAfc (''screenshot: implausible message length '' @ show_nat n)"
| "svc_len_error _ n = LdClosed"

type_synonym 'a svc = "(sock, ld_error, 'a) prog"

definition svc_send :: "(pvalue \<Rightarrow> bytes) \<Rightarrow> pvalue \<Rightarrow> unit svc" where
  "svc_send xml v = on_err ld_of (send_plist xml v)"

definition svc_recv :: "service \<Rightarrow> (bytes \<Rightarrow> pvalue option) \<Rightarrow> pvalue svc" where
  "svc_recv k parse = recv_plist_lim (svc_bad k) (svc_len_error k) ld_of parse"

definition svc_ask :: "service \<Rightarrow> (pvalue \<Rightarrow> bytes) \<Rightarrow> (bytes \<Rightarrow> pvalue option) \<Rightarrow> pvalue \<Rightarrow>
    (pvalue \<Rightarrow> (ld_error, 'a) outcome) \<Rightarrow> 'a svc" where
  "svc_ask k xml parse q f = ask (svc_send xml) (svc_recv k parse) q f"

definition svc_connect :: "service \<Rightarrow> (pvalue \<Rightarrow> bytes) \<Rightarrow> (bytes \<Rightarrow> pvalue option) \<Rightarrow> ('c, 'd) tls \<Rightarrow>
    connection \<Rightarrow> sock ls" where
  "svc_connect k xml parse T mux = connect_service xml parse T (SERVICE k) mux"

text \<open>\<open>v.as_dictionary().and_then(|d| d.get(key))\<close>, and the accessors chained to it.\<close>

definition vget :: "pvalue \<Rightarrow> string \<Rightarrow> pvalue option" where
  "vget v key = Option.bind (as_dictionary v) (\<lambda>d. dget d key)"

definition vstr :: "pvalue \<Rightarrow> string \<Rightarrow> string option" where
  "vstr v key = Option.bind (vget v key) as_string"

definition vbool :: "pvalue \<Rightarrow> string \<Rightarrow> bool" where
  "vbool v key = (case Option.bind (vget v key) as_boolean of Some b \<Rightarrow> b | None \<Rightarrow> False)"

definition vdict :: "pvalue \<Rightarrow> string \<Rightarrow> pdictionary option" where
  "vdict v key = Option.bind (vget v key) as_dictionary"

section \<open>Developer mode and wireless\<close>

definition fail_on_error :: "string \<Rightarrow> pvalue \<Rightarrow> 'a \<Rightarrow> (ld_error, 'a) outcome" where
  "fail_on_error prefix v x = (case vstr v ''Error'' of Some e \<Rightarrow> Err (LdLockdown (prefix @ e)) | None \<Rightarrow> Ok x)"

definition developer_mode_status :: "(pvalue \<Rightarrow> bytes) \<Rightarrow> (bytes \<Rightarrow> pvalue option) \<Rightarrow> bool svc" where
  "developer_mode_status xml parse =
    svc_ask Amfi xml parse (PDictionary [(''EnableDeveloperMode'', PBoolean False)])
      (\<lambda>v. fail_on_error ''amfi status: '' v (vbool v ''DeveloperModeEnabled''))"

definition enable_developer_mode :: "(pvalue \<Rightarrow> bytes) \<Rightarrow> (bytes \<Rightarrow> pvalue option) \<Rightarrow> bool svc" where
  "enable_developer_mode xml parse =
    svc_ask Amfi xml parse (PDictionary [(''EnableDeveloperMode'', PBoolean True)])
      (\<lambda>v. fail_on_error ''amfi enable: '' v (vbool v ''RebootRequired''))"

definition check_error :: "pvalue \<Rightarrow> string \<Rightarrow> 'a \<Rightarrow> (ld_error, 'a) outcome" where
  "check_error v op = fail_on_error (''wireless '' @ op @ '': '') v"

definition get_wifi_enabled :: "(pvalue \<Rightarrow> bytes) \<Rightarrow> (bytes \<Rightarrow> pvalue option) \<Rightarrow> bool svc" where
  "get_wifi_enabled xml parse =
    svc_ask Wireless xml parse (PDictionary [(''Request'', PString ''GetWifiConnections'')])
      (\<lambda>v. check_error v ''GetWifiConnections'' (vbool v ''EnableWifi''))"

definition set_wifi_enabled :: "(pvalue \<Rightarrow> bytes) \<Rightarrow> (bytes \<Rightarrow> pvalue option) \<Rightarrow> bool \<Rightarrow> unit svc" where
  "set_wifi_enabled xml parse b =
    svc_ask Wireless xml parse (PDictionary [(''Request'', PString ''EnableWifiConnections''), (''EnableWifi'', PBoolean b)])
      (\<lambda>v. check_error v ''EnableWifiConnections'' ())"

section \<open>Activation\<close>

definition create_tunnel1_session_info :: "(pvalue \<Rightarrow> bytes) \<Rightarrow> (bytes \<Rightarrow> pvalue option) \<Rightarrow> pdictionary svc" where
  "create_tunnel1_session_info xml parse =
    svc_ask Activation xml parse (PDictionary [(''Command'', PString ''CreateTunnel1SessionInfoRequest'')])
      (\<lambda>v. ok_or (vdict v ''Value'') (LdLockdown ''activation: no Value in session info response''))"

definition create_activation_info :: "(pvalue \<Rightarrow> bytes) \<Rightarrow> (bytes \<Rightarrow> pvalue option) \<Rightarrow> bytes \<Rightarrow> pdictionary svc" where
  "create_activation_info xml parse drm =
    svc_ask Activation xml parse (PDictionary [(''Command'', PString ''CreateActivationInfoRequest''),
        (''Value'', PData drm), (''Options'', PDictionary [(''BasebandWaitCount'', PInteger 90)])])
      (\<lambda>v. ok_or (vdict v ''Value'') (LdLockdown ''activation: no Value in activation info response''))"

definition handle_activation_with_session :: "(pvalue \<Rightarrow> bytes) \<Rightarrow> (bytes \<Rightarrow> pvalue option) \<Rightarrow> bytes \<Rightarrow>
    pdictionary \<Rightarrow> unit svc" where
  "handle_activation_with_session xml parse response headers =
    svc_ask Activation xml parse (PDictionary [(''Command'', PString ''HandleActivationInfoWithSessionRequest''),
        (''Value'', PData response), (''ActivationResponseHeaders'', PDictionary headers)])
      (\<lambda>v. fail_on_error ''handle activation: '' v ())"

definition deactivate :: "(pvalue \<Rightarrow> bytes) \<Rightarrow> (bytes \<Rightarrow> pvalue option) \<Rightarrow> unit svc" where
  "deactivate xml parse =
    svc_ask Activation xml parse (PDictionary [(''Request'', PString ''Deactivate'')]) (\<lambda>_. Ok ())"

section \<open>Diagnostics\<close>

record battery_info =
  capacity_pct :: u64
  voltage_mv :: u64
  cycle_count :: u64
  design_capacity :: u64
  full_capacity :: u64
  is_charging :: bool
  external_connected :: bool
  fully_charged :: bool

text \<open>A negative number is cast: \<open>i as u64\<close>.\<close>

definition as_u64 :: "pvalue \<Rightarrow> u64 option" where
  "as_u64 v = (case as_unsigned_integer v of Some n \<Rightarrow> Some n | None \<Rightarrow> map_option word_of_int (as_signed_integer v))"

definition gg_u64 :: "pdictionary \<Rightarrow> string \<Rightarrow> u64" where
  "gg_u64 d key = (case Option.bind (dget d key) as_u64 of Some n \<Rightarrow> n | None \<Rightarrow> 0)"

definition gg_bool :: "pdictionary \<Rightarrow> string \<Rightarrow> bool" where
  "gg_bool d key = (case Option.bind (dget d key) as_boolean of Some b \<Rightarrow> b | None \<Rightarrow> False)"

definition diag_request :: "(pvalue \<Rightarrow> bytes) \<Rightarrow> (bytes \<Rightarrow> pvalue option) \<Rightarrow> string \<Rightarrow> unit svc" where
  "diag_request xml parse req =
    svc_ask Diagnostics xml parse (PDictionary [(''Request'', PString req)])
      (\<lambda>v. let status = (case vstr v ''Status'' of Some s \<Rightarrow> s | None \<Rightarrow> '''')
           in if status \<noteq> ''Success'' \<and> status \<noteq> '''' then Err (LdAfc (''diagnostics '' @ req @ '': status ''))
              else Ok ())"

definition restart :: "(pvalue \<Rightarrow> bytes) \<Rightarrow> (bytes \<Rightarrow> pvalue option) \<Rightarrow> unit svc" where
  "restart xml parse = diag_request xml parse ''Restart''"

definition shutdown :: "(pvalue \<Rightarrow> bytes) \<Rightarrow> (bytes \<Rightarrow> pvalue option) \<Rightarrow> unit svc" where
  "shutdown xml parse = diag_request xml parse ''Shutdown''"

definition sleep :: "(pvalue \<Rightarrow> bytes) \<Rightarrow> (bytes \<Rightarrow> pvalue option) \<Rightarrow> unit svc" where
  "sleep xml parse = diag_request xml parse ''Sleep''"

definition diag_answer :: "string \<Rightarrow> pvalue \<Rightarrow> (ld_error, pdictionary) outcome" where
  "diag_answer req v = (case vstr v ''Error'' of
     Some e \<Rightarrow> Err (LdAfc (''diagnostics '' @ req @ '': '' @ e))
   | None \<Rightarrow> ok_or (vdict v ''Diagnostics'') (LdAfc (''diagnostics '' @ req @ '': no Diagnostics in response'')))"

definition diag_query :: "(pvalue \<Rightarrow> bytes) \<Rightarrow> (bytes \<Rightarrow> pvalue option) \<Rightarrow> string \<Rightarrow> pdictionary svc" where
  "diag_query xml parse req = svc_ask Diagnostics xml parse (PDictionary [(''Request'', PString req)]) (diag_answer req)"

definition diag_all :: "(pvalue \<Rightarrow> bytes) \<Rightarrow> (bytes \<Rightarrow> pvalue option) \<Rightarrow> pdictionary svc" where
  "diag_all xml parse = diag_query xml parse ''All''"

definition battery_of :: "pdictionary \<Rightarrow> (ld_error, battery_info) outcome" where
  "battery_of diag =
    obind (ok_or (Option.bind (dget diag ''GasGauge'') as_dictionary) (LdAfc ''diagnostics: no GasGauge in response'')) (\<lambda>gg.
      Ok \<lparr>capacity_pct = gg_u64 gg ''BatteryCurrentCapacity'', voltage_mv = gg_u64 gg ''BatteryVoltage'',
          cycle_count = gg_u64 gg ''CycleCount'', design_capacity = gg_u64 gg ''DesignCapacity'',
          full_capacity = gg_u64 gg ''FullChargeCapacity'', is_charging = gg_bool gg ''BatteryIsCharging'',
          external_connected = gg_bool gg ''ExternalConnected'', fully_charged = gg_bool gg ''FullyCharged''\<rparr>)"

definition battery :: "(pvalue \<Rightarrow> bytes) \<Rightarrow> (bytes \<Rightarrow> pvalue option) \<Rightarrow> battery_info svc" where
  "battery xml parse = bnd (diag_query xml parse ''GasGauge'') (\<lambda>diag. lift_o (battery_of diag))"

section \<open>SpringBoard\<close>

datatype Orientation = Portrait | PortraitUpsideDown | LandscapeRight | LandscapeLeft

fun orientation_code :: "Orientation \<Rightarrow> int" where
  "orientation_code Portrait = 1"
| "orientation_code PortraitUpsideDown = 2"
| "orientation_code LandscapeRight = 3"
| "orientation_code LandscapeLeft = 4"

fun orientation_str :: "Orientation \<Rightarrow> string" where
  "orientation_str Portrait = ''portrait''"
| "orientation_str PortraitUpsideDown = ''portrait_upside_down''"
| "orientation_str LandscapeRight = ''landscape_right''"
| "orientation_str LandscapeLeft = ''landscape_left''"

text \<open>
  \<open>s.to_lowercase().replace('-', "_")\<close>. Only the ASCII letters matter: no other character has a
  lower case form made of letters of the texts it is compared with.
\<close>

definition normalise_name :: "string \<Rightarrow> string" where
  "normalise_name s = map (\<lambda>c. if c = CHR ''-'' then CHR ''_'' else c) (map lower_char s)"

definition orientation_parse :: "string \<Rightarrow> Orientation option" where
  "orientation_parse s = (let n = normalise_name s in
     if n = ''portrait'' \<or> n = ''1'' then Some Portrait
     else if n = ''portrait_upside_down'' \<or> n = ''2'' then Some PortraitUpsideDown
     else if n = ''landscape_right'' \<or> n = ''3'' then Some LandscapeRight
     else if n = ''landscape_left'' \<or> n = ''4'' then Some LandscapeLeft
     else None)"

definition get_foreground_app :: "(pvalue \<Rightarrow> bytes) \<Rightarrow> (bytes \<Rightarrow> pvalue option) \<Rightarrow> string svc" where
  "get_foreground_app xml parse =
    svc_ask SpringBoard xml parse (PDictionary [(''command'', PString ''getFrontMostDisplayIdentifier'')])
      (\<lambda>v. ok_or (vstr v ''displayIdentifier'') (LdLockdown ''no displayIdentifier in response''))"

definition set_orientation :: "(pvalue \<Rightarrow> bytes) \<Rightarrow> (bytes \<Rightarrow> pvalue option) \<Rightarrow> Orientation \<Rightarrow> unit svc" where
  "set_orientation xml parse o1 =
    svc_ask SpringBoard xml parse (PDictionary [(''command'', PString ''setInterfaceOrientation''),
      (''value'', PInteger (orientation_code o1))]) (\<lambda>_. Ok ())"

definition show_int :: "int \<Rightarrow> string" where
  "show_int n = (if n < 0 then CHR ''-'' # show_nat (nat (- n)) else show_nat (nat n))"

definition orientation_of :: "int \<Rightarrow> (ld_error, Orientation) outcome" where
  "orientation_of n =
    (if n = 1 then Ok Portrait else if n = 2 then Ok PortraitUpsideDown
     else if n = 3 then Ok LandscapeRight else if n = 4 then Ok LandscapeLeft
     else Err (LdLockdown (''unknown orientation value: '' @ show_int n)))"

definition get_orientation :: "(pvalue \<Rightarrow> bytes) \<Rightarrow> (bytes \<Rightarrow> pvalue option) \<Rightarrow> Orientation svc" where
  "get_orientation xml parse =
    svc_ask SpringBoard xml parse (PDictionary [(''command'', PString ''getInterfaceOrientation'')])
      (\<lambda>v. obind (ok_or (Option.bind (vget v ''interfaceOrientation'') as_signed_integer)
          (LdLockdown ''no interfaceOrientation in response'')) orientation_of)"

section \<open>Profiles and supervision\<close>

text \<open>The status is printed with \<open>{:?}\<close>; the text is cut before it.\<close>

definition check_status :: "pdictionary \<Rightarrow> string \<Rightarrow> (ld_error, unit) outcome" where
  "check_status d op = (case Option.bind (dget d ''Status'') as_string of
     None \<Rightarrow> Ok ()
   | Some s \<Rightarrow> if s = ''Acknowledged'' then Ok () else Err (LdLockdown (''MCInstall '' @ op @ '': status '')))"

definition ack_reply :: "string \<Rightarrow> pvalue \<Rightarrow> (ld_error, unit) outcome" where
  "ack_reply op v =
    obind (ok_or (as_dictionary v) (LdLockdown (''MCInstall '' @ op @ '': response not a dict''))) (\<lambda>d. check_status d op)"

definition send_recv_ack :: "(pvalue \<Rightarrow> bytes) \<Rightarrow> (bytes \<Rightarrow> pvalue option) \<Rightarrow> pvalue \<Rightarrow> string \<Rightarrow> unit svc" where
  "send_recv_ack xml parse req op = svc_ask McInstall xml parse req (ack_reply op)"

definition mc_request :: "string \<Rightarrow> pdictionary \<Rightarrow> pvalue" where
  "mc_request rt kvs = PDictionary ((''RequestType'', PString rt) # kvs)"

definition mc_flush :: "(pvalue \<Rightarrow> bytes) \<Rightarrow> (bytes \<Rightarrow> pvalue option) \<Rightarrow> unit svc" where
  "mc_flush xml parse = send_recv_ack xml parse (mc_request ''Flush'' []) ''Flush''"

definition get_cloud_config :: "(pvalue \<Rightarrow> bytes) \<Rightarrow> (bytes \<Rightarrow> pvalue option) \<Rightarrow> pdictionary svc" where
  "get_cloud_config xml parse =
    svc_ask McInstall xml parse (mc_request ''GetCloudConfiguration'' [])
      (\<lambda>v. ok_or (as_dictionary v) (LdLockdown ''MCInstall: GetCloudConfiguration response not a dict''))"

definition mc_hello :: "(pvalue \<Rightarrow> bytes) \<Rightarrow> (bytes \<Rightarrow> pvalue option) \<Rightarrow> unit svc" where
  "mc_hello xml parse = svc_ask McInstall xml parse (mc_request ''HelloHostIdentifier'' []) (\<lambda>_. Ok ())"

definition set_cloud_config :: "(pvalue \<Rightarrow> bytes) \<Rightarrow> (bytes \<Rightarrow> pvalue option) \<Rightarrow> pdictionary \<Rightarrow> unit svc" where
  "set_cloud_config xml parse config =
    send_recv_ack xml parse (mc_request ''SetCloudConfiguration'' [(''CloudConfiguration'', PDictionary config)])
      ''SetCloudConfiguration''"

definition escalate_reply :: "pvalue \<Rightarrow> (ld_error, bytes) outcome" where
  "escalate_reply v =
    obind (ok_or (as_dictionary v) (LdLockdown ''MCInstall Escalate: response not a dict'')) (\<lambda>d.
    obind (check_status d ''Escalate'') (\<lambda>_.
      case dget d ''Challenge'' of
        Some (PData b) \<Rightarrow> Ok b
      | _ \<Rightarrow> Err (LdLockdown ''MCInstall Escalate: no Challenge in response'')))"

definition escalate :: "(pvalue \<Rightarrow> bytes) \<Rightarrow> (bytes \<Rightarrow> pvalue option) \<Rightarrow> bytes \<Rightarrow> bytes svc" where
  "escalate xml parse cert =
    svc_ask McInstall xml parse (mc_request ''Escalate'' [(''SupervisorCertificate'', PData cert)]) escalate_reply"

definition escalate_response :: "(pvalue \<Rightarrow> bytes) \<Rightarrow> (bytes \<Rightarrow> pvalue option) \<Rightarrow> bytes \<Rightarrow> unit svc" where
  "escalate_response xml parse reply =
    send_recv_ack xml parse (mc_request ''EscalateResponse'' [(''SignedRequest'', PData reply)]) ''EscalateResponse''"

definition proceed_keybag_migration :: "(pvalue \<Rightarrow> bytes) \<Rightarrow> (bytes \<Rightarrow> pvalue option) \<Rightarrow> unit svc" where
  "proceed_keybag_migration xml parse =
    send_recv_ack xml parse (mc_request ''ProceedWithKeybagMigration'' []) ''ProceedWithKeybagMigration''"

section \<open>Screenshots\<close>

definition shot_array :: "pvalue \<Rightarrow> string \<Rightarrow> (ld_error, pvalue list) outcome" where
  "shot_array v context = ok_or (as_array v) (LdAfc (''screenshot: expected array for '' @ context))"

definition nth_opt :: "'a list \<Rightarrow> nat \<Rightarrow> 'a option" where
  "nth_opt xs i = (if i < length xs then Some (xs ! i) else None)"

definition shot_version :: "pvalue list \<Rightarrow> u64" where
  "shot_version arr = (case Option.bind (Option.bind (Option.bind (nth_opt arr 2) as_array) (\<lambda>a. nth_opt a 0)) as_u64 of
     Some n \<Rightarrow> n | None \<Rightarrow> 300)"

definition versions_ok :: "u64 \<Rightarrow> pvalue" where
  "versions_ok version = PArray [PString ''DLMessageVersionExchange'', PString ''DLVersionsOk'', PInteger (sint version)]"

definition shot_request :: pvalue where
  "shot_request = PArray [PString ''DLMessageProcessMessage'', PDictionary [(''MessageType'', PString ''ScreenShotRequest'')]]"

definition shot_ready :: "pvalue \<Rightarrow> (ld_error, unit) outcome" where
  "shot_ready v = obind (shot_array v ''DLMessageDeviceReady'') (\<lambda>arr.
     if (case Option.bind (nth_opt arr 0) as_string of Some s \<Rightarrow> s | None \<Rightarrow> []) \<noteq> ''DLMessageDeviceReady''
     then Err (LdAfc ''screenshot: expected DLMessageDeviceReady'') else Ok ())"

definition shot_png :: "pvalue \<Rightarrow> (ld_error, bytes) outcome" where
  "shot_png v = obind (shot_array v ''ScreenShotReply'') (\<lambda>arr.
     obind (ok_or (Option.bind (nth_opt arr 1) as_dictionary) (LdAfc ''screenshot: missing payload dict in reply'')) (\<lambda>payload.
       ok_or (Option.bind (dget payload ''ScreenShotData'') as_data) (LdAfc ''screenshot: no ScreenShotData in reply'')))"

definition shot_take :: "(pvalue \<Rightarrow> bytes) \<Rightarrow> (bytes \<Rightarrow> pvalue option) \<Rightarrow> bytes svc" where
  "shot_take xml parse =
    bnd (svc_recv Screenshot parse) (\<lambda>msg.
    bnd (lift_o (shot_array msg ''DLMessageVersionExchange'')) (\<lambda>arr.
    bnd (svc_send xml (versions_ok (shot_version arr))) (\<lambda>_.
    bnd (svc_recv Screenshot parse) (\<lambda>ready.
    bnd (lift_o (shot_ready ready)) (\<lambda>_.
    bnd (svc_send xml shot_request) (\<lambda>_.
    bnd (svc_recv Screenshot parse) (\<lambda>reply. lift_o (shot_png reply))))))))"

section \<open>Applications\<close>

datatype AppType = UserApps | SystemApps | AnyApps

fun app_type_str :: "AppType \<Rightarrow> string" where
  "app_type_str UserApps = ''User''"
| "app_type_str SystemApps = ''System''"
| "app_type_str AnyApps = ''Any''"

record app_info =
  ai_bundle_id :: string
  ai_name :: string
  ai_version :: string
  ai_short_version :: string
  ai_app_type :: string
  ai_path :: string

definition parse_app_info :: "pvalue \<Rightarrow> app_info option" where
  "parse_app_info v = Option.bind (as_dictionary v) (\<lambda>d.
     let s = (\<lambda>key. case Option.bind (dget d key) as_string of Some x \<Rightarrow> x | None \<Rightarrow> [])
     in Some \<lparr>ai_bundle_id = s ''CFBundleIdentifier'',
              ai_name = (if s ''CFBundleDisplayName'' = [] then s ''CFBundleName'' else s ''CFBundleDisplayName''),
              ai_version = s ''CFBundleVersion'', ai_short_version = s ''CFBundleShortVersionString'',
              ai_app_type = s ''ApplicationType'', ai_path = s ''Path''\<rparr>)"

definition browse_request :: "AppType \<Rightarrow> pvalue" where
  "browse_request t =
    PDictionary [(''Command'', PString ''Browse''), (''ClientOptions'', PDictionary
      [(''ApplicationType'', PString (app_type_str t)),
       (''ReturnAttributes'', PArray (map PString [''CFBundleIdentifier'', ''CFBundleDisplayName'', ''CFBundleName'',
         ''CFBundleShortVersionString'', ''CFBundleVersion'', ''ApplicationType'', ''Path'']))])]"

definition current_list :: "pdictionary \<Rightarrow> app_info list" where
  "current_list d = (case dget d ''CurrentList'' of Some (PArray l) \<Rightarrow> List.map_filter parse_app_info l | _ \<Rightarrow> [])"

definition browse_step :: "app_info list \<Rightarrow> pvalue \<Rightarrow> app_info list + (ld_error, app_info list) outcome" where
  "browse_step apps v = (case v of
     PDictionary d \<Rightarrow>
       let apps' = apps @ current_list d
       in (case Option.bind (dget d ''Status'') as_string of
            Some s \<Rightarrow> if s = ''Complete'' then Inr (Ok apps')
              else if s = ''BrowsingApplications'' then Inl apps'
              else Inr (Err (LdLockdown (''browse: unexpected status '' @ s)))
          | None \<Rightarrow> (case Option.bind (dget d ''Error'') as_string of
              Some e \<Rightarrow> Inr (Err (LdLockdown e)) | None \<Rightarrow> Inr (Ok apps')))
   | _ \<Rightarrow> Inr (Err (LdLockdown ''unexpected browse response'')))"

abbreviation ip_poll :: "(bytes \<Rightarrow> pvalue option) \<Rightarrow> ('a \<Rightarrow> pvalue \<Rightarrow> 'a + (ld_error, 'b) outcome) \<Rightarrow> 'a \<Rightarrow> 'b svc" where
  "ip_poll \<equiv> plist_loop (svc_bad InstallationProxy) (svc_len_error InstallationProxy)"

definition list_apps :: "(pvalue \<Rightarrow> bytes) \<Rightarrow> (bytes \<Rightarrow> pvalue option) \<Rightarrow> AppType \<Rightarrow> app_info list svc" where
  "list_apps xml parse t = bnd (svc_send xml (browse_request t)) (\<lambda>_. ip_poll parse browse_step [])"

definition complete_step :: "string \<Rightarrow> unit \<Rightarrow> pvalue \<Rightarrow> unit + (ld_error, unit) outcome" where
  "complete_step op u v = (case v of
     PDictionary d \<Rightarrow> (case Option.bind (dget d ''Error'') as_string of
         Some e \<Rightarrow> Inr (Err (LdLockdown (op @ '' error: '' @ e @ [CHR '' '', CHR 0xE2, CHR 0x80, CHR 0x94, CHR '' ''] @
           (case Option.bind (dget d ''ErrorDescription'') as_string of Some x \<Rightarrow> x | None \<Rightarrow> []))))
       | None \<Rightarrow> (case Option.bind (dget d ''Status'') as_string of
           None \<Rightarrow> Inr (Err (LdLockdown (op @ '': no Status in response'')))
         | Some s \<Rightarrow> if s = ''Complete'' then Inr (Ok ()) else Inl ()))
   | _ \<Rightarrow> Inr (Err (LdLockdown (op @ '': unexpected response''))))"

definition await_complete :: "(bytes \<Rightarrow> pvalue option) \<Rightarrow> string \<Rightarrow> unit svc" where
  "await_complete parse op = ip_poll parse (complete_step op) ()"

definition uninstall :: "(pvalue \<Rightarrow> bytes) \<Rightarrow> (bytes \<Rightarrow> pvalue option) \<Rightarrow> string \<Rightarrow> unit svc" where
  "uninstall xml parse bundle_id =
    bnd (svc_send xml (PDictionary [(''Command'', PString ''Uninstall''), (''ApplicationIdentifier'', PString bundle_id)]))
      (\<lambda>_. await_complete parse ''uninstall'')"

definition install_staged :: "(pvalue \<Rightarrow> bytes) \<Rightarrow> (bytes \<Rightarrow> pvalue option) \<Rightarrow> string \<Rightarrow> unit svc" where
  "install_staged xml parse staged_path =
    bnd (svc_send xml (PDictionary [(''Command'', PString ''Install''), (''PackagePath'', PString staged_path)]))
      (\<lambda>_. await_complete parse ''install'')"

section \<open>Facts about the services\<close>

text \<open>Every command as data, with its request and what its answer alone decides.\<close>

datatype svc_cmd =
    DeveloperModeStatus | EnableDeveloperMode | GetWifi | SetWifi bool
  | SessionInfo | ActivationInfo bytes | HandleActivation bytes pdictionary | Deactivate
  | Restart | Shutdown | Sleep | DiagAll | Battery
  | ForegroundApp | SetOrientation Orientation | GetOrientation
  | McFlush | GetCloudConfig | McHello | SetCloudConfig pdictionary | Escalate bytes
  | EscalateResponse bytes | ProceedKeybag

datatype svc_result = RUnit | RBool bool | RText string | RDict pdictionary | RBytes bytes
  | RBattery battery_info | ROrientation Orientation

fun svc_of :: "svc_cmd \<Rightarrow> service" where
  "svc_of DeveloperModeStatus = Amfi" | "svc_of EnableDeveloperMode = Amfi"
| "svc_of GetWifi = Wireless" | "svc_of (SetWifi b) = Wireless"
| "svc_of SessionInfo = Activation" | "svc_of (ActivationInfo d) = Activation"
| "svc_of (HandleActivation r h) = Activation" | "svc_of Deactivate = Activation"
| "svc_of Restart = Diagnostics" | "svc_of Shutdown = Diagnostics" | "svc_of Sleep = Diagnostics"
| "svc_of DiagAll = Diagnostics" | "svc_of Battery = Diagnostics"
| "svc_of ForegroundApp = SpringBoard" | "svc_of (SetOrientation o1) = SpringBoard" | "svc_of GetOrientation = SpringBoard"
| "svc_of _ = McInstall"

definition as_result :: "('a \<Rightarrow> svc_result) \<Rightarrow> 'a svc \<Rightarrow> svc_result svc" where
  "as_result w m = bnd m (\<lambda>x. ret (w x))"

fun svc_run :: "(pvalue \<Rightarrow> bytes) \<Rightarrow> (bytes \<Rightarrow> pvalue option) \<Rightarrow> svc_cmd \<Rightarrow> svc_result svc" where
  "svc_run xml parse DeveloperModeStatus = as_result RBool (developer_mode_status xml parse)"
| "svc_run xml parse EnableDeveloperMode = as_result RBool (enable_developer_mode xml parse)"
| "svc_run xml parse GetWifi = as_result RBool (get_wifi_enabled xml parse)"
| "svc_run xml parse (SetWifi b) = as_result (\<lambda>_. RUnit) (set_wifi_enabled xml parse b)"
| "svc_run xml parse SessionInfo = as_result RDict (create_tunnel1_session_info xml parse)"
| "svc_run xml parse (ActivationInfo d) = as_result RDict (create_activation_info xml parse d)"
| "svc_run xml parse (HandleActivation r h) = as_result (\<lambda>_. RUnit) (handle_activation_with_session xml parse r h)"
| "svc_run xml parse Deactivate = as_result (\<lambda>_. RUnit) (deactivate xml parse)"
| "svc_run xml parse Restart = as_result (\<lambda>_. RUnit) (restart xml parse)"
| "svc_run xml parse Shutdown = as_result (\<lambda>_. RUnit) (shutdown xml parse)"
| "svc_run xml parse Sleep = as_result (\<lambda>_. RUnit) (sleep xml parse)"
| "svc_run xml parse DiagAll = as_result RDict (diag_all xml parse)"
| "svc_run xml parse Battery = as_result RBattery (battery xml parse)"
| "svc_run xml parse ForegroundApp = as_result RText (get_foreground_app xml parse)"
| "svc_run xml parse (SetOrientation o1) = as_result (\<lambda>_. RUnit) (set_orientation xml parse o1)"
| "svc_run xml parse GetOrientation = as_result ROrientation (get_orientation xml parse)"
| "svc_run xml parse McFlush = as_result (\<lambda>_. RUnit) (mc_flush xml parse)"
| "svc_run xml parse GetCloudConfig = as_result RDict (get_cloud_config xml parse)"
| "svc_run xml parse McHello = as_result (\<lambda>_. RUnit) (mc_hello xml parse)"
| "svc_run xml parse (SetCloudConfig c) = as_result (\<lambda>_. RUnit) (set_cloud_config xml parse c)"
| "svc_run xml parse (Escalate c) = as_result RBytes (escalate xml parse c)"
| "svc_run xml parse (EscalateResponse r) = as_result (\<lambda>_. RUnit) (escalate_response xml parse r)"
| "svc_run xml parse ProceedKeybag = as_result (\<lambda>_. RUnit) (proceed_keybag_migration xml parse)"

text \<open>What a command made of one answer, read off its run on a peer that has only this answer.\<close>

definition svc_reply :: "svc_cmd \<Rightarrow> pvalue \<Rightarrow> (ld_error, svc_result) outcome" where
  "svc_reply cmd v =
    (let bool_or = (\<lambda>p key. obind (fail_on_error p v (vbool v key)) (\<lambda>b. Ok (RBool b)));
         value_or = (\<lambda>msg. obind (ok_or (vdict v ''Value'') (LdLockdown msg)) (\<lambda>d. Ok (RDict d)));
         control = (\<lambda>req. if vstr v ''Status'' \<in> {None, Some ''Success'', Some []} then Ok RUnit
                          else Err (LdAfc (''diagnostics '' @ req @ '': status '')));
         ack = (\<lambda>op. obind (ack_reply op v) (\<lambda>_. Ok RUnit))
     in case cmd of
       DeveloperModeStatus \<Rightarrow> bool_or ''amfi status: '' ''DeveloperModeEnabled''
     | EnableDeveloperMode \<Rightarrow> bool_or ''amfi enable: '' ''RebootRequired''
     | GetWifi \<Rightarrow> bool_or ''wireless GetWifiConnections: '' ''EnableWifi''
     | SetWifi b \<Rightarrow> fail_on_error ''wireless EnableWifiConnections: '' v RUnit
     | SessionInfo \<Rightarrow> value_or ''activation: no Value in session info response''
     | ActivationInfo d \<Rightarrow> value_or ''activation: no Value in activation info response''
     | HandleActivation r h \<Rightarrow> fail_on_error ''handle activation: '' v RUnit
     | Deactivate \<Rightarrow> Ok RUnit
     | Restart \<Rightarrow> control ''Restart'' | Shutdown \<Rightarrow> control ''Shutdown'' | Sleep \<Rightarrow> control ''Sleep''
     | DiagAll \<Rightarrow> obind (diag_answer ''All'' v) (\<lambda>d. Ok (RDict d))
     | Battery \<Rightarrow> obind (diag_answer ''GasGauge'' v) (\<lambda>d. obind (battery_of d) (\<lambda>b. Ok (RBattery b)))
     | ForegroundApp \<Rightarrow> (case vstr v ''displayIdentifier'' of
         Some s \<Rightarrow> Ok (RText s) | None \<Rightarrow> Err (LdLockdown ''no displayIdentifier in response''))
     | SetOrientation o1 \<Rightarrow> Ok RUnit
     | GetOrientation \<Rightarrow> (case Option.bind (vget v ''interfaceOrientation'') as_signed_integer of
         None \<Rightarrow> Err (LdLockdown ''no interfaceOrientation in response'')
       | Some n \<Rightarrow> obind (orientation_of n) (\<lambda>x. Ok (ROrientation x)))
     | McFlush \<Rightarrow> ack ''Flush''
     | GetCloudConfig \<Rightarrow> (case as_dictionary v of
         Some d \<Rightarrow> Ok (RDict d) | None \<Rightarrow> Err (LdLockdown ''MCInstall: GetCloudConfiguration response not a dict''))
     | McHello \<Rightarrow> Ok RUnit
     | SetCloudConfig c \<Rightarrow> ack ''SetCloudConfiguration''
     | Escalate c \<Rightarrow> obind (escalate_reply v) (\<lambda>b. Ok (RBytes b))
     | EscalateResponse r \<Rightarrow> ack ''EscalateResponse''
     | ProceedKeybag \<Rightarrow> ack ''ProceedWithKeybagMigration'')"

text \<open>The dictionary a command sends.\<close>

fun svc_request :: "svc_cmd \<Rightarrow> pvalue" where
  "svc_request DeveloperModeStatus = PDictionary [(''EnableDeveloperMode'', PBoolean False)]"
| "svc_request EnableDeveloperMode = PDictionary [(''EnableDeveloperMode'', PBoolean True)]"
| "svc_request GetWifi = PDictionary [(''Request'', PString ''GetWifiConnections'')]"
| "svc_request (SetWifi b) = PDictionary [(''Request'', PString ''EnableWifiConnections''), (''EnableWifi'', PBoolean b)]"
| "svc_request SessionInfo = PDictionary [(''Command'', PString ''CreateTunnel1SessionInfoRequest'')]"
| "svc_request (ActivationInfo d) = PDictionary [(''Command'', PString ''CreateActivationInfoRequest''),
     (''Value'', PData d), (''Options'', PDictionary [(''BasebandWaitCount'', PInteger 90)])]"
| "svc_request (HandleActivation r h) = PDictionary [(''Command'', PString ''HandleActivationInfoWithSessionRequest''),
     (''Value'', PData r), (''ActivationResponseHeaders'', PDictionary h)]"
| "svc_request Deactivate = PDictionary [(''Request'', PString ''Deactivate'')]"
| "svc_request Restart = PDictionary [(''Request'', PString ''Restart'')]"
| "svc_request Shutdown = PDictionary [(''Request'', PString ''Shutdown'')]"
| "svc_request Sleep = PDictionary [(''Request'', PString ''Sleep'')]"
| "svc_request DiagAll = PDictionary [(''Request'', PString ''All'')]"
| "svc_request Battery = PDictionary [(''Request'', PString ''GasGauge'')]"
| "svc_request ForegroundApp = PDictionary [(''command'', PString ''getFrontMostDisplayIdentifier'')]"
| "svc_request (SetOrientation o1) = PDictionary [(''command'', PString ''setInterfaceOrientation''),
     (''value'', PInteger (orientation_code o1))]"
| "svc_request GetOrientation = PDictionary [(''command'', PString ''getInterfaceOrientation'')]"
| "svc_request McFlush = mc_request ''Flush'' []"
| "svc_request GetCloudConfig = mc_request ''GetCloudConfiguration'' []"
| "svc_request McHello = mc_request ''HelloHostIdentifier'' []"
| "svc_request (SetCloudConfig c) = mc_request ''SetCloudConfiguration'' [(''CloudConfiguration'', PDictionary c)]"
| "svc_request (Escalate c) = mc_request ''Escalate'' [(''SupervisorCertificate'', PData c)]"
| "svc_request (EscalateResponse r) = mc_request ''EscalateResponse'' [(''SignedRequest'', PData r)]"
| "svc_request ProceedKeybag = mc_request ''ProceedWithKeybagMigration'' []"

fun svc_run_all :: "(pvalue \<Rightarrow> bytes) \<Rightarrow> (bytes \<Rightarrow> pvalue option) \<Rightarrow> svc_cmd list \<Rightarrow> sock \<Rightarrow>
    (ld_error, svc_result) outcome list \<times> sock" where
  "svc_run_all xml parse [] s = ([], s)"
| "svc_run_all xml parse (c # cs) s =
    (let (r, s1) = svc_run xml parse c s; (rs, s2) = svc_run_all xml parse cs s1 in (r # rs, s2))"

interpretation svc_client: plist_peer "svc_send xml" "svc_recv k parse" "svc_ready (svc_bad k) xml parse rest" outp
  "\<lambda>v. lp_frame (xml v)" for k xml parse rest
  unfolding svc_send_def [abs_def] svc_recv_def by (rule plist_peer_sock)

text \<open>Each method is one exchange.\<close>

lemma as_result_ask:
  "as_result w (svc_ask k xml parse q f) = svc_ask k xml parse q (\<lambda>v. obind (f v) (\<lambda>x. Ok (w x)))"
proof
  fix s
  show "as_result w (svc_ask k xml parse q f) s = svc_ask k xml parse q (\<lambda>v. obind (f v) (\<lambda>x. Ok (w x))) s"
    by (auto simp: as_result_def svc_ask_def ask_def bnd_def ret_def lift_o_def split: prod.split outcome.split
        elim!: obind.elims)
qed

lemma bnd_svc_ask:
  "bnd (svc_ask k xml parse q f) (\<lambda>x. lift_o (g x)) = svc_ask k xml parse q (\<lambda>v. obind (f v) g)"
proof
  fix s
  show "bnd (svc_ask k xml parse q f) (\<lambda>x. lift_o (g x)) s = svc_ask k xml parse q (\<lambda>v. obind (f v) g) s"
    by (auto simp: svc_ask_def ask_def bnd_def lift_o_def split: prod.split outcome.split)
qed

lemmas svc_methods = developer_mode_status_def enable_developer_mode_def get_wifi_enabled_def set_wifi_enabled_def
  create_tunnel1_session_info_def create_activation_info_def handle_activation_with_session_def deactivate_def
  restart_def shutdown_def sleep_def diag_request_def diag_all_def diag_query_def battery_def
  get_foreground_app_def set_orientation_def get_orientation_def mc_flush_def get_cloud_config_def mc_hello_def
  set_cloud_config_def escalate_def escalate_response_def proceed_keybag_migration_def send_recv_ack_def

lemma fail_on_error_obind: "obind (fail_on_error p v x) (\<lambda>y. Ok (w y)) = fail_on_error p v (w x)"
  by (simp add: fail_on_error_def split: option.split)

lemma obind_assoc: "obind (obind m f) g = obind m (\<lambda>x. obind (f x) g)"
  by (cases m) simp_all

lemma svc_run_ask: "svc_run xml parse cmd = svc_ask (svc_of cmd) xml parse (svc_request cmd) (svc_reply cmd)"
proof (cases cmd)
qed (simp_all only: svc_run.simps svc_methods as_result_ask bnd_svc_ask svc_of.simps svc_request.simps,
    (rule arg_cong [where f = "svc_ask _ xml parse _"], rule ext,
     auto simp: svc_reply_def check_error_def fail_on_error_obind obind_assoc Let_def split: option.split outcome.split elim!: obind.elims)+)

lemma svc_run_spec:
  assumes "svc_ready (svc_bad (svc_of cmd)) xml parse rest (v # vs) s"
  shows "\<exists>s'. svc_run xml parse cmd s = (svc_reply cmd v, s') \<and> svc_ready (svc_bad (svc_of cmd)) xml parse rest vs s' \<and>
    outp s' = outp s @ lp_frame (xml (svc_request cmd))"
  unfolding svc_run_ask svc_ask_def by (rule svc_client.ask_spec [OF assms])

text \<open>
  C23: On a connection to one service, any sequence of its commands stays in step with the device:
  each sends its one request in order and returns what its own answer says, error answers
  included, and the stream is left right after the last answer.
\<close>

theorem services_in_step:
  assumes "svc_ready (svc_bad k) xml parse rest vs s" and "list_all (\<lambda>c. svc_of c = k) cmds"
    and "length vs = length cmds"
  shows "\<exists>s'. svc_run_all xml parse cmds s = (map2 svc_reply cmds vs, s') \<and> avail (inp s') = rest \<and>
    outp s' = outp s @ concat (map (\<lambda>c. lp_frame (xml (svc_request c))) cmds)"
  using assms
proof (induction cmds arbitrary: vs s)
  case Nil
  then show ?case by (simp add: svc_ready_def)
next
  case (Cons c cs)
  then obtain v vs' where vs: "vs = v # vs'" "length vs' = length cs" by (cases vs) auto
  have k: "svc_of c = k" using Cons.prems(2) by simp
  obtain s1 where s1: "svc_run xml parse c s = (svc_reply c v, s1)" "svc_ready (svc_bad k) xml parse rest vs' s1"
    "outp s1 = outp s @ lp_frame (xml (svc_request c))"
    using svc_run_spec [of c xml parse rest v vs' s] Cons.prems(1) vs(1) k by auto
  have "list_all (\<lambda>c. svc_of c = k) cs" using Cons.prems(2) by simp
  from Cons.IH [OF s1(2) this vs(2)] obtain s2 where "svc_run_all xml parse cs s1 = (map2 svc_reply cs vs', s2)"
    "avail (inp s2) = rest" "outp s2 = outp s1 @ concat (map (\<lambda>c. lp_frame (xml (svc_request c))) cs)" by blast
  with s1 vs(1) show ?case by simp
qed

definition demo_svc :: "pvalue list \<Rightarrow> sock" where
  "demo_svc vs = \<lparr>inp = [Data (concat (map (\<lambda>v. lp_frame (pv_enc v)) vs))], outp = [], room = None\<rparr>"

lemma demo_svc_ready:
  "list_all (wf_answer bad pv_enc pv_parse) vs \<Longrightarrow> svc_ready bad pv_enc pv_parse [] vs (demo_svc vs)"
  by (simp add: svc_ready_def demo_svc_def)

theorem services_in_step_witness:
  "fst (svc_run_all pv_enc pv_parse [GetWifi, SetWifi True]
      (demo_svc [PDictionary [(''EnableWifi'', PBoolean True)], PDictionary [(''Error'', PString ''no'')]])) =
    [Ok (RBool True), Err (LdLockdown ''wireless EnableWifiConnections: no'')]"
proof -
  let ?vs = "[PDictionary [(''EnableWifi'', PBoolean True)], PDictionary [(''Error'', PString ''no'')]]"
  have "list_all (wf_answer (svc_bad Wireless) pv_enc pv_parse) ?vs" by code_simp
  from services_in_step [OF demo_svc_ready [OF this], of "[GetWifi, SetWifi True]"]
  obtain s' where "svc_run_all pv_enc pv_parse [GetWifi, SetWifi True] (demo_svc ?vs) =
      (map2 svc_reply [GetWifi, SetWifi True] ?vs, s')" by auto
  moreover have "map2 svc_reply [GetWifi, SetWifi True] ?vs =
      [Ok (RBool True), Err (LdLockdown ''wireless EnableWifiConnections: no'')]" by code_simp
  ultimately show ?thesis by simp
qed

section \<open>Streams of answers\<close>

lemma svc_send_ready:
  assumes "svc_ready bad xml parse rest vs s"
  obtains s' where "svc_send xml q s = (Ok (), s')" and "svc_ready bad xml parse rest vs s'"
    and "outp s' = outp s @ lp_frame (xml q)"
  using svc.sends [OF assms, of ld_of q] unfolding svc_send_def by blast

text \<open>
  The answers to a browse request: any number of parts, then the part that completes the list.
\<close>

definition browse_part :: "pvalue \<Rightarrow> bool" where
  "browse_part v \<longleftrightarrow> vstr v ''Status'' = Some ''BrowsingApplications''"

lemma poll_browse:
  assumes "list_all browse_part ps" and "v = PDictionary d"
  shows "poll_ref browse_step acc (ps @ v # ws) =
    (case browse_step (acc @ concat (map (\<lambda>p. current_list (the (as_dictionary p))) ps)) v of
       Inr r \<Rightarrow> Some (r, ws) | Inl acc' \<Rightarrow> poll_ref browse_step acc' ws)"
  using assms(1)
proof (induction ps arbitrary: acc)
  case (Cons p ps)
  then obtain e where e: "p = PDictionary e" "Option.bind (dget e ''Status'') as_string = Some ''BrowsingApplications''"
    by (cases p) (auto simp: browse_part_def vstr_def vget_def)
  then have "browse_step acc p = Inl (acc @ current_list e)" by (simp add: browse_step_def)
  then show ?case using Cons e(1) by simp
qed (simp split: sum.split)

text \<open>
  Listing applications collects the applications of every partial answer in the order they
  came, none lost and none twice, and of the final one; whatever status or error the final
  answer has decides the result, and the stream is left right after it.
\<close>

theorem list_apps_collects:
  assumes "svc_ready (svc_bad InstallationProxy) xml parse rest (ps @ [PDictionary d]) s"
    and "list_all browse_part ps" and "\<not> browse_part (PDictionary d)"
  shows "\<exists>s'. list_apps xml parse t s =
      (let apps = concat (map (\<lambda>p. current_list (the (as_dictionary p))) ps) @ current_list d
       in case vstr (PDictionary d) ''Status'' of
            None \<Rightarrow> (case vstr (PDictionary d) ''Error'' of Some e \<Rightarrow> Err (LdLockdown e) | None \<Rightarrow> Ok apps)
          | Some st \<Rightarrow> if st = ''Complete'' then Ok apps else Err (LdLockdown (''browse: unexpected status '' @ st)), s') \<and>
    avail (inp s') = rest \<and> outp s' = outp s @ lp_frame (xml (browse_request t))"
proof -
  let ?acc = "concat (map (\<lambda>p. current_list (the (as_dictionary p))) ps)"
  let ?r = "let apps = ?acc @ current_list d
       in case vstr (PDictionary d) ''Status'' of
            None \<Rightarrow> (case vstr (PDictionary d) ''Error'' of Some e \<Rightarrow> Err (LdLockdown e) | None \<Rightarrow> Ok apps)
          | Some st \<Rightarrow> if st = ''Complete'' then Ok apps else Err (LdLockdown (''browse: unexpected status '' @ st))"
  have "browse_step ?acc (PDictionary d) = Inr ?r"
    using assms(3) by (auto simp: browse_step_def browse_part_def vstr_def vget_def Let_def split: option.split)
  then have p: "poll_ref browse_step [] (ps @ [PDictionary d]) = Some (?r, [])"
    using poll_browse [OF assms(2) refl, of "[]" d "[]"] by simp
  obtain s1 where s1: "svc_send xml (browse_request t) s = (Ok (), s1)"
    "svc_ready (svc_bad InstallationProxy) xml parse rest (ps @ [PDictionary d]) s1"
    "outp s1 = outp s @ lp_frame (xml (browse_request t))"
    by (rule svc_send_ready [OF assms(1)])
  obtain s2 where "ip_poll parse browse_step [] s1 = (?r, s2)"
    "svc_ready (svc_bad InstallationProxy) xml parse rest [] s2" "outp s2 = outp s1"
    using plist_loop_spec [OF s1(2) p] by blast
  then show ?thesis using s1 by (intro exI [of _ s2]) (simp add: list_apps_def svc_ready_def)
qed

theorem list_apps_collects_witness:
  "map_option (map ai_bundle_id) (case fst (list_apps pv_enc pv_parse UserApps (demo_svc
     [PDictionary [(''Status'', PString ''BrowsingApplications''),
        (''CurrentList'', PArray [PDictionary [(''CFBundleIdentifier'', PString ''a'')]])],
      PDictionary [(''Status'', PString ''Complete''),
        (''CurrentList'', PArray [PDictionary [(''CFBundleIdentifier'', PString ''b'')]])]])) of
      Ok apps \<Rightarrow> Some apps | _ \<Rightarrow> None) = Some [''a'', ''b'']"
proof -
  let ?p = "PDictionary [(''Status'', PString ''BrowsingApplications''),
        (''CurrentList'', PArray [PDictionary [(''CFBundleIdentifier'', PString ''a'')]])]"
  let ?d = "[(''Status'', PString ''Complete''),
        (''CurrentList'', PArray [PDictionary [(''CFBundleIdentifier'', PString ''b'')]])]"
  have w: "list_all (wf_answer (svc_bad InstallationProxy) pv_enc pv_parse) ([?p] @ [PDictionary ?d])" by code_simp
  have "list_all browse_part [?p]" "\<not> browse_part (PDictionary ?d)" by code_simp+
  from list_apps_collects [OF demo_svc_ready [OF w] this, of UserApps] show ?thesis
    by (auto simp: vstr_def vget_def current_list_def List.map_filter_simps parse_app_info_def Let_def)
qed

text \<open>Progress updates of an installation are skipped; the first other answer decides.\<close>

lemma complete_progress:
  assumes "list_all (\<lambda>v. vstr v ''Error'' = None \<and> (\<exists>s. vstr v ''Status'' = Some s \<and> s \<noteq> ''Complete'')) ps"
  shows "poll_ref (complete_step op) () (ps @ ws) = poll_ref (complete_step op) () ws"
  using assms
proof (induction ps)
  case (Cons p ps)
  then have "complete_step op () p = Inl ()"
    by (cases p) (auto simp: complete_step_def vstr_def vget_def split: option.split)
  then show ?case using Cons by simp
qed simp

lemma install_spec:
  assumes "svc_ready (svc_bad InstallationProxy) xml parse rest (ps @ v # vs) s"
    and "list_all (\<lambda>v. vstr v ''Error'' = None \<and> (\<exists>s. vstr v ''Status'' = Some s \<and> s \<noteq> ''Complete'')) ps"
    and "complete_step ''install'' () v = Inr r"
  shows "\<exists>s'. install_staged xml parse path s = (r, s') \<and> svc_ready (svc_bad InstallationProxy) xml parse rest vs s' \<and>
    outp s' = outp s @ lp_frame (xml (PDictionary [(''Command'', PString ''Install''), (''PackagePath'', PString path)]))"
proof -
  obtain s1 where s1: "svc_send xml (PDictionary [(''Command'', PString ''Install''), (''PackagePath'', PString path)]) s = (Ok (), s1)"
    "svc_ready (svc_bad InstallationProxy) xml parse rest (ps @ v # vs) s1"
    "outp s1 = outp s @ lp_frame (xml (PDictionary [(''Command'', PString ''Install''), (''PackagePath'', PString path)]))"
    by (rule svc_send_ready [OF assms(1)])
  have "poll_ref (complete_step ''install'') () (ps @ v # vs) = Some (r, vs)"
    using complete_progress [OF assms(2)] assms(3) by simp
  from plist_loop_spec [OF s1(2) this, of "svc_len_error InstallationProxy"] show ?thesis
    using s1(1,3) by (auto simp: install_staged_def await_complete_def)
qed

lemma shot_take_spec:
  assumes "svc_ready (svc_bad Screenshot) xml parse rest [PArray arr, m, r] s" and "shot_ready m = Ok ()"
  shows "\<exists>s'. shot_take xml parse s = (shot_png r, s') \<and> avail (inp s') = rest \<and>
    outp s' = outp s @ lp_frame (xml (versions_ok (shot_version arr))) @ lp_frame (xml shot_request)"
proof -
  obtain s1 where s1: "svc_recv Screenshot parse s = (Ok (PArray arr), s1)"
    "svc_ready (svc_bad Screenshot) xml parse rest [m, r] s1" "outp s1 = outp s"
    using svc_client.receives [OF assms(1)] by blast
  obtain s2 where s2: "svc_send xml (versions_ok (shot_version arr)) s1 = (Ok (), s2)"
    "svc_ready (svc_bad Screenshot) xml parse rest [m, r] s2" "outp s2 = outp s1 @ lp_frame (xml (versions_ok (shot_version arr)))"
    by (rule svc_send_ready [OF s1(2)])
  obtain s3 where s3: "svc_recv Screenshot parse s2 = (Ok m, s3)"
    "svc_ready (svc_bad Screenshot) xml parse rest [r] s3" "outp s3 = outp s2"
    using svc_client.receives [OF s2(2)] by blast
  obtain s4 where s4: "svc_send xml shot_request s3 = (Ok (), s4)"
    "svc_ready (svc_bad Screenshot) xml parse rest [r] s4" "outp s4 = outp s3 @ lp_frame (xml shot_request)"
    by (rule svc_send_ready [OF s3(2)])
  obtain s5 where s5: "svc_recv Screenshot parse s4 = (Ok r, s5)"
    "svc_ready (svc_bad Screenshot) xml parse rest [] s5" "outp s5 = outp s4"
    using svc_client.receives [OF s4(2)] by blast
  show ?thesis using s1 s2 s3 s4 s5 assms(2) by (intro exI [of _ s5]) (simp add: shot_take_def shot_array_def svc_ready_def)
qed

lemma orientation_roundtrip:
  "orientation_parse (orientation_str o1) = Some o1" "orientation_of (orientation_code o1) = Ok o1"
proof -
  show "orientation_parse (orientation_str o1) = Some o1" by (rule Orientation.induct; code_simp)
  show "orientation_of (orientation_code o1) = Ok o1" by (cases o1) (simp_all add: orientation_of_def)
qed

end
