(* ===== verification/Syslog.thy ===== *)
theory Syslog
  imports Lockdown
begin

text \<open>
  The syslog relay, \<open>src/src/lockdown/services/syslog.rs\<close>: the parser of a log line and the loop
  that cuts the byte stream into lines at NUL or newline and hands them to a callback. The callback
  is a function on a state of its own that says whether to go on.
\<close>

section \<open>Entries\<close>

record syslog_entry =
  sl_raw :: string
  sl_timestamp :: string
  sl_process :: string
  sl_level :: string
  sl_message :: string

text \<open>\<open>format!("{day:>2}")\<close> counts characters, not bytes.\<close>

definition char_count :: "string \<Rightarrow> nat" where
  "char_count s = length (filter (\<lambda>c. \<not> (0x80 \<le> (of_char c :: nat) \<and> of_char c < (0xc0 :: nat))) s)"

definition pad_left2 :: "string \<Rightarrow> string" where
  "pad_left2 s = replicate (2 - char_count s) CHR '' '' @ s"

primrec join_sp :: "string list \<Rightarrow> string" where
  "join_sp [] = []"
| "join_sp (w # ws) = (if ws = [] then w else w @ CHR '' '' # join_sp ws)"

fun strip_colons :: "string \<Rightarrow> string" where
  "strip_colons (a # b # s) = (if a = CHR '':'' \<and> b = CHR '' '' then strip_colons s else a # b # s)"
| "strip_colons s = s"

definition word_at :: "string list \<Rightarrow> nat \<Rightarrow> string" where
  "word_at ws i = (if i < length ws then ws ! i else [])"

text \<open>The level and the message of what follows the process.\<close>

definition level_message :: "string \<Rightarrow> string \<times> string" where
  "level_message rest = (case rest of
     c # stripped \<Rightarrow>
       if c = CHR ''<'' \<and> CHR ''>'' \<in> set stripped
       then (takeWhile (\<lambda>x. x \<noteq> CHR ''>'') stripped, strip_colons (tl (dropWhile (\<lambda>x. x \<noteq> CHR ''>'') stripped)))
       else ([], rest)
   | [] \<Rightarrow> ([], rest))"

definition parse_entry :: "string \<Rightarrow> syslog_entry" where
  "parse_entry r =
    (let ws = split_ws [] r; month = word_at ws 0; (lv, msg) = level_message (join_sp (drop 5 ws))
     in \<lparr>sl_raw = r,
         sl_timestamp = (if month = [] then [] else month @ '' '' @ pad_left2 (word_at ws 1) @ '' '' @ word_at ws 2),
         sl_process = word_at ws 4, sl_level = lv, sl_message = msg\<rparr>)"

section \<open>The stream\<close>

definition BUF_SIZE :: nat where "BUF_SIZE = 4 * 1024"

definition is_interrupted :: "io_kind \<Rightarrow> bool" where
  "is_interrupted k \<longleftrightarrow> k \<in> {Interrupted, BrokenPipe, ConnectionReset, UnexpectedEof}"

definition line_end :: "byte \<Rightarrow> bool" where
  "line_end b \<longleftrightarrow> b = 0 \<or> b = 10"

definition line_text :: "bytes \<Rightarrow> string" where
  "line_text bs = trim (from_utf8_lossy bs)"

text \<open>
  The inner loop: every complete line of \<open>carry\<close> is removed, and the callback sees the non-empty
  ones until it says stop. The result says whether to go on, and what is left.
\<close>

function drain_lines :: "('c \<Rightarrow> syslog_entry \<Rightarrow> bool \<times> 'c) \<Rightarrow> 'c \<Rightarrow> bytes \<Rightarrow> bool \<times> 'c \<times> bytes" where
  "drain_lines cb st carry =
    (if \<not> list_ex line_end carry then (True, st, carry)
     else let line = takeWhile (\<lambda>b. \<not> line_end b) carry; carry' = drop (length line + 1) carry; r = line_text line
          in if r = [] then drain_lines cb st carry'
             else case cb st (parse_entry r) of
               (True, st') \<Rightarrow> drain_lines cb st' carry'
             | (False, st') \<Rightarrow> (False, st', carry'))"
  by pat_completeness auto
termination
  by (relation "measure (\<lambda>(cb, st, carry). length carry)") (auto simp: list_ex_iff intro!: diff_less dest: length_pos_if_in_set)

declare drain_lines.simps [simp del]

function stream_loop :: "('c \<Rightarrow> syslog_entry \<Rightarrow> bool \<times> 'c) \<Rightarrow> 'c \<Rightarrow> bytes \<Rightarrow> script \<Rightarrow> (ld_error, unit) outcome \<times> 'c" where
  "stream_loop cb st carry s = (case read_some BUF_SIZE s of
     (Inl k, s') \<Rightarrow> (if is_interrupted k then Ok () else Err (LdIo k), st)
   | (Inr [], s') \<Rightarrow> (Ok (), st)
   | (Inr (b # bs), s') \<Rightarrow> (case drain_lines cb st (carry @ b # bs) of
       (True, st', carry') \<Rightarrow> stream_loop cb st' carry' s'
     | (False, st', carry') \<Rightarrow> (Ok (), st')))"
  by pat_completeness auto
termination
  by (relation "measure (\<lambda>(cb, st, carry, s). weight s)")
    (auto dest!: sym [of _ "read_some _ _"] read_some_weight)

declare stream_loop.simps [simp del]

definition syslog_stream :: "('c \<Rightarrow> syslog_entry \<Rightarrow> bool \<times> 'c) \<Rightarrow> 'c \<Rightarrow> script \<Rightarrow> (ld_error, unit) outcome \<times> 'c" where
  "syslog_stream cb st s = stream_loop cb st [] s"

section \<open>The stream is its lines\<close>

text \<open>The complete lines of some bytes and what follows the last of them.\<close>

fun lines_of :: "bytes \<Rightarrow> bytes \<Rightarrow> bytes list" where
  "lines_of line [] = []"
| "lines_of line (b # bs) = (if line_end b then line # lines_of [] bs else lines_of (line @ [b]) bs)"

fun rest_of :: "bytes \<Rightarrow> bytes \<Rightarrow> bytes" where
  "rest_of line [] = line"
| "rest_of line (b # bs) = (if line_end b then rest_of [] bs else rest_of (line @ [b]) bs)"

definition entries_of :: "bytes \<Rightarrow> syslog_entry list" where
  "entries_of bs = map parse_entry (filter (\<lambda>r. r \<noteq> []) (map line_text (lines_of [] bs)))"

text \<open>The callback on a list of entries, until it says stop.\<close>

fun run_callback :: "('c \<Rightarrow> syslog_entry \<Rightarrow> bool \<times> 'c) \<Rightarrow> 'c \<Rightarrow> syslog_entry list \<Rightarrow> bool \<times> 'c" where
  "run_callback cb st [] = (True, st)"
| "run_callback cb st (e # es) = (case cb st e of (True, st') \<Rightarrow> run_callback cb st' es | (False, st') \<Rightarrow> (False, st'))"

definition end_result :: "script \<Rightarrow> (ld_error, unit) outcome" where
  "end_result s = (case s of Fail k # _ \<Rightarrow> if is_interrupted k then Ok () else Err (LdIo k) | _ \<Rightarrow> Ok ())"

lemma lines_of_append: "lines_of l (xs @ ys) = lines_of l xs @ lines_of (rest_of l xs) ys"
  by (induction l xs rule: lines_of.induct) auto

lemma rest_of_append: "rest_of l (xs @ ys) = rest_of (rest_of l xs) ys"
  by (induction l xs rule: rest_of.induct) auto

lemma lines_of_no_end: "\<not> list_ex line_end xs \<Longrightarrow> lines_of l xs = [] \<and> rest_of l xs = l @ xs"
  by (induction xs arbitrary: l) auto

lemma rest_of_no_end: "\<not> list_ex line_end l \<Longrightarrow> \<not> list_ex line_end (rest_of l xs)"
  by (induction l xs rule: rest_of.induct) auto

lemma lines_of_line:
  assumes "list_ex line_end carry"
  defines "line \<equiv> takeWhile (\<lambda>b. \<not> line_end b) carry"
  shows "lines_of [] carry = line # lines_of [] (drop (length line + 1) carry)"
    and "rest_of [] carry = rest_of [] (drop (length line + 1) carry)"
proof -
  let ?d = "dropWhile (\<lambda>b. \<not> line_end b) carry"
  have "?d \<noteq> []" using assms(1) by (auto simp: dropWhile_eq_Nil_conv list_ex_iff)
  then obtain b r where d: "?d = b # r" "line_end b" using hd_dropWhile [of "\<lambda>b. \<not> line_end b" carry] by (cases ?d) auto
  then have c: "carry = line @ b # r" using takeWhile_dropWhile_id [of "\<lambda>b. \<not> line_end b" carry] by (simp add: line_def)
  have n: "\<not> list_ex line_end line" by (auto simp: line_def list_ex_iff dest: set_takeWhileD)
  have "drop (length line + 1) carry = r" using c by simp
  then show "lines_of [] carry = line # lines_of [] (drop (length line + 1) carry)"
    "rest_of [] carry = rest_of [] (drop (length line + 1) carry)"
    using lines_of_append [of "[]" line "b # r"] rest_of_append [of "[]" line "b # r"] lines_of_no_end [OF n, of "[]"] c d(2)
    by simp_all
qed

lemma drain_lines_spec:
  "\<exists>c. drain_lines cb st carry = (fst (run_callback cb st (entries_of carry)), snd (run_callback cb st (entries_of carry)), c) \<and>
    (fst (run_callback cb st (entries_of carry)) \<longrightarrow> c = rest_of [] carry)"
proof (induction cb st carry rule: drain_lines.induct)
  case (1 cb st carry)
  show ?case
  proof (cases "list_ex line_end carry")
    case False
    then show ?thesis using lines_of_no_end [of carry "[]"] by (simp add: drain_lines.simps [of cb st carry] entries_of_def)
  next
    case True
    let ?line = "takeWhile (\<lambda>b. \<not> line_end b) carry"
    let ?c = "drop (length ?line + 1) carry"
    note l = lines_of_line [OF True]
    show ?thesis
    proof (cases "line_text ?line = []")
      case e: True
      then have "drain_lines cb st carry = drain_lines cb st ?c" using True by (simp add: drain_lines.simps [of cb st carry])
      then show ?thesis using "1.IH"(1) [OF _ refl refl refl e] True l e by (simp add: entries_of_def)
    next
      case e: False
      obtain go st' where g: "cb st (parse_entry (line_text ?line)) = (go, st')" by (cases "cb st (parse_entry (line_text ?line))")
      show ?thesis
      proof (cases go)
        case True
        then have "drain_lines cb st carry = drain_lines cb st' ?c"
          using \<open>list_ex line_end carry\<close> e g by (simp add: drain_lines.simps [of cb st carry])
        then show ?thesis using "1.IH"(2) [OF _ refl refl refl e] \<open>list_ex line_end carry\<close> l e g True
          by (simp add: entries_of_def)
      next
        case False
        then show ?thesis using \<open>list_ex line_end carry\<close> l e g
          by (simp add: drain_lines.simps [of cb st carry] entries_of_def)
      qed
    qed
  qed
qed

lemma run_callback_append:
  "run_callback cb st (es @ fs) = (if fst (run_callback cb st es) then run_callback cb (snd (run_callback cb st es)) fs
     else run_callback cb st es)"
  by (induction cb st es rule: run_callback.induct) (auto split: prod.split bool.split)

lemma entries_of_append: "entries_of (xs @ ys) = entries_of xs @ entries_of (rest_of [] xs @ ys)"
proof -
  have "\<not> list_ex line_end (rest_of [] xs)" by (rule rest_of_no_end) simp
  then have "lines_of [] (rest_of [] xs @ ys) = lines_of (rest_of [] xs) ys"
    using lines_of_append [of "[]" "rest_of [] xs" ys] lines_of_no_end [of "rest_of [] xs" "[]"] by simp
  then show ?thesis by (simp add: entries_of_def lines_of_append)
qed

lemma stream_loop_spec:
  "\<not> list_ex line_end carry \<Longrightarrow> stream_loop cb st carry s =
    (case run_callback cb st (entries_of (carry @ avail s)) of
       (True, st') \<Rightarrow> (end_result (after s), st') | (False, st') \<Rightarrow> (Ok (), st'))"
proof (induction cb st carry s rule: stream_loop.induct)
  case (1 cb st carry s)
  show ?case
  proof (cases "avail s = []")
    case True
    have "entries_of carry = []" using lines_of_no_end [OF "1.prems"] by (simp add: entries_of_def)
    then show ?thesis using True
      by (subst stream_loop.simps) (auto simp: read_some_end end_result_def split: list.splits rd_event.splits)
  next
    case False
    have "0 < BUF_SIZE" by (simp add: BUF_SIZE_def)
    from read_some_data [OF this False] obtain b bs s' where r: "read_some BUF_SIZE s = (Inr (b # bs), s')"
      "avail s = (b # bs) @ avail s'" "after s' = after s" by (metis list.exhaust)
    let ?c = "carry @ b # bs"
    obtain c where d: "drain_lines cb st ?c = (fst (run_callback cb st (entries_of ?c)), snd (run_callback cb st (entries_of ?c)), c)"
      "fst (run_callback cb st (entries_of ?c)) \<longrightarrow> c = rest_of [] ?c"
      using drain_lines_spec [of cb st ?c] by (elim exE conjE) (rule that)
    have e: "entries_of (carry @ avail s) = entries_of ?c @ entries_of (rest_of [] ?c @ avail s')"
      using entries_of_append [of ?c "avail s'"] r(2) by simp
    show ?thesis
    proof (cases "fst (run_callback cb st (entries_of ?c))")
      case True
      then have c: "drain_lines cb st ?c = (True, snd (run_callback cb st (entries_of ?c)), rest_of [] ?c)" using d by simp
      then have "stream_loop cb st carry s = stream_loop cb (snd (run_callback cb st (entries_of ?c))) (rest_of [] ?c) s'"
        using r(1) by (simp add: stream_loop.simps [of cb st carry s])
      also have "\<dots> = (case run_callback cb (snd (run_callback cb st (entries_of ?c))) (entries_of (rest_of [] ?c @ avail s')) of
          (True, st') \<Rightarrow> (end_result (after s'), st') | (False, st') \<Rightarrow> (Ok (), st'))"
        by (rule "1.IH" [OF r(1) [symmetric] refl refl c [symmetric] refl refl]) (rule rest_of_no_end, simp_all)
      finally show ?thesis using True unfolding r(3) e run_callback_append by simp
    next
      case False
      then show ?thesis using r(1) d(1)
        by (subst stream_loop.simps) (auto simp: e run_callback_append split: prod.split)
    qed
  qed
qed

text \<open>
  C14: However the device cuts the log into packets, the callback sees exactly the non-empty
  complete lines of the byte stream, in order and each once, until it asks to stop; the call
  then succeeds, and otherwise ends as the stream does, an interruption counting as success.
\<close>

theorem syslog_chunking:
  "syslog_stream cb st s = (case run_callback cb st (entries_of (avail s)) of
     (True, st') \<Rightarrow> (end_result (after s), st') | (False, st') \<Rightarrow> (Ok (), st'))"
  using stream_loop_spec [of "[]" cb st s] by (simp add: syslog_stream_def)

section \<open>The fields of a line\<close>

lemma split_ws_words:
  "CHR '' '' \<notin> set word \<Longrightarrow> w \<in> set (split_ws word s) \<Longrightarrow> w \<noteq> [] \<and> CHR '' '' \<notin> set w"
proof (induction word s rule: split_ws.induct)
  case (2 word c cs)
  show ?case
  proof (cases "ws_len (c # cs) = 0")
    case True
    then have "c \<noteq> CHR '' ''" by (metis ws_len_space one_neq_zero)
    then show ?thesis using 2(1) [OF True] 2(3,4) True by auto
  next
    case False
    then show ?thesis using 2(2) [OF False] 2(3,4) by (auto split: if_splits)
  qed
qed (auto split: if_splits)

lemma join_sp_strip:
  assumes "ws \<noteq> []" and "hd ws \<noteq> '':''" and "hd ws \<noteq> []" and "CHR '' '' \<notin> set (hd ws)"
  shows "strip_colons ('': '' @ join_sp ws) = join_sp ws"
proof -
  obtain w vs where ws: "ws = w # vs" using assms(1) by (cases ws) auto
  have "strip_colons (join_sp ws) = join_sp ws"
  proof (cases w)
    case Nil
    then show ?thesis using assms(3) ws by simp
  next
    case (Cons a as)
    then show ?thesis
      by (cases as; cases vs) (use assms ws in \<open>auto split: if_splits\<close>)
  qed
  then show ?thesis by simp
qed

text \<open>
  A line whose words are a date, a host, a process, a level in angle brackets with its colon
  and a message is taken apart into exactly these fields, with the day padded to two columns as
  the device prints it; the words of the message are joined by single spaces.
\<close>

theorem entry_fields:
  assumes "split_ws [] r = [month, day, time, host, proc, ''<'' @ lv @ ''>:''] @ words"
    and "CHR ''>'' \<notin> set lv" and "words \<noteq> []" and "hd words \<noteq> '':''"
  shows "parse_entry r = \<lparr>sl_raw = r, sl_timestamp = month @ '' '' @ pad_left2 day @ '' '' @ time,
    sl_process = proc, sl_level = lv, sl_message = join_sp words\<rparr>"
proof -
  have w: "x \<noteq> [] \<and> CHR '' '' \<notin> set x" if "x \<in> set (split_ws [] r)" for x using split_ws_words [OF _ that] by simp
  have h: "hd words \<noteq> []" "CHR '' '' \<notin> set (hd words)" "month \<noteq> []"
    using w [of "hd words"] w [of month] assms(1,3) by auto
  have j: "join_sp (drop 5 (split_ws [] r)) = CHR ''<'' # (lv @ CHR ''>'' # ('': '' @ join_sp words))"
    using assms(1,3) by simp
  have t: "takeWhile (\<lambda>x. x \<noteq> CHR ''>'') (lv @ CHR ''>'' # xs) = lv" "dropWhile (\<lambda>x. x \<noteq> CHR ''>'') (lv @ CHR ''>'' # xs) = CHR ''>'' # xs" for xs
    using assms(2) by (induction lv) auto
  have "level_message (join_sp (drop 5 (split_ws [] r))) = (lv, strip_colons ('': '' @ join_sp words))"
    unfolding j level_message_def by (simp add: t)
  then show ?thesis using join_sp_strip [OF assms(3,4) h(1,2)] h(3) assms(1)
    by (simp add: parse_entry_def Let_def word_at_def)
qed

theorem entry_fields_witness:
  "parse_entry ''Apr  5 12:34:56 iPhone kernel[0] <Notice>: some log'' =
    \<lparr>sl_raw = ''Apr  5 12:34:56 iPhone kernel[0] <Notice>: some log'', sl_timestamp = ''Apr  5 12:34:56'',
     sl_process = ''kernel[0]'', sl_level = ''Notice'', sl_message = ''some log''\<rparr>"
proof -
  have "split_ws [] ''Apr  5 12:34:56 iPhone kernel[0] <Notice>: some log'' =
      [''Apr'', ''5'', ''12:34:56'', ''iPhone'', ''kernel[0]'', ''<'' @ ''Notice'' @ ''>:''] @ [''some'', ''log'']"
    by code_simp
  from entry_fields [OF this] have "parse_entry ''Apr  5 12:34:56 iPhone kernel[0] <Notice>: some log'' =
    \<lparr>sl_raw = ''Apr  5 12:34:56 iPhone kernel[0] <Notice>: some log'',
     sl_timestamp = ''Apr'' @ '' '' @ pad_left2 ''5'' @ '' '' @ ''12:34:56'',
     sl_process = ''kernel[0]'', sl_level = ''Notice'', sl_message = join_sp [''some'', ''log'']\<rparr>" by simp
  moreover have "pad_left2 ''5'' = '' 5''" by code_simp
  ultimately show ?thesis by simp
qed

text \<open>The level of a line with an empty message is found, but the colon is left as its message.\<close>

lemma empty_message_colon: "sl_message (parse_entry ''Apr  5 12:34:56 iPhone kernel[0] <Notice>: '') = '':''"
  by code_simp

end
