(* ===== verification/Version.thy ===== *)
theory Version
  imports Lockdown
begin

text \<open>
  iOS versions and connection modes: \<open>src/src/tunnel/version.rs\<close> and \<open>src/src/tunnel/mode.rs\<close>. A
  version is a triple of 32-bit numbers with the lexicographic order that the source derives; it
  selects the tunnel path. Missing or unreadable minor and patch numbers are zero, only an
  unreadable major number is an error.
\<close>

section \<open>Versions\<close>

datatype IosVersion = IosVersion (major: u32) (minor: u32) (patch: u32)

text \<open>\<open>derive(PartialOrd, Ord)\<close>: the fields in the order of their declaration.\<close>

instantiation IosVersion :: linorder
begin

definition less_eq_IosVersion :: "IosVersion \<Rightarrow> IosVersion \<Rightarrow> bool" where
  "less_eq_IosVersion a b \<longleftrightarrow> major a < major b \<or> major a = major b \<and>
    (minor a < minor b \<or> minor a = minor b \<and> patch a \<le> patch b)"

definition less_IosVersion :: "IosVersion \<Rightarrow> IosVersion \<Rightarrow> bool" where
  "less_IosVersion a b \<longleftrightarrow> a \<le> b \<and> a \<noteq> (b :: IosVersion)"

instance
  by standard (auto simp: less_eq_IosVersion_def less_IosVersion_def intro: IosVersion.expand)

end

definition supports_core_device_proxy :: "IosVersion \<Rightarrow> bool" where
  "supports_core_device_proxy v \<longleftrightarrow> IosVersion 17 4 0 \<le> v"

definition supports_rsd :: "IosVersion \<Rightarrow> bool" where
  "supports_rsd v \<longleftrightarrow> 17 \<le> major v"

definition is_legacy_version :: "IosVersion \<Rightarrow> bool" where
  "is_legacy_version v \<longleftrightarrow> major v < 17"

definition show_version :: "IosVersion \<Rightarrow> string" where
  "show_version v = show_nat (unat (major v)) @ ''.'' @ show_nat (unat (minor v)) @ ''.'' @ show_nat (unat (patch v))"

text \<open>\<open>s.split('.')\<close>\<close>

fun split_char :: "char \<Rightarrow> string \<Rightarrow> string list" where
  "split_char sep [] = [[]]"
| "split_char sep (c # cs) =
    (if c = sep then [] # split_char sep cs
     else case split_char sep cs of p # ps \<Rightarrow> (c # p) # ps | [] \<Rightarrow> [[c]])"

datatype version_error = BadVersion string | VersionLockdown ld_error

definition version_part :: "string list \<Rightarrow> nat \<Rightarrow> u32" where
  "version_part parts i = (case (if i < length parts then parse_u32 (parts ! i) else None) of Some n \<Rightarrow> n | None \<Rightarrow> 0)"

definition parse_version :: "string \<Rightarrow> (version_error, IosVersion) outcome" where
  "parse_version s =
    (let parts = split_char CHR ''.'' s in
     case (case parts of p # _ \<Rightarrow> parse_u32 p | [] \<Rightarrow> None) of
       None \<Rightarrow> Err (BadVersion (''bad version: '' @ s))
     | Some m \<Rightarrow> Ok (IosVersion m (version_part parts 1) (version_part parts 2)))"

definition detect_version :: "(pvalue \<Rightarrow> bytes) \<Rightarrow> (bytes \<Rightarrow> pvalue option) \<Rightarrow> u32 \<Rightarrow> connection \<Rightarrow>
    (version_error, IosVersion) outcome" where
  "detect_version xml parse device_id mux =
    obind (map_err VersionLockdown (ls_connect xml parse device_id mux)) (\<lambda>c.
    obind (map_err VersionLockdown (fst (ls_get_value xml parse None ''ProductVersion'' c))) (\<lambda>v.
      case v of
        PString s \<Rightarrow> parse_version s
      | _ \<Rightarrow> Err (BadVersion ''ProductVersion not a string'')))"

section \<open>Connection modes\<close>

datatype ConnectionMode = Auto | Legacy | Rsd

text \<open>The environment variable \<open>IOS_LEGACY\<close>, \<open>None\<close> when it is not set or not text.\<close>

definition from_env :: "string option \<Rightarrow> ConnectionMode" where
  "from_env var = (if var \<in> {Some ''1'', Some ''true'', Some ''yes''} then Legacy else Auto)"

definition with_legacy_flag :: "ConnectionMode \<Rightarrow> bool \<Rightarrow> ConnectionMode" where
  "with_legacy_flag m legacy = (if legacy then Legacy else m)"

definition mode_is_legacy :: "ConnectionMode \<Rightarrow> bool" where
  "mode_is_legacy m \<longleftrightarrow> m = Legacy"

definition mode_is_rsd :: "ConnectionMode \<Rightarrow> bool" where
  "mode_is_rsd m \<longleftrightarrow> m = Rsd"

fun show_mode :: "ConnectionMode \<Rightarrow> string" where
  "show_mode Auto = ''auto''"
| "show_mode Legacy = ''legacy''"
| "show_mode Rsd = ''rsd''"

section \<open>Facts\<close>

lemma split_char_ne [simp]: "split_char sep s \<noteq> []"
  by (induction s) (auto split: list.splits)

lemma split_char_none: "sep \<notin> set s \<Longrightarrow> split_char sep s = [s]"
  by (induction s) auto

lemma split_char_app: "sep \<notin> set p \<Longrightarrow> split_char sep (p @ sep # s) = p # split_char sep s"
  by (induction p) auto

lemma split_char_join: "split_char sep s = ps \<Longrightarrow> \<forall>p \<in> set ps. sep \<notin> set p"
proof (induction s arbitrary: ps)
  case (Cons c cs)
  then show ?case by (cases "split_char sep cs") (auto split: if_splits)
qed auto

lemma dot_not_digit: "CHR ''.'' \<notin> set (show_nat n)"
proof
  assume "CHR ''.'' \<in> set (show_nat n)"
  then obtain d where "d < 10" "CHR ''.'' = digit_char d"
    using show_nat_digits [of n] by (auto simp: list_all_iff)
  then have "char_digit CHR ''.'' = Some d" by (metis char_digit_digit_char)
  then show False by (simp add: char_digit_def)
qed

lemma split_show_version:
  "split_char CHR ''.'' (show_version v) =
    [show_nat (unat (major v)), show_nat (unat (minor v)), show_nat (unat (patch v))]"
  using split_char_app [OF dot_not_digit] by (simp add: show_version_def split_char_none dot_not_digit)

lemma parse_show_version: "parse_version (show_version v) = Ok v"
  by (cases v) (simp add: parse_version_def split_show_version version_part_def)

text \<open>The number whose digits to the base \<open>2^32\<close> are the components.\<close>

definition version_number :: "IosVersion \<Rightarrow> nat" where
  "version_number v = (unat (major v) * 2 ^ 32 + unat (minor v)) * 2 ^ 32 + unat (patch v)"

lemma digit_le_iff:
  "(x :: nat) < b \<Longrightarrow> y < b \<Longrightarrow> m * b + x \<le> n * b + y \<longleftrightarrow> m < n \<or> m = n \<and> x \<le> y"
proof (cases m n rule: linorder_cases)
  case less
  assume "x < b"
  have "m * b + b \<le> n * b" using mult_le_mono1 [of "Suc m" n b] less by simp
  with \<open>x < b\<close> show ?thesis using less by linarith
next
  case greater
  assume "y < b"
  have "n * b + b \<le> m * b" using mult_le_mono1 [of "Suc n" m b] greater by simp
  with \<open>y < b\<close> show ?thesis using greater by linarith
qed simp

lemma digits_le_iff:
  assumes "x < b" "y < b" "x' < b" "(y' :: nat) < b"
  shows "(m * b + x) * b + y \<le> (n * b + x') * b + y' \<longleftrightarrow> m < n \<or> m = n \<and> (x < x' \<or> x = x' \<and> y \<le> y')"
proof -
  have "m * b + x \<le> n * b + x' \<longleftrightarrow> m < n \<or> m = n \<and> x \<le> x'" "n * b + x' \<le> m * b + x \<longleftrightarrow> n < m \<or> n = m \<and> x' \<le> x"
    using digit_le_iff assms by simp_all
  then have "m * b + x < n * b + x' \<longleftrightarrow> m < n \<or> m = n \<and> x < x'" "m * b + x = n * b + x' \<longleftrightarrow> m = n \<and> x = x'"
    by linarith+
  then show ?thesis using digit_le_iff [OF assms(2,4)] by auto
qed

lemma version_le_iff: "v \<le> w \<longleftrightarrow> version_number v \<le> version_number w"
proof -
  have b: "unat x < 2 ^ 32" for x :: u32 using unat_lt2p [of x] by simp
  show ?thesis unfolding version_number_def digits_le_iff [OF b b b b]
    by (auto simp: less_eq_IosVersion_def word_less_nat_alt word_le_nat_alt word_unat_eq_iff)
qed

lemma hd_split_char: "hd (split_char sep s) = takeWhile (\<lambda>c. c \<noteq> sep) s"
  by (induction s) (auto split: list.splits simp: neq_Nil_conv)

lemma parse_version_total:
  "case parse_u32 (takeWhile (\<lambda>c. c \<noteq> CHR ''.'') s) of
     None \<Rightarrow> parse_version s = Err (BadVersion (''bad version: '' @ s))
   | Some m \<Rightarrow> \<exists>k p. parse_version s = Ok (IosVersion m k p)"
  using hd_split_char [of "CHR ''.''" s]
  by (cases "split_char CHR ''.'' s") (auto simp: parse_version_def Let_def split: option.splits)

text \<open>
  C40: Printing and parsing versions agree, with the components at 32 bits, and the printed forms
  of one and two components mean that the missing ones are zero; any text parses exactly when what
  stands before its first dot is a 32-bit number. The derived order is the numerical one on the
  components taken as digits. The three paths split the versions at 17.0.0 and 17.4.0: the legacy
  path below the first, discovery without the device proxy between the two, the proxy from the
  second on.
\<close>

theorem version_roundtrip:
  "parse_version (show_version v) = Ok v \<and>
   parse_version (show_nat (unat m)) = Ok (IosVersion m 0 0) \<and>
   parse_version (show_nat (unat m) @ ''.'' @ show_nat (unat k)) = Ok (IosVersion m k 0) \<and>
   (case parse_u32 (takeWhile (\<lambda>c. c \<noteq> CHR ''.'') s) of
      None \<Rightarrow> parse_version s = Err (BadVersion (''bad version: '' @ s))
    | Some m \<Rightarrow> \<exists>k p. parse_version s = Ok (IosVersion m k p)) \<and>
   (v \<le> w \<longleftrightarrow> (unat (major v) * 2 ^ 32 + unat (minor v)) * 2 ^ 32 + unat (patch v) \<le>
      (unat (major w) * 2 ^ 32 + unat (minor w)) * 2 ^ 32 + unat (patch w)) \<and>
   (is_legacy_version v \<longleftrightarrow> v < IosVersion 17 0 0) \<and>
   (supports_rsd v \<and> \<not> supports_core_device_proxy v \<longleftrightarrow> IosVersion 17 0 0 \<le> v \<and> v < IosVersion 17 4 0) \<and>
   (supports_core_device_proxy v \<longleftrightarrow> IosVersion 17 4 0 \<le> v) \<and>
   (supports_core_device_proxy v \<longleftrightarrow> 17 < unat (major v) \<or> unat (major v) = 17 \<and> 4 \<le> unat (minor v))"
proof -
  have r: "supports_rsd v \<longleftrightarrow> IosVersion 17 0 0 \<le> v"
    by (auto simp: supports_rsd_def less_eq_IosVersion_def word_gt_0)
  have l: "is_legacy_version v \<longleftrightarrow> \<not> supports_rsd v"
    by (auto simp: is_legacy_version_def supports_rsd_def)
  have p: "supports_core_device_proxy v \<longleftrightarrow> 17 < unat (major v) \<or> unat (major v) = 17 \<and> 4 \<le> unat (minor v)"
    by (auto simp: supports_core_device_proxy_def less_eq_IosVersion_def word_less_nat_alt word_le_nat_alt word_unat_eq_iff)
  have "split_char CHR ''.'' (show_nat (unat m)) = [show_nat (unat m)]" by (simp add: split_char_none dot_not_digit)
  then have 1: "parse_version (show_nat (unat m)) = Ok (IosVersion m 0 0)"
    by (simp add: parse_version_def version_part_def)
  have "split_char CHR ''.'' (show_nat (unat m) @ ''.'' @ show_nat (unat k)) = [show_nat (unat m), show_nat (unat k)]"
    using split_char_app [OF dot_not_digit] by (simp add: split_char_none dot_not_digit)
  then have 2: "parse_version (show_nat (unat m) @ ''.'' @ show_nat (unat k)) = Ok (IosVersion m k 0)"
    by (simp add: parse_version_def version_part_def)
  have c: "supports_core_device_proxy v \<longleftrightarrow> IosVersion 17 4 0 \<le> v" by (rule supports_core_device_proxy_def)
  show ?thesis
    by (intro conjI 1 2 parse_show_version parse_version_total c p version_le_iff [unfolded version_number_def])
      (auto simp: r l c not_le)
qed

end
