(* ===== verification/TunnelDaemon.thy ===== *)
theory TunnelDaemon
  imports PlistSvc Rsd Version
begin

text \<open>
  The RSD tunnel daemon, \<open>src/src/bin/ios/cmd/tunnel.rs\<close>, and its client in
  \<open>src/src/tunnel/device_session.rs\<close>. The daemon keeps one tunnel per device in a map that is
  shared by the threads of its clients and by the thread that watches for detached devices; every
  access takes the lock for one look-up, insertion or removal, so the threads are sequences of
  atomic steps on the map. Establishing a tunnel and connecting through it (the TLS, TCP and JSON
  crates and the device) are parameters. Texts that quote such an error are the parameter's.
\<close>

section \<open>Messages\<close>

datatype dev_error = DevProtocol string | DevLockdown ld_error | DevVersion version_error

definition daemon_request :: "string \<Rightarrow> string \<Rightarrow> pvalue" where
  "daemon_request udid service = PDictionary [(''UDID'', PString udid), (''Service'', PString service)]"

definition status_ok :: pvalue where
  "status_ok = PDictionary [(''Status'', PString ''Ok'')]"

definition status_err :: "string \<Rightarrow> pvalue" where
  "status_err msg = PDictionary [(''Status'', PString ''Error''), (''Error'', PString msg)]"

fun daemon_io :: "plist_io_error \<Rightarrow> dev_error" where
  "daemon_io (PIo k) = DevProtocol ''daemon read''"
| "daemon_io PClosed = DevProtocol ''daemon: unexpected EOF''"
| "daemon_io PPlist = DevProtocol ''daemon plist''"

definition daemon_verdict :: "pvalue \<Rightarrow> (dev_error, unit) outcome" where
  "daemon_verdict v =
    obind (ok_or (as_dictionary v) (DevProtocol ''daemon: response not a dict'')) (\<lambda>d.
      case Option.bind (dget d ''Status'') as_string of
        Some s \<Rightarrow> if s = ''Ok'' then Ok ()
          else if s = ''Error'' then Err (DevProtocol (''daemon: '' @
            (case Option.bind (dget d ''Error'') as_string of Some m \<Rightarrow> m | None \<Rightarrow> ''unknown'')))
          else Err (DevProtocol ''daemon: unexpected status in response'')
      | None \<Rightarrow> Err (DevProtocol ''daemon: unexpected status in response''))"

definition client_bad :: "nat \<Rightarrow> bool" where
  "client_bad n \<longleftrightarrow> n = 0 \<or> n > 1048576"

text \<open>On success the socket is a pipe to the service: the state it leaves is what follows the answer.\<close>

definition daemon_connect_service :: "(pvalue \<Rightarrow> bytes) \<Rightarrow> (bytes \<Rightarrow> pvalue option) \<Rightarrow> string \<Rightarrow> string \<Rightarrow>
    (sock, dev_error, unit) prog" where
  "daemon_connect_service xml parse udid service =
    bnd (on_err (\<lambda>_. DevProtocol ''daemon write'') (send_plist xml (daemon_request udid service))) (\<lambda>_.
    bnd (recv_plist_lim client_bad (\<lambda>n. DevProtocol (''daemon: bad response length '' @ show_nat n)) daemon_io parse) (\<lambda>v.
      lift_o (daemon_verdict v)))"

section \<open>Check-in\<close>

text \<open>At most four answers are read, up to the one that starts the service.\<close>

definition starts_service :: "pvalue option \<Rightarrow> bool" where
  "starts_service x = (case x of
     Some (PDictionary d) \<Rightarrow> Option.bind (dget d ''Request'') as_string = Some ''StartService'' | _ \<Rightarrow> False)"

primrec checkin_loop :: "(bytes \<Rightarrow> pvalue option) \<Rightarrow> nat \<Rightarrow> (sock, plist_io_error, unit) prog" where
  "checkin_loop parse 0 = ret ()"
| "checkin_loop parse (Suc n) =
    bnd (on_err plist_io_of (on_inp recv_lp)) (\<lambda>body.
      if starts_service (parse body) then ret () else checkin_loop parse n)"

definition daemon_checkin :: "(bytes \<Rightarrow> pvalue option) \<Rightarrow> (sock, plist_io_error, unit) prog" where
  "daemon_checkin parse =
    bnd (on_err PIo (bnd (write_all (u32_be (word_of_nat (length checkin_plist))))
      (\<lambda>_. write_all (bytes_of checkin_plist)))) (\<lambda>_. checkin_loop parse 4)"

section \<open>The daemon\<close>

record 't device_tunnel =
  dt_tunnel :: 't
  dt_rsd_port :: u16
  dt_services :: "(string \<times> service_entry) list"
  dt_device_id :: u32

type_synonym 't tunnels = "(string \<times> 't device_tunnel) list"

text \<open>
  What the daemon cannot do by itself: establish a tunnel for a device, with the discovery port
  and the catalogue of the device, and connect to a port through it. \<open>Inl\<close> is the text of an error.
\<close>

record 't daemon_env =
  establish :: "string \<Rightarrow> string + 't device_tunnel"
  tunnel_connect :: "'t \<Rightarrow> u16 \<Rightarrow> string + sock"

definition contains_udid :: "string \<Rightarrow> 't tunnels \<Rightarrow> bool" where
  "contains_udid udid m = (map_of m udid \<noteq> None)"

text \<open>\<open>map.entry(udid).or_insert(dt)\<close>: an entry that is already there stays.\<close>

definition or_insert :: "string \<Rightarrow> 't device_tunnel \<Rightarrow> 't tunnels \<Rightarrow> 't tunnels" where
  "or_insert udid dt m = (if contains_udid udid m then m else m @ [(udid, dt)])"

definition ensure_tunnel :: "'t daemon_env \<Rightarrow> string \<Rightarrow> 't tunnels \<Rightarrow> (string + unit) \<times> 't tunnels" where
  "ensure_tunnel D udid m =
    (if contains_udid udid m then (Inr (), m)
     else case establish D udid of
       Inr dt \<Rightarrow> (Inr (), or_insert udid dt m)
     | Inl e \<Rightarrow> (Inl e, m))"

definition on_detached :: "u32 \<Rightarrow> 't tunnels \<Rightarrow> 't tunnels" where
  "on_detached device_id m = filter (\<lambda>(u, dt). dt_device_id dt \<noteq> device_id) m"

fun watch_event :: "event \<Rightarrow> 't tunnels \<Rightarrow> 't tunnels" where
  "watch_event (DeviceDetached device_id) m = on_detached device_id m"
| "watch_event _ m = m"

definition list_answer :: "'t tunnels \<Rightarrow> pvalue" where
  "list_answer m = PDictionary [(''Status'', PString ''Ok''),
     (''Devices'', PArray (map (\<lambda>(udid, dt). PDictionary [(''UDID'', PString udid),
        (''Services'', PInteger (int (length (dt_services dt))))]) m))]"

datatype 't handled = Finished | Proxied sock | ExitDaemon | Failed string

definition server_bad :: "nat \<Rightarrow> bool" where
  "server_bad n \<longleftrightarrow> \<not> (0 < n \<and> n < 1048576)"

text \<open>Writing an answer; an error of the write is the error of the handler.\<close>

definition reply :: "(pvalue \<Rightarrow> bytes) \<Rightarrow> pvalue \<Rightarrow> 'h \<Rightarrow> (string \<Rightarrow> 'h) \<Rightarrow> sock \<Rightarrow> 'h \<times> sock" where
  "reply xml v ok bad s = (case send_plist xml v s of
     (Ok _, s') \<Rightarrow> (ok, s') | (_, s') \<Rightarrow> (bad ''write'', s'))"

text \<open>
  The connection to the service and the port: \<open>Inl\<close> a text for \<open>send_err\<close>, or the failure that
  ends the handler.
\<close>

definition service_port :: "'t device_tunnel \<Rightarrow> string \<Rightarrow> string + u16" where
  "service_port dt service =
    (if service = ''_rsd'' then Inr (dt_rsd_port dt)
     else case map_of (dt_services dt) service of
       Some e \<Rightarrow> Inr (se_port e)
     | None \<Rightarrow> Inl (''service '' @ [CHR 0x27] @ service @ [CHR 0x27] @ '' not in RSD catalog''))"

definition open_service :: "'t daemon_env \<Rightarrow> (bytes \<Rightarrow> pvalue option) \<Rightarrow> 't device_tunnel \<Rightarrow> string \<Rightarrow> string + sock" where
  "open_service D parse dt service = (case service_port dt service of
     Inl e \<Rightarrow> Inl e
   | Inr port \<Rightarrow> (case tunnel_connect D (dt_tunnel dt) port of
       Inl e \<Rightarrow> Inl e
     | Inr smc \<Rightarrow>
         if ends_with ''.shim.remote'' service then
           (case daemon_checkin parse smc of (Ok _, smc') \<Rightarrow> Inr smc' | (_, smc') \<Rightarrow> Inl ''RSDCheckin'')
         else Inr smc))"

definition serve :: "'t daemon_env \<Rightarrow> (pvalue \<Rightarrow> bytes) \<Rightarrow> (bytes \<Rightarrow> pvalue option) \<Rightarrow> string \<Rightarrow> string \<Rightarrow>
    't tunnels \<Rightarrow> sock \<Rightarrow> ('t handled \<times> sock) \<times> 't tunnels" where
  "serve D xml parse udid service m stream = (case ensure_tunnel D udid m of
     (Inl e, m1) \<Rightarrow> (reply xml (status_err e) Finished Failed stream, m1)
   | (Inr _, m1) \<Rightarrow> (case map_of m1 udid of
       None \<Rightarrow> ((Failed ''tunnel vanished'', stream), m1)
     | Some dt \<Rightarrow> (case open_service D parse dt service of
         Inl e \<Rightarrow> (reply xml (status_err e) Finished Failed stream, m1)
       | Inr smc \<Rightarrow> (reply xml status_ok (Proxied smc) Failed stream, m1))))"

definition handle_client :: "'t daemon_env \<Rightarrow> (pvalue \<Rightarrow> bytes) \<Rightarrow> (bytes \<Rightarrow> pvalue option) \<Rightarrow>
    't tunnels \<Rightarrow> sock \<Rightarrow> ('t handled \<times> sock) \<times> 't tunnels" where
  "handle_client D xml parse m stream =
    (case recv_plist_lim server_bad (\<lambda>_. PClosed) id parse stream of
       (Ok v, s) \<Rightarrow>
         (case as_dictionary v of
            None \<Rightarrow> ((Failed ''request not a dict'', s), m)
          | Some d \<Rightarrow>
              let rt = Option.bind (dget d ''Request'') as_string in
              if rt = Some ''List'' then (reply xml (list_answer m) Finished Failed s, m)
              else if rt = Some ''Shutdown'' then ((ExitDaemon, snd (send_plist xml status_ok s)), m)
              else case Option.bind (dget d ''UDID'') as_string of
                None \<Rightarrow> ((Failed ''no UDID'', s), m)
              | Some udid \<Rightarrow> (case Option.bind (dget d ''Service'') as_string of
                  None \<Rightarrow> ((Failed ''no Service'', s), m)
                | Some service \<Rightarrow> serve D xml parse udid service m s))
     | (_, s) \<Rightarrow> ((Finished, s), m))"

section \<open>Client and daemon\<close>

text \<open>What a request for a service comes to: a text, or the stream to the service.\<close>

definition service_outcome :: "'t daemon_env \<Rightarrow> (bytes \<Rightarrow> pvalue option) \<Rightarrow> 't tunnels \<Rightarrow> string \<Rightarrow> string \<Rightarrow> string + sock" where
  "service_outcome D parse m udid service = (case ensure_tunnel D udid m of
     (Inl e, _) \<Rightarrow> Inl e
   | (Inr _, m1) \<Rightarrow> (case map_of m1 udid of Some dt \<Rightarrow> open_service D parse dt service | None \<Rightarrow> Inl []))"

lemma or_insert_lookup:
  "map_of (or_insert u dt m) u' = (if u' = u \<and> map_of m u = None then Some dt else map_of m u')"
  by (auto simp: or_insert_def contains_udid_def map_add_def split: option.split)

lemma ensure_tunnel_present: "ensure_tunnel D udid m = (Inr x, m1) \<Longrightarrow> \<exists>dt. map_of m1 udid = Some dt"
  by (auto simp: ensure_tunnel_def contains_udid_def or_insert_lookup split: if_splits sum.splits)

lemma serve_spec:
  assumes "room s = None"
  shows "fst (serve D xml parse udid service m s) = (case service_outcome D parse m udid service of
      Inl e \<Rightarrow> (Finished, s\<lparr>outp := outp s @ lp_frame (xml (status_err e))\<rparr>)
    | Inr smc \<Rightarrow> (Proxied smc, s\<lparr>outp := outp s @ lp_frame (xml status_ok)\<rparr>))"
proof (cases "ensure_tunnel D udid m")
  case (Pair r m1)
  show ?thesis
  proof (cases r)
    case (Inl e)
    then show ?thesis using assms Pair by (simp add: serve_def service_outcome_def reply_def send_plist_unlimited)
  next
    case (Inr x)
    then obtain dt where "map_of m1 udid = Some dt" using ensure_tunnel_present Pair by blast
    then show ?thesis using assms Pair Inr
      by (simp add: serve_def service_outcome_def reply_def send_plist_unlimited split: sum.split)
  qed
qed

text \<open>
  C22: A client that asks the daemon for a service gets a pipe exactly when the daemon has
  connected it to the service, and otherwise the text of the daemon's own error, however the bytes
  between them are cut; a second look at the stream starts right after the daemon's answer.
\<close>

theorem daemon_end_to_end:
  assumes "parse (xml (daemon_request udid service)) = Some (daemon_request udid service)"
    and "\<not> server_bad (length (xml (daemon_request udid service)))"
    and "avail (inp d) = lp_frame (xml (daemon_request udid service)) @ later" and "room d = None" and "outp d = []"
    and "handle_client D xml parse m d = ((h, d'), m')"
    and "avail (inp c) = outp d' @ piped" and "room c = None"
    and "wf_answer client_bad xml parse (case service_outcome D parse m udid service of Inl e \<Rightarrow> status_err e | Inr _ \<Rightarrow> status_ok)"
  shows "(case service_outcome D parse m udid service of
      Inr smc \<Rightarrow> h = Proxied smc \<and> fst (daemon_connect_service xml parse udid service c) = Ok ()
    | Inl e \<Rightarrow> h = Finished \<and> fst (daemon_connect_service xml parse udid service c) = Err (DevProtocol (''daemon: '' @ e))) \<and>
    avail (inp (snd (daemon_connect_service xml parse udid service c))) = piped \<and> avail (inp d') = later \<and>
    outp (snd (daemon_connect_service xml parse udid service c)) = outp c @ lp_frame (xml (daemon_request udid service))"
proof -
  let ?q = "daemon_request udid service"
  have len: "length (xml ?q) < 2 ^ 32" using assms(2) by (simp add: server_bad_def)
  then obtain i where i: "recv_plist_lim server_bad (\<lambda>_. PClosed) id parse d = (Ok ?q, d\<lparr>inp := i\<rparr>)" "avail i = later"
    using recv_plist_lim_next [of server_bad xml parse ?q d later "\<lambda>_. PClosed" id] assms(1-3) by (auto simp: wf_answer_def)
  have "handle_client D xml parse m d = serve D xml parse udid service m (d\<lparr>inp := i\<rparr>)"
    using i(1) by (simp add: handle_client_def daemon_request_def)
  then have h: "(h, d') = fst (serve D xml parse udid service m (d\<lparr>inp := i\<rparr>))" using assms(6) by (metis fst_conv)
  have answer: ?thesis if o: "outp d' = lp_frame (xml v)" and w: "wf_answer client_bad xml parse v" and v: "daemon_verdict v = r"
    and r: "case service_outcome D parse m udid service of Inr smc \<Rightarrow> h = Proxied smc \<and> r = Ok ()
      | Inl e \<Rightarrow> h = Finished \<and> r = Err (DevProtocol (''daemon: '' @ e))"
    and d: "avail (inp d') = later" for v r
  proof -
    let ?c1 = "c\<lparr>outp := outp c @ lp_frame (xml ?q)\<rparr>"
    have "avail (inp ?c1) = lp_frame (xml v) @ piped" using assms(7) o by simp
    from recv_plist_lim_next [OF w this, of "\<lambda>n. DevProtocol (''daemon: bad response length '' @ show_nat n)" daemon_io]
    obtain j where j: "recv_plist_lim client_bad (\<lambda>n. DevProtocol (''daemon: bad response length '' @ show_nat n)) daemon_io parse ?c1 =
        (Ok v, ?c1\<lparr>inp := j\<rparr>)" "avail j = piped" by blast
    then have "daemon_connect_service xml parse udid service c = (r, ?c1\<lparr>inp := j\<rparr>)"
      using assms(8) v by (simp add: daemon_connect_service_def send_plist_unlimited)
    then show ?thesis using r d j(2) by (simp split: sum.splits)
  qed
  show ?thesis
  proof (cases "service_outcome D parse m udid service")
    case (Inl e)
    then have "h = Finished" "d' = d\<lparr>inp := i, outp := lp_frame (xml (status_err e))\<rparr>"
      using h serve_spec [of "d\<lparr>inp := i\<rparr>" D xml parse udid service m] assms(4,5) by simp_all
    then show ?thesis using Inl i(2) assms(9) by (intro answer [of "status_err e"]) (simp_all add: status_err_def daemon_verdict_def)
  next
    case (Inr smc)
    then have "h = Proxied smc" "d' = d\<lparr>inp := i, outp := lp_frame (xml status_ok)\<rparr>"
      using h serve_spec [of "d\<lparr>inp := i\<rparr>" D xml parse udid service m] assms(4,5) by simp_all
    then show ?thesis using Inr i(2) assms(9) by (intro answer [of status_ok]) (simp_all add: status_ok_def daemon_verdict_def)
  qed
qed

definition demo_dt :: "nat device_tunnel" where
  "demo_dt = \<lparr>dt_tunnel = 1, dt_rsd_port = 58783, dt_services = [], dt_device_id = 7\<rparr>"

definition demo_daemon :: "nat daemon_env" where
  "demo_daemon = \<lparr>establish = (\<lambda>u. if u = ''u1'' then Inr demo_dt else Inl ''not connected''),
     tunnel_connect = (\<lambda>_ _. Inr \<lparr>inp = [], outp = [], room = None\<rparr>)\<rparr>"

theorem daemon_end_to_end_witness:
  "\<exists>c. fst (daemon_connect_service pv_enc pv_parse ''u2'' ''x'' c) = Err (DevProtocol ''daemon: not connected'')"
proof -
  let ?d = "\<lparr>inp = [Data (lp_frame (pv_enc (daemon_request ''u2'' ''x'')))], outp = [], room = None\<rparr>"
  obtain h d' m' where h: "handle_client demo_daemon pv_enc pv_parse [] ?d = ((h, d'), m')" by (metis prod.collapse)
  let ?c = "\<lparr>inp = [Data (outp d')], outp = [], room = None\<rparr>"
  have e: "service_outcome demo_daemon pv_parse [] ''u2'' ''x'' = Inl ''not connected''"
    by (simp add: service_outcome_def ensure_tunnel_def contains_udid_def demo_daemon_def)
  have 1: "\<not> server_bad (length (pv_enc (daemon_request ''u2'' ''x'')))" by code_simp
  have 2: "wf_answer client_bad pv_enc pv_parse (status_err ''not connected'')" by code_simp
  from daemon_end_to_end [OF pv_parse_enc 1 _ _ _ h, of "[]" ?c "[]"] e 2 show ?thesis by auto
qed

section \<open>Threads\<close>

text \<open>
  The phases of a client thread between two uses of the lock: it looks for the tunnel, builds
  one, looks up the port of the service in the catalogue, and fetches the tunnel to connect
  through. \<open>Ported\<close> remembers the entry whose catalogue was used.
\<close>

datatype 't phase =
    Want string | Building string | Ready string | Ported string "'t device_tunnel"
  | Holding string "'t device_tunnel" "'t device_tunnel" | Vanished string | Refused string

type_synonym 't dstate = "'t tunnels \<times> 't phase list"

inductive client_step :: "'t dstate \<Rightarrow> 't dstate \<Rightarrow> bool" where
  found: "i < length ps \<Longrightarrow> ps ! i = Want u \<Longrightarrow> contains_udid u m \<Longrightarrow> client_step (m, ps) (m, ps[i := Ready u])"
| absent: "i < length ps \<Longrightarrow> ps ! i = Want u \<Longrightarrow> \<not> contains_udid u m \<Longrightarrow> client_step (m, ps) (m, ps[i := Building u])"
| built: "i < length ps \<Longrightarrow> ps ! i = Building u \<Longrightarrow> client_step (m, ps) (or_insert u dt m, ps[i := Ready u])"
| refused: "i < length ps \<Longrightarrow> ps ! i = Building u \<Longrightarrow> client_step (m, ps) (m, ps[i := Refused u])"
| port: "i < length ps \<Longrightarrow> ps ! i = Ready u \<Longrightarrow> map_of m u = Some dt \<Longrightarrow> client_step (m, ps) (m, ps[i := Ported u dt])"
| no_port: "i < length ps \<Longrightarrow> ps ! i = Ready u \<Longrightarrow> map_of m u = None \<Longrightarrow> client_step (m, ps) (m, ps[i := Vanished u])"
| fetch: "i < length ps \<Longrightarrow> ps ! i = Ported u dt0 \<Longrightarrow> map_of m u = Some dt \<Longrightarrow>
    client_step (m, ps) (m, ps[i := Holding u dt0 dt])"
| no_fetch: "i < length ps \<Longrightarrow> ps ! i = Ported u dt0 \<Longrightarrow> map_of m u = None \<Longrightarrow> client_step (m, ps) (m, ps[i := Vanished u])"

inductive daemon_step :: "'t dstate \<Rightarrow> 't dstate \<Rightarrow> bool" where
  client: "client_step s t \<Longrightarrow> daemon_step s t"
| detach: "daemon_step (m, ps) (on_detached d m, ps)"

text \<open>A thread that runs alone goes through the phases of \<open>serve\<close>.\<close>

lemma ensure_tunnel_steps:
  assumes "ensure_tunnel D u m = (Inr x, m1)"
  shows "client_step\<^sup>*\<^sup>* (m, [Want u]) (m1, [Ready u])"
proof (cases "contains_udid u m")
  case True
  then show ?thesis using assms client_step.found [of 0 "[Want u]" u m] by (simp add: ensure_tunnel_def)
next
  case False
  then obtain dt where "m1 = or_insert u dt m" using assms by (auto simp: ensure_tunnel_def split: sum.splits)
  then have "client_step (m, [Building u]) (m1, [Ready u])" using client_step.built [of 0 "[Building u]" u m dt] by simp
  moreover have "client_step (m, [Want u]) (m, [Building u])" using False client_step.absent [of 0 "[Want u]" u m] by simp
  ultimately show ?thesis by (meson converse_rtranclp_into_rtranclp rtranclp.rtrancl_refl)
qed

text \<open>Every phase past building is about the entry that is in the map.\<close>

fun phase_ok :: "'t tunnels \<Rightarrow> 't phase \<Rightarrow> bool" where
  "phase_ok m (Ready u) = (map_of m u \<noteq> None)"
| "phase_ok m (Ported u dt0) = (map_of m u = Some dt0)"
| "phase_ok m (Holding u dt0 dt) = (map_of m u = Some dt0 \<and> dt = dt0)"
| "phase_ok m (Vanished u) = False"
| "phase_ok m _ = True"

definition agreed :: "'t dstate \<Rightarrow> bool" where
  "agreed s = list_all (phase_ok (fst s)) (snd s)"

lemma agreed_update: "agreed (m, ps) \<Longrightarrow> phase_ok m p \<Longrightarrow> agreed (m, ps[i := p])"
  by (auto simp: agreed_def list_all_iff dest: set_update_subset_insert [THEN subsetD])

lemma phase_ok_insert: "phase_ok m p \<Longrightarrow> phase_ok (or_insert u dt m) p"
  by (cases p) (auto simp: or_insert_lookup split: if_splits)

lemma client_step_agreed: "client_step s t \<Longrightarrow> agreed s \<Longrightarrow> agreed t"
proof (induction rule: client_step.induct)
  case (built i ps u m dt)
  then have "agreed (or_insert u dt m, ps)" by (auto simp: agreed_def list_all_iff intro: phase_ok_insert)
  then show ?case by (rule agreed_update) (auto simp: or_insert_lookup)
qed (auto simp: agreed_def list_all_iff contains_udid_def dest!: set_update_subset_insert [THEN subsetD] nth_mem)

text \<open>
  C5: As long as no device is detached, the threads agree: whichever of several clients that build
  a tunnel for the same device at once inserts first, every client connects through that one
  tunnel, with a port from its own catalogue, and none finds it gone. A thread alone goes
  through these steps.
\<close>

theorem clients_share_tunnel:
  assumes "client_step\<^sup>*\<^sup>* (m, map Want us) (m', ps)"
  shows "(\<forall>i < length ps. \<forall>u dt0 dt. ps ! i = Holding u dt0 dt \<longrightarrow> dt0 = dt \<and> map_of m' u = Some dt) \<and>
    (\<forall>i < length ps. \<forall>u. ps ! i \<noteq> Vanished u)"
proof -
  have "agreed (m, map Want us)" by (simp add: agreed_def list_all_iff)
  with assms have "agreed (m', ps)" by (induction rule: rtranclp_induct) (auto intro: client_step_agreed)
  then have "phase_ok m' (ps ! i)" if "i < length ps" for i using that by (simp add: agreed_def list_all_length)
  then show ?thesis by (metis phase_ok.simps(3,4))
qed

lemma client_more: "client_step a b \<Longrightarrow> client_step\<^sup>*\<^sup>* b c \<Longrightarrow> client_step\<^sup>*\<^sup>* a c"
  by (rule converse_rtranclp_into_rtranclp)

theorem clients_share_tunnel_witness:
  "\<exists>dt. map_of [(''u'', demo_dt)] ''u'' = Some dt \<and>
    client_step\<^sup>*\<^sup>* ([], map Want [''u'', ''u'']) ([(''u'', demo_dt)], [Holding ''u'' demo_dt dt, Building ''u''])"
proof -
  let ?m = "[(''u'', demo_dt)]"
  have 1: "client_step ([], [Want ''u'', Want ''u'']) ([], [Building ''u'', Want ''u''])"
    using client_step.absent [of 0 "[Want ''u'', Want ''u'']" "''u''" "[]"] by (simp add: contains_udid_def)
  have 2: "client_step ([], [Building ''u'', Want ''u'']) ([], [Building ''u'', Building ''u''])"
    using client_step.absent [of 1 "[Building ''u'', Want ''u'']" "''u''" "[]"] by (simp add: contains_udid_def)
  have 3: "client_step ([], [Building ''u'', Building ''u'']) (?m, [Ready ''u'', Building ''u''])"
    using client_step.built [of 0 "[Building ''u'', Building ''u'']" "''u''" "[]" demo_dt] by (simp add: or_insert_def contains_udid_def)
  have 4: "client_step (?m, [Ready ''u'', Building ''u'']) (?m, [Ported ''u'' demo_dt, Building ''u''])"
    using client_step.port [of 0 "[Ready ''u'', Building ''u'']" "''u''" ?m demo_dt] by simp
  have 5: "client_step (?m, [Ported ''u'' demo_dt, Building ''u'']) (?m, [Holding ''u'' demo_dt demo_dt, Building ''u''])"
    using client_step.fetch [of 0 "[Ported ''u'' demo_dt, Building ''u'']" "''u''" demo_dt ?m demo_dt] by simp
  have run: "client_step\<^sup>*\<^sup>* ([], map Want [''u'', ''u'']) (?m, [Holding ''u'' demo_dt demo_dt, Building ''u''])"
    using client_more [OF 1 client_more [OF 2 client_more [OF 3 client_more [OF 4 client_more [OF 5 rtranclp.rtrancl_refl]]]]] by simp
  have "map_of ?m ''u'' = Some demo_dt" using clients_share_tunnel [OF run] by fastforce
  then show ?thesis using run by blast
qed

text \<open>A detached device has no entry left at that moment, and the others keep theirs.\<close>

lemma on_detached_lookup:
  assumes "distinct (map fst m)"
  shows "map_of (on_detached d m) u = (case map_of m u of
    Some dt \<Rightarrow> if dt_device_id dt = d then None else Some dt | None \<Rightarrow> None)"
  using assms
proof (induction m)
  case (Cons e m)
  obtain v dt where e: "e = (v, dt)" by (cases e)
  have "map_of (on_detached d m) v = None" if "v \<notin> fst ` set m"
    using that by (auto simp: on_detached_def map_of_eq_None_iff)
  then show ?case using Cons e by (auto simp: on_detached_def split: option.splits)
qed (simp add: on_detached_def)

text \<open>The runs with detached devices: \<open>ds\<close> are the devices detached in the run, in order.\<close>

inductive daemon_run :: "'t dstate \<Rightarrow> u32 list \<Rightarrow> 't dstate \<Rightarrow> bool" for s where
  start: "daemon_run s [] s"
| by_client: "daemon_run s ds t \<Longrightarrow> client_step t t' \<Longrightarrow> daemon_run s ds t'"
| by_watcher: "daemon_run s ds (m, ps) \<Longrightarrow> daemon_run s (ds @ [d]) (watch_event (DeviceDetached d) m, ps)"

inductive_cases daemon_stepE: "daemon_step s t"

lemma daemon_run_steps: "daemon_run s ds t \<Longrightarrow> daemon_step\<^sup>*\<^sup>* s t"
  by (induction rule: daemon_run.induct) (auto intro: rtranclp.rtrancl_into_rtrancl daemon_step.intros)

lemma daemon_run_step: "daemon_run s ds t \<Longrightarrow> daemon_step t t' \<Longrightarrow> \<exists>ds'. daemon_run s ds' t'"
  by (erule daemon_stepE) (metis daemon_run.by_client, metis daemon_run.by_watcher watch_event.simps(1))

lemma steps_daemon_run: "daemon_step\<^sup>*\<^sup>* s t \<Longrightarrow> \<exists>ds. daemon_run s ds t"
proof (induction rule: rtranclp_induct)
  case base
  show ?case using daemon_run.start by blast
next
  case (step t t')
  then show ?case using daemon_run_step by blast
qed

text \<open>Up to the detached devices every phase past building is about the entry that is in the map.\<close>

fun phase_ok_but :: "u32 list \<Rightarrow> 't tunnels \<Rightarrow> 't phase \<Rightarrow> bool" where
  "phase_ok_but ds m (Ready u) = (ds = [] \<longrightarrow> map_of m u \<noteq> None)"
| "phase_ok_but ds m (Ported u dt0) = (dt_device_id dt0 \<notin> set ds \<longrightarrow> map_of m u = Some dt0)"
| "phase_ok_but ds m (Holding u dt0 dt) = (dt_device_id dt0 \<notin> set ds \<longrightarrow> map_of m u = Some dt0 \<and> dt = dt0)"
| "phase_ok_but ds m (Vanished u) = (ds \<noteq> [])"
| "phase_ok_but ds m _ = True"

definition kept_but :: "u32 list \<Rightarrow> 't tunnels \<Rightarrow> 't tunnels \<Rightarrow> bool" where
  "kept_but ds m0 m \<longleftrightarrow> (\<forall>u dt. map_of m0 u = Some dt \<and> dt_device_id dt \<notin> set ds \<longrightarrow> map_of m u = Some dt)"

lemma kept_but_insert: "kept_but ds m0 m \<Longrightarrow> kept_but ds m0 (or_insert u dt m)"
  by (simp add: kept_but_def or_insert_lookup) (metis option.distinct(1))

lemma kept_but_detached:
  assumes "kept_but ds m0 m" and "distinct (map fst m)"
  shows "kept_but (ds @ [d]) m0 (on_detached d m)"
  unfolding kept_but_def on_detached_lookup [OF assms(2)]
proof (intro allI impI)
  fix u dt
  assume a: "map_of m0 u = Some dt \<and> dt_device_id dt \<notin> set (ds @ [d])"
  then have "map_of m u = Some dt" using assms(1) unfolding kept_but_def by auto
  with a show "(case map_of m u of Some dt \<Rightarrow> if dt_device_id dt = d then None else Some dt | None \<Rightarrow> None) = Some dt"
    by (simp only: option.case) simp
qed

definition agreed_but :: "u32 list \<Rightarrow> 't tunnels \<Rightarrow> 't dstate \<Rightarrow> bool" where
  "agreed_but ds m0 s \<longleftrightarrow> distinct (map fst (fst s)) \<and> list_all (phase_ok_but ds (fst s)) (snd s) \<and>
     kept_but ds m0 (fst s)"

lemma agreed_but_update: "agreed_but ds m0 (m, ps) \<Longrightarrow> phase_ok_but ds m p \<Longrightarrow> agreed_but ds m0 (m, ps[i := p])"
  by (auto simp: agreed_but_def list_all_iff dest: set_update_subset_insert [THEN subsetD])

lemma phase_ok_but_insert: "phase_ok_but ds m p \<Longrightarrow> phase_ok_but ds (or_insert u dt m) p"
  by (cases p) (auto simp: or_insert_lookup split: if_splits)

lemma or_insert_distinct: "distinct (map fst m) \<Longrightarrow> distinct (map fst (or_insert u dt m))"
  by (auto simp: or_insert_def contains_udid_def map_of_eq_None_iff)

lemma client_step_agreed_but: "client_step s t \<Longrightarrow> agreed_but ds m0 s \<Longrightarrow> agreed_but ds m0 t"
proof (induction rule: client_step.induct)
  case (built i ps u m dt)
  then have "agreed_but ds m0 (or_insert u dt m, ps)"
    by (auto simp: agreed_but_def list_all_iff intro: phase_ok_but_insert or_insert_distinct kept_but_insert)
  then show ?case by (rule agreed_but_update) (auto simp: or_insert_lookup)
next
  case (no_port i ps u m)
  then have "phase_ok_but ds m (Ready u)" by (metis agreed_but_def fst_conv list_all_length snd_conv)
  then show ?case using no_port by (intro agreed_but_update) auto
next
  case (fetch i ps u dt0 m dt)
  then have "phase_ok_but ds m (Ported u dt0)" by (metis agreed_but_def fst_conv list_all_length snd_conv)
  then show ?case using fetch by (intro agreed_but_update) auto
next
  case (no_fetch i ps u dt0 m)
  then have "phase_ok_but ds m (Ported u dt0)" by (metis agreed_but_def fst_conv list_all_length snd_conv)
  then show ?case using no_fetch by (intro agreed_but_update) auto
qed (auto intro!: agreed_but_update simp: contains_udid_def)

lemma watcher_agreed_but:
  assumes "agreed_but ds m0 (m, ps)"
  shows "agreed_but (ds @ [d]) m0 (on_detached d m, ps)"
proof -
  have m: "distinct (map fst m)" using assms by (simp add: agreed_but_def)
  have "distinct (map fst (on_detached d m))" using m by (simp add: on_detached_def distinct_map inj_on_def)
  moreover have "phase_ok_but (ds @ [d]) (on_detached d m) p" if "phase_ok_but ds m p" for p
    using that by (cases p) (auto simp: on_detached_lookup [OF m])
  ultimately show ?thesis using assms kept_but_detached [OF _ m]
    by (auto simp: agreed_but_def list_all_iff)
qed

lemma daemon_run_agreed: "daemon_run s ds t \<Longrightarrow> agreed_but [] m0 s \<Longrightarrow> agreed_but ds m0 t"
  by (induction rule: daemon_run.induct) (auto intro: client_step_agreed_but watcher_agreed_but)

text \<open>
  C39: What detached devices do to the threads, in every run of the daemon from its first clients on.
  A tunnel that was there stays as long as its device is not detached; an event takes away exactly
  the entries of its device, at that moment; a client connects through another tunnel than the one
  whose catalogue gave it the port only when the device of that catalogue was detached in the run,
  and finds its tunnel gone only when some device was.
\<close>

theorem detach_effects:
  assumes "daemon_run (m, map Want us) ds (m', ps)" and "distinct (map fst m)"
  shows "(\<forall>u dt. map_of m u = Some dt \<and> dt_device_id dt \<notin> set ds \<longrightarrow> map_of m' u = Some dt) \<and>
    (\<forall>d u. map_of (watch_event (DeviceDetached d) m') u = (case map_of m' u of
       Some dt \<Rightarrow> if dt_device_id dt = d then None else Some dt | None \<Rightarrow> None)) \<and>
    (\<forall>i < length ps. \<forall>u dt0 dt. ps ! i = Holding u dt0 dt \<and> dt \<noteq> dt0 \<longrightarrow> dt_device_id dt0 \<in> set ds) \<and>
    (\<forall>i < length ps. \<forall>u. ps ! i = Vanished u \<longrightarrow> ds \<noteq> [])"
proof -
  have "agreed_but [] m (m, map Want us)" using assms(2) by (simp add: agreed_but_def list_all_iff kept_but_def)
  from daemon_run_agreed [OF assms(1) this] have a: "distinct (map fst m')" "\<And>i. i < length ps \<Longrightarrow> phase_ok_but ds m' (ps ! i)"
    "kept_but ds m m'" by (simp_all add: agreed_but_def list_all_length)
  show ?thesis
    by (intro conjI allI impI a(3) [unfolded kept_but_def, rule_format])
      (use a(2) on_detached_lookup [OF a(1)] in \<open>force dest!: a(2)\<close>)+
qed

text \<open>The tunnel of the first attachment and of the second, as different devices of the multiplexer.\<close>

definition demo_dt2 :: "nat device_tunnel" where
  "demo_dt2 = demo_dt\<lparr>dt_tunnel := 2, dt_device_id := 8\<rparr>"

lemma mixed_port_run:
  "daemon_run ([], map Want [''u'', ''u'']) [7] ([(''u'', demo_dt2)], [Holding ''u'' demo_dt demo_dt2, Ready ''u''])"
proof -
  let ?m = "[(''u'', demo_dt)]" and ?n = "[(''u'', demo_dt2)]"
  let ?r = "daemon_run ([], [Want ''u'', Want ''u''])"
  have "?r [] ([], [Building ''u'', Want ''u''])"
    using daemon_run.by_client [OF daemon_run.start client_step.absent [of 0 "[Want ''u'', Want ''u'']" "''u''" "[]"]]
    by (simp add: contains_udid_def)
  from daemon_run.by_client [OF this client_step.built [of 0 _ "''u''" _ demo_dt]]
  have "?r [] (?m, [Ready ''u'', Want ''u''])" by (simp add: or_insert_def contains_udid_def)
  from daemon_run.by_client [OF this client_step.port [of 0 _ "''u''" _ demo_dt]]
  have "?r [] (?m, [Ported ''u'' demo_dt, Want ''u''])" by simp
  from daemon_run.by_watcher [OF this, of 7]
  have "?r [7] ([], [Ported ''u'' demo_dt, Want ''u''])" by (simp add: on_detached_def demo_dt_def)
  from daemon_run.by_client [OF this client_step.absent [of 1 _ "''u''"]]
  have "?r [7] ([], [Ported ''u'' demo_dt, Building ''u''])" by (simp add: contains_udid_def)
  from daemon_run.by_client [OF this client_step.built [of 1 _ "''u''" _ demo_dt2]]
  have "?r [7] (?n, [Ported ''u'' demo_dt, Ready ''u''])" by (simp add: or_insert_def contains_udid_def)
  from daemon_run.by_client [OF this client_step.fetch [of 0 _ "''u''" demo_dt _ demo_dt2]]
  show ?thesis by simp
qed

theorem detach_effects_witness:
  "daemon_run ([], map Want [''u'', ''u'']) [7] ([(''u'', demo_dt2)], [Holding ''u'' demo_dt demo_dt2, Ready ''u'']) \<and>
    dt_device_id demo_dt \<in> set [7] \<and> map_of (watch_event (DeviceDetached 8) [(''u'', demo_dt2)]) ''u'' = None"
proof -
  have "distinct (map fst ([] :: nat tunnels))" by simp
  note e = detach_effects [OF mixed_port_run this]
  have h: "[Holding ''u'' demo_dt demo_dt2, Ready ''u''] ! 0 = Holding ''u'' demo_dt demo_dt2 \<and> demo_dt2 \<noteq> demo_dt"
    by (simp add: demo_dt_def demo_dt2_def)
  have "dt_device_id demo_dt \<in> set [7]"
    using e [THEN conjunct2, THEN conjunct2, THEN conjunct1, rule_format, of 0, OF _ h] by simp
  moreover have "map_of (watch_event (DeviceDetached 8) [(''u'', demo_dt2)]) ''u'' = None"
    unfolding e [THEN conjunct2, THEN conjunct1, rule_format] by (simp add: demo_dt2_def)
  ultimately show ?thesis using mixed_port_run by blast
qed

text \<open>
  Both races exist from the start of the daemon on. A client that looked up a port before the device
  was detached and attached again connects to that port through the new tunnel. And a device that is
  detached while a client builds its tunnel is put into the map afterwards: its entry stays, since
  the event that would remove it has passed.
\<close>

theorem detach_races:
  "(\<exists>ps a b. a \<noteq> b \<and> daemon_step\<^sup>*\<^sup>* ([], map Want [''u'', ''u'']) ([(''u'', b :: nat device_tunnel)], ps) \<and> ps ! 0 = Holding ''u'' a b) \<and>
   (\<exists>m ps dt. daemon_run ([], map Want [''u'']) [dt_device_id dt] (m :: nat tunnels, ps) \<and> map_of m ''u'' = Some dt)"
proof
  have "demo_dt \<noteq> demo_dt2" by (simp add: demo_dt_def demo_dt2_def)
  then show "\<exists>ps a b. a \<noteq> b \<and> daemon_step\<^sup>*\<^sup>* ([], map Want [''u'', ''u'']) ([(''u'', b :: nat device_tunnel)], ps) \<and> ps ! 0 = Holding ''u'' a b"
    using daemon_run_steps [OF mixed_port_run] by (metis nth_Cons_0)
  have "daemon_run ([] :: nat tunnels, [Want ''u'']) [] ([], [Building ''u''])"
    using daemon_run.by_client [OF daemon_run.start client_step.absent [of 0 "[Want ''u'']" "''u''" "[]"]] by (simp add: contains_udid_def)
  from daemon_run.by_watcher [OF this, of 7]
  have "daemon_run ([] :: nat tunnels, [Want ''u'']) [7] ([], [Building ''u''])" by (simp add: on_detached_def)
  from daemon_run.by_client [OF this client_step.built [of 0 _ "''u''" _ demo_dt]]
  have "daemon_run ([], map Want [''u'']) [dt_device_id demo_dt] ([(''u'', demo_dt)], [Ready ''u''])"
    by (simp add: or_insert_def contains_udid_def demo_dt_def)
  then show "\<exists>m ps dt. daemon_run ([], map Want [''u'']) [dt_device_id dt] (m :: nat tunnels, ps) \<and> map_of m ''u'' = Some dt"
    by (metis map_of_Cons_code(2) fst_conv)
qed

end
