(* ===== verification/DeviceSession.thy ===== *)
theory DeviceSession
  imports TunnelDaemon
begin

text \<open>
  Choosing the path to a device, \<open>src/src/tunnel/device_session.rs\<close>, with the version check of
  \<open>src/src/tunnel/ios17.rs\<close>: legacy lockdownd, the tunnel daemon, or a tunnel of its own. The
  attempts are programs on a common state, so their order and what an abandoned attempt leaves
  behind are part of the model; what they do on sockets is in the other theories. The relay that
  \<open>RsdClient::connect_stream\<close> puts between two sockets forwards bytes unchanged
  (\<open>copy_half\<close> of theory Rsd) and is left out here. Texts that quote another error are cut.
\<close>

section \<open>Paths\<close>

datatype ActivePath = PathLegacy | PathRsd

datatype 't inner =
    InnerLegacy lockdown_session
  | InnerRsd 't lockdown_session
  | InnerDaemon lockdown_session string

record 't device_session =
  ds_version :: IosVersion
  ds_active_path :: ActivePath
  ds_inner :: "'t inner"

text \<open>What opening a session does to the outside: each is one call of the source.\<close>

record ('s, 't) path_env =
  p_detect :: "('s, dev_error, IosVersion) prog"
  p_legacy :: "('s, dev_error, lockdown_session) prog"
  p_daemon_running :: "'s \<Rightarrow> bool \<times> 's"
  p_spawn :: "('s, dev_error, unit) prog"
  p_wait :: "('s, dev_error, unit) prog"
  p_tunnel :: "('s, dev_error, 't) prog"

definition or_else :: "('s, 'e, 'a) prog \<Rightarrow> ('e \<Rightarrow> ('s, 'e, 'a) prog) \<Rightarrow> ('s, 'e, 'a) prog" where
  "or_else m h s = (case m s of (Err e, s') \<Rightarrow> h e s' | (Ok x, s') \<Rightarrow> (Ok x, s') | (Panic, s') \<Rightarrow> (Panic, s'))"

definition effective_mode :: "string option \<Rightarrow> ConnectionMode \<Rightarrow> ConnectionMode" where
  "effective_mode var mode =
    (let env_mode = from_env var
     in if env_mode = Legacy then Legacy
        else if mode = Rsd then Rsd
        else with_legacy_flag env_mode (mode_is_legacy mode))"

definition try_daemon_path :: "('s, 't) path_env \<Rightarrow> string \<Rightarrow> ('s, dev_error, 't inner \<times> ActivePath) prog" where
  "try_daemon_path P udid s =
    (case p_daemon_running P s of (running, s1) \<Rightarrow>
       bnd (if running then ret () else bnd (p_spawn P) (\<lambda>_. p_wait P)) (\<lambda>_.
       bnd (p_legacy P) (\<lambda>lockdown. ret (InnerDaemon lockdown udid, PathRsd))) s1)"

definition try_rsd :: "('s, 't) path_env \<Rightarrow> ('s, dev_error, 't inner \<times> ActivePath) prog" where
  "try_rsd P =
    bnd (on_err (\<lambda>_. DevProtocol ''CDTunnel/RemotePairing failed'') (p_tunnel P)) (\<lambda>t.
    bnd (p_legacy P) (\<lambda>lockdown. ret (InnerRsd t lockdown, PathRsd)))"

definition open_legacy_path :: "('s, 't) path_env \<Rightarrow> ('s, dev_error, 't inner \<times> ActivePath) prog" where
  "open_legacy_path P = bnd (p_legacy P) (\<lambda>lockdown. ret (InnerLegacy lockdown, PathLegacy))"

definition rsd_path :: "('s, 't) path_env \<Rightarrow> string \<Rightarrow> ('s, dev_error, 't inner \<times> ActivePath) prog" where
  "rsd_path P udid = or_else (try_daemon_path P udid) (\<lambda>_. try_rsd P)"

definition select_path :: "('s, 't) path_env \<Rightarrow> string \<Rightarrow> ConnectionMode \<Rightarrow> IosVersion \<Rightarrow>
    ('s, dev_error, 't inner \<times> ActivePath) prog" where
  "select_path P udid effective version = (case effective of
     Legacy \<Rightarrow> open_legacy_path P
   | Rsd \<Rightarrow>
       if \<not> supports_core_device_proxy version
       then throw (DevProtocol (''iOS '' @ show_version version @
         '' does not support RSD via CoreDeviceProxy (requires iOS 17.4+)''))
       else on_err (\<lambda>_. DevProtocol ''RSD mode forced but failed'') (rsd_path P udid)
   | Auto \<Rightarrow>
       if supports_core_device_proxy version then or_else (rsd_path P udid) (\<lambda>_. open_legacy_path P)
       else open_legacy_path P)"

definition open_session :: "('s, 't) path_env \<Rightarrow> string option \<Rightarrow> string \<Rightarrow> ConnectionMode \<Rightarrow>
    ('s, dev_error, 't device_session) prog" where
  "open_session P var udid mode =
    bnd (p_detect P) (\<lambda>version.
    bnd (select_path P udid (effective_mode var mode) version) (\<lambda>(inn, path).
      ret \<lparr>ds_version = version, ds_active_path = path, ds_inner = inn\<rparr>))"

fun session_lockdown :: "'t inner \<Rightarrow> lockdown_session" where
  "session_lockdown (InnerLegacy s) = s"
| "session_lockdown (InnerRsd t s) = s"
| "session_lockdown (InnerDaemon s u) = s"

fun smoltcp_tunnel :: "'t inner \<Rightarrow> 't option" where
  "smoltcp_tunnel (InnerRsd t s) = Some t"
| "smoltcp_tunnel _ = None"

definition is_rsd :: "'t device_session \<Rightarrow> bool" where
  "is_rsd d \<longleftrightarrow> ds_active_path d = PathRsd"

section \<open>Waiting for the daemon\<close>

text \<open>
  The loop probes the socket, gives up once the clock has passed the deadline, and sleeps. The
  \<open>i\<close>-th probe succeeds if \<open>probe i\<close>, and \<open>clock i\<close> is the time in milliseconds that is read
  after it; the loop is not bounded by itself.
\<close>

partial_function (option) wait_loop :: "(nat \<Rightarrow> bool) \<Rightarrow> (nat \<Rightarrow> nat) \<Rightarrow> nat \<Rightarrow> nat \<Rightarrow> (dev_error, unit) outcome option" where
  "wait_loop probe clock deadline i =
    (if probe i then Some (Ok ())
     else if deadline \<le> clock i then Some (Err (DevProtocol ''tunnel daemon did not start within 15 s''))
     else wait_loop probe clock deadline (i + 1))"

definition wait_for_daemon :: "(nat \<Rightarrow> bool) \<Rightarrow> (nat \<Rightarrow> nat) \<Rightarrow> nat \<Rightarrow> (dev_error, unit) outcome option" where
  "wait_for_daemon probe clock t0 = wait_loop probe clock (t0 + 15000) 0"

section \<open>Services\<close>

text \<open>
  What a session needs for services: the socket of the daemon if it can be connected, the
  discovery port of a tunnel, and connections through it.
\<close>

record 't svc_env =
  v_daemon :: "sock option"
  v_rsd_port :: "'t \<Rightarrow> u16"
  v_connect :: "'t \<Rightarrow> u16 \<Rightarrow> (dev_error, sock) outcome"

definition daemon_socket :: "'t svc_env \<Rightarrow> (pvalue \<Rightarrow> bytes) \<Rightarrow> (bytes \<Rightarrow> pvalue option) \<Rightarrow> string \<Rightarrow> string \<Rightarrow>
    (dev_error, sock) outcome" where
  "daemon_socket V xml parse udid service =
    obind (ok_or (v_daemon V) (DevProtocol ''daemon connect'')) (\<lambda>s.
      case daemon_connect_service xml parse udid service s of
        (Ok _, s') \<Rightarrow> Ok s' | (Err e, _) \<Rightarrow> Err e | (Panic, _) \<Rightarrow> Panic)"

definition rsd_connect_stream :: "string \<Rightarrow> sock \<Rightarrow> (dev_error, rsd_client) outcome" where
  "rsd_connect_stream msg s = (case rx_connect s of
     (Ok _, c) \<Rightarrow> map_err (\<lambda>_. DevProtocol msg) (rsd_from_conn c)
   | (Err _, c) \<Rightarrow> Err (DevProtocol msg)
   | (Panic, c) \<Rightarrow> Panic)"

definition connect_rsd :: "'t svc_env \<Rightarrow> (pvalue \<Rightarrow> bytes) \<Rightarrow> (bytes \<Rightarrow> pvalue option) \<Rightarrow> 't inner \<Rightarrow>
    (dev_error, rsd_client) outcome" where
  "connect_rsd V xml parse inn = (case inn of
     InnerDaemon l udid \<Rightarrow> obind (daemon_socket V xml parse udid ''_rsd'') (rsd_connect_stream ''RSD via daemon'')
   | _ \<Rightarrow> obind (ok_or (smoltcp_tunnel inn) (DevProtocol ''RSD not available on legacy path'')) (\<lambda>t.
       obind (v_connect V t (v_rsd_port V t)) (rsd_connect_stream ''RSD connect'')))"

definition catalogue_port :: "'t svc_env \<Rightarrow> (pvalue \<Rightarrow> bytes) \<Rightarrow> (bytes \<Rightarrow> pvalue option) \<Rightarrow> 't inner \<Rightarrow> string \<Rightarrow>
    (dev_error, u16) outcome" where
  "catalogue_port V xml parse inn service =
    obind (connect_rsd V xml parse inn) (\<lambda>rsd.
      map_err id (ok_or (map_option se_port (rsd_service rsd service))
        (DevProtocol (''RSD service '' @ [CHR 0x27] @ service @ [CHR 0x27] @ '' not in catalog''))))"

definition connect_rsd_service :: "'t svc_env \<Rightarrow> (pvalue \<Rightarrow> bytes) \<Rightarrow> (bytes \<Rightarrow> pvalue option) \<Rightarrow> 't inner \<Rightarrow> string \<Rightarrow>
    (dev_error, sock) outcome" where
  "connect_rsd_service V xml parse inn service = (case inn of
     InnerDaemon l udid \<Rightarrow> daemon_socket V xml parse udid service
   | _ \<Rightarrow> obind (catalogue_port V xml parse inn service) (\<lambda>port.
       obind (ok_or (smoltcp_tunnel inn) (DevProtocol ''no CDTunnel available'')) (\<lambda>t. v_connect V t port)))"

text \<open>The check-in of this file has its lines on their own.\<close>

definition shim_checkin_plist :: string where
  "shim_checkin_plist =
    ''<?xml version='' @ [CHR 0x22] @ ''1.0'' @ [CHR 0x22] @ '' encoding='' @ [CHR 0x22] @ ''UTF-8'' @
    [CHR 0x22] @ ''?>'' @ [CHR 0x0A] @
    ''<!DOCTYPE plist PUBLIC '' @ [CHR 0x22] @ ''-//Apple//DTD PLIST 1.0//EN'' @ [CHR 0x22] @ '' '' @
    [CHR 0x22] @ ''http://www.apple.com/DTDs/PropertyList-1.0.dtd'' @ [CHR 0x22] @ ''>'' @ [CHR 0x0A] @
    ''<plist version='' @ [CHR 0x22] @ ''1.0'' @ [CHR 0x22] @ ''><dict>'' @ [CHR 0x0A] @
    ''<key>Label</key><string>devicelink</string>'' @ [CHR 0x0A] @
    ''<key>ProtocolVersion</key><string>2</string>'' @ [CHR 0x0A] @
    ''<key>Request</key><string>RSDCheckin</string>'' @ [CHR 0x0A] @
    ''</dict></plist>'' @ [CHR 0x0A]"

definition shim_checkin :: "(bytes \<Rightarrow> pvalue option) \<Rightarrow> (sock, dev_error, unit) prog" where
  "shim_checkin parse =
    bnd (on_err (\<lambda>_. DevProtocol ''RSDCheckin write'') (bnd (write_all (u32_be (word_of_nat (length shim_checkin_plist))))
      (\<lambda>_. write_all (bytes_of shim_checkin_plist)))) (\<lambda>_.
    on_err (\<lambda>_. DevProtocol ''RSDCheckin read'') (checkin_loop parse 4))"

definition connect_rsd_shim :: "'t svc_env \<Rightarrow> (pvalue \<Rightarrow> bytes) \<Rightarrow> (bytes \<Rightarrow> pvalue option) \<Rightarrow> 't inner \<Rightarrow> string \<Rightarrow>
    (dev_error, sock) outcome" where
  "connect_rsd_shim V xml parse inn service = (case inn of
     InnerDaemon l udid \<Rightarrow> daemon_socket V xml parse udid service
   | _ \<Rightarrow> obind (connect_rsd_service V xml parse inn service) (\<lambda>s.
       case shim_checkin parse s of (Ok _, s') \<Rightarrow> Ok s' | (Err e, _) \<Rightarrow> Err e | (Panic, _) \<Rightarrow> Panic))"

section \<open>Facts\<close>

lemma or_else_Ok_iff:
  "or_else m h s = (Ok x, t) \<longleftrightarrow> m s = (Ok x, t) \<or> (\<exists>e s'. m s = (Err e, s') \<and> h e s' = (Ok x, t))"
  by (auto simp: or_else_def split: prod.splits outcome.splits)

lemma effective_mode_cases:
  "effective_mode var mode = (if var \<in> {Some ''1'', Some ''true'', Some ''yes''} then Legacy else mode)"
  by (cases mode) (auto simp: effective_mode_def from_env_def with_legacy_flag_def mode_is_legacy_def Let_def)

fun path_of :: "'t inner \<Rightarrow> ActivePath" where
  "path_of (InnerLegacy s) = PathLegacy"
| "path_of (InnerRsd t s) = PathRsd"
| "path_of (InnerDaemon s u) = PathRsd"

lemma rsd_path_Ok: "rsd_path P udid s = (Ok (inn, path), t) \<Longrightarrow> path = PathRsd \<and> path_of inn = PathRsd"
  by (auto simp: rsd_path_def or_else_Ok_iff try_daemon_path_def try_rsd_def bnd_Ok_iff split: prod.splits)

lemma open_legacy_Ok: "open_legacy_path P s = (Ok (inn, path), t) \<Longrightarrow> path = PathLegacy \<and> path_of inn = PathLegacy"
  by (auto simp: open_legacy_path_def bnd_Ok_iff)

text \<open>
  C19: A session that opens is on the path it says it is on. It is on the discovery path only on
  devices from 17.4 on and never against the environment variable or the legacy flag, and always
  when that path was demanded; the variable wins over everything.
\<close>

theorem session_path:
  assumes "open_session P var udid mode s = (Ok d, t)"
  shows "ds_active_path d = path_of (ds_inner d) \<and>
    (is_rsd d \<longrightarrow> supports_core_device_proxy (ds_version d) \<and> effective_mode var mode \<noteq> Legacy) \<and>
    (mode = Rsd \<longrightarrow> var \<notin> {Some ''1'', Some ''true'', Some ''yes''} \<longrightarrow> is_rsd d) \<and>
    (var \<in> {Some ''1'', Some ''true'', Some ''yes''} \<longrightarrow> \<not> is_rsd d)"
proof -
  obtain v inn path s1 where v: "p_detect P s = (Ok v, s1)" "select_path P udid (effective_mode var mode) v s1 = (Ok (inn, path), t)"
    "d = \<lparr>ds_version = v, ds_active_path = path, ds_inner = inn\<rparr>"
    using assms by (auto simp: open_session_def bnd_Ok_iff)
  have "path = path_of inn \<and> (path = PathRsd \<longrightarrow> supports_core_device_proxy v \<and> effective_mode var mode \<noteq> Legacy) \<and>
    (effective_mode var mode = Rsd \<longrightarrow> path = PathRsd) \<and> (effective_mode var mode = Legacy \<longrightarrow> path = PathLegacy)"
    using v(2) by (auto simp: select_path_def on_err_Ok_iff or_else_Ok_iff split: ConnectionMode.splits if_splits
        dest!: rsd_path_Ok open_legacy_Ok)
  then show ?thesis using v(3) by (auto simp: is_rsd_def effective_mode_cases)
qed

text \<open>
  In the automatic mode a failed tunnel never costs the session: whenever the legacy path opens
  after the failed attempts, so does the session, and a device before 17.4 is reached without
  any such attempt.
\<close>

theorem auto_falls_back:
  assumes "p_detect P s = (Ok v, s1)" and "var \<notin> {Some ''1'', Some ''true'', Some ''yes''}"
  shows "(\<not> supports_core_device_proxy v \<longrightarrow> p_legacy P s1 = (Ok l, s2) \<longrightarrow>
      open_session P var udid Auto s = (Ok \<lparr>ds_version = v, ds_active_path = PathLegacy, ds_inner = InnerLegacy l\<rparr>, s2)) \<and>
    (supports_core_device_proxy v \<longrightarrow> rsd_path P udid s1 = (Err e, s2) \<longrightarrow> p_legacy P s2 = (Ok l, s3) \<longrightarrow>
      open_session P var udid Auto s = (Ok \<lparr>ds_version = v, ds_active_path = PathLegacy, ds_inner = InnerLegacy l\<rparr>, s3))"
  using assms by (auto simp: open_session_def effective_mode_cases select_path_def open_legacy_path_def or_else_def)

definition demo_session :: lockdown_session where
  "demo_session = demo_ls []"

definition demo_paths :: "IosVersion \<Rightarrow> bool \<Rightarrow> (nat, nat) path_env" where
  "demo_paths v tunnel = \<lparr>p_detect = ret v, p_legacy = (\<lambda>n. (Ok demo_session, n + 1)),
     p_daemon_running = (\<lambda>n. (False, n)), p_spawn = throw (DevProtocol ''spawn daemon''), p_wait = ret (),
     p_tunnel = (if tunnel then ret 5 else throw (DevProtocol ''no''))\<rparr>"

theorem session_path_witness:
  "\<exists>d. open_session (demo_paths (IosVersion 17 5 0) True) None ''u'' Rsd 0 = (Ok d, 1) \<and> is_rsd d"
proof -
  have "open_session (demo_paths (IosVersion 17 5 0) True) None ''u'' Rsd 0 =
      (Ok \<lparr>ds_version = IosVersion 17 5 0, ds_active_path = PathRsd, ds_inner = InnerRsd 5 demo_session\<rparr>, 1)"
    by (simp add: open_session_def effective_mode_cases select_path_def rsd_path_def or_else_def try_daemon_path_def
        try_rsd_def demo_paths_def supports_core_device_proxy_def less_eq_IosVersion_def bnd_def ret_def throw_def on_err_def)
  from session_path [OF this] this show ?thesis by simp
qed

theorem auto_falls_back_witness:
  "fst (open_session (demo_paths (IosVersion 17 5 0) False) None ''u'' Auto 0) =
    Ok \<lparr>ds_version = IosVersion 17 5 0, ds_active_path = PathLegacy, ds_inner = InnerLegacy demo_session\<rparr>"
proof -
  let ?P = "demo_paths (IosVersion 17 5 0) False"
  have "p_detect ?P 0 = (Ok (IosVersion 17 5 0), 0)" by (simp add: demo_paths_def)
  moreover have "rsd_path ?P ''u'' 0 = (Err (DevProtocol ''CDTunnel/RemotePairing failed''), 0)"
    by (simp add: rsd_path_def or_else_def try_daemon_path_def try_rsd_def demo_paths_def bnd_def throw_def ret_def on_err_def)
  moreover have "p_legacy ?P 0 = (Ok demo_session, 1)" by (simp add: demo_paths_def)
  moreover have "supports_core_device_proxy (IosVersion 17 5 0)"
    by (simp add: supports_core_device_proxy_def less_eq_IosVersion_def)
  ultimately show ?thesis using auto_falls_back [where P = ?P and s = 0 and v = "IosVersion 17 5 0" and var = None and l = demo_session and
        ?s2.0 = 0 and ?s3.0 = 1 and udid = "''u''" and e = "DevProtocol ''CDTunnel/RemotePairing failed''"] by simp
qed

lemma wait_loop_first:
  assumes "\<forall>j. i \<le> j \<and> j < n \<longrightarrow> \<not> probe j \<and> clock j < deadline" and "probe n \<or> deadline \<le> clock n" and "i \<le> n"
  shows "wait_loop probe clock deadline i =
    Some (if probe n then Ok () else Err (DevProtocol ''tunnel daemon did not start within 15 s''))"
  using assms(3,1)
proof (induction rule: inc_induct)
  case base
  then show ?case using assms(2) by (subst wait_loop.simps) auto
next
  case (step k)
  then have "\<not> probe k \<and> clock k < deadline" and "\<forall>j. Suc k \<le> j \<and> j < n \<longrightarrow> \<not> probe j \<and> clock j < deadline" by auto
  then show ?case using step.IH by (subst wait_loop.simps) (simp add: not_le)
qed

text \<open>
  C29: Waiting for the daemon ends: with a clock that advances by the time slept, after at most 76
  probes. It succeeds exactly if one of these probes does, and otherwise reports that the daemon
  did not start, never before the deadline.
\<close>

theorem wait_for_daemon_returns:
  assumes "\<And>i. clock i + 200 \<le> clock (i + 1)" and "t0 \<le> clock 0"
  shows "\<exists>n \<le> 75. (\<forall>i < n. \<not> probe i \<and> clock i < t0 + 15000) \<and> (probe n \<or> t0 + 15000 \<le> clock n) \<and>
    wait_for_daemon probe clock t0 =
      Some (if probe n then Ok () else Err (DevProtocol ''tunnel daemon did not start within 15 s''))"
proof -
  have "t0 + 200 * i \<le> clock i" for i
  proof (induction i)
    case (Suc i)
    then show ?case using assms(1) [of i] by simp
  qed (use assms(2) in simp)
  from this [of 75] have "probe 75 \<or> t0 + 15000 \<le> clock 75" by simp
  define n where "n = (LEAST n. probe n \<or> t0 + 15000 \<le> clock n)"
  have n: "probe n \<or> t0 + 15000 \<le> clock n" "n \<le> 75" unfolding n_def
    using \<open>probe 75 \<or> t0 + 15000 \<le> clock 75\<close> by (rule LeastI, rule Least_le)
  have below: "\<not> probe i \<and> clock i < t0 + 15000" if "i < n" for i
    using not_less_Least [OF that [unfolded n_def]] by simp
  have "wait_loop probe clock (t0 + 15000) 0 =
      Some (if probe n then Ok () else Err (DevProtocol ''tunnel daemon did not start within 15 s''))"
    by (rule wait_loop_first [of 0 n probe clock "t0 + 15000"]) (use n(1) below in simp_all)
  then show ?thesis using n below by (auto simp: wait_for_daemon_def)
qed

theorem wait_for_daemon_returns_witness:
  "\<exists>n \<le> 75. n = (3 :: nat) \<and> wait_for_daemon (\<lambda>i. i = 3) (\<lambda>i. 1000 + 200 * i) 1000 = Some (Ok ())"
proof -
  let ?clock = "\<lambda>i. 1000 + 200 * (i :: nat)"
  have 1: "?clock i + 200 \<le> ?clock (i + 1)" for i by simp
  have 2: "1000 \<le> ?clock 0" by simp
  from wait_for_daemon_returns [of ?clock 1000 "\<lambda>i. i = 3", OF 1 2] obtain n where
    n: "n \<le> 75" "\<forall>i < n. \<not> i = 3 \<and> 1000 + 200 * i < 1000 + (15000 :: nat)" "n = 3 \<or> 1000 + 15000 \<le> 1000 + 200 * n"
    "wait_for_daemon (\<lambda>i. i = 3) ?clock 1000 =
      Some (if n = 3 then Ok () else Err (DevProtocol ''tunnel daemon did not start within 15 s''))"
    by (elim exE conjE) (rule that)
  have "n \<le> 3" using n(2) by (metis not_le)
  then have "n = 3" using n(3) by simp
  then show ?thesis using n(4) by simp
qed

end
