(* ===== verification/Smoltcp.thy ===== *)
theory Smoltcp
  imports CdTunnel "HOL-Library.Multiset"
begin

text \<open>
  The socket management of the user-space TCP stack, \<open>src/src/tunnel/smoltcp_stack.rs\<close>: connection
  requests and their local ports, the promotion of established sockets, and the bridge that copies
  bytes between a socket and a pipe. The smoltcp crate is the record \<open>tcp_ops\<close> of the operations the
  code calls on a socket, \<open>conn\<close> the way it starts a connection, and \<open>poll\<close> its interface. A pipe is a socket of theory
  ByteStream: \<open>room\<close> is what it takes before it would block, and a write that runs into it has
  written a prefix, as \<open>write_all\<close> on a non-blocking pipe does.
\<close>

section \<open>Sockets of the crate\<close>

datatype tcp_state =
    Closed | Listen | SynSent | SynReceived | Established | FinWait1 | FinWait2 | CloseWait
  | Closing | LastAck | TimeWait

record 'k tcp_ops =
  t_state :: "'k \<Rightarrow> tcp_state"
  t_can_recv :: "'k \<Rightarrow> bool"
  t_recv_slice :: "nat \<Rightarrow> 'k \<Rightarrow> (unit + bytes) \<times> 'k"
  t_can_send :: "'k \<Rightarrow> bool"
  t_send_slice :: "bytes \<Rightarrow> 'k \<Rightarrow> nat option \<times> 'k"
  t_close :: "'k \<Rightarrow> 'k"

section \<open>Requests and promotion\<close>

text \<open>
  A request is known by a number; \<open>st_answers\<close> is what was sent back on the channels, the text of an
  error or the handle whose pipe the client got.
\<close>

record 'k stack =
  st_sockets :: "nat \<Rightarrow> 'k option"
  st_next_handle :: nat
  st_pending :: "(nat \<times> nat) list"
  st_active :: "(nat \<times> sock \<times> bytes) list"
  st_next_port :: u16
  st_answers :: "(nat \<times> (string + nat)) list"

definition FIRST_PORT :: u16 where "FIRST_PORT = 49152"

definition stack_new :: "'k stack" where
  "stack_new = \<lparr>st_sockets = (\<lambda>_. None), st_next_handle = 0, st_pending = [], st_active = [],
     st_next_port = FIRST_PORT, st_answers = []\<rparr>"

definition next_local_port :: "u16 \<Rightarrow> u16" where
  "next_local_port p = max (p + 1) FIRST_PORT"

record ConnectReq =
  rq_addr :: bytes
  rq_port :: u16
  rq_reply :: nat

text \<open>
  \<open>conn addr port local\<close>: a new socket that connects, or the text of the error. The crate may give a
  new socket the handle of one that was removed; here every handle is new, so that the use of a
  handle after its removal shows as a panic instead of reaching another socket.
\<close>

definition accept_request :: "(bytes \<Rightarrow> u16 \<Rightarrow> u16 \<Rightarrow> string + 'k) \<Rightarrow> ConnectReq \<Rightarrow> 'k stack \<Rightarrow> 'k stack" where
  "accept_request conn req st =
    (let local = st_next_port st; st1 = st\<lparr>st_next_port := next_local_port local\<rparr>
     in case conn (rq_addr req) (rq_port req) local of
          Inr k \<Rightarrow> st1\<lparr>st_sockets := (st_sockets st1)(st_next_handle st1 := Some k),
             st_next_handle := st_next_handle st1 + 1,
             st_pending := st_pending st1 @ [(st_next_handle st1, rq_reply req)]\<rparr>
        | Inl e \<Rightarrow> st1\<lparr>st_answers := st_answers st1 @ [(rq_reply req, Inl e)]\<rparr>)"

text \<open>
  One pending entry: the answer, if it does not stay. \<open>pair h\<close> is \<open>UnixStream::pair\<close>: the text of an
  error or the pipe, with what the client is going to do with its end.
\<close>

definition promote_one :: "'k tcp_ops \<Rightarrow> (nat \<Rightarrow> string + sock) \<Rightarrow> nat \<Rightarrow> 'k \<Rightarrow> (string + sock) option" where
  "promote_one T pair h k = (case t_state T k of
     Established \<Rightarrow> Some (pair h)
   | Closed \<Rightarrow> Some (Inl ''connection refused or timed out'')
   | TimeWait \<Rightarrow> Some (Inl ''connection refused or timed out'')
   | _ \<Rightarrow> None)"

text \<open>\<open>pending.retain(..)\<close>; a handle that is not in the set panics.\<close>

fun promote_list :: "'k tcp_ops \<Rightarrow> (nat \<Rightarrow> string + sock) \<Rightarrow> (nat \<times> nat) list \<Rightarrow> 'k stack \<Rightarrow> 'k stack option" where
  "promote_list T pair [] st = Some st"
| "promote_list T pair ((h, req) # es) st = (case st_sockets st h of
     None \<Rightarrow> None
   | Some k \<Rightarrow> (case promote_one T pair h k of
       None \<Rightarrow> promote_list T pair es (st\<lparr>st_pending := st_pending st @ [(h, req)]\<rparr>)
     | Some (Inl e) \<Rightarrow> promote_list T pair es (st\<lparr>st_answers := st_answers st @ [(req, Inl e)]\<rparr>)
     | Some (Inr p) \<Rightarrow> promote_list T pair es
         (st\<lparr>st_active := st_active st @ [(h, p, [])], st_answers := st_answers st @ [(req, Inr h)]\<rparr>)))"

definition promote :: "'k tcp_ops \<Rightarrow> (nat \<Rightarrow> string + sock) \<Rightarrow> 'k stack \<Rightarrow> 'k stack option" where
  "promote T pair st = promote_list T pair (st_pending st) (st\<lparr>st_pending := []\<rparr>)"

section \<open>The bridge\<close>

partial_function (option) recv_loop :: "'k tcp_ops \<Rightarrow> 'k \<Rightarrow> sock \<Rightarrow> bytes \<Rightarrow> ('k \<times> sock \<times> bytes) option" where
  "recv_loop T k p write_buf =
    (if \<not> t_can_recv T k then Some (k, p, write_buf)
     else case t_recv_slice T 8192 k of
       (Inl _, k1) \<Rightarrow> Some (k1, p, write_buf)
     | (Inr bs, k1) \<Rightarrow>
         if bs = [] then Some (k1, p, write_buf)
         else case write_all bs p of
           (Ok _, p1) \<Rightarrow> recv_loop T k1 p1 write_buf
         | (_, p1) \<Rightarrow> Some (k1, p1, write_buf @ bs))"

function send_loop :: "'k tcp_ops \<Rightarrow> 'k \<Rightarrow> sock \<Rightarrow> 'k \<times> sock" where
  "send_loop T k p =
    (if \<not> t_can_send T k then (k, p)
     else case read_some 8192 (inp p) of
       (Inr [], i) \<Rightarrow> (t_close T k, p\<lparr>inp := i\<rparr>)
     | (Inr (b # bs), i) \<Rightarrow> send_loop T (snd (t_send_slice T (b # bs) k)) (p\<lparr>inp := i\<rparr>)
     | (Inl kind, i) \<Rightarrow> if kind = WouldBlock then (k, p\<lparr>inp := i\<rparr>) else (t_close T k, p\<lparr>inp := i\<rparr>))"
  by pat_completeness auto
termination
  by (relation "measure (\<lambda>(T, k, p). weight (inp p))") (auto dest!: sym [of _ "read_some _ _"] read_some_weight)

declare send_loop.simps [simp del]

definition bridge_go :: "'k tcp_ops \<Rightarrow> 'k \<Rightarrow> sock \<Rightarrow> bytes \<Rightarrow> ('k \<times> sock \<times> bytes \<times> bool) option" where
  "bridge_go T k p write_buf = (case recv_loop T k p write_buf of
     None \<Rightarrow> None
   | Some (k1, p1, wb) \<Rightarrow> (case send_loop T k1 p1 of
       (k2, p2) \<Rightarrow> Some (k2, p2, wb, t_state T k2 \<in> {Closed, TimeWait} \<and> \<not> t_can_recv T k2)))"

text \<open>One active entry in one poll; the flag says that it is removed.\<close>

definition bridge_one :: "'k tcp_ops \<Rightarrow> 'k \<Rightarrow> sock \<Rightarrow> bytes \<Rightarrow> ('k \<times> sock \<times> bytes \<times> bool) option" where
  "bridge_one T k p write_buf =
    (if write_buf = [] then bridge_go T k p []
     else case write_all write_buf p of
       (Ok _, p1) \<Rightarrow> bridge_go T k p1 []
     | (_, p1) \<Rightarrow> Some (k, p1, write_buf, False))"

fun bridge_all :: "'k tcp_ops \<Rightarrow> (nat \<Rightarrow> 'k option) \<Rightarrow> (nat \<times> sock \<times> bytes) list \<Rightarrow>
    ((nat \<Rightarrow> 'k option) \<times> (nat \<times> sock \<times> bytes) list) option" where
  "bridge_all T socks [] = Some (socks, [])"
| "bridge_all T socks ((h, p, wb) # rest) = (case socks h of
     None \<Rightarrow> None
   | Some k \<Rightarrow> (case bridge_one T k p wb of
       None \<Rightarrow> None
     | Some (k', p', wb', removed) \<Rightarrow>
         (case bridge_all T (socks(h := (if removed then None else Some k'))) rest of
            None \<Rightarrow> None
          | Some (socks', rest') \<Rightarrow> Some (socks', if removed then rest' else (h, p', wb') # rest'))))"

definition promote_and_bridge :: "'k tcp_ops \<Rightarrow> (nat \<Rightarrow> string + sock) \<Rightarrow> 'k stack \<Rightarrow> 'k stack option" where
  "promote_and_bridge T pair st = (case promote T pair st of
     None \<Rightarrow> None
   | Some st1 \<Rightarrow> (case bridge_all T (st_sockets st1) (st_active st1) of
       None \<Rightarrow> None
     | Some (socks, act) \<Rightarrow> Some (st1\<lparr>st_sockets := socks, st_active := act\<rparr>)))"

section \<open>The loops\<close>

record tunnel_device =
  dv_rx :: "bytes list"
  dv_tx :: "bytes list"

definition device_receive :: "tunnel_device \<Rightarrow> (bytes \<times> tunnel_device) option" where
  "device_receive d = (case dv_rx d of [] \<Rightarrow> None | p # ps \<Rightarrow> Some (p, d\<lparr>dv_rx := ps\<rparr>))"

text \<open>A transmit token: a packet of the length asked for, filled by the caller.\<close>

definition device_transmit :: "nat \<Rightarrow> (bytes \<Rightarrow> bytes) \<Rightarrow> tunnel_device \<Rightarrow> tunnel_device" where
  "device_transmit len f d = d\<lparr>dv_tx := dv_tx d @ [f (replicate len 0)]\<rparr>"

record 'k loop_state =
  lo_stack :: "'k stack"
  lo_device :: tunnel_device
  lo_stream :: sock

type_synonym 'k poll = "tunnel_device \<times> (nat \<Rightarrow> 'k option) \<Rightarrow> tunnel_device \<times> (nat \<Rightarrow> 'k option)"

definition accept_all :: "(bytes \<Rightarrow> u16 \<Rightarrow> u16 \<Rightarrow> string + 'k) \<Rightarrow> ConnectReq list \<Rightarrow> 'k stack \<Rightarrow> 'k stack" where
  "accept_all conn reqs st = fold (accept_request conn) reqs st"

definition iface_poll :: "'k poll \<Rightarrow> 'k loop_state \<Rightarrow> 'k loop_state" where
  "iface_poll poll l = (case poll (lo_device l, st_sockets (lo_stack l)) of
     (d, socks) \<Rightarrow> l\<lparr>lo_device := d, lo_stack := (lo_stack l)\<lparr>st_sockets := socks\<rparr>\<rparr>)"

text \<open>\<open>while let Some(pkt) = device.tx.pop_front()\<close>: the results are ignored by the one loop and end the other.\<close>

fun flush_ignoring :: "bytes list \<Rightarrow> sock \<Rightarrow> sock" where
  "flush_ignoring [] s = s"
| "flush_ignoring (p # ps) s = flush_ignoring ps (snd (send_ipv6_packet p s))"

fun flush_checked :: "bytes list \<Rightarrow> sock \<Rightarrow> bytes list \<times> bool \<times> sock" where
  "flush_checked [] s = ([], True, s)"
| "flush_checked (p # ps) s = (case write_all p s of
     (Ok _, s') \<Rightarrow> flush_checked ps s'
   | (_, s') \<Rightarrow> (ps, False, s'))"

text \<open>
  One turn of \<open>poll_loop\<close>, with the packets the reader thread has queued and the requests that wait
  in the channel; \<open>None\<close> is a panic of the thread.
\<close>

definition poll_turn :: "(bytes \<Rightarrow> u16 \<Rightarrow> u16 \<Rightarrow> string + 'k) \<Rightarrow> 'k poll \<Rightarrow> 'k tcp_ops \<Rightarrow> (nat \<Rightarrow> string + sock) \<Rightarrow>
    bytes list \<Rightarrow> ConnectReq list \<Rightarrow> 'k loop_state \<Rightarrow> 'k loop_state option" where
  "poll_turn conn poll T pair queued reqs l =
    (let l1 = l\<lparr>lo_device := (lo_device l)\<lparr>dv_rx := dv_rx (lo_device l) @ queued\<rparr>,
                 lo_stack := accept_all conn reqs (lo_stack l)\<rparr>;
         l2 = iface_poll poll l1;
         l3 = l2\<lparr>lo_stream := flush_ignoring (dv_tx (lo_device l2)) (lo_stream l2),
                  lo_device := (lo_device l2)\<lparr>dv_tx := []\<rparr>\<rparr>
     in map_option (\<lambda>st. l3\<lparr>lo_stack := st\<rparr>) (promote_and_bridge T pair (lo_stack l3)))"

text \<open>One turn of \<open>unified_loop\<close>: it goes on, returns, or panics.\<close>

datatype 'a turn = Goes 'a | Returns | Panics

definition unified_turn :: "(bytes \<Rightarrow> u16 \<Rightarrow> u16 \<Rightarrow> string + 'k) \<Rightarrow> 'k poll \<Rightarrow> 'k tcp_ops \<Rightarrow> (nat \<Rightarrow> string + sock) \<Rightarrow>
    ConnectReq list \<Rightarrow> 'k loop_state \<Rightarrow> 'k loop_state turn" where
  "unified_turn conn poll T pair reqs l =
    (let go = (\<lambda>pkts i.
       (let l1 = l\<lparr>lo_device := (lo_device l)\<lparr>dv_rx := dv_rx (lo_device l) @ pkts\<rparr>,
                    lo_stack := accept_all conn reqs (lo_stack l), lo_stream := (lo_stream l)\<lparr>inp := i\<rparr>\<rparr>;
            l2 = iface_poll poll l1
        in case flush_checked (dv_tx (lo_device l2)) (lo_stream l2) of
             (tx, False, s) \<Rightarrow> Returns
           | (tx, True, s) \<Rightarrow> (case promote_and_bridge T pair (lo_stack l2) of
               None \<Rightarrow> Panics
             | Some st \<Rightarrow> Goes (l2\<lparr>lo_stream := s, lo_device := (lo_device l2)\<lparr>dv_tx := tx\<rparr>, lo_stack := st\<rparr>))))
     in case recv_ipv6 (inp (lo_stream l)) of
          (Ok pkt, i) \<Rightarrow> go [pkt] i
        | (Err kind, i) \<Rightarrow> if kind = WouldBlock \<or> kind = TimedOut then go [] i else Returns
        | (Panic, i) \<Rightarrow> Panics)"

text \<open>
  A turn of the plain loop, as the outside decides it: how the interface moves the sockets, what
  \<open>pair\<close> gives, the packets queued and the requests waiting.
\<close>

record 'k turn_input =
  ti_poll :: "'k poll"
  ti_pair :: "nat \<Rightarrow> string + sock"
  ti_queued :: "bytes list"
  ti_reqs :: "ConnectReq list"

fun poll_loop :: "(bytes \<Rightarrow> u16 \<Rightarrow> u16 \<Rightarrow> string + 'k) \<Rightarrow> 'k tcp_ops \<Rightarrow> 'k turn_input list \<Rightarrow>
    'k loop_state \<Rightarrow> 'k loop_state option" where
  "poll_loop conn T [] l = Some l"
| "poll_loop conn T (i # is) l =
    (case poll_turn conn (ti_poll i) T (ti_pair i) (ti_queued i) (ti_reqs i) l of
       None \<Rightarrow> None | Some l' \<Rightarrow> poll_loop conn T is l')"

definition loop_new :: "sock \<Rightarrow> 'k loop_state" where
  "loop_new s = \<lparr>lo_stack = stack_new, lo_device = \<lparr>dv_rx = [], dv_tx = []\<rparr>, lo_stream = s\<rparr>"

section \<open>Laws of the crate\<close>

text \<open>The receive side of a socket is a queue of bytes, and polling neither adds nor removes sockets.\<close>

definition recv_queue :: "'k tcp_ops \<Rightarrow> ('k \<Rightarrow> bytes) \<Rightarrow> bool" where
  "recv_queue T q \<longleftrightarrow> (\<forall>k. (t_can_recv T k \<longleftrightarrow> q k \<noteq> []) \<and>
     (\<forall>n. q k \<noteq> [] \<longrightarrow> (\<exists>k'. t_recv_slice T n k = (Inr (take n (q k)), k') \<and> q k' = drop n (q k))))"

definition keeps_sockets :: "'k poll \<Rightarrow> bool" where
  "keeps_sockets poll \<longleftrightarrow> (\<forall>d socks. dom (snd (poll (d, socks))) = dom socks)"

lemma recv_queueD:
  assumes "recv_queue T q"
  shows "t_can_recv T k \<longleftrightarrow> q k \<noteq> []"
    and "q k \<noteq> [] \<Longrightarrow> \<exists>k'. t_recv_slice T n k = (Inr (take n (q k)), k') \<and> q k' = drop n (q k)"
  using assms by (auto simp: recv_queue_def)

section \<open>The bridge returns\<close>

lemma recv_loop_step:
  assumes "recv_queue T q" and "q k \<noteq> []"
  obtains k' where "q k' = drop 8192 (q k)"
    and "recv_loop T k p wb = (case write_all (take 8192 (q k)) p of
      (Ok _, p1) \<Rightarrow> recv_loop T k' p1 wb | (_, p1) \<Rightarrow> Some (k', p1, wb @ take 8192 (q k)))"
proof -
  obtain k' where k': "t_recv_slice T 8192 k = (Inr (take 8192 (q k)), k')" "q k' = drop 8192 (q k)"
    using recv_queueD(2) [OF assms, of 8192] by blast
  show thesis
    by (rule that [OF k'(2)]) (simp add: recv_loop.simps [of T k] recv_queueD(1) [OF assms(1)] assms(2) k'(1))
qed

lemma recv_loop_returns:
  assumes "recv_queue T q"
  shows "\<exists>r. recv_loop T k p wb = Some r"
proof (induction "length (q k)" arbitrary: k p rule: less_induct)
  case less
  show ?case
  proof (cases "q k = []")
    case True
    then show ?thesis by (simp add: recv_loop.simps [of T k] recv_queueD(1) [OF assms])
  next
    case False
    obtain k' where k': "q k' = drop 8192 (q k)"
      and eq: "recv_loop T k p wb = (case write_all (take 8192 (q k)) p of
        (Ok _, p1) \<Rightarrow> recv_loop T k' p1 wb | (_, p1) \<Rightarrow> Some (k', p1, wb @ take 8192 (q k)))"
      by (rule recv_loop_step [OF assms False, of p wb])
    have "length (q k') < length (q k)" using False k' by simp
    from less [OF this] show ?thesis unfolding eq by (simp split: prod.splits outcome.splits)
  qed
qed

lemma bridge_one_returns:
  assumes "recv_queue T q"
  shows "\<exists>r. bridge_one T k p wb = Some r"
proof -
  have "\<exists>r. bridge_go T k p' wb' = Some r" for p' wb'
    using recv_loop_returns [OF assms, of k p' wb'] by (auto simp: bridge_go_def split: prod.splits)
  then show ?thesis by (auto simp: bridge_one_def split: prod.splits outcome.splits)
qed

lemma bridge_all_returns:
  assumes "recv_queue T q" and "fst ` set act \<subseteq> dom socks" and "distinct (map fst act)"
  shows "\<exists>socks' act'. bridge_all T socks act = Some (socks', act') \<and> distinct (map fst act') \<and>
    fst ` set act' \<subseteq> fst ` set act \<and> fst ` set act' \<subseteq> dom socks' \<and>
    dom socks - fst ` set act \<subseteq> dom socks' \<and> dom socks' \<subseteq> dom socks"
  using assms(2,3)
proof (induction act arbitrary: socks)
  case (Cons e act)
  obtain h p wb where e: "e = (h, p, wb)" by (cases e)
  then obtain k where k: "socks h = Some k" using Cons.prems by auto
  obtain k' p' wb' rem where b: "bridge_one T k p wb = Some (k', p', wb', rem)"
    using bridge_one_returns [OF assms(1), of k p wb] by auto
  define s1 where "s1 = socks(h := (if rem then None else Some k'))"
  have "fst ` set act \<subseteq> dom s1" using Cons.prems e by (auto simp: s1_def)
  with Cons.IH [of s1] Cons.prems obtain socks' act' where
    r: "bridge_all T s1 act = Some (socks', act')" "distinct (map fst act')"
      "fst ` set act' \<subseteq> fst ` set act" "fst ` set act' \<subseteq> dom socks'"
      "dom s1 - fst ` set act \<subseteq> dom socks'" "dom socks' \<subseteq> dom s1" by auto
  have h: "h \<notin> fst ` set act" using Cons.prems e by auto
  have d: "dom s1 = (if rem then dom socks - {h} else dom socks)" using k by (auto simp: s1_def)
  have eq: "bridge_all T socks (e # act) = Some (socks', if rem then act' else (h, p', wb') # act')"
    using r(1) by (simp add: e k b s1_def)
  define act2 where "act2 = (if rem then act' else (h, p', wb') # act')"
  have a: "fst ` set act2 = (if rem then fst ` set act' else insert h (fst ` set act'))"
    "fst ` set (e # act) = insert h (fst ` set act)" by (simp_all add: act2_def e)
  have hs: "h \<in> dom socks" using k by auto
  have "distinct (map fst act2)" using r(2,3) h by (auto simp: act2_def)
  moreover have "fst ` set act2 \<subseteq> fst ` set (e # act)" unfolding a using r(3) by (cases rem) auto
  moreover have "fst ` set act2 \<subseteq> dom socks'"
    unfolding a using r(4,5) d h hs by (cases rem) (simp_all only: if_True if_False, blast+)
  moreover have "dom socks - fst ` set (e # act) \<subseteq> dom socks'"
    unfolding a using r(5) d by (cases rem) (simp_all only: if_True if_False, blast+)
  moreover have "dom socks' \<subseteq> dom socks" using r(6) d by (cases rem) auto
  ultimately show ?case using eq by (auto simp only: act2_def)
qed simp

section \<open>Requests and answers\<close>

interpretation local_ports: cyclic_alloc next_local_port FIRST_PORT
  using wrap_next_alloc [of FIRST_PORT] by (simp add: wrap_next_def [abs_def] next_local_port_def [abs_def])

lemma funpow_add_apply: "(f ^^ (m + n)) x = (f ^^ m) ((f ^^ n) x)"
  by (simp add: funpow_add)

text \<open>The handles whose pipes were handed to clients, and the requests that have been taken and not lost.\<close>

definition handed :: "(nat \<times> (string + nat)) list \<Rightarrow> nat list" where
  "handed as = concat (map (\<lambda>a. case snd a of Inr h \<Rightarrow> [h] | Inl _ \<Rightarrow> []) as)"

lemma handed_simps [simp]:
  "handed [] = []" "handed (as @ bs) = handed as @ handed bs"
  "handed [(r, Inr h)] = [h]" "handed [(r, Inl e)] = []"
  by (simp_all add: handed_def)

definition requests_of :: "'k stack \<Rightarrow> nat multiset" where
  "requests_of st = mset (map fst (st_answers st)) + mset (map snd (st_pending st))"

definition stack_inv :: "'k stack \<Rightarrow> bool" where
  "stack_inv st \<longleftrightarrow> distinct (map fst (st_pending st) @ handed (st_answers st)) \<and>
     dom (st_sockets st) \<union> set (handed (st_answers st)) \<subseteq> {..<st_next_handle st} \<and>
     fst ` set (st_pending st) \<subseteq> dom (st_sockets st) \<and>
     fst ` set (st_active st) \<subseteq> dom (st_sockets st) \<and>
     fst ` set (st_active st) \<subseteq> set (handed (st_answers st)) \<and> distinct (map fst (st_active st))"

lemma stack_inv_new [simp]: "stack_inv stack_new"
  by (simp add: stack_inv_def stack_new_def)

lemma accept_request_inv:
  assumes "stack_inv st"
  shows "stack_inv (accept_request conn r st)"
proof -
  have "fst ` set (st_pending st) \<subseteq> {..<st_next_handle st}" using assms
    by (meson Un_subset_iff order_trans stack_inv_def)
  then have "st_next_handle st \<notin> fst ` set (st_pending st)" by blast
  with assms show ?thesis
    by (auto simp: accept_request_def stack_inv_def Let_def image_iff subset_iff less_Suc_eq split: sum.splits)
qed

lemma accept_request_requests:
  "requests_of (accept_request conn r st) = add_mset (rq_reply r) (requests_of st)"
  by (auto simp: accept_request_def requests_of_def Let_def split: sum.splits)

lemma accept_all_inv: "stack_inv st \<Longrightarrow> stack_inv (accept_all conn rs st)"
  unfolding accept_all_def by (induction rs arbitrary: st) (auto simp: accept_request_inv)

lemma accept_all_requests:
  "requests_of (accept_all conn rs st) = requests_of st + mset (map rq_reply rs)"
  unfolding accept_all_def by (induction rs arbitrary: st) (auto simp: accept_request_requests)

lemma accept_all_port:
  "st_next_port (accept_all conn rs st) = (next_local_port ^^ length rs) (st_next_port st)"
proof -
  have "st_next_port (accept_request conn r st) = next_local_port (st_next_port st)" for r and st :: "'a stack"
    by (simp add: accept_request_def Let_def split: sum.splits)
  then show ?thesis unfolding accept_all_def
    by (induction rs arbitrary: st) (simp_all add: funpow_swap1)
qed

lemma promote_list_inv:
  assumes "stack_inv (st\<lparr>st_pending := st_pending st @ es\<rparr>)"
  shows "\<exists>st'. promote_list T pair es st = Some st' \<and> stack_inv st' \<and>
    requests_of st' = requests_of (st\<lparr>st_pending := st_pending st @ es\<rparr>) \<and> st_next_port st' = st_next_port st"
  using assms
proof (induction es arbitrary: st)
  case (Cons e es)
  obtain h req where e: "e = (h, req)" by (cases e)
  then obtain k where k: "st_sockets st h = Some k" using Cons.prems by (auto simp: stack_inv_def)
  have keep: ?case if "promote_one T pair h k = None"
    using Cons.IH [of "st\<lparr>st_pending := st_pending st @ [(h, req)]\<rparr>"] Cons.prems that by (simp add: e k)
  have refuse: ?case if "promote_one T pair h k = Some (Inl msg)" for msg
  proof -
    have "stack_inv (st\<lparr>st_answers := st_answers st @ [(req, Inl msg)], st_pending := st_pending st @ es\<rparr>)"
      using Cons.prems by (auto simp: stack_inv_def e)
    with Cons.IH [of "st\<lparr>st_answers := st_answers st @ [(req, Inl msg)]\<rparr>"] show ?thesis
      by (simp add: e k that requests_of_def)
  qed
  have hand: ?case if "promote_one T pair h k = Some (Inr p)" for p
  proof -
    have "stack_inv (st\<lparr>st_active := st_active st @ [(h, p, [])], st_answers := st_answers st @ [(req, Inr h)],
        st_pending := st_pending st @ es\<rparr>)"
      using Cons.prems by (auto simp: stack_inv_def e k)
    with Cons.IH [of "st\<lparr>st_active := st_active st @ [(h, p, [])], st_answers := st_answers st @ [(req, Inr h)]\<rparr>"]
    show ?thesis by (simp add: e k that requests_of_def)
  qed
  show ?case
  proof (cases "promote_one T pair h k")
    case (Some a)
    then show ?thesis by (cases a) (auto intro: refuse hand)
  qed (rule keep)
qed simp

lemma disjoint_kept: "P \<inter> H = {} \<Longrightarrow> P \<subseteq> D \<Longrightarrow> A \<subseteq> H \<Longrightarrow> D - A \<subseteq> S \<Longrightarrow> P \<subseteq> S"
  by blast

lemma promote_and_bridge_inv:
  assumes "recv_queue T q" and "stack_inv st"
  shows "\<exists>st'. promote_and_bridge T pair st = Some st' \<and> stack_inv st' \<and> requests_of st' = requests_of st \<and>
    st_next_port st' = st_next_port st"
proof -
  obtain s1 where s1: "promote T pair st = Some s1" "stack_inv s1" "requests_of s1 = requests_of st"
      "st_next_port s1 = st_next_port st"
    using promote_list_inv [of "st\<lparr>st_pending := []\<rparr>" "st_pending st" T pair] assms(2) by (auto simp: promote_def)
  then have "fst ` set (st_active s1) \<subseteq> dom (st_sockets s1)" "distinct (map fst (st_active s1))"
    by (simp_all add: stack_inv_def)
  from bridge_all_returns [OF assms(1) this] obtain socks act where
    b: "bridge_all T (st_sockets s1) (st_active s1) = Some (socks, act)" "distinct (map fst act)"
      "fst ` set act \<subseteq> fst ` set (st_active s1)" "fst ` set act \<subseteq> dom socks"
      "dom (st_sockets s1) - fst ` set (st_active s1) \<subseteq> dom socks" "dom socks \<subseteq> dom (st_sockets s1)"
    by blast
  have i: "distinct (map fst (st_pending s1) @ handed (st_answers s1))"
    "dom (st_sockets s1) \<union> set (handed (st_answers s1)) \<subseteq> {..<st_next_handle s1}"
    "fst ` set (st_pending s1) \<subseteq> dom (st_sockets s1)" "fst ` set (st_active s1) \<subseteq> set (handed (st_answers s1))"
    using s1(2) by (simp_all only: stack_inv_def simp_thms)
  have "fst ` set (st_pending s1) \<inter> set (handed (st_answers s1)) = {}" using i(1) by simp
  then have "fst ` set (st_pending s1) \<subseteq> dom socks" by (rule disjoint_kept [OF _ i(3,4) b(5)])
  moreover have "dom socks \<union> set (handed (st_answers s1)) \<subseteq> {..<st_next_handle s1}"
    using i(2) order_trans [OF b(6)] by simp
  ultimately have "stack_inv (s1\<lparr>st_sockets := socks, st_active := act\<rparr>)"
    using i(1) b(2,4) order_trans [OF b(3) i(4)] by (simp add: stack_inv_def)
  then show ?thesis using s1 b(1) by (simp add: promote_and_bridge_def requests_of_def)
qed

lemma poll_turn_inv:
  assumes "recv_queue T q" and "keeps_sockets poll" and "stack_inv (lo_stack l)"
  shows "\<exists>l'. poll_turn conn poll T pair queued reqs l = Some l' \<and> stack_inv (lo_stack l') \<and>
    requests_of (lo_stack l') = requests_of (lo_stack l) + mset (map rq_reply reqs) \<and>
    st_next_port (lo_stack l') = (next_local_port ^^ length reqs) (st_next_port (lo_stack l))"
proof -
  define a where "a = accept_all conn reqs (lo_stack l)"
  obtain d socks where p: "poll ((lo_device l)\<lparr>dv_rx := dv_rx (lo_device l) @ queued\<rparr>, st_sockets a) = (d, socks)"
    by (cases "poll ((lo_device l)\<lparr>dv_rx := dv_rx (lo_device l) @ queued\<rparr>, st_sockets a)")
  have "dom socks = dom (st_sockets a)" using assms(2) p by (metis keeps_sockets_def snd_conv)
  moreover have "stack_inv a" unfolding a_def by (rule accept_all_inv [OF assms(3)])
  ultimately have "stack_inv (a\<lparr>st_sockets := socks\<rparr>)" by (simp add: stack_inv_def)
  from promote_and_bridge_inv [OF assms(1) this, of pair] obtain st' where
    "promote_and_bridge T pair (a\<lparr>st_sockets := socks\<rparr>) = Some st'" "stack_inv st'"
    "requests_of st' = requests_of a" "st_next_port st' = st_next_port a" by (auto simp: requests_of_def)
  then show ?thesis
    by (simp add: poll_turn_def iface_poll_def Let_def a_def [symmetric] p) (simp add: a_def accept_all_requests accept_all_port)
qed

lemma poll_loop_inv:
  assumes "recv_queue T q" and "list_all (\<lambda>i. keeps_sockets (ti_poll i)) is" and "stack_inv (lo_stack l)"
  shows "\<exists>l'. poll_loop conn T is l = Some l' \<and> stack_inv (lo_stack l') \<and>
    requests_of (lo_stack l') = requests_of (lo_stack l) + mset (map rq_reply (concat (map ti_reqs is))) \<and>
    st_next_port (lo_stack l') = (next_local_port ^^ length (concat (map ti_reqs is))) (st_next_port (lo_stack l))"
  using assms(2,3)
proof (induction "is" arbitrary: l)
  case (Cons i "is")
  from poll_turn_inv [OF assms(1), of "ti_poll i" l conn "ti_pair i" "ti_queued i" "ti_reqs i"] Cons.prems
  obtain l1 where "poll_turn conn (ti_poll i) T (ti_pair i) (ti_queued i) (ti_reqs i) l = Some l1"
    "stack_inv (lo_stack l1)" "requests_of (lo_stack l1) = requests_of (lo_stack l) + mset (map rq_reply (ti_reqs i))"
    "st_next_port (lo_stack l1) = (next_local_port ^^ length (ti_reqs i)) (st_next_port (lo_stack l))"
    by auto
  with Cons.IH [of l1] Cons.prems show ?case
    by (auto simp: ac_simps funpow_swap1 simp flip: funpow_add_apply)
qed simp

section \<open>The bridge moves bytes\<close>

text \<open>
  A socket seen as two byte queues: what was received and not read, what was accepted for sending,
  and the room for more.
\<close>

record 'k tcp_view =
  vw_rx :: "'k \<Rightarrow> bytes"
  vw_tx :: "'k \<Rightarrow> bytes"
  vw_space :: "'k \<Rightarrow> nat"

definition tcp_laws :: "'k tcp_ops \<Rightarrow> 'k tcp_view \<Rightarrow> bool" where
  "tcp_laws T V \<longleftrightarrow> recv_queue T (vw_rx V) \<and>
     (\<forall>k n. vw_tx V (snd (t_recv_slice T n k)) = vw_tx V k \<and> vw_space V (snd (t_recv_slice T n k)) = vw_space V k) \<and>
     (\<forall>k. (t_can_send T k \<longleftrightarrow> 0 < vw_space V k) \<and> vw_rx V (t_close T k) = vw_rx V k \<and> vw_tx V (t_close T k) = vw_tx V k) \<and>
     (\<forall>k bs. 0 < vw_space V k \<longrightarrow> (\<exists>k'. t_send_slice T bs k = (Some (min (length bs) (vw_space V k)), k') \<and>
        vw_rx V k' = vw_rx V k \<and> vw_tx V k' = vw_tx V k @ take (vw_space V k) bs \<and>
        vw_space V k' = vw_space V k - length bs))"

lemma tcp_lawsD:
  assumes "tcp_laws T V"
  shows "recv_queue T (vw_rx V)" and "t_can_send T k \<longleftrightarrow> 0 < vw_space V k"
    and "vw_tx V (snd (t_recv_slice T n k)) = vw_tx V k" and "vw_space V (snd (t_recv_slice T n k)) = vw_space V k"
    and "vw_rx V (t_close T k) = vw_rx V k" and "vw_tx V (t_close T k) = vw_tx V k"
    and "0 < vw_space V k \<Longrightarrow> \<exists>k'. t_send_slice T bs k = (Some (min (length bs) (vw_space V k)), k') \<and>
        vw_rx V k' = vw_rx V k \<and> vw_tx V k' = vw_tx V k @ take (vw_space V k) bs \<and>
        vw_space V k' = vw_space V k - length bs"
  using assms by (auto simp: tcp_laws_def)

lemma recv_loop_unlimited:
  assumes "tcp_laws T V" and "room p = None"
  shows "\<exists>k'. recv_loop T k p wb = Some (k', p\<lparr>outp := outp p @ vw_rx V k\<rparr>, wb) \<and> vw_rx V k' = [] \<and>
    vw_tx V k' = vw_tx V k \<and> vw_space V k' = vw_space V k"
  using assms(2)
proof (induction "length (vw_rx V k)" arbitrary: k p rule: less_induct)
  case less
  note q = tcp_lawsD(1) [OF assms(1)]
  show ?case
  proof (cases "vw_rx V k = []")
    case True
    then show ?thesis by (simp add: recv_loop.simps [of T k] recv_queueD(1) [OF q])
  next
    case False
    obtain k1 where k1: "t_recv_slice T 8192 k = (Inr (take 8192 (vw_rx V k)), k1)" "vw_rx V k1 = drop 8192 (vw_rx V k)"
      using recv_queueD(2) [OF q False] by blast
    have kept: "vw_tx V k1 = vw_tx V k" "vw_space V k1 = vw_space V k"
      using tcp_lawsD(3,4) [OF assms(1), of 8192 k] k1(1) by simp_all
    have "length (vw_rx V k1) < length (vw_rx V k)" using False k1(2) by simp
    from less.hyps [OF this, of "p\<lparr>outp := outp p @ take 8192 (vw_rx V k)\<rparr>"] less.prems kept show ?thesis
      by (simp add: recv_loop.simps [of T k] recv_queueD(1) [OF q] False k1)
  qed
qed

lemma send_loop_outp: "outp (snd (send_loop T k p)) = outp p \<and> room (snd (send_loop T k p)) = room p"
  by (induction T k p rule: send_loop.induct) (subst (1 2) send_loop.simps, auto split: prod.splits sum.splits list.splits)

lemma send_loop_rx: "tcp_laws T V \<Longrightarrow> vw_rx V (fst (send_loop T k p)) = vw_rx V k"
proof (induction T k p rule: send_loop.induct)
  case (1 T k p)
  have step: "vw_rx V (snd (t_send_slice T bs k)) = vw_rx V k" if "t_can_send T k" for bs
    using tcp_lawsD(7) [OF "1.prems", of k bs] that tcp_lawsD(2) [OF "1.prems", of k] by auto
  show ?case
    by (subst send_loop.simps)
      (use 1 step in \<open>auto simp: tcp_lawsD(5) [OF "1.prems"] split: prod.splits sum.splits list.splits\<close>)
qed

lemma send_loop_all:
  assumes "tcp_laws T V" and "after (inp p) = Fail WouldBlock # r" and "length (avail (inp p)) < vw_space V k"
  shows "\<exists>k'. send_loop T k p = (k', p\<lparr>inp := r\<rparr>) \<and> vw_tx V k' = vw_tx V k @ avail (inp p)"
  using assms(2,3)
proof (induction "length (avail (inp p))" arbitrary: k p rule: less_induct)
  case less
  have can: "t_can_send T k" using tcp_lawsD(2) [OF assms(1)] less.prems by auto
  show ?case
  proof (cases "avail (inp p) = []")
    case True
    then show ?thesis
      using read_some_end [OF True, of 8192] less.prems by (subst send_loop.simps) (simp add: can)
  next
    case False
    then obtain c i where c: "read_some 8192 (inp p) = (Inr c, i)" "c \<noteq> []" "avail (inp p) = c @ avail i"
      "after i = after (inp p)" using read_some_data [of 8192 "inp p"] by auto
    obtain k1 where k1: "snd (t_send_slice T c k) = k1" "vw_tx V k1 = vw_tx V k @ c"
        "vw_space V k1 = vw_space V k - length c"
      using tcp_lawsD(7) [OF assms(1), of k c] less.prems c(3) by (auto simp: tcp_lawsD(2) [OF assms(1)])
    have "send_loop T k p = send_loop T k1 (p\<lparr>inp := i\<rparr>)"
      using c(1,2) k1(1) by (subst send_loop.simps) (auto simp: can split: list.splits)
    with less.hyps [of "p\<lparr>inp := i\<rparr>" k1] show ?thesis using c less.prems k1 by auto
  qed
qed

section \<open>Properties\<close>

text \<open>A socket made of two queues, for the concrete instances.\<close>

definition demo_tcp :: "(bytes \<times> bytes \<times> nat) tcp_ops" where
  "demo_tcp = \<lparr>t_state = (\<lambda>_. Established), t_can_recv = (\<lambda>k. fst k \<noteq> []),
     t_recv_slice = (\<lambda>n k. (Inr (take n (fst k)), (drop n (fst k), snd k))),
     t_can_send = (\<lambda>k. 0 < snd (snd k)),
     t_send_slice = (\<lambda>bs (r, t, n). (Some (min (length bs) n), (r, t @ take n bs, n - length bs))),
     t_close = id\<rparr>"

definition demo_view :: "(bytes \<times> bytes \<times> nat) tcp_view" where
  "demo_view = \<lparr>vw_rx = fst, vw_tx = (\<lambda>k. fst (snd k)), vw_space = (\<lambda>k. snd (snd k))\<rparr>"

lemma demo_laws: "tcp_laws demo_tcp demo_view"
  by (auto simp: tcp_laws_def recv_queue_def demo_tcp_def demo_view_def)

lemma demo_recv_queue: "recv_queue demo_tcp fst"
  using tcp_lawsD(1) [OF demo_laws] by (simp add: demo_view_def)

text \<open>
  C17: The thread of the user-space stack never panics and answers every connection request at most
  once: after any number of turns, whatever the interface does to the sockets in between, each
  request has been answered or is still pending, never both and never twice, and no two clients
  were given the pipe of the same socket.
\<close>

theorem requests_answered_once:
  assumes "recv_queue T q" and "list_all (\<lambda>i. keeps_sockets (ti_poll i)) is"
  shows "\<exists>l. poll_loop conn T is (loop_new s) = Some l \<and> distinct (handed (st_answers (lo_stack l))) \<and>
    mset (map fst (st_answers (lo_stack l))) + mset (map snd (st_pending (lo_stack l))) =
      mset (map rq_reply (concat (map ti_reqs is)))"
proof -
  have "stack_inv (lo_stack (loop_new s))" and "requests_of (lo_stack (loop_new s)) = {#}"
    by (simp_all add: loop_new_def requests_of_def stack_new_def [abs_def] stack_inv_def)
  with poll_loop_inv [OF assms this(1), of conn] obtain l where
    "poll_loop conn T is (loop_new s) = Some l" "stack_inv (lo_stack l)"
    "requests_of (lo_stack l) = mset (map rq_reply (concat (map ti_reqs is)))" by auto
  then show ?thesis by (intro exI [of _ l]) (simp add: requests_of_def stack_inv_def)
qed

definition demo_sock :: sock where
  "demo_sock = \<lparr>inp = [], outp = [], room = None\<rparr>"

definition demo_turn :: "(bytes \<times> bytes \<times> nat) turn_input" where
  "demo_turn = \<lparr>ti_poll = id, ti_pair = (\<lambda>_. Inr \<lparr>inp = [], outp = [], room = None\<rparr>), ti_queued = [],
     ti_reqs = [\<lparr>rq_addr = [], rq_port = 80, rq_reply = 1\<rparr>]\<rparr>"

lemma demo_turn_keeps: "keeps_sockets (ti_poll demo_turn)"
  by (simp add: keeps_sockets_def demo_turn_def)

theorem requests_answered_once_witness:
  "\<exists>l. poll_loop (\<lambda>_ _ _. Inr ([], [], 9)) demo_tcp [demo_turn, demo_turn] (loop_new demo_sock) = Some l \<and>
    distinct (handed (st_answers (lo_stack l))) \<and>
    mset (map fst (st_answers (lo_stack l))) + mset (map snd (st_pending (lo_stack l))) = {#1, 1#}"
  using requests_answered_once [OF demo_recv_queue, of "[demo_turn, demo_turn]" "\<lambda>_ _ _. Inr ([], [], 9)" demo_sock]
  by (simp add: demo_turn_keeps) (simp add: demo_turn_def)

text \<open>
  C36: The local ports of connections: after \<open>N\<close> requests, over any turns of the loop, the next one
  is opened from port \<open>49152 + N mod 16384\<close>, so any 16384 requests in a row use different ports, all
  of them dynamic, although the counter is a 16-bit number that wraps.
\<close>

theorem local_port_sequence:
  assumes "recv_queue T q" and "list_all (\<lambda>i. keeps_sockets (ti_poll i)) is"
    and "poll_loop conn T is (loop_new s) = Some l"
  shows "unat (st_next_port (lo_stack l)) = 49152 + length (concat (map ti_reqs is)) mod 16384"
proof -
  let ?n = "length (concat (map ti_reqs is))"
  have i: "stack_inv (lo_stack (loop_new s))" and n: "st_next_port (lo_stack (loop_new s)) = FIRST_PORT"
    by (simp_all add: loop_new_def stack_new_def [abs_def] stack_inv_def)
  have e: "st_next_port (lo_stack l) = (next_local_port ^^ ?n) FIRST_PORT"
    using poll_loop_inv [OF assms(1,2) i, of conn] assms(3) by (auto simp: n)
  have "FIRST_PORT \<le> (next_local_port ^^ ?n) FIRST_PORT" by (rule local_ports.funpow_ge) simp
  then have "unat FIRST_PORT \<le> unat ((next_local_port ^^ ?n) FIRST_PORT)" by (simp add: word_le_nat_alt)
  moreover have "unat FIRST_PORT = 49152" by (simp add: FIRST_PORT_def)
  ultimately show ?thesis
    using local_ports.funpow_offset [of FIRST_PORT ?n] by (simp add: e local_ports.span_def)
qed

definition demo_loop :: "(bytes \<times> bytes \<times> nat) loop_state option" where
  "demo_loop = poll_loop (\<lambda>_ _ _. Inl ''Unaddressable'') demo_tcp [demo_turn] (loop_new \<lparr>inp = [], outp = [], room = None\<rparr>)"

theorem local_port_sequence_witness: "unat (st_next_port (lo_stack (the demo_loop))) = 49153"
proof -
  have "\<exists>l. demo_loop = Some l" unfolding demo_loop_def
    by (simp add: poll_turn_def Let_def iface_poll_def accept_all_def accept_request_def loop_new_def
      stack_new_def demo_turn_def promote_and_bridge_def promote_def)
  then obtain l where l: "demo_loop = Some l" by blast
  then show ?thesis
    using local_port_sequence [OF demo_recv_queue, of "[demo_turn]" "\<lambda>_ _ _. Inl ''Unaddressable''"
        "\<lparr>inp = [], outp = [], room = None\<rparr>" l]
    by (simp add: demo_turn_keeps demo_loop_def) (simp add: demo_turn_def)
qed

text \<open>
  C24: One turn of the bridge loses and reorders nothing when neither side is full: the client
  gets what was buffered for it and then everything the socket has received, the socket takes
  everything the client wrote, and nothing stays buffered.
\<close>

theorem bridge_delivers:
  assumes "tcp_laws T V" and "room p = None" and "after (inp p) = Fail WouldBlock # r"
    and "length (avail (inp p)) < vw_space V k"
  shows "\<exists>k' removed. bridge_one T k p wb =
      Some (k', p\<lparr>outp := outp p @ wb @ vw_rx V k, inp := r\<rparr>, [], removed) \<and>
    vw_rx V k' = [] \<and> vw_tx V k' = vw_tx V k @ avail (inp p)"
proof -
  define p1 where "p1 = p\<lparr>outp := outp p @ wb\<rparr>"
  have one: "bridge_one T k p wb = bridge_go T k p1 []" using assms(2) by (simp add: bridge_one_def p1_def)
  obtain k1 where k1: "recv_loop T k p1 [] = Some (k1, p1\<lparr>outp := outp p1 @ vw_rx V k\<rparr>, [])" "vw_rx V k1 = []"
      "vw_tx V k1 = vw_tx V k" "vw_space V k1 = vw_space V k"
    using recv_loop_unlimited [OF assms(1), of p1 k "[]"] assms(2) by (auto simp: p1_def)
  obtain k2 where k2: "send_loop T k1 (p1\<lparr>outp := outp p1 @ vw_rx V k\<rparr>) = (k2, p1\<lparr>outp := outp p1 @ vw_rx V k, inp := r\<rparr>)"
      "vw_tx V k2 = vw_tx V k1 @ avail (inp p)"
    using send_loop_all [OF assms(1), of "p1\<lparr>outp := outp p1 @ vw_rx V k\<rparr>" r k1] assms(3,4) k1(4)
    by (auto simp: p1_def)
  moreover have "vw_rx V k2 = []" using send_loop_rx [OF assms(1), of k1 "p1\<lparr>outp := outp p1 @ vw_rx V k\<rparr>"] k2(1) k1(2) by simp
  ultimately show ?thesis using k1 by (simp add: one bridge_go_def) (simp add: p1_def)
qed

theorem bridge_delivers_witness:
  "\<exists>k' removed. bridge_one demo_tcp ([1, 2], [], 100) \<lparr>inp = [Data [7], Fail WouldBlock], outp = [], room = None\<rparr> [9] =
      Some (k', \<lparr>inp = [], outp = [9, 1, 2], room = None\<rparr>, [], removed) \<and> fst k' = [] \<and> fst (snd k') = [7]"
  using bridge_delivers [OF demo_laws, of "\<lparr>inp = [Data [7], Fail WouldBlock], outp = [], room = None\<rparr>" "[]" "([1, 2], [], 100)" "[9]"]
  by (simp add: demo_view_def)

text \<open>
  A pipe that takes only part of a write gets bytes twice: the part that fitted has been
  written, the whole chunk is kept, and the next turn writes all of it again.
\<close>

theorem partial_write_duplicates:
  assumes "tcp_laws T V" and "room p = Some n" and "n < length (vw_rx V k)" and "length (vw_rx V k) \<le> 8192"
  shows "\<exists>k1 p1 removed. bridge_one T k p [] = Some (k1, p1, vw_rx V k, removed) \<and>
    outp p1 = outp p @ take n (vw_rx V k) \<and>
    (\<exists>r. bridge_one T k1 (p1\<lparr>room := None\<rparr>) (vw_rx V k) = Some r \<and>
       outp (fst (snd r)) = outp p @ take n (vw_rx V k) @ vw_rx V k)"
proof -
  define bs where "bs = vw_rx V k"
  have bs: "bs \<noteq> []" "vw_rx V k = bs" "\<not> length bs \<le> n" "take 8192 bs = bs" "drop 8192 bs = []"
    using assms(3,4) by (auto simp: bs_def)
  define p0 where "p0 = p\<lparr>outp := outp p @ take n bs, room := Some 0\<rparr>"
  obtain k0 where k0: "vw_rx V k0 = []" "recv_loop T k p [] = Some (k0, p0, bs)"
    by (rule recv_loop_step [OF tcp_lawsD(1) [OF assms(1)], of k p "[]"])
      (use bs assms(2) in \<open>auto simp: write_all_def p0_def\<close>)
  obtain k1 p1 where s: "send_loop T k0 p0 = (k1, p1)" by (cases "send_loop T k0 p0")
  then have o1: "outp p1 = outp p @ take n bs" using send_loop_outp [of T k0 p0] by (simp add: p0_def)
  have rx1: "vw_rx V k1 = []" using send_loop_rx [OF assms(1), of k0 p0] s k0(1) by simp
  define p2 where "p2 = p1\<lparr>room := None, outp := outp p1 @ bs\<rparr>"
  obtain k2 where "recv_loop T k1 p2 [] = Some (k2, p2, [])"
    using recv_loop_unlimited [OF assms(1), of p2 k1 "[]"] rx1 by (auto simp: p2_def)
  then have "\<exists>r. bridge_one T k1 (p1\<lparr>room := None\<rparr>) bs = Some r \<and> outp (fst (snd r)) = outp p @ take n bs @ bs"
    using bs(1) o1 send_loop_outp [of T k2 p2]
    by (auto simp: bridge_one_def bridge_go_def p2_def split: prod.splits)
  then show ?thesis using o1 k0(2) s by (simp add: bridge_one_def bridge_go_def bs_def [symmetric])
qed

theorem partial_write_duplicates_witness:
  "\<exists>k1 p1 removed. bridge_one demo_tcp ([1, 2, 3], [], 0) \<lparr>inp = [], outp = [], room = Some 2\<rparr> [] =
      Some (k1, p1, [1, 2, 3], removed) \<and> outp p1 = [1, 2] \<and>
    (\<exists>r. bridge_one demo_tcp k1 (p1\<lparr>room := None\<rparr>) [1, 2, 3] = Some r \<and> outp (fst (snd r)) = [1, 2, 1, 2, 3])"
  using partial_write_duplicates [OF demo_laws, of "\<lparr>inp = [], outp = [], room = Some 2\<rparr>" 2 "([1, 2, 3], [], 0)"]
  by (simp add: demo_view_def)

text \<open>
  A socket with less room than the client wrote loses the rest: the chunk is read from the pipe,
  the part that fits is queued, and the count that \<open>send_slice\<close> returns is not looked at.
\<close>

theorem short_send_loses:
  assumes "tcp_laws T V" and "inp p = Data bs # r" and "vw_space V k < length bs" and "length bs \<le> 8192"
    and "0 < vw_space V k"
  shows "\<exists>k'. send_loop T k p = (k', p\<lparr>inp := r\<rparr>) \<and> vw_tx V k' = vw_tx V k @ take (vw_space V k) bs"
proof -
  obtain b c where bc: "bs = b # c" using assms(3) by (cases bs) auto
  obtain k1 where k1: "snd (t_send_slice T bs k) = k1" "vw_tx V k1 = vw_tx V k @ take (vw_space V k) bs"
      "vw_space V k1 = 0"
    using tcp_lawsD(7) [OF assms(1,5), of bs] assms(3) by auto
  have "send_loop T k p = send_loop T k1 (p\<lparr>inp := r\<rparr>)"
    using assms(2,4,5) k1(1) by (subst send_loop.simps) (simp add: tcp_lawsD(2) [OF assms(1)] bc)
  also have "\<dots> = (k1, p\<lparr>inp := r\<rparr>)" by (subst send_loop.simps) (simp add: tcp_lawsD(2) [OF assms(1)] k1(3))
  finally show ?thesis using k1(2) by blast
qed

theorem short_send_loses_witness:
  "\<exists>k'. send_loop demo_tcp ([], [], 2) \<lparr>inp = [Data [1, 2, 3]], outp = [], room = None\<rparr> =
     (k', \<lparr>inp = [], outp = [], room = None\<rparr>) \<and> fst (snd k') = [1, 2]"
  using short_send_loses [OF demo_laws, of "\<lparr>inp = [Data [1, 2, 3]], outp = [], room = None\<rparr>" "[1, 2, 3]" "[]" "([], [], 2)"]
  by (simp add: demo_view_def)

end
