(* ===== verification/XcArchive.thy ===== *)
theory XcArchive
  imports Dtx "HOL-Library.Sublist"
begin

text \<open>
  Keyed archives of the test orchestration: the helpers of \<open>src/src/xctest/mod.rs\<close> and the test
  configuration of \<open>src/src/xctest/config.rs\<close>. An archive is a table of objects that refer to each
  other by position; the builders append to the table and return the position. The binary
  property-list writer is the parameter \<open>bin\<close>, as in theory Dtx. The readers at the end are the
  specification: what an unarchiver finds when it follows the references.
\<close>

section \<open>Building\<close>

type_synonym objects = "pvalue list"

definition push :: "pvalue \<Rightarrow> objects \<Rightarrow> nat \<times> objects" where
  "push v os = (length os, os @ [v])"

definition skeleton :: "objects \<Rightarrow> nat \<Rightarrow> pvalue" where
  "skeleton os root = pdict [(''$version'', PInteger 100000), (''$archiver'', PString ''NSKeyedArchiver''),
     (''$top'', pdict [(''root'', PUid root)]), (''$objects'', PArray os)]"

definition class_dict :: "string \<Rightarrow> string list \<Rightarrow> pvalue" where
  "class_dict classname superclasses = pdict [(''$classname'', PString classname),
     (''$classes'', PArray (PString classname # map PString superclasses))]"

definition null_objects :: objects where
  "null_objects = [PString ''$null'']"

definition uuid_object :: "bytes \<Rightarrow> nat \<Rightarrow> pvalue" where
  "uuid_object b c = pdict [(''NS.uuidbytes'', PData b), (''$class'', PUid c)]"

definition url_object :: "nat \<Rightarrow> nat \<Rightarrow> pvalue" where
  "url_object str c = pdict [(''NS.base'', PUid 0), (''NS.relative'', PUid str), (''$class'', PUid c)]"

definition dict_object :: "nat list \<Rightarrow> nat list \<Rightarrow> nat \<Rightarrow> pvalue" where
  "dict_object ks vs c = pdict [(''NS.keys'', PArray (map PUid ks)), (''NS.objects'', PArray (map PUid vs)),
     (''$class'', PUid c)]"

definition caps_object :: "nat \<Rightarrow> nat \<Rightarrow> pvalue" where
  "caps_object d c = pdict [(''capabilities-dictionary'', PUid d), (''$class'', PUid c)]"

definition archive_uuid :: "(pvalue \<Rightarrow> bytes) \<Rightarrow> bytes \<Rightarrow> bytes" where
  "archive_uuid bin b =
    (let (cls, os) = push (class_dict ''NSUUID'' [''NSObject'']) null_objects;
         (obj, os) = push (uuid_object b cls) os
     in bin (skeleton os obj))"

definition archive_url :: "(pvalue \<Rightarrow> bytes) \<Rightarrow> string \<Rightarrow> bytes" where
  "archive_url bin url =
    (let (cls, os) = push (class_dict ''NSURL'' [''NSObject'']) null_objects;
         (str, os) = push (PString url) os;
         (obj, os) = push (url_object str cls) os
     in bin (skeleton os obj))"

text \<open>The two loops that store keys and values: one by one, with their positions.\<close>

fun push_pairs :: "(string \<times> pvalue) list \<Rightarrow> objects \<Rightarrow> (nat list \<times> nat list) \<times> objects" where
  "push_pairs [] os = (([], []), os)"
| "push_pairs ((k, v) # kvs) os =
    (let (ku, os) = push (PString k) os; (vu, os) = push v os; ((ks, vs), os) = push_pairs kvs os
     in ((ku # ks, vu # vs), os))"

fun push_strs :: "string list \<Rightarrow> objects \<Rightarrow> nat list \<times> objects" where
  "push_strs [] os = ([], os)"
| "push_strs (k # ks) os = (let (u, os) = push (PString k) os; (us, os) = push_strs ks os in (u # us, os))"

text \<open>The capabilities come from a hash map: \<open>caps\<close> lists its entries in the order of its iterator.\<close>

definition capabilities_table :: "(string \<times> pvalue) list \<Rightarrow> nat \<times> objects" where
  "capabilities_table caps =
    (let (xct, os) = push (class_dict ''XCTCapabilities'' [''NSObject'']) null_objects;
         (nsd, os) = push (class_dict ''NSDictionary'' [''NSObject'']) os;
         ((ks, vs), os) = push_pairs caps os;
         (d, os) = push (dict_object ks vs nsd) os
     in push (caps_object d xct) os)"

definition archive_xct_capabilities :: "(pvalue \<Rightarrow> bytes) \<Rightarrow> (string \<times> pvalue) list \<Rightarrow> bytes" where
  "archive_xct_capabilities bin caps = (let (obj, os) = capabilities_table caps in bin (skeleton os obj))"

definition build_caps :: "(string \<times> bool) list \<Rightarrow> (string \<times> pvalue) list" where
  "build_caps entries = fold (\<lambda>(k, b). ainsert k (PBoolean b)) entries []"

section \<open>The test configuration\<close>

record XCTestConfigArgs =
  xa_session_id :: bytes
  xa_test_bundle_path :: string
  xa_product_module_name :: string
  xa_target_bundle_id :: string
  xa_target_path :: string
  xa_tests_to_run :: "string list"
  xa_tests_to_skip :: "string list"
  xa_is_xctest :: bool
  xa_initialize_for_ui :: bool
  xa_app_dependencies :: "(string \<times> string) list"
  xa_runner_bundle_id :: string

definition push_class :: "string \<Rightarrow> string list \<Rightarrow> objects \<Rightarrow> nat \<times> objects" where
  "push_class classname supers = push (class_dict classname supers)"

definition push_str :: "string \<Rightarrow> objects \<Rightarrow> nat \<times> objects" where
  "push_str s = push (PString s)"

definition push_nsset :: "nat \<Rightarrow> string list \<Rightarrow> objects \<Rightarrow> nat \<times> objects" where
  "push_nsset set_class items = push (pdict [(''NS.objects'', PArray (map PString items)), (''$class'', PUid set_class)])"

record xc_classes =
  xc_config :: nat
  xc_uuid :: nat
  xc_url :: nat
  xc_set :: nat
  xc_dict :: nat
  xc_caps :: nat
  xc_marray :: nat

definition push_classes :: "objects \<Rightarrow> xc_classes \<times> objects" where
  "push_classes os =
    (let (c, os) = push_class ''XCTestConfiguration'' [''NSObject''] os;
         (u, os) = push_class ''NSUUID'' [''NSObject''] os;
         (l, os) = push_class ''NSURL'' [''NSObject''] os;
         (s, os) = push_class ''NSSet'' [''NSObject''] os;
         (d, os) = push_class ''NSDictionary'' [''NSObject''] os;
         (x, os) = push_class ''XCTCapabilities'' [''NSObject''] os;
         (m, os) = push_class ''NSMutableArray'' [''NSArray'', ''NSObject''] os
     in (\<lparr>xc_config = c, xc_uuid = u, xc_url = l, xc_set = s, xc_dict = d, xc_caps = x, xc_marray = m\<rparr>, os))"

definition push_set_opt :: "nat \<Rightarrow> string list \<Rightarrow> objects \<Rightarrow> nat \<times> objects" where
  "push_set_opt cls items os = (if items = [] then (0, os) else push_nsset cls items os)"

definition push_str_opt :: "string \<Rightarrow> objects \<Rightarrow> nat \<times> objects" where
  "push_str_opt s os = (if s \<noteq> [] then push_str s os else (0, os))"

definition push_url :: "nat \<Rightarrow> string \<Rightarrow> objects \<Rightarrow> nat \<times> objects" where
  "push_url cls url os = (let (str, os) = push (PString url) os in push (url_object str cls) os)"

definition cap_keys_1 :: "string list" where
  "cap_keys_1 = [''XCTIssue capability'', ''daemon container sandbox extension'', ''delayed attachment transfer'',
     ''expected failure test capability'', ''in-process test parallelization capability'',
     ''request diagnostics for specific devices'', ''runner plan'', ''skipped suite capability'',
     ''skipped test capability'', ''test case run configurations'', ''test timeout capability'', ''traits'',
     ''ubiquitous test identifiers'', ''unified issue recorded'']"

definition push_ide_caps :: "xc_classes \<Rightarrow> objects \<Rightarrow> nat \<times> objects" where
  "push_ide_caps C os =
    (let (one, os) = push (PInteger 1) os; (two, os) = push (PInteger 2) os;
         (ks, os) = push_strs cap_keys_1 os;
         (k, os) = push (PString ''test iterations'') os;
         (d, os) = push (dict_object (ks @ [k]) (replicate (length cap_keys_1) one @ [two]) (xc_dict C)) os
     in push (caps_object d (xc_caps C)) os)"

definition push_app_deps :: "xc_classes \<Rightarrow> (string \<times> string) list \<Rightarrow> objects \<Rightarrow> nat \<times> objects" where
  "push_app_deps C deps os =
    (let ((ks, vs), os) = push_pairs (map (\<lambda>(b, p). (b, PString p)) deps) os
     in push (dict_object ks vs (xc_dict C)) os)"

definition agg_stats_object :: "nat \<Rightarrow> pvalue" where
  "agg_stats_object cls = pdict [(''XCSuiteRecordsKey'', PDictionary []), (''$class'', PUid cls)]"

text \<open>The positions the configuration object refers to.\<close>

record xc_refs =
  xr_session :: nat
  xr_bundle_url :: nat
  xr_module_name :: nat
  xr_tests_to_run :: nat
  xr_tests_to_skip :: nat
  xr_agg_stats :: nat
  xr_automation_path :: nat
  xr_ide_caps :: nat
  xr_app_deps :: nat
  xr_target_bundle :: nat
  xr_target_path :: nat

definition file_url :: "string \<Rightarrow> string" where
  "file_url path = ''file://'' @ path"

definition push_refs :: "XCTestConfigArgs \<Rightarrow> xc_classes \<Rightarrow> objects \<Rightarrow> xc_refs \<times> objects" where
  "push_refs a C os =
    (let (session, os) = push (uuid_object (xa_session_id a) (xc_uuid C)) os;
         (bundle, os) = push_url (xc_url C) (file_url (xa_test_bundle_path a)) os;
         (modname, os) = push_str (xa_product_module_name a) os;
         (run, os) = push_set_opt (xc_set C) (xa_tests_to_run a) os;
         (skip, os) = push_set_opt (xc_set C) (xa_tests_to_skip a) os;
         (agg, os) = push (agg_stats_object (xc_dict C)) os;
         (auto, os) = push_str ''/System/Developer/Library/PrivateFrameworks/XCTAutomationSupport.framework'' os;
         (caps, os) = push_ide_caps C os;
         (deps, os) = push_app_deps C (xa_app_dependencies a) os;
         (target, os) = push_str_opt (xa_target_bundle_id a) os;
         (path, os) = push_str_opt (xa_target_path a) os
     in (\<lparr>xr_session = session, xr_bundle_url = bundle, xr_module_name = modname, xr_tests_to_run = run,
          xr_tests_to_skip = skip, xr_agg_stats = agg, xr_automation_path = auto, xr_ide_caps = caps,
          xr_app_deps = deps, xr_target_bundle = target, xr_target_path = path\<rparr>, os))"

definition opt_ref :: "string \<Rightarrow> nat \<Rightarrow> (string \<times> pvalue) list" where
  "opt_ref k u = (if u \<noteq> 0 then [(k, PUid u)] else [])"

definition config_fields :: "XCTestConfigArgs \<Rightarrow> xc_classes \<Rightarrow> xc_refs \<Rightarrow> (string \<times> pvalue) list" where
  "config_fields a C R =
    [(''$class'', PUid (xc_config C)),
     (''aggregateStatisticsBeforeCrash'', PUid (xr_agg_stats R)),
     (''automationFrameworkPath'', PUid (xr_automation_path R)),
     (''baselineFileRelativePath'', PUid 0), (''baselineFileURL'', PUid 0),
     (''defaultTestExecutionTimeAllowance'', PUid 0),
     (''disablePerformanceMetrics'', PBoolean False), (''emitOSLogs'', PBoolean False),
     (''gatherLocalizableStringsData'', PBoolean False),
     (''initializeForUITesting'', PBoolean (xa_initialize_for_ui a)),
     (''maximumTestExecutionTimeAllowance'', PUid 0), (''randomExecutionOrderingSeed'', PUid 0),
     (''reportActivities'', PBoolean True), (''reportResultsToIDE'', PBoolean True),
     (''sessionIdentifier'', PUid (xr_session R)), (''systemAttachmentLifetime'', PInteger 2),
     (''testApplicationUserOverrides'', PUid 0), (''testBundleRelativePath'', PUid 0),
     (''testBundleURL'', PUid (xr_bundle_url R)), (''testExecutionOrdering'', PInteger 0),
     (''testTimeoutsEnabled'', PBoolean False), (''testsDrivenByIDE'', PBoolean False),
     (''testsMustRunOnMainThread'', PBoolean True), (''treatMissingBaselinesAsFailures'', PBoolean False),
     (''userAttachmentLifetime'', PInteger 1), (''preferredScreenCaptureFormat'', PInteger 2),
     (''IDECapabilities'', PUid (xr_ide_caps R)), (''productModuleName'', PUid (xr_module_name R)),
     (''testApplicationDependencies'', PUid (xr_app_deps R))] @
    opt_ref ''testsToRun'' (xr_tests_to_run R) @ opt_ref ''testsToSkip'' (xr_tests_to_skip R) @
    opt_ref ''targetApplicationBundleID'' (xr_target_bundle R) @
    opt_ref ''targetApplicationPath'' (xr_target_path R)"

definition config_table :: "XCTestConfigArgs \<Rightarrow> nat \<times> objects" where
  "config_table a =
    (let (C, os) = push_classes null_objects; (R, os) = push_refs a C os
     in push (pdict (config_fields a C R)) os)"

definition build_xctest_configuration_bytes :: "(pvalue \<Rightarrow> bytes) \<Rightarrow> XCTestConfigArgs \<Rightarrow> bytes" where
  "build_xctest_configuration_bytes bin a = (let (obj, os) = config_table a in bin (skeleton os obj))"

section \<open>Reading\<close>

definition obj_at :: "objects \<Rightarrow> nat \<Rightarrow> pvalue option" where
  "obj_at os n = (if n < length os then Some (os ! n) else None)"

definition deref :: "objects \<Rightarrow> pvalue \<Rightarrow> pvalue option" where
  "deref os v = (case v of PUid n \<Rightarrow> if n = 0 then None else obj_at os n | _ \<Rightarrow> None)"

definition fld :: "string \<Rightarrow> pvalue \<Rightarrow> pvalue option" where
  "fld k v = Option.bind (as_dictionary v) (\<lambda>d. dget d k)"

text \<open>The object a value refers to, if it is of the named class.\<close>

definition instance_of :: "string \<Rightarrow> objects \<Rightarrow> pvalue \<Rightarrow> pvalue option" where
  "instance_of cls os v = Option.bind (deref os v) (\<lambda>ob. Option.bind (fld ''$class'' ob) (\<lambda>c.
     Option.bind (deref os c) (\<lambda>cd. if fld ''$classname'' cd = Some (PString cls) then Some ob else None)))"

definition read_str :: "objects \<Rightarrow> pvalue \<Rightarrow> string option" where
  "read_str os v = Option.bind (deref os v) as_string"

definition read_uuid :: "objects \<Rightarrow> pvalue \<Rightarrow> bytes option" where
  "read_uuid os v = Option.bind (instance_of ''NSUUID'' os v) (\<lambda>ob. Option.bind (fld ''NS.uuidbytes'' ob) as_data)"

definition read_url :: "objects \<Rightarrow> pvalue \<Rightarrow> string option" where
  "read_url os v = Option.bind (instance_of ''NSURL'' os v) (\<lambda>ob. Option.bind (fld ''NS.relative'' ob) (read_str os))"

definition read_set :: "objects \<Rightarrow> pvalue \<Rightarrow> string list option" where
  "read_set os v = Option.bind (instance_of ''NSSet'' os v) (\<lambda>ob. Option.bind (fld ''NS.objects'' ob) (\<lambda>a.
     Option.bind (as_array a) (\<lambda>xs. those (map as_string xs))))"

definition read_dict :: "objects \<Rightarrow> pvalue \<Rightarrow> (string \<times> pvalue) list option" where
  "read_dict os v = Option.bind (instance_of ''NSDictionary'' os v) (\<lambda>ob.
     Option.bind (Option.bind (fld ''NS.keys'' ob) as_array) (\<lambda>ks.
     Option.bind (Option.bind (fld ''NS.objects'' ob) as_array) (\<lambda>vs.
     Option.bind (those (map (read_str os) ks)) (\<lambda>ks.
     Option.bind (those (map (deref os) vs)) (\<lambda>vs. Some (zip ks vs))))))"

definition read_caps :: "objects \<Rightarrow> pvalue \<Rightarrow> (string \<times> pvalue) list option" where
  "read_caps os v = Option.bind (instance_of ''XCTCapabilities'' os v) (\<lambda>ob.
     Option.bind (fld ''capabilities-dictionary'' ob) (read_dict os))"

text \<open>Every reference in a table points into it.\<close>

fun uids :: "pvalue \<Rightarrow> nat list" where
  "uids (PUid n) = [n]"
| "uids (PArray vs) = concat (map uids vs)"
| "uids (PDictionary kvs) = concat (map (\<lambda>kv. uids (snd kv)) kvs)"
| "uids _ = []"

definition closed_table :: "objects \<Rightarrow> bool" where
  "closed_table os \<longleftrightarrow> (\<forall>v\<in>set os. \<forall>n\<in>set (uids v). n < length os)"

section \<open>Tables grow\<close>

definition refers :: "objects \<Rightarrow> nat \<Rightarrow> pvalue \<Rightarrow> bool" where
  "refers os n v \<longleftrightarrow> 0 < n \<and> n < length os \<and> os ! n = v"

definition grows :: "objects \<Rightarrow> objects \<Rightarrow> bool" where
  "grows os os' \<longleftrightarrow> os \<noteq> [] \<and> prefix os os' \<and> (closed_table os \<longrightarrow> closed_table os')"

lemma grows_trans: "grows os os1 \<Longrightarrow> grows os1 os2 \<Longrightarrow> grows os os2"
  by (auto simp: grows_def)

lemma grows_refl: "os \<noteq> [] \<Longrightarrow> grows os os"
  by (simp add: grows_def)

lemma refers_grows: "refers os n v \<Longrightarrow> grows os os' \<Longrightarrow> refers os' n v"
  by (auto simp: refers_def grows_def prefix_def nth_append)

lemma refers_less: "refers os n v \<Longrightarrow> n < length os"
  by (simp add: refers_def)

lemma closed_table_snoc:
  "closed_table os \<Longrightarrow> \<forall>n\<in>set (uids v). n \<le> length os \<Longrightarrow> closed_table (os @ [v])"
  by (auto simp: closed_table_def less_Suc_eq_le intro: less_imp_le)

lemma push_grows:
  assumes "push v os = (n, os')" and "os \<noteq> []" and "\<forall>n\<in>set (uids v). n < length os"
  shows "grows os os'" and "refers os' n v"
  using assms closed_table_snoc [of os v]
  by (auto simp: push_def grows_def refers_def nth_append intro: less_imp_le)

lemma uids_objects [simp]:
  "uids (uuid_object b c) = [c]" "uids (url_object s c) = [0, s, c]" "uids (dict_object ks vs c) = ks @ vs @ [c]"
  "uids (caps_object d c) = [d, c]" "uids (agg_stats_object c) = [c]" "uids (class_dict n sups) = []"
  "uids (pdict [(''NS.objects'', PArray (map PString items)), (''$class'', PUid c)]) = [c]"
  by (simp_all add: uuid_object_def url_object_def dict_object_def caps_object_def agg_stats_object_def class_dict_def
    pdict_distinct concat_map_singleton comp_def)

lemma fld_objects [simp]:
  "fld ''$class'' (uuid_object b c) = Some (PUid c)" "fld ''NS.uuidbytes'' (uuid_object b c) = Some (PData b)"
  "fld ''$class'' (url_object s c) = Some (PUid c)" "fld ''NS.relative'' (url_object s c) = Some (PUid s)"
  "fld ''$class'' (dict_object ks vs c) = Some (PUid c)" "fld ''NS.keys'' (dict_object ks vs c) = Some (PArray (map PUid ks))"
  "fld ''NS.objects'' (dict_object ks vs c) = Some (PArray (map PUid vs))"
  "fld ''$class'' (caps_object d c) = Some (PUid c)" "fld ''capabilities-dictionary'' (caps_object d c) = Some (PUid d)"
  "fld ''$classname'' (class_dict n sups) = Some (PString n)"
  by (simp_all add: fld_def uuid_object_def url_object_def dict_object_def caps_object_def class_dict_def pdict_distinct)

section \<open>What the readers find\<close>

lemma deref_refers [simp]: "refers os n v \<Longrightarrow> deref os (PUid n) = Some v"
  by (simp add: refers_def deref_def obj_at_def)

lemma instance_of_refers:
  assumes "refers os n ob" and "fld ''$class'' ob = Some (PUid c)" and "refers os c (class_dict cls sups)"
  shows "instance_of cls os (PUid n) = Some ob"
  using assms by (simp add: instance_of_def)

lemma read_str_refers: "refers os n (PString s) \<Longrightarrow> read_str os (PUid n) = Some s"
  by (simp add: read_str_def)

lemma read_uuid_refers:
  "refers os n (uuid_object b c) \<Longrightarrow> refers os c (class_dict ''NSUUID'' sups) \<Longrightarrow> read_uuid os (PUid n) = Some b"
  by (simp add: read_uuid_def instance_of_refers)

lemma read_url_refers:
  "refers os n (url_object s c) \<Longrightarrow> refers os c (class_dict ''NSURL'' sups) \<Longrightarrow> refers os s (PString u) \<Longrightarrow>
    read_url os (PUid n) = Some u"
  by (simp add: read_url_def instance_of_refers read_str_refers)

lemma those_map_Some: "(\<And>x. x \<in> set xs \<Longrightarrow> f x = Some (g x)) \<Longrightarrow> those (map f xs) = Some (map g xs)"
  by (induction xs) simp_all

lemma read_set_refers:
  assumes "refers os n (pdict [(''NS.objects'', PArray (map PString items)), (''$class'', PUid c)])"
    and "refers os c (class_dict ''NSSet'' sups)"
  shows "read_set os (PUid n) = Some items"
proof -
  have "those (map (as_string \<circ> PString) items) = Some items"
    using those_map_Some [of items "as_string \<circ> PString" id] by simp
  then show ?thesis using assms by (simp add: read_set_def instance_of_def fld_def pdict_distinct class_dict_def)
qed

text \<open>Positions that refer to a list of values, one each.\<close>

definition refs_to :: "objects \<Rightarrow> nat list \<Rightarrow> pvalue list \<Rightarrow> bool" where
  "refs_to os ns vs \<longleftrightarrow> list_all2 (refers os) ns vs"

lemma refs_to_grows: "refs_to os ns vs \<Longrightarrow> grows os os' \<Longrightarrow> refs_to os' ns vs"
  unfolding refs_to_def by (erule list_all2_mono) (rule refers_grows)

lemma refs_to_deref: "refs_to os ns vs \<Longrightarrow> those (map (deref os \<circ> PUid) ns) = Some vs"
  unfolding refs_to_def by (induction rule: list_all2_induct) simp_all

lemma refs_to_str: "refs_to os ns (map PString ss) \<Longrightarrow> those (map (read_str os \<circ> PUid) ns) = Some ss"
proof (induction ss arbitrary: ns)
  case (Cons s ss)
  then show ?case by (cases ns) (auto simp: refs_to_def read_str_refers)
qed (simp add: refs_to_def)

lemma refs_to_less: "refs_to os ns vs \<Longrightarrow> n \<in> set ns \<Longrightarrow> n < length os"
  unfolding refs_to_def by (induction rule: list_all2_induct) (auto simp: refers_def)

lemma read_dict_refers:
  assumes "refers os n (dict_object ks vs c)" and "refers os c (class_dict ''NSDictionary'' sups)"
    and "refs_to os ks (map (\<lambda>kv. PString (fst kv)) kvs)" and "refs_to os vs (map snd kvs)"
  shows "read_dict os (PUid n) = Some kvs"
proof -
  have "those (map (read_str os \<circ> PUid) ks) = Some (map fst kvs)"
    using refs_to_str [of os ks "map fst kvs"] assms(3) by (simp add: comp_def)
  then show ?thesis using assms(1,2) refs_to_deref [OF assms(4)]
    by (simp add: read_dict_def instance_of_refers [OF assms(1) _ assms(2)] zip_map_fst_snd)
qed

lemma read_caps_refers:
  "refers os n (caps_object d c) \<Longrightarrow> refers os c (class_dict ''XCTCapabilities'' sups) \<Longrightarrow>
    read_caps os (PUid n) = read_dict os (PUid d)"
  by (simp add: read_caps_def instance_of_refers)

section \<open>The stages of the builders\<close>

text \<open>
  The contract of a builder that makes one object: given the classes it mentions, the table grows
  and the position it returns refers to an object with the property \<open>P\<close>, whatever is appended later.
\<close>

locale builder =
  fixes build :: "objects \<Rightarrow> nat \<times> objects" and pre :: "objects \<Rightarrow> bool" and P :: "objects \<Rightarrow> nat \<Rightarrow> bool"
  assumes build_grows: "os \<noteq> [] \<Longrightarrow> pre os \<Longrightarrow> build os = (n, os') \<Longrightarrow> grows os os'"
    and build_result: "os \<noteq> [] \<Longrightarrow> pre os \<Longrightarrow> build os = (n, os') \<Longrightarrow> grows os' os'' \<Longrightarrow> P os'' n"
begin

lemma build_step:
  assumes "os \<noteq> []" and "pre os"
  obtains n os' where "build os = (n, os')" and "grows os os'" and "\<forall>os''. grows os' os'' \<longrightarrow> P os'' n"
  using assms build_grows build_result by (cases "build os") blast

end

lemma grows_nonempty: "grows os os' \<Longrightarrow> os' \<noteq> []"
  by (auto simp: grows_def)

abbreviation has_class :: "string \<Rightarrow> nat \<Rightarrow> objects \<Rightarrow> bool" where
  "has_class name c os \<equiv> \<exists>sups. refers os c (class_dict name sups)"

lemma has_class_less: "has_class name c os \<Longrightarrow> c < length os"
  by (auto simp: refers_def)

lemma has_class_grows: "has_class name c os \<Longrightarrow> grows os os' \<Longrightarrow> has_class name c os'"
  by (auto dest: refers_grows)

interpretation pstr: builder "push_str s" "\<lambda>_. True" "\<lambda>os n. read_str os (PUid n) = Some s" for s
proof
  fix os n os'
  assume os: "os \<noteq> []" "push_str s os = (n, os')"
  then have p: "grows os os'" "refers os' n (PString s)" by (auto simp: push_str_def elim!: push_grows)
  then show "grows os os'" by simp
  show "read_str os'' (PUid n) = Some s" if "grows os' os''" for os''
    using p(2) that by (intro read_str_refers) (rule refers_grows)
qed

interpretation puuid: builder "push (uuid_object b c)" "has_class ''NSUUID'' c" "\<lambda>os n. read_uuid os (PUid n) = Some b" for b c
proof
  fix os n os'
  assume os: "os \<noteq> []" "has_class ''NSUUID'' c os" "push (uuid_object b c) os = (n, os')"
  then have p: "grows os os'" "refers os' n (uuid_object b c)" by (auto dest: refers_less elim!: push_grows)
  then show "grows os os'" by simp
  show "read_uuid os'' (PUid n) = Some b" if "grows os' os''" for os''
    using os(2) p that by (blast intro: read_uuid_refers refers_grows)
qed

lemma uid_zero_ok: "os \<noteq> [] \<Longrightarrow> 0 < length (os :: objects)"
  by simp

interpretation purl: builder "push_url c u" "has_class ''NSURL'' c" "\<lambda>os n. read_url os (PUid n) = Some u" for c u
proof
  fix os n os'
  assume os: "os \<noteq> []" "has_class ''NSURL'' c os" "push_url c u os = (n, os')"
  obtain s os1 where s: "push (PString u) os = (s, os1)" by (cases "push (PString u) os")
  with os have s1: "grows os os1" "refers os1 s (PString u)" by (auto elim!: push_grows)
  have c: "has_class ''NSURL'' c os1" using os(2) s1(1) by (rule has_class_grows)
  have "push (url_object s c) os1 = (n, os')" using os(3) s by (simp add: push_url_def)
  moreover have "\<forall>m\<in>set (uids (url_object s c)). m < length os1"
    using has_class_less [OF c] refers_less [OF s1(2)] by auto
  ultimately have p: "grows os1 os'" "refers os' n (url_object s c)"
    using grows_nonempty [OF s1(1)] by (auto elim!: push_grows)
  show "grows os os'" using s1(1) p(1) by (rule grows_trans)
  show "read_url os'' (PUid n) = Some u" if g: "grows os' os''" for os''
  proof -
    have "refers os'' s (PString u)" using s1(2) p(1) g by (blast intro: refers_grows)
    moreover obtain sups where "refers os'' c (class_dict ''NSURL'' sups)" using c p(1) g by (blast intro: refers_grows)
    ultimately show ?thesis using p(2) g by (blast intro: read_url_refers refers_grows)
  qed
qed

interpretation pset: builder "push_nsset c items" "has_class ''NSSet'' c" "\<lambda>os n. read_set os (PUid n) = Some items \<and> n \<noteq> 0" for c items
proof
  fix os n os'
  assume os: "os \<noteq> []" "has_class ''NSSet'' c os" "push_nsset c items os = (n, os')"
  let ?v = "pdict [(''NS.objects'', PArray (map PString items)), (''$class'', PUid c)]"
  have p: "grows os os'" "refers os' n ?v"
    using os has_class_less [OF os(2)] push_grows [of ?v os n os'] by (simp_all add: push_nsset_def)
  then show "grows os os'" by simp
  show "read_set os'' (PUid n) = Some items \<and> n \<noteq> 0" if g: "grows os' os''" for os''
  proof -
    obtain sups where "refers os'' c (class_dict ''NSSet'' sups)" using os(2) p(1) g by (blast intro: refers_grows)
    with refers_grows [OF p(2) g] show ?thesis using p(2) by (simp add: read_set_refers refers_def)
  qed
qed

interpretation psetopt: builder "push_set_opt c items" "has_class ''NSSet'' c"
  "\<lambda>os n. if items = [] then n = 0 else n \<noteq> 0 \<and> read_set os (PUid n) = Some items" for c items
proof
  fix os n os'
  assume os: "os \<noteq> []" "has_class ''NSSet'' c os" "push_set_opt c items os = (n, os')"
  then show "grows os os'"
    using pset.build_grows [of os c items n os'] by (auto simp: push_set_opt_def grows_refl split: if_splits)
  show "if items = [] then n = 0 else n \<noteq> 0 \<and> read_set os'' (PUid n) = Some items" if "grows os' os''" for os''
    using os that pset.build_result [of os c items n os' os''] by (auto simp: push_set_opt_def split: if_splits)
qed

interpretation pstropt: builder "push_str_opt s" "\<lambda>_. True"
  "\<lambda>os n. if s = [] then n = 0 else n \<noteq> 0 \<and> read_str os (PUid n) = Some s" for s
proof
  fix os n os'
  assume os: "os \<noteq> []" "push_str_opt s os = (n, os')"
  then show "grows os os'"
    using pstr.build_grows [of os s n os'] by (auto simp: push_str_opt_def grows_refl split: if_splits)
  show "if s = [] then n = 0 else n \<noteq> 0 \<and> read_str os'' (PUid n) = Some s" if "grows os' os''" for os''
    using os that pstr.build_result [of os s n os' os''] by (auto simp: push_str_opt_def push_str_def push_def split: if_splits)
qed

lemma push_pairs_grows:
  assumes "push_pairs kvs os = ((ks, vs), os')" and "os \<noteq> []" and "\<forall>v\<in>set (map snd kvs). uids v = []"
  shows "grows os os' \<and> refs_to os' ks (map (\<lambda>kv. PString (fst kv)) kvs) \<and> refs_to os' vs (map snd kvs)"
  using assms
proof (induction kvs arbitrary: os ks vs os')
  case (Cons kv kvs)
  obtain k v where kv: "kv = (k, v)" by (cases kv)
  obtain ku os1 where 1: "push (PString k) os = (ku, os1)" by (cases "push (PString k) os")
  obtain vu os2 where 2: "push v os1 = (vu, os2)" by (cases "push v os1")
  obtain ks1 vs1 os3 where 3: "push_pairs kvs os2 = ((ks1, vs1), os3)" by (metis prod.exhaust)
  have eq: "os' = os3" "ks = ku # ks1" "vs = vu # vs1" using Cons.prems(1) by (simp_all add: kv 1 2 3)
  have g1: "grows os os1" "refers os1 ku (PString k)" using push_grows [OF 1 Cons.prems(2)] by simp_all
  have g2: "grows os1 os2" "refers os2 vu v"
    using push_grows [OF 2 grows_nonempty [OF g1(1)]] Cons.prems(3) by (simp_all add: kv)
  from Cons.IH [OF 3 grows_nonempty [OF g2(1)]] Cons.prems(3)
  have g3: "grows os2 os3" "refs_to os3 ks1 (map (\<lambda>kv. PString (fst kv)) kvs)" "refs_to os3 vs1 (map snd kvs)" by simp_all
  have "refers os3 ku (PString k)" using g1(2) grows_trans [OF g2(1) g3(1)] by (rule refers_grows)
  moreover have "refers os3 vu v" using g2(2) g3(1) by (rule refers_grows)
  moreover have "grows os os3" using g1(1) g2(1) g3(1) by (blast intro: grows_trans)
  ultimately show ?case using g3 by (simp add: eq kv refs_to_def)
qed (simp add: grows_refl refs_to_def)

lemma push_strs_grows:
  assumes "push_strs ss os = (ks, os')" and "os \<noteq> []"
  shows "grows os os' \<and> refs_to os' ks (map PString ss)"
  using assms
proof (induction ss arbitrary: os ks os')
  case (Cons s ss)
  obtain u os1 where 1: "push (PString s) os = (u, os1)" by (cases "push (PString s) os")
  obtain us os2 where 2: "push_strs ss os1 = (us, os2)" by (cases "push_strs ss os1")
  have g1: "grows os os1" "refers os1 u (PString s)" using push_grows [OF 1 Cons.prems(2)] by simp_all
  from Cons.IH [OF 2 grows_nonempty [OF g1(1)]] have g2: "grows os1 os2" "refs_to os2 us (map PString ss)" by simp_all
  then show ?case using Cons.prems g1 by (auto simp: 1 2 refs_to_def intro: grows_trans refers_grows)
qed (simp add: grows_refl refs_to_def)

interpretation pdeps: builder "push_app_deps C deps" "has_class ''NSDictionary'' (xc_dict C)"
  "\<lambda>os n. read_dict os (PUid n) = Some (map (\<lambda>(b, p). (b, PString p)) deps)" for C deps
proof
  fix os n os'
  let ?kvs = "map (\<lambda>(b, p). (b, PString p)) deps"
  assume os: "os \<noteq> []" "has_class ''NSDictionary'' (xc_dict C) os" "push_app_deps C deps os = (n, os')"
  obtain ks vs os1 where 1: "push_pairs ?kvs os = ((ks, vs), os1)" by (metis prod.exhaust)
  have u: "\<forall>v\<in>set (map snd ?kvs). uids v = []" by auto
  have g1: "grows os os1" "refs_to os1 ks (map (\<lambda>kv. PString (fst kv)) ?kvs)" "refs_to os1 vs (map snd ?kvs)"
    using push_pairs_grows [OF 1 os(1) u] by blast+
  have 2: "push (dict_object ks vs (xc_dict C)) os1 = (n, os')" using os(3) by (simp add: push_app_deps_def 1)
  have c: "has_class ''NSDictionary'' (xc_dict C) os1" using os(2) g1(1) by (rule has_class_grows)
  have g2: "grows os1 os'" "refers os' n (dict_object ks vs (xc_dict C))"
    using push_grows [OF 2 grows_nonempty [OF g1(1)]] has_class_less [OF c] refs_to_less [OF g1(2)] refs_to_less [OF g1(3)] by auto
  show "grows os os'" using g1(1) g2(1) by (rule grows_trans)
  show "read_dict os'' (PUid n) = Some ?kvs" if g: "grows os' os''" for os''
  proof -
    have g3: "grows os1 os''" using g2(1) g by (rule grows_trans)
    obtain sups where "refers os'' (xc_dict C) (class_dict ''NSDictionary'' sups)" using c g3 by (blast intro: refers_grows)
    then show ?thesis by (rule read_dict_refers [OF refers_grows [OF g2(2) g] _ refs_to_grows [OF g1(2) g3] refs_to_grows [OF g1(3) g3]])
  qed
qed

definition ide_caps :: "(string \<times> pvalue) list" where
  "ide_caps = map (\<lambda>k. (k, PInteger 1)) cap_keys_1 @ [(''test iterations'', PInteger 2)]"

lemma refs_to_replicate: "refers os n v \<Longrightarrow> refs_to os (replicate m n) (replicate m v)"
  by (induction m) (simp_all add: refs_to_def)

lemma refs_to_append: "refs_to os ms us \<Longrightarrow> refs_to os ns vs \<Longrightarrow> refs_to os (ms @ ns) (us @ vs)"
  by (simp add: refs_to_def list_all2_appendI)

interpretation pcaps: builder "push_ide_caps C"
  "\<lambda>os. has_class ''NSDictionary'' (xc_dict C) os \<and> has_class ''XCTCapabilities'' (xc_caps C) os"
  "\<lambda>os n. read_caps os (PUid n) = Some ide_caps" for C
proof
  fix os n os'
  assume os: "os \<noteq> []" "has_class ''NSDictionary'' (xc_dict C) os \<and> has_class ''XCTCapabilities'' (xc_caps C) os"
    "push_ide_caps C os = (n, os')"
  obtain one os1 where 1: "push (PInteger 1) os = (one, os1)" by (metis prod.exhaust)
  obtain two os2 where 2: "push (PInteger 2) os1 = (two, os2)" by (metis prod.exhaust)
  obtain ks os3 where 3: "push_strs cap_keys_1 os2 = (ks, os3)" by (metis prod.exhaust)
  obtain k os4 where 4: "push (PString ''test iterations'') os3 = (k, os4)" by (metis prod.exhaust)
  let ?vs = "replicate (length cap_keys_1) one @ [two]"
  obtain d os5 where 5: "push (dict_object (ks @ [k]) ?vs (xc_dict C)) os4 = (d, os5)" by (metis prod.exhaust)
  have 6: "push (caps_object d (xc_caps C)) os5 = (n, os')" using os(3) by (simp add: push_ide_caps_def 1 2 3 4 5)
  have g1: "grows os os1" "refers os1 one (PInteger 1)" using push_grows [OF 1 os(1)] by simp_all
  have g2: "grows os1 os2" "refers os2 two (PInteger 2)" using push_grows [OF 2 grows_nonempty [OF g1(1)]] by simp_all
  have g3: "grows os2 os3" "refs_to os3 ks (map PString cap_keys_1)"
    using push_strs_grows [OF 3 grows_nonempty [OF g2(1)]] by simp_all
  have g4: "grows os3 os4" "refers os4 k (PString ''test iterations'')" using push_grows [OF 4 grows_nonempty [OF g3(1)]] by simp_all
  have o4: "grows os os4" "grows os1 os4" "grows os2 os4" using g1(1) g2(1) g3(1) g4(1) by (blast intro: grows_trans)+
  have c4: "has_class ''NSDictionary'' (xc_dict C) os4" "has_class ''XCTCapabilities'' (xc_caps C) os4"
    using os(2) has_class_grows [OF _ o4(1)] by auto
  have r4: "refs_to os4 (ks @ [k]) (map (\<lambda>kv. PString (fst kv)) ide_caps)" "refs_to os4 ?vs (map snd ide_caps)"
    using refs_to_append [OF refs_to_grows [OF g3(2) g4(1)], of "[k]"] g4(2)
      refs_to_append [OF refs_to_replicate [OF refers_grows [OF g1(2) o4(2)]], of "[two]"] refers_grows [OF g2(2) o4(3)]
    by (simp_all add: ide_caps_def refs_to_def comp_def map_replicate_const)
  have u5: "\<forall>n\<in>set (uids (dict_object (ks @ [k]) ?vs (xc_dict C))). n < length os4"
    using has_class_less [OF c4(1)] refs_to_less [OF r4(1)] refs_to_less [OF r4(2)]
    unfolding uids_objects set_append by auto
  have g5: "grows os4 os5" "refers os5 d (dict_object (ks @ [k]) ?vs (xc_dict C))"
    using push_grows [OF 5 grows_nonempty [OF g4(1)] u5] by simp_all
  have c5: "has_class ''XCTCapabilities'' (xc_caps C) os5" using c4(2) g5(1) by (rule has_class_grows)
  have g6: "grows os5 os'" "refers os' n (caps_object d (xc_caps C))"
    using push_grows [OF 6 grows_nonempty [OF g5(1)]] has_class_less [OF c5] refers_less [OF g5(2)] by auto
  show "grows os os'" using o4(1) g5(1) g6(1) by (blast intro: grows_trans)
  show "read_caps os'' (PUid n) = Some ide_caps" if g: "grows os' os''" for os''
  proof -
    have l: "grows os5 os''" "grows os4 os''" using g g6(1) g5(1) by (blast intro: grows_trans)+
    obtain s1 s2 where "refers os'' (xc_caps C) (class_dict ''XCTCapabilities'' s1)" "refers os'' (xc_dict C) (class_dict ''NSDictionary'' s2)"
      using c4 l(2) by (blast intro: refers_grows)
    then show ?thesis using refers_grows [OF g6(2) g] refers_grows [OF g5(2) l(1)] refs_to_grows [OF r4(1) l(2)] refs_to_grows [OF r4(2) l(2)]
      by (simp add: read_caps_refers read_dict_refers)
  qed
qed

lemma push_classes_table:
  assumes "push_classes null_objects = (C, os)"
  shows "closed_table os \<and> os \<noteq> [] \<and> has_class ''XCTestConfiguration'' (xc_config C) os \<and> has_class ''NSUUID'' (xc_uuid C) os \<and>
    has_class ''NSURL'' (xc_url C) os \<and> has_class ''NSSet'' (xc_set C) os \<and> has_class ''NSDictionary'' (xc_dict C) os \<and>
    has_class ''XCTCapabilities'' (xc_caps C) os"
proof -
  have os: "os = [PString ''$null'', class_dict ''XCTestConfiguration'' [''NSObject''], class_dict ''NSUUID'' [''NSObject''],
      class_dict ''NSURL'' [''NSObject''], class_dict ''NSSet'' [''NSObject''], class_dict ''NSDictionary'' [''NSObject''],
      class_dict ''XCTCapabilities'' [''NSObject''], class_dict ''NSMutableArray'' [''NSArray'', ''NSObject'']]"
    and C: "C = \<lparr>xc_config = 1, xc_uuid = 2, xc_url = 3, xc_set = 4, xc_dict = 5, xc_caps = 6, xc_marray = 7\<rparr>"
    using assms by (auto simp: push_classes_def push_class_def push_def null_objects_def numeral_eq_Suc)
  show ?thesis by (simp add: os C closed_table_def refers_def) blast
qed

text \<open>What the references of the configuration object lead to, in a table that may have grown.\<close>

definition refs_ok :: "XCTestConfigArgs \<Rightarrow> xc_refs \<Rightarrow> objects \<Rightarrow> bool" where
  "refs_ok a R os \<longleftrightarrow> read_uuid os (PUid (xr_session R)) = Some (xa_session_id a) \<and>
     read_url os (PUid (xr_bundle_url R)) = Some (file_url (xa_test_bundle_path a)) \<and>
     read_str os (PUid (xr_module_name R)) = Some (xa_product_module_name a) \<and>
     read_caps os (PUid (xr_ide_caps R)) = Some ide_caps \<and>
     read_dict os (PUid (xr_app_deps R)) = Some (map (\<lambda>(b, p). (b, PString p)) (xa_app_dependencies a)) \<and>
     (if xa_tests_to_run a = [] then xr_tests_to_run R = 0
      else xr_tests_to_run R \<noteq> 0 \<and> read_set os (PUid (xr_tests_to_run R)) = Some (xa_tests_to_run a)) \<and>
     (if xa_tests_to_skip a = [] then xr_tests_to_skip R = 0
      else xr_tests_to_skip R \<noteq> 0 \<and> read_set os (PUid (xr_tests_to_skip R)) = Some (xa_tests_to_skip a)) \<and>
     (if xa_target_bundle_id a = [] then xr_target_bundle R = 0
      else xr_target_bundle R \<noteq> 0 \<and> read_str os (PUid (xr_target_bundle R)) = Some (xa_target_bundle_id a)) \<and>
     (if xa_target_path a = [] then xr_target_path R = 0
      else xr_target_path R \<noteq> 0 \<and> read_str os (PUid (xr_target_path R)) = Some (xa_target_path a))"

definition refs_in :: "xc_refs \<Rightarrow> objects \<Rightarrow> bool" where
  "refs_in R os \<longleftrightarrow> list_all (\<lambda>n. n < length os) [xr_session R, xr_bundle_url R, xr_module_name R, xr_tests_to_run R,
     xr_tests_to_skip R, xr_agg_stats R, xr_automation_path R, xr_ide_caps R, xr_app_deps R, xr_target_bundle R, xr_target_path R]"

lemma read_less:
  "deref os (PUid n) \<noteq> None \<Longrightarrow> n < length os"
  "read_str os (PUid n) = Some s \<Longrightarrow> n < length os" "read_uuid os (PUid n) = Some b \<Longrightarrow> n < length os"
  "read_url os (PUid n) = Some s \<Longrightarrow> n < length os" "read_set os (PUid n) = Some ss \<Longrightarrow> n < length os"
  "read_dict os (PUid n) = Some d \<Longrightarrow> n < length os" "read_caps os (PUid n) = Some d \<Longrightarrow> n < length os"
  by (auto simp: read_str_def read_uuid_def read_url_def read_set_def read_dict_def read_caps_def instance_of_def deref_def
    obj_at_def bind_eq_Some_conv split: if_splits)

lemma push_refs_ok:
  assumes "os \<noteq> []" and c: "has_class ''NSUUID'' (xc_uuid C) os" "has_class ''NSURL'' (xc_url C) os" "has_class ''NSSet'' (xc_set C) os"
    "has_class ''NSDictionary'' (xc_dict C) os" "has_class ''XCTCapabilities'' (xc_caps C) os"
    and "push_refs a C os = (R, os')"
  shows "grows os os'" and "refs_in R os'" and "grows os' os'' \<Longrightarrow> refs_ok a R os''"
proof -
  let ?auto = "''/System/Developer/Library/PrivateFrameworks/XCTAutomationSupport.framework''"
  obtain n1 o1 where 1: "push (uuid_object (xa_session_id a) (xc_uuid C)) os = (n1, o1)" "grows os o1"
    "\<forall>z. grows o1 z \<longrightarrow> (read_uuid z (PUid n1) = Some (xa_session_id a))"
    by (rule puuid.build_step [OF assms(1) c(1), of "xa_session_id a"])
  obtain n2 o2 where 2: "push_url (xc_url C) (file_url (xa_test_bundle_path a)) o1 = (n2, o2)" "grows o1 o2"
    "\<forall>z. grows o2 z \<longrightarrow> (read_url z (PUid n2) = Some (file_url (xa_test_bundle_path a)))"
    by (rule purl.build_step [OF grows_nonempty [OF 1(2)] has_class_grows [OF c(2) 1(2)], of "file_url (xa_test_bundle_path a)"])
  obtain n3 o3 where 3: "push_str (xa_product_module_name a) o2 = (n3, o3)" "grows o2 o3"
    "\<forall>z. grows o3 z \<longrightarrow> (read_str z (PUid n3) = Some (xa_product_module_name a))"
    by (rule pstr.build_step [OF grows_nonempty [OF 2(2)] TrueI, of "xa_product_module_name a"])
  have s3: "grows os o3" using 1(2) 2(2) 3(2) by (blast intro: grows_trans)
  obtain n4 o4 where 4: "push_set_opt (xc_set C) (xa_tests_to_run a) o3 = (n4, o4)" "grows o3 o4"
    "\<forall>z. grows o4 z \<longrightarrow> (if xa_tests_to_run a = [] then n4 = 0 else n4 \<noteq> 0 \<and> read_set z (PUid n4) = Some (xa_tests_to_run a))"
    by (rule psetopt.build_step [OF grows_nonempty [OF 3(2)] has_class_grows [OF c(3) s3], of "xa_tests_to_run a"])
  have s4: "grows os o4" using s3 4(2) by (rule grows_trans)
  obtain n5 o5 where 5: "push_set_opt (xc_set C) (xa_tests_to_skip a) o4 = (n5, o5)" "grows o4 o5"
    "\<forall>z. grows o5 z \<longrightarrow> (if xa_tests_to_skip a = [] then n5 = 0 else n5 \<noteq> 0 \<and> read_set z (PUid n5) = Some (xa_tests_to_skip a))"
    by (rule psetopt.build_step [OF grows_nonempty [OF 4(2)] has_class_grows [OF c(3) s4], of "xa_tests_to_skip a"])
  have s5: "grows os o5" using s4 5(2) by (rule grows_trans)
  obtain n6 o6 where 6: "push (agg_stats_object (xc_dict C)) o5 = (n6, o6)" by (metis prod.exhaust)
  have g6: "grows o5 o6" "refers o6 n6 (agg_stats_object (xc_dict C))"
    using push_grows [OF 6 grows_nonempty [OF s5]] has_class_less [OF has_class_grows [OF c(4) s5]] by simp_all
  obtain n7 o7 where 7: "push_str ?auto o6 = (n7, o7)" "grows o6 o7" "\<forall>z. grows o7 z \<longrightarrow> (read_str z (PUid n7) = Some ?auto)"
    by (rule pstr.build_step [OF grows_nonempty [OF g6(1)] TrueI, of ?auto])
  have s7: "grows os o7" using s5 g6(1) 7(2) by (blast intro: grows_trans)
  obtain n8 o8 where 8: "push_ide_caps C o7 = (n8, o8)" "grows o7 o8" "\<forall>z. grows o8 z \<longrightarrow> (read_caps z (PUid n8) = Some ide_caps)"
    by (rule pcaps.build_step [OF grows_nonempty [OF 7(2)] conjI [OF has_class_grows [OF c(4) s7] has_class_grows [OF c(5) s7]]])
  have s8: "grows os o8" using s7 8(2) by (rule grows_trans)
  obtain n9 o9 where 9: "push_app_deps C (xa_app_dependencies a) o8 = (n9, o9)" "grows o8 o9"
    "\<forall>z. grows o9 z \<longrightarrow> (read_dict z (PUid n9) = Some (map (\<lambda>(b, p). (b, PString p)) (xa_app_dependencies a)))"
    by (rule pdeps.build_step [OF grows_nonempty [OF 8(2)] has_class_grows [OF c(4) s8], of "xa_app_dependencies a"])
  obtain n10 o10 where 10: "push_str_opt (xa_target_bundle_id a) o9 = (n10, o10)" "grows o9 o10"
    "\<forall>z. grows o10 z \<longrightarrow> (if xa_target_bundle_id a = [] then n10 = 0 else n10 \<noteq> 0 \<and> read_str z (PUid n10) = Some (xa_target_bundle_id a))"
    by (rule pstropt.build_step [OF grows_nonempty [OF 9(2)] TrueI, of "xa_target_bundle_id a"])
  obtain n11 o11 where 11: "push_str_opt (xa_target_path a) o10 = (n11, o11)" "grows o10 o11"
    "\<forall>z. grows o11 z \<longrightarrow> (if xa_target_path a = [] then n11 = 0 else n11 \<noteq> 0 \<and> read_str z (PUid n11) = Some (xa_target_path a))"
    by (rule pstropt.build_step [OF grows_nonempty [OF 10(2)] TrueI, of "xa_target_path a"])
  have R: "R = \<lparr>xr_session = n1, xr_bundle_url = n2, xr_module_name = n3, xr_tests_to_run = n4, xr_tests_to_skip = n5,
      xr_agg_stats = n6, xr_automation_path = n7, xr_ide_caps = n8, xr_app_deps = n9, xr_target_bundle = n10, xr_target_path = n11\<rparr>"
    and o11: "os' = o11"
    using assms(7) by (simp_all add: push_refs_def 1(1) 2(1) 3(1) 4(1) 5(1) 6 7(1) 8(1) 9(1) 10(1) 11(1))
  have t10: "grows o10 os'" using 11(2) o11 by simp
  have t9: "grows o9 os'" using 10(2) t10 by (rule grows_trans)
  have t8: "grows o8 os'" using 9(2) t9 by (rule grows_trans)
  have t7: "grows o7 os'" using 8(2) t8 by (rule grows_trans)
  have t6: "grows o6 os'" using 7(2) t7 by (rule grows_trans)
  have t5: "grows o5 os'" using g6(1) t6 by (rule grows_trans)
  have t4: "grows o4 os'" using 5(2) t5 by (rule grows_trans)
  have t3: "grows o3 os'" using 4(2) t4 by (rule grows_trans)
  have t2: "grows o2 os'" using 3(2) t3 by (rule grows_trans)
  have t1: "grows o1 os'" using 2(2) t2 by (rule grows_trans)
  show "grows os os'" using 1(2) t1 by (rule grows_trans)
  have ok: "refs_ok a R z" if z: "grows os' z" for z
    unfolding refs_ok_def R
    using 1(3) [rule_format, OF grows_trans [OF t1 z]] 2(3) [rule_format, OF grows_trans [OF t2 z]] 3(3) [rule_format, OF grows_trans [OF t3 z]]
      4(3) [rule_format, OF grows_trans [OF t4 z]] 5(3) [rule_format, OF grows_trans [OF t5 z]] 8(3) [rule_format, OF grows_trans [OF t8 z]]
      9(3) [rule_format, OF grows_trans [OF t9 z]] 10(3) [rule_format, OF grows_trans [OF t10 z]] 11(3) [rule_format, OF z [unfolded o11]] by simp
  then show "grows os' os'' \<Longrightarrow> refs_ok a R os''" .
  have "n6 < length os'" using refers_less [OF refers_grows [OF g6(2) t6]] .
  moreover have "n7 < length os'" using 7(3) [rule_format, OF t7] by (rule read_less)
  moreover have "0 < length os'" using grows_nonempty [OF t1] by simp
  ultimately show "refs_in R os'"
    using ok [OF grows_refl [OF grows_nonempty [OF t1]]]
    by (auto simp: refs_in_def refs_ok_def R dest: read_less split: if_splits)
qed

definition config_keys :: "string list" where
  "config_keys =
    [''$class'', ''aggregateStatisticsBeforeCrash'', ''automationFrameworkPath'', ''baselineFileRelativePath'',
     ''baselineFileURL'', ''defaultTestExecutionTimeAllowance'', ''disablePerformanceMetrics'', ''emitOSLogs'',
     ''gatherLocalizableStringsData'', ''initializeForUITesting'', ''maximumTestExecutionTimeAllowance'',
     ''randomExecutionOrderingSeed'', ''reportActivities'', ''reportResultsToIDE'', ''sessionIdentifier'',
     ''systemAttachmentLifetime'', ''testApplicationUserOverrides'', ''testBundleRelativePath'', ''testBundleURL'',
     ''testExecutionOrdering'', ''testTimeoutsEnabled'', ''testsDrivenByIDE'', ''testsMustRunOnMainThread'',
     ''treatMissingBaselinesAsFailures'', ''userAttachmentLifetime'', ''preferredScreenCaptureFormat'',
     ''IDECapabilities'', ''productModuleName'', ''testApplicationDependencies'']"

lemma config_keys_distinct:
  "distinct (config_keys @ [''testsToRun'', ''testsToSkip'', ''targetApplicationBundleID'', ''targetApplicationPath''])"
  by code_simp

lemma config_fields_keys: "map fst (config_fields a C R) = config_keys @ map fst (opt_ref ''testsToRun'' (xr_tests_to_run R) @
    opt_ref ''testsToSkip'' (xr_tests_to_skip R) @ opt_ref ''targetApplicationBundleID'' (xr_target_bundle R) @
    opt_ref ''targetApplicationPath'' (xr_target_path R))"
  by (simp only: config_fields_def config_keys_def map_append list.map fst_conv)

lemma config_fields_distinct: "distinct (map fst (config_fields a C R))"
  using config_keys_distinct unfolding config_fields_keys by (auto simp: opt_ref_def)

lemma config_fld: "fld k (pdict (config_fields a C R)) = map_of (config_fields a C R) k"
  by (simp add: fld_def pdict_distinct [OF config_fields_distinct])

lemma config_uids: "set (uids (pdict (config_fields a C R))) \<subseteq> {0, xc_config C} \<union> set [xr_session R, xr_bundle_url R,
  xr_module_name R, xr_tests_to_run R, xr_tests_to_skip R, xr_agg_stats R, xr_automation_path R, xr_ide_caps R, xr_app_deps R,
  xr_target_bundle R, xr_target_path R]"
  by (simp add: pdict_distinct [OF config_fields_distinct]) (simp add: config_fields_def opt_ref_def)

section \<open>Properties\<close>

text \<open>
  C18: The archived test configuration reads back: for every input, no reference in the archive
  dangles, its root is a test configuration, and following the references of its fields with the
  class each field needs gives the session identifier, the bundle as a file URL, the module name,
  the capabilities and the applications in order; the sets of tests and the target application
  are absent exactly when they are empty.
\<close>

theorem xctest_configuration_reads_back:
  "\<exists>os n cfg. build_xctest_configuration_bytes bin a = bin (skeleton os n) \<and> closed_table os \<and>
    instance_of ''XCTestConfiguration'' os (PUid n) = Some cfg \<and>
    Option.bind (fld ''sessionIdentifier'' cfg) (read_uuid os) = Some (xa_session_id a) \<and>
    Option.bind (fld ''testBundleURL'' cfg) (read_url os) = Some (''file://'' @ xa_test_bundle_path a) \<and>
    Option.bind (fld ''productModuleName'' cfg) (read_str os) = Some (xa_product_module_name a) \<and>
    Option.bind (fld ''IDECapabilities'' cfg) (read_caps os) = Some ide_caps \<and>
    Option.bind (fld ''testApplicationDependencies'' cfg) (read_dict os) =
      Some (map (\<lambda>(b, p). (b, PString p)) (xa_app_dependencies a)) \<and>
    fld ''initializeForUITesting'' cfg = Some (PBoolean (xa_initialize_for_ui a)) \<and>
    map_option (read_set os) (fld ''testsToRun'' cfg) =
      (if xa_tests_to_run a = [] then None else Some (Some (xa_tests_to_run a))) \<and>
    map_option (read_set os) (fld ''testsToSkip'' cfg) =
      (if xa_tests_to_skip a = [] then None else Some (Some (xa_tests_to_skip a))) \<and>
    map_option (read_str os) (fld ''targetApplicationBundleID'' cfg) =
      (if xa_target_bundle_id a = [] then None else Some (Some (xa_target_bundle_id a))) \<and>
    map_option (read_str os) (fld ''targetApplicationPath'' cfg) =
      (if xa_target_path a = [] then None else Some (Some (xa_target_path a)))"
proof -
  obtain C o1 where C: "push_classes null_objects = (C, o1)" by (metis prod.exhaust)
  obtain R o2 where R: "push_refs a C o1 = (R, o2)" by (metis prod.exhaust)
  define cfg where "cfg = pdict (config_fields a C R)"
  obtain n os where n: "push cfg o2 = (n, os)" by (metis prod.exhaust)
  have c: "closed_table o1" "o1 \<noteq> []" "has_class ''XCTestConfiguration'' (xc_config C) o1" "has_class ''NSUUID'' (xc_uuid C) o1"
    "has_class ''NSURL'' (xc_url C) o1" "has_class ''NSSet'' (xc_set C) o1" "has_class ''NSDictionary'' (xc_dict C) o1"
    "has_class ''XCTCapabilities'' (xc_caps C) o1" using push_classes_table [OF C] by blast+
  note r = push_refs_ok [OF c(2,4-8) R]
  have k: "has_class ''XCTestConfiguration'' (xc_config C) o2" using c(3) r(1) by (rule has_class_grows)
  have "\<forall>m\<in>set (uids cfg). m < length o2"
    using config_uids [of a C R] r(2) has_class_less [OF k] grows_nonempty [OF r(1)] by (auto simp: cfg_def refs_in_def)
  from push_grows [OF n grows_nonempty [OF r(1)] this] have g: "grows o2 os" "refers os n cfg" by simp_all
  have ok: "refs_ok a R os" using g(1) by (rule r(3))
  have f: "fld k cfg = map_of (config_fields a C R) k" for k by (simp add: cfg_def config_fld)
  obtain sups where s: "refers os (xc_config C) (class_dict ''XCTestConfiguration'' sups)"
    using k g(1) by (blast intro: refers_grows)
  have "fld ''$class'' cfg = Some (PUid (xc_config C))" by (simp add: f config_fields_def)
  then have i: "instance_of ''XCTestConfiguration'' os (PUid n) = Some cfg" by (rule instance_of_refers [OF g(2) _ s])
  have cl: "closed_table os" using c(1) r(1) g(1) by (simp add: grows_def)
  have b: "build_xctest_configuration_bytes bin a = bin (skeleton os n)"
    using n by (simp add: build_xctest_configuration_bytes_def config_table_def C R cfg_def)
  show ?thesis
    by (intro exI [of _ os] exI [of _ n] exI [of _ cfg] conjI b cl i;
        use ok in \<open>simp add: f config_fields_def opt_ref_def refs_ok_def file_url_def split: if_splits\<close>)
qed

text \<open>The capabilities archive reads back in the same way, for values without references.\<close>

theorem xct_capabilities_read_back:
  assumes "\<forall>v\<in>set (map snd caps). uids v = []" and "capabilities_table caps = (n, os)"
  shows "read_caps os (PUid n) = Some caps \<and> closed_table os"
proof -
  define o2 where "o2 = null_objects @ [class_dict ''XCTCapabilities'' [''NSObject''], class_dict ''NSDictionary'' [''NSObject'']]"
  have o2: "o2 \<noteq> []" "closed_table o2" "refers o2 1 (class_dict ''XCTCapabilities'' [''NSObject''])"
    "refers o2 2 (class_dict ''NSDictionary'' [''NSObject''])"
    by (simp_all add: o2_def null_objects_def closed_table_def refers_def)
  obtain ks vs o3 where 3: "push_pairs caps o2 = ((ks, vs), o3)" by (metis prod.exhaust)
  have g3: "grows o2 o3" "refs_to o3 ks (map (\<lambda>kv. PString (fst kv)) caps)" "refs_to o3 vs (map snd caps)"
    using push_pairs_grows [OF 3 o2(1) assms(1)] by blast+
  note c3 = refers_grows [OF o2(3) g3(1)] refers_grows [OF o2(4) g3(1)]
  obtain d o4 where 4: "push (dict_object ks vs 2) o3 = (d, o4)" by (metis prod.exhaust)
  have g4: "grows o3 o4" "refers o4 d (dict_object ks vs 2)"
    using push_grows [OF 4 grows_nonempty [OF g3(1)]] refers_less [OF c3(2)] refs_to_less [OF g3(2)] refs_to_less [OF g3(3)] by auto
  have 5: "push (caps_object d 1) o4 = (n, os)"
    using assms(2) 3 4 by (auto simp: capabilities_table_def push_def o2_def null_objects_def numeral_2_eq_2)
  have g5: "grows o4 os" "refers os n (caps_object d 1)"
    using push_grows [OF 5 grows_nonempty [OF g4(1)]] refers_less [OF g4(2)] refers_less [OF refers_grows [OF c3(1) g4(1)]] by auto
  have g: "grows o3 os" using g4(1) g5(1) by (rule grows_trans)
  have "read_dict os (PUid d) = Some caps"
    by (rule read_dict_refers [OF refers_grows [OF g4(2) g5(1)] refers_grows [OF c3(2) g] refs_to_grows [OF g3(2) g] refs_to_grows [OF g3(3) g]])
  moreover have "closed_table os" using o2(2) g3(1) g by (simp add: grows_def)
  ultimately show ?thesis using read_caps_refers [OF g5(2) refers_grows [OF c3(1) g]] by simp
qed

end
