(* ===== verification/XcTest.thy ===== *)
theory XcTest
  imports DtxConn XcArchive Rsd Tlv8
begin

text \<open>
  Running tests, \<open>src/src/xctest/mod.rs\<close>: the handlers of the two channels the test runner calls
  back on, the launch of the runner through the application service, and \<open>run\<close>, which sets up two
  DTX connections and waits for the end. The handlers are threads: they are step functions on a
  shared state, and their interleaving is a list of events. Connections through the tunnel are the
  parameter \<open>connect\<close>; the loopback relays between two sockets forward bytes unchanged (\<open>copy_half\<close> of
  theory Rsd) and are left out. Error texts that quote another error are cut.
\<close>

section \<open>Identifiers\<close>

definition uuid_to_upper_string :: "bytes \<Rightarrow> string" where
  "uuid_to_upper_string b = concat (map hex2_up (take 4 b)) @ ''-'' @ concat (map hex2_up (take 2 (drop 4 b))) @ ''-'' @
     concat (map hex2_up (take 2 (drop 6 b))) @ ''-'' @ concat (map hex2_up (take 2 (drop 8 b))) @ ''-'' @
     concat (map hex2_up (take 6 (drop 10 b)))"

text \<open>\<open>t\<close> is the time in nanoseconds, a 128-bit number.\<close>

definition rand_uuid :: "128 word \<Rightarrow> bytes" where
  "rand_uuid t = (let b = map (\<lambda>i. ucast (drop_bit (8 * i) t)) [0..<16]
     in b[6 := (b ! 6 AND 0x0f) OR 0x40, 8 := (b ! 8 AND 0x3f) OR 0x80])"

section \<open>The callbacks of the test runner\<close>

definition archived_string :: "pvalue \<Rightarrow> string option" where
  "archived_string v = Option.bind (as_dictionary v) (\<lambda>d. Option.bind (dget d ''$objects'') (\<lambda>a.
     Option.bind (as_array a) (\<lambda>arr. if 1 < length arr then as_string (arr ! 1) else None)))"

definition decode_aux_str :: "(bytes \<Rightarrow> pvalue option) \<Rightarrow> AuxValue \<Rightarrow> string option" where
  "decode_aux_str parse a = (case a of ABytes b \<Rightarrow> Option.bind (parse b) archived_string | _ \<Rightarrow> None)"

definition selector_of :: "dtx_message \<Rightarrow> string" where
  "selector_of m = (case Option.bind (dm_payload m) archived_string of Some s \<Rightarrow> s | None \<Rightarrow> [])"

definition aux0_of :: "(bytes \<Rightarrow> pvalue option) \<Rightarrow> dtx_message \<Rightarrow> string" where
  "aux0_of parse m = (case dm_aux m of [] \<Rightarrow> []
     | a # _ \<Rightarrow> (case decode_aux_str parse a of Some s \<Rightarrow> s | None \<Rightarrow> []))"

text \<open>
  The state the threads share: the connection, the channel for driver messages (an atomic number),
  whether the end was signalled, and the flags of the handler of the test channel.
\<close>

record xc_ide =
  xi_conn :: dtx_conn
  xi_driver :: u32
  xi_done :: bool
  xi_test_case_finished :: bool
  xi_plan_started :: bool
  xi_running :: bool

text \<open>What the handler does to the connection; the results of the calls are ignored.\<close>

datatype xc_action = DoReply dtx_message bytes | DoAck dtx_message | DoStart u32

fun perform :: "(pvalue \<Rightarrow> bytes) \<Rightarrow> xc_action \<Rightarrow> dtx_conn \<Rightarrow> dtx_conn" where
  "perform bin (DoReply m payload) c = snd (dtx_reply m payload c)"
| "perform bin (DoAck m) c = snd (dtx_ack m c)"
| "perform bin (DoStart ch) c =
    snd (call_async bin ch ''_IDE_startExecutingTestPlanWithProtocolVersion:'' [ABytes (archive_u64 bin 36)] c)"

definition ack_if :: "dtx_message \<Rightarrow> xc_action list" where
  "ack_if m = (if dm_expects_reply m then [DoAck m] else [])"

definition runner_ready :: "dtx_message \<Rightarrow> bool" where
  "runner_ready m = contains_str ''testRunnerReadyWithCapabilities'' (selector_of m)"

definition plan_finished :: "dtx_message \<Rightarrow> bool" where
  "plan_finished m = contains_str ''didFinishExecutingTestPlan'' (selector_of m)"

definition case_finished :: "dtx_message \<Rightarrow> bool" where
  "case_finished m \<longleftrightarrow> contains_str ''testCaseWithIdentifier:didFinishWithStatus:duration:'' (selector_of m) \<or>
     contains_str ''testCaseDidFinishForTestClass:method:'' (selector_of m)"

definition suite_finished :: "dtx_message \<Rightarrow> bool" where
  "suite_finished m = contains_str ''testSuiteWithIdentifier:didFinishAt:'' (selector_of m)"

definition asks_start :: "(bytes \<Rightarrow> pvalue option) \<Rightarrow> dtx_message \<Rightarrow> bool" where
  "asks_start parse m = contains_str ''requesting ready for testing'' (aux0_of parse m)"

text \<open>One message of the test channel: what to do, and the flags after it.\<close>

definition ide_message :: "(bytes \<Rightarrow> pvalue option) \<Rightarrow> bytes \<Rightarrow> dtx_message \<Rightarrow> xc_ide \<Rightarrow> xc_action list \<times> xc_ide" where
  "ide_message parse cfg m s =
    (if \<not> xi_running s then ([], s)
     else if runner_ready m then ([DoReply m cfg], s)
     else if plan_finished m then (ack_if m, s\<lparr>xi_done := True, xi_running := False\<rparr>)
     else if case_finished m then (ack_if m, s\<lparr>xi_test_case_finished := True\<rparr>)
     else if xi_test_case_finished s \<and> suite_finished m then (ack_if m, s\<lparr>xi_done := True\<rparr>)
     else if \<not> xi_plan_started s \<and> asks_start parse m
       then (ack_if m @ [DoStart (xi_driver s)], s\<lparr>xi_plan_started := True\<rparr>)
     else (ack_if m, s))"

text \<open>One message of channel 0: the code under which the runner offers the driver interface.\<close>

definition driver_code :: "(bytes \<Rightarrow> pvalue option) \<Rightarrow> dtx_message \<Rightarrow> u32 option" where
  "driver_code parse m =
    (if contains_str ''requestChannelWithCode'' (selector_of m)
     then case dm_aux m of
         AInt32 code # a # _ \<Rightarrow>
           (case decode_aux_str parse a of
              Some ident \<Rightarrow> if contains_str ''XCTestDriverInterface'' ident then Some code else None
            | None \<Rightarrow> None)
       | _ \<Rightarrow> None
     else None)"

definition chan0_message :: "(bytes \<Rightarrow> pvalue option) \<Rightarrow> dtx_message \<Rightarrow> xc_ide \<Rightarrow> xc_ide" where
  "chan0_message parse m s = (case driver_code parse m of Some code \<Rightarrow> s\<lparr>xi_driver := - code\<rparr> | None \<Rightarrow> s)"

datatype xc_event = OnTest dtx_message | OnChan0 dtx_message

fun xc_step :: "(pvalue \<Rightarrow> bytes) \<Rightarrow> (bytes \<Rightarrow> pvalue option) \<Rightarrow> bytes \<Rightarrow> xc_event \<Rightarrow> xc_ide \<Rightarrow> xc_action list \<times> xc_ide" where
  "xc_step bin parse cfg (OnTest m) s = (case ide_message parse cfg m s of
     (acts, s') \<Rightarrow> (acts, s'\<lparr>xi_conn := fold (perform bin) acts (xi_conn s)\<rparr>))"
| "xc_step bin parse cfg (OnChan0 m) s = ([], chan0_message parse m s)"

fun xc_run_events :: "(pvalue \<Rightarrow> bytes) \<Rightarrow> (bytes \<Rightarrow> pvalue option) \<Rightarrow> bytes \<Rightarrow> xc_event list \<Rightarrow> xc_ide \<Rightarrow>
    xc_action list \<times> xc_ide" where
  "xc_run_events bin parse cfg [] s = ([], s)"
| "xc_run_events bin parse cfg (e # es) s = (case xc_step bin parse cfg e s of
     (acts, s1) \<Rightarrow> (case xc_run_events bin parse cfg es s1 of (acts', s2) \<Rightarrow> (acts @ acts', s2)))"

definition ide_start :: "dtx_conn \<Rightarrow> xc_ide" where
  "ide_start c = \<lparr>xi_conn = c, xi_driver = - 1, xi_done = False, xi_test_case_finished = False,
     xi_plan_started = False, xi_running = True\<rparr>"

section \<open>Launching the runner\<close>

definition xdict :: "(string \<times> xvalue) list \<Rightarrow> xvalue" where
  "xdict kvs = XDictionary (fold (\<lambda>(k, v). ainsert k v) kvs [])"

definition build_coredevice_request :: "128 word \<Rightarrow> string \<Rightarrow> string \<Rightarrow> xvalue option \<Rightarrow> xvalue" where
  "build_coredevice_request now device_id feature input =
    xdict [(''CoreDevice.CoreDeviceDDIProtocolVersion'', XInt64 0),
      (''CoreDevice.action'', XDictionary []),
      (''CoreDevice.coreDeviceVersion'', xdict [(''stringValue'', XString ''348.1''), (''originalComponentsCount'', XInt64 2),
         (''components'', XArray [XUint64 348, XUint64 1, XUint64 0, XUint64 0, XUint64 0])]),
      (''CoreDevice.deviceIdentifier'', XString device_id),
      (''CoreDevice.featureIdentifier'', XString feature),
      (''CoreDevice.invocationIdentifier'', XString (uuid_to_upper_string (rand_uuid now))),
      (''CoreDevice.input'', case input of Some v \<Rightarrow> v | None \<Rightarrow> XNull)]"

definition build_launch_input :: "string \<Rightarrow> (string \<times> xvalue) list \<Rightarrow> (string \<times> xvalue) list \<Rightarrow> bytes \<Rightarrow> bytes \<Rightarrow> xvalue" where
  "build_launch_input bundle_id env opts platform_opts stdio_uuid =
    xdict [(''applicationSpecifier'', xdict [(''bundleIdentifier'', xdict [(''_0'', XString bundle_id)])]),
      (''options'', xdict ([(''arguments'', XArray []), (''environmentVariables'', XDictionary env),
         (''platformSpecificOptions'', XData platform_opts), (''standardIOUsesPseudoterminals'', XBool True),
         (''startStopped'', XBool False), (''terminateExisting'', XBool True),
         (''user'', xdict [(''active'', XBool True)]), (''workingDirectory'', XNull)] @ opts)),
      (''standardIOIdentifiers'', xdict [(''standardInput'', XUuid stdio_uuid), (''standardOutput'', XUuid stdio_uuid),
         (''standardError'', XUuid stdio_uuid)])]"

definition bundle_path_for_env :: "bool \<Rightarrow> string \<Rightarrow> string" where
  "bundle_path_for_env initialize_for_ui test_bundle_path =
    (if initialize_for_ui then test_bundle_path
     else ''PlugIns/'' @ last (split_on (CHR ''/'') test_bundle_path))"

text \<open>The environment: the non-empty entries of the fixed list, then the caller's, which win.\<close>

definition runner_env :: "bool \<Rightarrow> bool \<Rightarrow> string \<Rightarrow> string \<Rightarrow> (string \<times> string) list \<Rightarrow> (string \<times> xvalue) list" where
  "runner_env is_xctest initialize_for_ui test_bundle_path session_id extra_env =
    fold (\<lambda>(k, v). ainsert k (XString v)) extra_env
      (fold (\<lambda>(k, v). ainsert k (XString v)) (filter (\<lambda>kv. snd kv \<noteq> [])
        [(''DYLD_INSERT_LIBRARIES'', if is_xctest then ''/System/Developer/usr/lib/libXCTestBundleInject.dylib'' else []),
         (''DYLD_FRAMEWORK_PATH'', if initialize_for_ui then ''/System/Developer/Library/Frameworks'' else []),
         (''DYLD_LIBRARY_PATH'', if initialize_for_ui then ''/System/Developer/usr/lib'' else []),
         (''NSUnbufferedIO'', ''YES''), (''OS_ACTIVITY_DT_MODE'', ''YES''), (''SQLITE_ENABLE_THREAD_ASSERTIONS'', ''1''),
         (''XCTestBundlePath'', bundle_path_for_env initialize_for_ui test_bundle_path),
         (''XCTestConfigurationFilePath'', []), (''XCTestManagerVariant'', ''DDI''),
         (''XCTestSessionIdentifier'', session_id)]) [])"

definition launch_opts :: "bool \<Rightarrow> bool \<Rightarrow> (string \<times> xvalue) list" where
  "launch_opts is_xctest initialize_for_ui =
    (if initialize_for_ui \<and> \<not> is_xctest
     then [(''ActivateSuspended'', XUint64 1), (''StartSuspendedKey'', XUint64 0), (''__ActivateSuspended'', XUint64 1)]
     else [])"

definition reply_pid :: "xvalue \<Rightarrow> int option" where
  "reply_pid reply = Option.bind (xas_dict reply) (\<lambda>d. Option.bind (map_of d ''CoreDevice.output'') (\<lambda>v.
     Option.bind (xas_dict v) (\<lambda>d. Option.bind (map_of d ''processToken'') (\<lambda>v.
     Option.bind (xas_dict v) (\<lambda>d. Option.bind (map_of d ''processIdentifier'') xas_i64)))))"

text \<open>\<open>s\<close> is the socket of the application service, \<open>d\<close> and \<open>i\<close> the times of the two identifiers.\<close>

definition launch_test_runner :: "(pvalue \<Rightarrow> bytes) \<Rightarrow> 128 word \<Rightarrow> 128 word \<Rightarrow> sock \<Rightarrow> string \<Rightarrow> string \<Rightarrow> string \<Rightarrow>
    (string \<times> string) list \<Rightarrow> bool \<Rightarrow> bool \<Rightarrow> bytes \<Rightarrow> (string, int) outcome \<times> rxconn" where
  "launch_test_runner bin d i s bundle_id session_id test_bundle_path extra_env is_xctest initialize_for_ui stdio_uuid =
    (case rx_connect s of
       (Ok _, c) \<Rightarrow>
         (case rx_request (build_coredevice_request i (map lower_char (uuid_to_upper_string (rand_uuid d)))
             ''com.apple.coredevice.feature.launchapplication''
             (Some (build_launch_input bundle_id
               (runner_env is_xctest initialize_for_ui test_bundle_path session_id extra_env)
               (launch_opts is_xctest initialize_for_ui) (bin (PDictionary [])) stdio_uuid))) c of
            (Ok reply, c') \<Rightarrow> (case reply_pid reply of
                Some pid \<Rightarrow> (Ok pid, c') | None \<Rightarrow> (Err ''no PID in appservice reply'', c'))
          | (Err _, c') \<Rightarrow> (Err ''appservice request'', c')
          | (Panic, c') \<Rightarrow> (Panic, c'))
     | (Err _, c) \<Rightarrow> (Err ''remotexpc'', c)
     | (Panic, c) \<Rightarrow> (Panic, c))"

section \<open>A test run\<close>

record RunConfig =
  rc_bundle_id :: string
  rc_bundle_path :: string
  rc_test_runner_bundle_id :: string
  rc_xctest_config_name :: string
  rc_tests_to_run :: "string list"
  rc_tests_to_skip :: "string list"
  rc_is_xctest :: bool
  rc_initialize_for_ui :: bool
  rc_extra_env :: "(string \<times> string) list"

text \<open>
  The outside of a run: connections through the tunnel, in the order they are made; how many turns
  the reader threads take before a call gives up; the times that the identifiers are made from.
\<close>

record xc_env =
  xe_connect :: "nat \<Rightarrow> u16 \<Rightarrow> string + sock"
  xe_turns :: nat
  xe_session_time :: "128 word"
  xe_device_time :: "128 word"
  xe_invocation_time :: "128 word"

record xc_world =
  xw_conn1 :: dtx_conn
  xw_conn2 :: dtx_conn
  xw_app :: "rxconn option"
  xw_log :: bytes

type_synonym 'a xc = "(xc_world, string, 'a) prog"

definition on_conn1 :: "string \<Rightarrow> 'a dtx \<Rightarrow> 'a xc" where
  "on_conn1 what m w = (case m (xw_conn1 w) of
     (Ok x, c) \<Rightarrow> (Ok x, w\<lparr>xw_conn1 := c\<rparr>) | (Err _, c) \<Rightarrow> (Err what, w\<lparr>xw_conn1 := c\<rparr>) | (Panic, c) \<Rightarrow> (Panic, w\<lparr>xw_conn1 := c\<rparr>))"

definition on_conn2 :: "string \<Rightarrow> 'a dtx \<Rightarrow> 'a xc" where
  "on_conn2 what m w = (case m (xw_conn2 w) of
     (Ok x, c) \<Rightarrow> (Ok x, w\<lparr>xw_conn2 := c\<rparr>) | (Err _, c) \<Rightarrow> (Err what, w\<lparr>xw_conn2 := c\<rparr>) | (Panic, c) \<Rightarrow> (Panic, w\<lparr>xw_conn2 := c\<rparr>))"

definition register1 :: "u32 \<Rightarrow> nat xc" where
  "register1 ch w = (case register_channel ch (xw_conn1 w) of (q, c) \<Rightarrow> (Ok q, w\<lparr>xw_conn1 := c\<rparr>))"

definition log_line :: "string \<Rightarrow> unit xc" where
  "log_line s w = (Ok (), w\<lparr>xw_log := xw_log w @ bytes_of s @ [10]\<rparr>)"

definition xc_show_int :: "int \<Rightarrow> string" where
  "xc_show_int i = (if i < 0 then ''-'' @ show_nat (nat (- i)) else show_nat (nat i))"

definition CHAN_NAME :: string where
  "CHAN_NAME = ''dtxproxy:XCTestManager_IDEInterface:XCTestManager_DaemonConnectionInterface''"

definition DRIVER_CHAN_NAME :: string where
  "DRIVER_CHAN_NAME = ''dtxproxy:XCTestDriverInterface:XCTestManager_IDEInterface''"

definition local_caps :: "(string \<times> pvalue) list" where
  "local_caps = build_caps [(''XCTIssue capability'', True), (''daemon container sandbox extension'', True),
     (''delayed attachment transfer'', True), (''expected failure test capability'', True),
     (''request diagnostics for specific devices'', True), (''skipped test capability'', True),
     (''test case run configurations'', True), (''test iterations'', True), (''test timeout capability'', True),
     (''ubiquitous test identifiers'', True)]"

definition test_bundle_path :: "string \<Rightarrow> RunConfig \<Rightarrow> string" where
  "test_bundle_path runner_path cfg = runner_path @ ''/PlugIns/'' @ rc_xctest_config_name cfg"

definition app_deps :: "string \<Rightarrow> RunConfig \<Rightarrow> (string \<times> string) list" where
  "app_deps runner_path cfg = (rc_test_runner_bundle_id cfg, runner_path) #
     (if rc_bundle_id cfg \<noteq> [] \<and> rc_bundle_path cfg \<noteq> [] then [(rc_bundle_id cfg, rc_bundle_path cfg)] else [])"

definition run_config_args :: "xc_env \<Rightarrow> string \<Rightarrow> RunConfig \<Rightarrow> XCTestConfigArgs" where
  "run_config_args E runner_path cfg = \<lparr>xa_session_id = rand_uuid (xe_session_time E),
     xa_test_bundle_path = test_bundle_path runner_path cfg,
     xa_product_module_name = trim_end_matches ''.xctest'' (rc_xctest_config_name cfg),
     xa_target_bundle_id = rc_bundle_id cfg, xa_target_path = rc_bundle_path cfg,
     xa_tests_to_run = rc_tests_to_run cfg, xa_tests_to_skip = rc_tests_to_skip cfg,
     xa_is_xctest = rc_is_xctest cfg, xa_initialize_for_ui = rc_initialize_for_ui cfg,
     xa_app_dependencies = app_deps runner_path cfg, xa_runner_bundle_id = rc_test_runner_bundle_id cfg\<rparr>"

definition launch_step :: "(pvalue \<Rightarrow> bytes) \<Rightarrow> xc_env \<Rightarrow> u16 \<Rightarrow> string \<Rightarrow> RunConfig \<Rightarrow> bytes \<Rightarrow> int xc" where
  "launch_step bin E port runner_path cfg stdio_uuid w = (case xe_connect E 3 port of
     Inl _ \<Rightarrow> (Err ''launch test runner'', w)
   | Inr s \<Rightarrow> (case launch_test_runner bin (xe_device_time E) (xe_invocation_time E) s (rc_test_runner_bundle_id cfg)
         (uuid_to_upper_string (rand_uuid (xe_session_time E))) (test_bundle_path runner_path cfg)
         (rc_extra_env cfg) (rc_is_xctest cfg) (rc_initialize_for_ui cfg) stdio_uuid of
       (Ok pid, c) \<Rightarrow> (Ok pid, w\<lparr>xw_app := Some c\<rparr>)
     | (Err _, c) \<Rightarrow> (Err ''launch test runner'', w\<lparr>xw_app := Some c\<rparr>)
     | (Panic, c) \<Rightarrow> (Panic, w\<lparr>xw_app := Some c\<rparr>)))"

text \<open>Steps four to seven of \<open>run\<close>; the result is the channel the test runner calls back on.\<close>

definition xc_setup :: "(pvalue \<Rightarrow> bytes) \<Rightarrow> (bytes \<Rightarrow> pvalue option) \<Rightarrow> xc_env \<Rightarrow> u16 \<Rightarrow> string \<Rightarrow> RunConfig \<Rightarrow> bytes \<Rightarrow> u32 xc" where
  "xc_setup bin parse E port runner_path cfg stdio_uuid =
    bnd (on_conn1 ''conn1 handshake'' (dtx_handshake bin)) (\<lambda>_.
    bnd (on_conn2 ''conn2 handshake'' (dtx_handshake bin)) (\<lambda>_.
    bnd (on_conn1 ''request channel conn1'' (request_channel bin parse (xe_turns E) CHAN_NAME)) (\<lambda>ide1.
    bnd (register1 ide1) (\<lambda>_. bnd (register1 0) (\<lambda>_.
    bnd (on_conn1 ''initiateSession'' (dtx_call bin parse (xe_turns E) ide1 ''_IDE_initiateSessionWithIdentifier:capabilities:''
      [ABytes (archive_uuid bin (rand_uuid (xe_session_time E))), ABytes (archive_xct_capabilities bin local_caps)])) (\<lambda>_.
    bnd (on_conn1 ''request driver channel'' (request_channel bin parse (xe_turns E) DRIVER_CHAN_NAME)) (\<lambda>_.
    bnd (launch_step bin E port runner_path cfg stdio_uuid) (\<lambda>pid.
    bnd (log_line (''[ios-rs] Test runner launched (pid='' @ xc_show_int pid @ '')'')) (\<lambda>_.
    bnd (on_conn2 ''request channel conn2'' (request_channel bin parse (xe_turns E) CHAN_NAME)) (\<lambda>ide2.
    bnd (on_conn2 ''initiateControlSession'' (dtx_call bin parse (xe_turns E) ide2 ''_IDE_initiateControlSessionWithCapabilities:''
      [ABytes (archive_xct_capabilities bin [])])) (\<lambda>_.
    bnd (on_conn2 ''authorizeTestSession'' (dtx_call bin parse (xe_turns E) ide2 ''_IDE_authorizeTestSessionWithProcessID:''
      [ABytes (archive_u64 bin (word_of_int pid))])) (\<lambda>_. ret ide1))))))))))))"

text \<open>
  The wait: in each round the output that is there, or that there is none, or that the sender is gone,
  and whether the end was signalled; the list ends at the deadline.
\<close>

datatype stdio_poll = Got bytes | NoData | Gone

fun xc_wait_loop :: "(stdio_poll \<times> bool) list \<Rightarrow> bytes \<Rightarrow> bytes" where
  "xc_wait_loop [] log = log"
| "xc_wait_loop ((Gone, d) # ps) log = log"
| "xc_wait_loop ((Got bs, d) # ps) log = (if d then log @ bs else xc_wait_loop ps (log @ bs))"
| "xc_wait_loop ((NoData, d) # ps) log = (if d then log else xc_wait_loop ps log)"

definition runner_path_of :: "service_entry \<Rightarrow> string" where
  "runner_path_of e = str_or (se_properties e) ''Path''"

definition xc_connect :: "xc_env \<Rightarrow> u16 \<Rightarrow> u16 \<Rightarrow> string + bytes \<times> xc_world" where
  "xc_connect E stdio_port tm_port = (case xe_connect E 0 stdio_port of
     Inl _ \<Rightarrow> Inl ''openstdiosocket''
   | Inr s0 \<Rightarrow> (case read_exact 16 (inp s0) of
       (Ok uuid, _) \<Rightarrow> (case xe_connect E 1 tm_port of
           Inl _ \<Rightarrow> Inl ''testmanagerd conn1''
         | Inr s1 \<Rightarrow> (case xe_connect E 2 tm_port of
             Inl _ \<Rightarrow> Inl ''testmanagerd conn2''
           | Inr s2 \<Rightarrow> Inr (uuid, \<lparr>xw_conn1 = dtx_new s1, xw_conn2 = dtx_new s2, xw_app = None, xw_log = []\<rparr>)))
     | _ \<Rightarrow> Inl ''stdio relay''))"

text \<open>\<open>run\<close>: the polls and the output left at the end are inputs, decided by the runner and the handlers.\<close>

definition xc_run :: "(pvalue \<Rightarrow> bytes) \<Rightarrow> (bytes \<Rightarrow> pvalue option) \<Rightarrow> xc_env \<Rightarrow> rsd_client \<Rightarrow> (string \<times> service_entry) list \<Rightarrow>
    RunConfig \<Rightarrow> (stdio_poll \<times> bool) list \<Rightarrow> bytes list \<Rightarrow> (string, bool) outcome \<times> xc_world option" where
  "xc_run bin parse E rsd apps cfg polls leftover =
    (case rsd_service rsd ''com.apple.dt.testmanagerd.remote'' of
       None \<Rightarrow> (Err ''testmanagerd.remote not in RSD catalog'', None)
     | Some tm \<Rightarrow> (case rsd_service rsd ''com.apple.coredevice.appservice'' of
         None \<Rightarrow> (Err ''coredevice.appservice not in RSD catalog'', None)
       | Some app \<Rightarrow> (case rsd_service rsd ''com.apple.coredevice.openstdiosocket'' of
           None \<Rightarrow> (Err ''coredevice.openstdiosocket not in RSD catalog'', None)
         | Some stdio \<Rightarrow> (case map_of apps (rc_test_runner_bundle_id cfg) of
             None \<Rightarrow> (Err ''test runner not installed'', None)
           | Some info \<Rightarrow> (case xc_connect E (se_port stdio) (se_port tm) of
               Inl e \<Rightarrow> (Err e, None)
             | Inr (uuid, w) \<Rightarrow> (case xc_setup bin parse E (se_port app) (runner_path_of info) cfg uuid w of
                 (Ok _, w') \<Rightarrow> (Ok True, Some (w'\<lparr>xw_log := xc_wait_loop polls (xw_log w') @ concat leftover\<rparr>))
               | (Err e, w') \<Rightarrow> (Err e, Some w')
               | (Panic, w') \<Rightarrow> (Panic, Some w')))))))"

section \<open>What the handlers do over a run\<close>

text \<open>
  The reference looks at the history only: \<open>over_history f es\<close> is \<open>f\<close> at every event, given the
  events before it.
\<close>

definition over_history :: "('e list \<Rightarrow> 'e \<Rightarrow> 'b) \<Rightarrow> 'e list \<Rightarrow> 'b list" where
  "over_history f es = map (\<lambda>i. f (take i es) (es ! i)) [0..<length es]"

lemma over_history_simps [simp]:
  "over_history f [] = []" "over_history f (es @ [e]) = over_history f es @ [f es e]"
  by (simp_all add: over_history_def nth_append)

fun test_message :: "(dtx_message \<Rightarrow> bool) \<Rightarrow> xc_event \<Rightarrow> bool" where
  "test_message P (OnTest m) = P m" | "test_message P (OnChan0 m) = False"

text \<open>The plan has not ended; a test case has finished; the message is none of the special ones.\<close>

definition plan_open :: "xc_event list \<Rightarrow> bool" where
  "plan_open h \<longleftrightarrow> \<not> list_ex (test_message (\<lambda>m. plan_finished m \<and> \<not> runner_ready m)) h"

definition case_seen :: "xc_event list \<Rightarrow> bool" where
  "case_seen h \<longleftrightarrow> list_ex (test_message (\<lambda>m. case_finished m \<and> \<not> runner_ready m)) h"

definition plain_message :: "xc_event list \<Rightarrow> dtx_message \<Rightarrow> bool" where
  "plain_message h m \<longleftrightarrow> \<not> runner_ready m \<and> \<not> plan_finished m \<and> \<not> case_finished m \<and> \<not> (case_seen h \<and> suite_finished m)"

definition driver_after :: "(bytes \<Rightarrow> pvalue option) \<Rightarrow> xc_event list \<Rightarrow> u32 \<Rightarrow> u32" where
  "driver_after parse es d = fold (\<lambda>e d. case e of OnTest m \<Rightarrow> d
     | OnChan0 m \<Rightarrow> (case driver_code parse m of Some code \<Rightarrow> - code | None \<Rightarrow> d)) es d"

text \<open>A request to start the plan, and whether there was one before.\<close>

definition wants_start :: "(bytes \<Rightarrow> pvalue option) \<Rightarrow> xc_event list \<Rightarrow> xc_event \<Rightarrow> bool" where
  "wants_start parse h e \<longleftrightarrow> plan_open h \<and> test_message (\<lambda>m. plain_message h m \<and> asks_start parse m) e"

definition wanted_start :: "(bytes \<Rightarrow> pvalue option) \<Rightarrow> xc_event list \<Rightarrow> bool" where
  "wanted_start parse h \<longleftrightarrow> True \<in> set (over_history (wants_start parse) h)"

fun answer_to :: "(bytes \<Rightarrow> pvalue option) \<Rightarrow> bytes \<Rightarrow> xc_event list \<Rightarrow> xc_event \<Rightarrow> xc_action list" where
  "answer_to parse cfg h (OnChan0 m) = []"
| "answer_to parse cfg h (OnTest m) =
    (if \<not> plan_open h then []
     else if runner_ready m then [DoReply m cfg]
     else (if dm_expects_reply m then [DoAck m] else []) @
       (if wants_start parse h (OnTest m) \<and> \<not> wanted_start parse h then [DoStart (driver_after parse h (- 1))] else []))"

text \<open>The end of the plan, or of any suite once a test case has finished.\<close>

definition signals_end :: "xc_event list \<Rightarrow> xc_event \<Rightarrow> bool" where
  "signals_end h e \<longleftrightarrow> plan_open h \<and> test_message (\<lambda>m. \<not> runner_ready m \<and>
     (plan_finished m \<or> case_seen h \<and> suite_finished m \<and> \<not> case_finished m)) e"

fun is_start :: "xc_action \<Rightarrow> bool" where
  "is_start (DoStart ch) = True" | "is_start _ = False"

lemma driver_after_snoc [simp]:
  "driver_after parse (es @ [OnTest m]) d = driver_after parse es d"
  "driver_after parse (es @ [OnChan0 m]) d =
    (case driver_code parse m of Some code \<Rightarrow> - code | None \<Rightarrow> driver_after parse es d)"
  by (simp_all add: driver_after_def split: option.splits)

lemma history_snoc [simp]:
  "plan_open (h @ [e]) \<longleftrightarrow> plan_open h \<and> \<not> test_message (\<lambda>m. plan_finished m \<and> \<not> runner_ready m) e"
  "case_seen (h @ [e]) \<longleftrightarrow> case_seen h \<or> test_message (\<lambda>m. case_finished m \<and> \<not> runner_ready m) e"
  "wanted_start parse (h @ [e]) \<longleftrightarrow> wanted_start parse h \<or> wants_start parse h e"
  by (auto simp: plan_open_def case_seen_def wanted_start_def)

lemma history_Nil [simp]: "plan_open []" "\<not> case_seen []" "\<not> wanted_start parse []" "driver_after parse [] d = d"
  by (simp_all add: plan_open_def case_seen_def wanted_start_def driver_after_def)

lemma events_snoc:
  "xc_run_events bin parse cfg (es @ [e]) s = (case xc_run_events bin parse cfg es s of
     (acts, s1) \<Rightarrow> (case xc_step bin parse cfg e s1 of (acts', s2) \<Rightarrow> (acts @ acts', s2)))"
  by (induction es arbitrary: s) (auto split: prod.splits)

text \<open>What the handler knows after a history: its flags say what the history says.\<close>

definition knows :: "(bytes \<Rightarrow> pvalue option) \<Rightarrow> xc_event list \<Rightarrow> xc_ide \<Rightarrow> bool" where
  "knows parse h s \<longleftrightarrow> (xi_running s \<longleftrightarrow> plan_open h) \<and> xi_driver s = driver_after parse h (- 1) \<and>
     (plan_open h \<longrightarrow> (xi_test_case_finished s \<longleftrightarrow> case_seen h) \<and> (xi_plan_started s \<longleftrightarrow> wanted_start parse h))"

lemma step_answers:
  assumes "knows parse h s" and "xc_step bin parse cfg e s = (acts, s')"
  shows "acts = answer_to parse cfg h e" and "knows parse (h @ [e]) s'"
    and "xi_done s' \<longleftrightarrow> xi_done s \<or> signals_end h e"
    and "xi_conn s' = fold (perform bin) acts (xi_conn s)"
proof -
  have "acts = answer_to parse cfg h e \<and> knows parse (h @ [e]) s' \<and> (xi_done s' \<longleftrightarrow> xi_done s \<or> signals_end h e) \<and>
    xi_conn s' = fold (perform bin) acts (xi_conn s)"
  proof (cases e)
    case (OnChan0 m)
    then show ?thesis using assms
      by (auto simp: knows_def chan0_message_def signals_end_def wants_start_def split: option.splits)
  next
    case (OnTest m)
    obtain s1 where s1: "ide_message parse cfg m s = (acts, s1)" "s' = s1\<lparr>xi_conn := fold (perform bin) acts (xi_conn s)\<rparr>"
      using assms(2) OnTest by (auto split: prod.splits)
    show ?thesis using assms(1) s1 unfolding OnTest
      by (auto simp: knows_def ide_message_def ack_if_def signals_end_def wants_start_def plain_message_def split: if_splits)
  qed
  then show "acts = answer_to parse cfg h e" "knows parse (h @ [e]) s'" "xi_done s' \<longleftrightarrow> xi_done s \<or> signals_end h e"
    "xi_conn s' = fold (perform bin) acts (xi_conn s)" by simp_all
qed

lemma events_answers:
  "xc_run_events bin parse cfg es (ide_start c) = (acts, s) \<Longrightarrow>
    acts = concat (over_history (answer_to parse cfg) es) \<and> knows parse es s \<and>
    (xi_done s \<longleftrightarrow> True \<in> set (over_history signals_end es)) \<and> xi_conn s = fold (perform bin) acts c"
proof (induction es arbitrary: acts s rule: rev_induct)
  case Nil
  then show ?case by (auto simp: ide_start_def knows_def)
next
  case (snoc e es)
  obtain a1 s1 a2 where 1: "xc_run_events bin parse cfg es (ide_start c) = (a1, s1)" "xc_step bin parse cfg e s1 = (a2, s)" "acts = a1 @ a2"
    using snoc.prems by (auto simp: events_snoc split: prod.splits)
  note IH = snoc.IH [OF 1(1)]
  then have "knows parse es s1" by simp
  note st = step_answers [OF this 1(2)]
  show ?case using IH st 1(3) by (cases "signals_end es e") simp_all
qed

text \<open>The plan is started once when it is asked for, and not at all otherwise.\<close>

lemma starts_once:
  "length (filter is_start (concat (over_history (answer_to parse cfg) es))) = (if wanted_start parse es then 1 else 0)"
proof (induction es rule: rev_induct)
  case (snoc e es)
  have "length (filter is_start (answer_to parse cfg es e)) = (if wants_start parse es e \<and> \<not> wanted_start parse es then 1 else 0)"
    by (cases e) (auto simp: wants_start_def plain_message_def)
  with snoc show ?case by (auto split: if_splits)
qed simp

text \<open>What the actions put on the wire; \<open>i\<close> is the next message id.\<close>

fun act_bytes :: "(pvalue \<Rightarrow> bytes) \<Rightarrow> u32 \<Rightarrow> xc_action \<Rightarrow> bytes" where
  "act_bytes bin i (DoReply m payload) = encode_reply m payload"
| "act_bytes bin i (DoAck m) = encode_ack m"
| "act_bytes bin i (DoStart ch) =
    encode_call bin i 0 ch False ''_IDE_startExecutingTestPlanWithProtocolVersion:'' [ABytes (archive_u64 bin 36)]"

lemma perform_wire:
  assumes "room (dx_sock c) = None"
  shows "outp (dx_sock (perform bin a c)) = outp (dx_sock c) @ act_bytes bin (dx_next_id c) a"
    and "room (dx_sock (perform bin a c)) = None"
    and "\<not> is_start a \<Longrightarrow> dx_next_id (perform bin a c) = dx_next_id c"
  using assms by (cases a; simp add: dtx_reply_def dtx_ack_def call_async_def dtx_alloc_id_def write_bytes_def on_err_def)+

lemma act_bytes_id: "\<not> is_start a \<Longrightarrow> act_bytes bin i a = act_bytes bin j a"
  by (cases a) simp_all

lemma actions_wire:
  assumes "room (dx_sock c) = None" and "length (filter is_start acts) \<le> 1"
  shows "outp (dx_sock (fold (perform bin) acts c)) = outp (dx_sock c) @ concat (map (act_bytes bin (dx_next_id c)) acts)"
  using assms
proof (induction acts arbitrary: c)
  case (Cons a acts)
  note p = perform_wire [OF Cons.prems(1), where bin = bin and a = a]
  have m: "map (act_bytes bin (dx_next_id (perform bin a c))) acts = map (act_bytes bin (dx_next_id c)) acts"
  proof (cases "is_start a")
    case True
    then have "\<not> is_start x" if "x \<in> set acts" for x using Cons.prems(2) that by (simp add: filter_empty_conv)
    then show ?thesis by (intro map_cong refl act_bytes_id)
  qed (simp add: p(3))
  have l: "length (filter is_start acts) \<le> 1" using Cons.prems(2) by (auto split: if_splits)
  show ?case by (simp only: fold_simps(2) list.map concat.simps append_assoc p(1) Cons.IH [OF p(2) l] m)
qed simp

section \<open>Properties\<close>

text \<open>
  C11: The conversation with the test runner, for any interleaving of the messages of its two
  channels. Each message is answered, in order and on the wire, as its history says: the readiness
  message, each time it comes, with the test configuration; every other message of the test channel
  that expects a reply with one acknowledgement; the first of them that asks for the start of the
  plan also with the start, on the channel the runner offered last before it asked, or -1 when it had
  not; and no message after the end of the plan with anything. The end is signalled exactly when the
  plan ended or any suite, not only the outermost one, ended after a test case.
\<close>

theorem ide_conversation:
  assumes "xc_run_events bin parse cfg es (ide_start c) = (acts, s)" and "room (dx_sock c) = None"
  shows "acts = concat (over_history (answer_to parse cfg) es) \<and>
    (xi_done s \<longleftrightarrow> True \<in> set (over_history signals_end es)) \<and>
    length (filter is_start acts) = (if wanted_start parse es then 1 else 0) \<and>
    outp (dx_sock (xi_conn s)) = outp (dx_sock c) @ concat (map (act_bytes bin (dx_next_id c)) acts)"
proof -
  note e = events_answers [OF assms(1)]
  then have n: "length (filter is_start acts) = (if wanted_start parse es then 1 else 0)"
    using starts_once [of parse cfg es] by simp
  then have "outp (dx_sock (xi_conn s)) = outp (dx_sock c) @ concat (map (act_bytes bin (dx_next_id c)) acts)"
    using actions_wire [OF assms(2), of acts bin] e by simp
  with e n show ?thesis by simp
qed

definition demo_runner_ready :: dtx_message where
  "demo_runner_ready = \<lparr>dm_msg_id = 9, dm_conv_id = 0, dm_channel = 1, dm_expects_reply = True, dm_msg_type = 2, dm_aux = [],
     dm_payload = Some (keyed_archive [PString ''$null'', PString ''_XCT_testRunnerReadyWithCapabilities:''] 1)\<rparr>"

lemma demo_runner_ready: "runner_ready demo_runner_ready"
  by code_simp

definition demo_call :: "string \<Rightarrow> dtx_message" where
  "demo_call sel = demo_runner_ready\<lparr>dm_payload := Some (keyed_archive [PString ''$null'', PString sel] 1)\<rparr>"

theorem ide_conversation_witness:
  "fst (xc_run_events pv_enc pv_parse [7]
      [OnTest demo_runner_ready, OnTest (demo_call ''x''), OnTest (demo_call ''_XCT_didFinishExecutingTestPlan''), OnTest (demo_call ''x'')]
      (ide_start (dtx_new (demo_sock [])))) =
    [DoReply demo_runner_ready [7], DoAck (demo_call ''x''), DoAck (demo_call ''_XCT_didFinishExecutingTestPlan'')]"
proof -
  let ?es = "[OnTest demo_runner_ready, OnTest (demo_call ''x''), OnTest (demo_call ''_XCT_didFinishExecutingTestPlan''), OnTest (demo_call ''x'')]"
  have "room (dx_sock (dtx_new (demo_sock []))) = None" by (simp add: dtx_new_def Dtx.demo_sock_def)
  from ide_conversation [OF surjective_pairing this]
  have "fst (xc_run_events pv_enc pv_parse [7] ?es (ide_start (dtx_new (demo_sock [])))) =
    concat (over_history (answer_to pv_parse [7]) ?es)" by blast
  moreover have "concat (over_history (answer_to pv_parse [7]) ?es) =
    [DoReply demo_runner_ready [7], DoAck (demo_call ''x''), DoAck (demo_call ''_XCT_didFinishExecutingTestPlan'')]"
    by code_simp
  ultimately show ?thesis by simp
qed

text \<open>
  Only the selector of the message decides: a suite inside the test bundle that ends after its first
  test case, with more cases and suites to come, signals the end like the outermost one.
\<close>

theorem inner_suite_signals_end:
  assumes "case_finished m1" and "suite_finished m2"
    and "\<not> runner_ready m1" and "\<not> plan_finished m1" and "\<not> runner_ready m2" and "\<not> plan_finished m2" and "\<not> case_finished m2"
  shows "xi_done (snd (xc_run_events bin parse cfg [OnTest m1, OnTest m2] (ide_start c)))"
  using assms by (simp add: ide_message_def ide_start_def)

text \<open>
  A run that gets through its set-up always reports success: whatever the tests do, whether the
  plan ends, the runner dies or the deadline passes, the result is not failure. A service or test
  runner that is missing is named before any connection is made.
\<close>

theorem run_never_reports_failure:
  "fst (xc_run bin parse E rsd apps cfg polls leftover) \<noteq> Ok False \<and>
   (rsd_service rsd ''com.apple.dt.testmanagerd.remote'' = None \<longrightarrow>
     xc_run bin parse E rsd apps cfg polls leftover = (Err ''testmanagerd.remote not in RSD catalog'', None)) \<and>
   (list_all (\<lambda>s. rsd_service rsd s \<noteq> None) [''com.apple.dt.testmanagerd.remote'', ''com.apple.coredevice.appservice'',
      ''com.apple.coredevice.openstdiosocket''] \<and> map_of apps (rc_test_runner_bundle_id cfg) = None \<longrightarrow>
     xc_run bin parse E rsd apps cfg polls leftover = (Err ''test runner not installed'', None))"
  by (auto simp: xc_run_def split: option.splits sum.splits prod.splits outcome.splits)

end
