(* ===== verification/Mounter.thy ===== *)
theory Mounter
  imports PlistSvc
begin

text \<open>
  Mounting the developer disk image, \<open>src/src/bin/ios/cmd/mounter.rs\<close>: the cache of the three image
  files, the personalisation request to the signing server, and the exchange with the image mounter
  of the device, which may drop the connection and be connected again. The file system is a record
  whose writes may fail half-way; the SHA-384 function, the signing server and the downloads are
  parameters. Error texts that quote another error are cut.
\<close>

section \<open>Helpers\<close>

definition send_plist_m :: "(pvalue \<Rightarrow> bytes) \<Rightarrow> pvalue \<Rightarrow> (sock, string, unit) prog" where
  "send_plist_m xml v = on_err (\<lambda>_. ''send_plist'') (send_plist xml v)"

definition implausible :: "nat \<Rightarrow> bool" where
  "implausible n \<longleftrightarrow> n = 0 \<or> n > 64 * 1024 * 1024"

text \<open>
  The standard library's \<open>read_exact\<close> goes on after an interrupted read: the scripts of this theory
  stand for the reads without the interrupted ones.
\<close>

definition recv_plist_m :: "(bytes \<Rightarrow> pvalue option) \<Rightarrow> (sock, string, pvalue) prog" where
  "recv_plist_m parse = recv_plist_lim implausible (\<lambda>n. ''recv_plist: implausible length '' @ show_nat n) (\<lambda>_. ''recv_plist'') parse"

definition resp_image_present :: "pvalue \<Rightarrow> bool" where
  "resp_image_present resp =
    (case Option.bind (Option.bind (as_dictionary resp) (\<lambda>d. dget d ''ImagePresent'')) as_boolean of Some b \<Rightarrow> b | None \<Rightarrow> False)"

definition status_of :: "pvalue \<Rightarrow> string" where
  "status_of resp = (case Option.bind (Option.bind (as_dictionary resp) (\<lambda>d. dget d ''Status'')) as_string of Some s \<Rightarrow> s | None \<Rightarrow> [])"

definition int_from_plist :: "pdictionary \<Rightarrow> string \<Rightarrow> (string, u64) outcome" where
  "int_from_plist d key = ok_or (Option.bind (dget d key) as_unsigned_integer) (''missing or non-integer key '' @ key)"

fun parse_hex_digits :: "nat \<Rightarrow> string \<Rightarrow> nat option" where
  "parse_hex_digits acc [] = Some acc"
| "parse_hex_digits acc (c # cs) = (case hex_digit c of None \<Rightarrow> None | Some d \<Rightarrow> parse_hex_digits (acc * 16 + d) cs)"

text \<open>\<open>u64::from_str_radix(s, 16)\<close>.\<close>

definition parse_hex_u64 :: "string \<Rightarrow> u64 option" where
  "parse_hex_u64 s = (let body = (case s of c # cs \<Rightarrow> if c = CHR ''+'' then cs else s | [] \<Rightarrow> s) in
     if body = [] then None
     else case parse_hex_digits 0 body of None \<Rightarrow> None | Some n \<Rightarrow> if n < 2 ^ 64 then Some (word_of_nat n) else None)"

definition parse_hex_or_dec :: "string \<Rightarrow> u64 option" where
  "parse_hex_or_dec s = (let t = trim s in
     if take 2 t = ''0x'' \<or> take 2 t = ''0X'' then parse_hex_u64 (drop 2 t) else parse_u64 t)"

section \<open>The files\<close>

record ddi_fs =
  fs_dir_ok :: bool
  fs_files :: "string \<rightharpoonup> bytes"
  fs_faults :: "nat option list"

type_synonym 'a fsp = "(ddi_fs, string, 'a) prog"

text \<open>\<open>std::fs::write\<close>: the file is created empty and filled; a failure leaves what was written.\<close>

definition fs_write :: "string \<Rightarrow> bytes \<Rightarrow> unit fsp" where
  "fs_write path bs f = (case fs_faults f of
     Some n # r \<Rightarrow> (Err ''write'', f\<lparr>fs_files := (fs_files f)(path \<mapsto> take n bs), fs_faults := r\<rparr>)
   | None # r \<Rightarrow> (Ok (), f\<lparr>fs_files := (fs_files f)(path \<mapsto> bs), fs_faults := r\<rparr>)
   | [] \<Rightarrow> (Ok (), f\<lparr>fs_files := (fs_files f)(path \<mapsto> bs)\<rparr>))"

abbreviation "IMG \<equiv> ''Image.dmg''"
abbreviation "MFST \<equiv> ''BuildManifest.plist''"
abbreviation "TC \<equiv> ''Image.dmg.trustcache''"

definition DDI_IMAGE :: string where "DDI_IMAGE = ''PersonalizedImages/Xcode_iOS_DDI_Personalized/Image.dmg''"
definition DDI_MANIFEST :: string where "DDI_MANIFEST = ''PersonalizedImages/Xcode_iOS_DDI_Personalized/BuildManifest.plist''"
definition DDI_TRUSTCACHE :: string where "DDI_TRUSTCACHE = ''PersonalizedImages/Xcode_iOS_DDI_Personalized/Image.dmg.trustcache''"

type_synonym ddi_files = "bytes \<times> bytes \<times> bytes"

definition manifest_path :: "pdictionary \<Rightarrow> string \<Rightarrow> string option" where
  "manifest_path entries name = Option.bind (Option.bind (dget entries name) as_dictionary) (\<lambda>d.
     Option.bind (Option.bind (dget d ''Info'') as_dictionary) (\<lambda>d. Option.bind (dget d ''Path'') as_string))"

text \<open>\<open>restore\<close> is the directory of the attached image; \<open>None\<close> when attaching it failed.\<close>

definition extract_from_core_device_ddi :: "(bytes \<Rightarrow> pvalue option) \<Rightarrow> (string \<rightharpoonup> bytes) option \<Rightarrow> (string, ddi_files) outcome" where
  "extract_from_core_device_ddi parse restore =
    obind (ok_or restore ''hdiutil attach failed'') (\<lambda>r.
    obind (ok_or (r MFST) ''read BuildManifest.plist'') (\<lambda>mb.
    obind (ok_or (parse mb) ''parse BuildManifest.plist'') (\<lambda>m.
    obind (ok_or (Option.bind (Option.bind (Option.bind (as_dictionary m) (\<lambda>d. dget d ''BuildIdentities'')) as_array)
      (\<lambda>a. case a of [] \<Rightarrow> None | i # _ \<Rightarrow> Some i)) ''no BuildIdentities'') (\<lambda>identity.
    obind (ok_or (Option.bind (Option.bind (as_dictionary identity) (\<lambda>d. dget d ''Manifest'')) as_dictionary)
      ''no Manifest in BuildIdentity'') (\<lambda>entries.
    obind (ok_or (manifest_path entries ''PersonalizedDMG'') ''no PersonalizedDMG/Info/Path'') (\<lambda>img_rel.
    obind (ok_or (manifest_path entries ''LoadableTrustCache'') ''no LoadableTrustCache/Info/Path'') (\<lambda>tc_rel.
    obind (ok_or (r img_rel) ''read PersonalizedDMG'') (\<lambda>img.
    obind (ok_or (r tc_rel) ''read trustcache'') (\<lambda>tc. Ok (img, mb, tc))))))))))"

text \<open>
  \<open>core\<close> is the local image of the development tools, if it is installed, as its extraction
  comes out; \<open>download path\<close> is the content of a file of the repository.
\<close>

definition save_ddi :: "bytes \<Rightarrow> bytes \<Rightarrow> bytes \<Rightarrow> ddi_files fsp" where
  "save_ddi img mfst tc =
    bnd (fs_write IMG img) (\<lambda>_. bnd (fs_write MFST mfst) (\<lambda>_. bnd (fs_write TC tc) (\<lambda>_. ret (img, mfst, tc))))"

definition download_ddi :: "(string \<Rightarrow> bytes option) \<Rightarrow> ddi_files fsp" where
  "download_ddi download =
    bnd (lift_o (ok_or (download DDI_MANIFEST) ''download BuildManifest.plist'')) (\<lambda>mfst.
    bnd (fs_write MFST mfst) (\<lambda>_.
    bnd (lift_o (ok_or (download DDI_IMAGE) ''download Image.dmg'')) (\<lambda>img.
    bnd (fs_write IMG img) (\<lambda>_.
    bnd (lift_o (ok_or (download DDI_TRUSTCACHE) ''download Image.dmg.trustcache'')) (\<lambda>tc.
    bnd (fs_write TC tc) (\<lambda>_. ret (img, mfst, tc)))))))"

definition fetch_ddi_files :: "(string, ddi_files) outcome option \<Rightarrow> (string \<Rightarrow> bytes option) \<Rightarrow> ddi_files fsp" where
  "fetch_ddi_files core download f =
    (if \<not> fs_dir_ok f then (Err ''create_dir_all'', f)
     else case (fs_files f IMG, fs_files f MFST, fs_files f TC) of
       (Some img, Some mfst, Some tc) \<Rightarrow> (Ok (img, mfst, tc), f)
     | _ \<Rightarrow> (case core of
         Some (Ok (img, mfst, tc)) \<Rightarrow> save_ddi img mfst tc f
       | _ \<Rightarrow> download_ddi download f))"

section \<open>The signing request\<close>

definition cond_met :: "string \<Rightarrow> pvalue \<Rightarrow> bool" where
  "cond_met k v = (if k \<in> {''ApRawProductionMode'', ''ApCurrentProductionMode'', ''ApRawSecurityMode'', ''ApRequiresImage4''}
     then as_boolean v = Some True else True)"

definition rule_met :: "pdictionary \<Rightarrow> bool" where
  "rule_met rule = (case Option.bind (dget rule ''Conditions'') as_dictionary of
     Some conds \<Rightarrow> list_all (\<lambda>(k, v). cond_met k v) conds | None \<Rightarrow> True)"

definition insert_all :: "pdictionary \<Rightarrow> pdictionary \<Rightarrow> pdictionary" where
  "insert_all kvs e = fold (\<lambda>(k, v). ainsert k v) kvs e"

fun apply_actions :: "pvalue list \<Rightarrow> pdictionary \<Rightarrow> pdictionary" where
  "apply_actions [] e = e"
| "apply_actions (a # as) e = apply_actions as (case as_dictionary a of Some d \<Rightarrow> insert_all d e | None \<Rightarrow> e)"

fun apply_restore_request_rules :: "pvalue list \<Rightarrow> pdictionary \<Rightarrow> pdictionary" where
  "apply_restore_request_rules [] e = e"
| "apply_restore_request_rules (r # rs) e = apply_restore_request_rules rs
    (case as_dictionary r of
       None \<Rightarrow> e
     | Some rule \<Rightarrow> if rule_met rule
         then (case Option.bind (dget rule ''Actions'') as_array of Some as \<Rightarrow> apply_actions as e | None \<Rightarrow> e) else e)"

definition identity_matches :: "u64 \<Rightarrow> u64 \<Rightarrow> pvalue \<Rightarrow> bool" where
  "identity_matches board_id chip_id v =
    (let num = (\<lambda>k. Option.bind (Option.bind (Option.bind (as_dictionary v) (\<lambda>d. dget d k)) as_string) parse_hex_or_dec)
     in num ''ApBoardID'' = Some board_id \<and> num ''ApChipID'' = Some chip_id)"

definition hex_up :: "nat \<Rightarrow> nat \<Rightarrow> string" where
  "hex_up width n = map (\<lambda>i. hex_char_up (n div 16 ^ (width - 1 - i) mod 16)) [0..<width]"

definition tss_uuid :: "u64 \<Rightarrow> u64 \<Rightarrow> string" where
  "tss_uuid ecid chip_id =
    (let b = map (\<lambda>i. ucast (drop_bit (i mod 8) ecid XOR drop_bit (i mod 4) chip_id) :: byte) [0..<16];
         le = (\<lambda>xs. foldr (\<lambda>x acc. unat x + 256 * acc) xs 0)
     in hex_up 8 (le (take 4 b)) @ ''-'' @ hex_up 4 (le (take 2 (drop 4 b))) @ ''-'' @ hex_up 4 (le (take 2 (drop 6 b))) @ ''-'' @
        hex_up 4 (le (take 2 (drop 8 b))) @ ''-'' @ hex_up 12 (le (take 6 (drop 10 b))))"

text \<open>\<open>n as i64\<close> of an unsigned number.\<close>

definition as_i64 :: "u64 \<Rightarrow> pvalue" where
  "as_i64 n = PInteger (sint n)"

definition tss_base :: "u64 \<Rightarrow> u64 \<Rightarrow> u64 \<Rightarrow> bytes \<Rightarrow> pdictionary" where
  "tss_base board_id chip_id ecid nonce = insert_all
    [(''@HostPlatformInfo'', PString ''mac''), (''@VersionInfo'', PString ''libauthinstall-1104.0.9''),
     (''@UUID'', PString (tss_uuid ecid chip_id)), (''@ApImg4Ticket'', PBoolean True), (''@BBTicket'', PBoolean True),
     (''ApBoardID'', as_i64 board_id), (''ApChipID'', as_i64 chip_id), (''ApECID'', as_i64 ecid),
     (''ApNonce'', PData nonce), (''ApSecurityDomain'', PInteger 1), (''ApProductionMode'', PBoolean True),
     (''ApSecurityMode'', PBoolean True), (''SepNonce'', PData (replicate 20 0)), (''UID_MODE'', PBoolean False)] []"

definition forward_ids :: "pdictionary \<Rightarrow> pdictionary \<Rightarrow> pdictionary" where
  "forward_ids ids = insert_all (filter (\<lambda>kv. take 3 (fst kv) = ''Ap,'') ids)"

text \<open>The entry of one trusted component.\<close>

definition tss_entry :: "pdictionary \<Rightarrow> pdictionary" where
  "tss_entry entry =
    (let e = (case dget entry ''Digest'' of Some dg \<Rightarrow> [(''Digest'', dg)] | None \<Rightarrow> []);
         e = ainsert ''Trusted'' (PBoolean True) e
     in case Option.bind (Option.bind (Option.bind (dget entry ''Info'') as_dictionary) (\<lambda>d. dget d ''RestoreRequestRules'')) as_array of
          Some rules \<Rightarrow> apply_restore_request_rules rules e | None \<Rightarrow> e)"

definition component_entry :: "string \<times> pvalue \<Rightarrow> (string \<times> pvalue) option" where
  "component_entry cv =
    (if fst cv = ''Info'' then None
     else case as_dictionary (snd cv) of
       None \<Rightarrow> None
     | Some entry \<Rightarrow>
         if Option.bind (dget entry ''Trusted'') as_boolean = Some True
         then Some (fst cv, PDictionary (tss_entry entry)) else None)"

definition tss_components :: "pdictionary \<Rightarrow> pdictionary \<Rightarrow> pdictionary" where
  "tss_components entries = insert_all (List.map_filter component_entry entries)"

text \<open>The request is for the first identity of the manifest that fits the board and the chip.\<close>

definition tss_request_plist :: "(bytes \<Rightarrow> pvalue option) \<Rightarrow> bytes \<Rightarrow> u64 \<Rightarrow> u64 \<Rightarrow> u64 \<Rightarrow> bytes \<Rightarrow> pdictionary \<Rightarrow> (string, pvalue) outcome" where
  "tss_request_plist parse manifest board_id chip_id ecid nonce ids =
    obind (ok_or (parse manifest) ''parse BuildManifest.plist'') (\<lambda>m.
    obind (ok_or (Option.bind (Option.bind (as_dictionary m) (\<lambda>d. dget d ''BuildIdentities'')) as_array) ''no BuildIdentities in manifest'') (\<lambda>is.
    obind (ok_or (List.find (identity_matches board_id chip_id) is) ''no BuildIdentity'') (\<lambda>identity.
    obind (ok_or (Option.bind (Option.bind (as_dictionary identity) (\<lambda>d. dget d ''Manifest'')) as_dictionary) ''no Manifest in BuildIdentity'') (\<lambda>entries.
      Ok (PDictionary (tss_components entries (forward_ids ids (tss_base board_id chip_id ecid nonce))))))))"

definition find_sub :: "string \<Rightarrow> string \<Rightarrow> nat option" where
  "find_sub p s = List.find (\<lambda>i. take (length p) (drop i s) = p) [0..<Suc (length s)]"

text \<open>\<open>s.split(p).nth(1)\<close>.\<close>

definition second_part :: "string \<Rightarrow> string \<Rightarrow> string option" where
  "second_part p s = map_option (\<lambda>i. let r = drop (i + length p) s in case find_sub p r of None \<Rightarrow> r | Some j \<Rightarrow> take j r) (find_sub p s)"

definition tss_ticket :: "(bytes \<Rightarrow> pvalue option) \<Rightarrow> string \<Rightarrow> (string, bytes) outcome" where
  "tss_ticket parse body =
    obind (ok_or (second_part ''REQUEST_STRING='' body) ''TSS response missing REQUEST_STRING'') (\<lambda>s.
    obind (ok_or (parse (bytes_of s)) ''parse TSS response plist'') (\<lambda>v.
      ok_or (Option.bind (Option.bind (as_dictionary v) (\<lambda>d. dget d ''ApImg4Ticket'')) as_data) ''no ApImg4Ticket in TSS response''))"

definition tss_request :: "(pvalue \<Rightarrow> bytes) \<Rightarrow> (bytes \<Rightarrow> pvalue option) \<Rightarrow> (bytes \<Rightarrow> string option) \<Rightarrow>
    bytes \<Rightarrow> u64 \<Rightarrow> u64 \<Rightarrow> u64 \<Rightarrow> bytes \<Rightarrow> pdictionary \<Rightarrow> (string, bytes) outcome" where
  "tss_request xml parse post manifest board_id chip_id ecid nonce ids =
    obind (tss_request_plist parse manifest board_id chip_id ecid nonce ids) (\<lambda>req.
    obind (ok_or (post (xml req)) ''TSS POST'') (\<lambda>body. tss_ticket parse body))"

section \<open>Mounting\<close>

text \<open>
  The device seen by the command: the connections that will be made to the mounter, in order, the
  ones made so far (the last is in use), and the lockdown session.
\<close>

record mt_world =
  mw_offers :: "(string + sock) list"
  mw_conns :: "sock list"
  mw_ls :: lockdown_session

type_synonym 'a mt = "(mt_world, string, 'a) prog"

definition mt_connect :: "string \<Rightarrow> unit mt" where
  "mt_connect what w = (case mw_offers w of
     Inr s # r \<Rightarrow> (Ok (), w\<lparr>mw_offers := r, mw_conns := mw_conns w @ [s]\<rparr>)
   | Inl _ # r \<Rightarrow> (Err what, w\<lparr>mw_offers := r\<rparr>)
   | [] \<Rightarrow> (Err what, w))"

definition on_cur :: "(sock, string, 'a) prog \<Rightarrow> 'a mt" where
  "on_cur m w = (case m (last (mw_conns w)) of (r, s) \<Rightarrow> (r, w\<lparr>mw_conns := butlast (mw_conns w) @ [s]\<rparr>))"

definition on_lockdown :: "string \<Rightarrow> 'a ls \<Rightarrow> 'a mt" where
  "on_lockdown what m w = (case m (mw_ls w) of
     (Ok x, c) \<Rightarrow> (Ok x, w\<lparr>mw_ls := c\<rparr>) | (Err _, c) \<Rightarrow> (Err what, w\<lparr>mw_ls := c\<rparr>) | (Panic, c) \<Rightarrow> (Panic, w\<lparr>mw_ls := c\<rparr>))"

definition exchange :: "(pvalue \<Rightarrow> bytes) \<Rightarrow> (bytes \<Rightarrow> pvalue option) \<Rightarrow> pvalue \<Rightarrow> (pvalue \<Rightarrow> (string, 'a) outcome) \<Rightarrow> (sock, string, 'a) prog" where
  "exchange xml parse = ask (send_plist_m xml) (recv_plist_m parse)"

definition lookup_request :: "string \<Rightarrow> pvalue" where
  "lookup_request img_type = pdict [(''Command'', PString ''LookupImage''), (''ImageType'', PString img_type)]"

definition manifest_request :: "bytes \<Rightarrow> pvalue" where
  "manifest_request sha = pdict [(''Command'', PString ''QueryPersonalizationManifest''),
     (''PersonalizedImageType'', PString ''DeveloperDiskImage''), (''ImageType'', PString ''DeveloperDiskImage''), (''ImageSignature'', PData sha)]"

definition identifiers_request :: pvalue where
  "identifiers_request = pdict [(''Command'', PString ''QueryPersonalizationIdentifiers''), (''PersonalizedImageType'', PString ''DeveloperDiskImage'')]"

definition nonce_request :: pvalue where
  "nonce_request = pdict [(''Command'', PString ''QueryNonce''), (''PersonalizedImageType'', PString ''DeveloperDiskImage'')]"

definition receive_request :: "nat \<Rightarrow> bytes \<Rightarrow> pvalue" where
  "receive_request sz im4m = pdict [(''Command'', PString ''ReceiveBytes''), (''ImageType'', PString ''Personalized''),
     (''ImageSize'', PInteger (sint (word_of_nat sz :: u64))), (''ImageSignature'', PData im4m)]"

definition mount_request :: "bytes \<Rightarrow> bytes \<Rightarrow> pvalue" where
  "mount_request im4m tc = pdict [(''Command'', PString ''MountImage''), (''ImageType'', PString ''Personalized''),
     (''ImageSignature'', PData im4m), (''ImageTrustCache'', PData tc)]"

definition identifiers_of :: "pvalue \<Rightarrow> (string, pdictionary) outcome" where
  "identifiers_of resp = ok_or (Option.bind (Option.bind (as_dictionary resp) (\<lambda>d. dget d ''PersonalizationIdentifiers'')) as_dictionary)
     ''no PersonalizationIdentifiers in response''"

definition mt_nonce_of :: "pvalue \<Rightarrow> (string, bytes) outcome" where
  "mt_nonce_of resp = ok_or (Option.bind (Option.bind (as_dictionary resp) (\<lambda>d. dget d ''PersonalizationNonce'')) as_data) ''no PersonalizationNonce''"

definition tss_flow :: "(pvalue \<Rightarrow> bytes) \<Rightarrow> (bytes \<Rightarrow> pvalue option) \<Rightarrow> (bytes \<Rightarrow> string option) \<Rightarrow> bytes \<Rightarrow> bytes mt" where
  "tss_flow xml parse post manifest =
    bnd (on_cur (exchange xml parse identifiers_request identifiers_of)) (\<lambda>ids.
    bnd (lift_o (int_from_plist ids ''BoardId'')) (\<lambda>board_id.
    bnd (lift_o (int_from_plist ids ''ChipID'')) (\<lambda>chip_id.
    bnd (on_cur (exchange xml parse nonce_request mt_nonce_of)) (\<lambda>nonce.
    bnd (on_lockdown ''get UniqueChipID'' (ls_get_value xml parse None ''UniqueChipID'')) (\<lambda>v.
    bnd (lift_o (ok_or (as_unsigned_integer v) ''UniqueChipID not integer'')) (\<lambda>ecid.
    bnd (lift_o (tss_request xml parse post manifest board_id chip_id ecid nonce ids)) (\<lambda>im4m.
    bnd (mt_connect ''reconnect mounter shim (post-TSS)'') (\<lambda>_. ret im4m))))))))"

text \<open>The ticket: the device has it, or it answers without one or not at all and the server is asked.\<close>

definition cached_ticket :: "(pvalue \<Rightarrow> bytes) \<Rightarrow> (bytes \<Rightarrow> pvalue option) \<Rightarrow> bytes \<Rightarrow> (sock, string, bytes option) prog" where
  "cached_ticket xml parse sha = bnd (send_plist_m xml (manifest_request sha)) (\<lambda>_ s. case recv_plist_m parse s of
     (Ok resp, s') \<Rightarrow> (Ok (Option.bind (Option.bind (as_dictionary resp) (\<lambda>d. dget d ''ImageSignature'')) as_data), s')
   | (Err _, s') \<Rightarrow> (Ok None, s')
   | (Panic, s') \<Rightarrow> (Panic, s'))"

definition get_ticket :: "(pvalue \<Rightarrow> bytes) \<Rightarrow> (bytes \<Rightarrow> pvalue option) \<Rightarrow> (bytes \<Rightarrow> string option) \<Rightarrow> bytes \<Rightarrow> bytes \<Rightarrow> bytes mt" where
  "get_ticket xml parse post sha manifest =
    bnd (on_cur (cached_ticket xml parse sha)) (\<lambda>r. case r of
      Some im4m \<Rightarrow> ret im4m
    | None \<Rightarrow> bnd (mt_connect ''reconnect mounter shim'') (\<lambda>_. tss_flow xml parse post manifest))"

definition mt_expect_status :: "string \<Rightarrow> string \<Rightarrow> pvalue \<Rightarrow> (string, unit) outcome" where
  "mt_expect_status want what resp = (if status_of resp \<noteq> want then Err (what @ status_of resp) else Ok ())"

definition upload :: "(pvalue \<Rightarrow> bytes) \<Rightarrow> (bytes \<Rightarrow> pvalue option) \<Rightarrow> bytes \<Rightarrow> bytes \<Rightarrow> (sock, string, unit) prog" where
  "upload xml parse img im4m =
    bnd (exchange xml parse (receive_request (length img) im4m) (mt_expect_status ''ReceiveBytesAck'' ''ReceiveBytes: unexpected status '')) (\<lambda>_.
    bnd (on_err (\<lambda>_. ''write Image.dmg'') (write_all img)) (\<lambda>_.
    bnd (recv_plist_m parse) (\<lambda>v. lift_o (mt_expect_status ''Complete'' ''upload: unexpected status '' v))))"

definition mount_image :: "(pvalue \<Rightarrow> bytes) \<Rightarrow> (bytes \<Rightarrow> pvalue option) \<Rightarrow> bytes \<Rightarrow> bytes \<Rightarrow> (sock, string, unit) prog" where
  "mount_image xml parse im4m tc = exchange xml parse (mount_request im4m tc) (mt_expect_status ''Complete'' ''MountImage: '')"

text \<open>\<open>mount\<close> after the files were fetched; the result says whether the image was there already.\<close>

definition mount :: "(pvalue \<Rightarrow> bytes) \<Rightarrow> (bytes \<Rightarrow> pvalue option) \<Rightarrow> (bytes \<Rightarrow> bytes) \<Rightarrow> (bytes \<Rightarrow> string option) \<Rightarrow> ddi_files \<Rightarrow> bool mt" where
  "mount xml parse sha384 post files = (case files of (img, manifest, tc) \<Rightarrow>
    bnd (mt_connect ''connect mounter shim'') (\<lambda>_.
    bnd (on_cur (exchange xml parse (lookup_request ''Personalized'') (\<lambda>r. Ok (resp_image_present r)))) (\<lambda>present.
      if present then ret True
      else bnd (get_ticket xml parse post (sha384 img) manifest) (\<lambda>im4m.
        bnd (on_cur (upload xml parse img im4m)) (\<lambda>_.
        bnd (on_cur (mount_image xml parse im4m tc)) (\<lambda>_. ret False))))))"

text \<open>\<open>status\<close>: an answer that does not come counts as not mounted, a request that cannot be sent ends the command.\<close>

definition lookup_one :: "(pvalue \<Rightarrow> bytes) \<Rightarrow> (bytes \<Rightarrow> pvalue option) \<Rightarrow> string \<Rightarrow> (sock, string, bool) prog" where
  "lookup_one xml parse img_type = bnd (send_plist_m xml (lookup_request img_type)) (\<lambda>_ s. case recv_plist_m parse s of
     (Ok resp, s') \<Rightarrow> (Ok (resp_image_present resp), s') | (Err _, s') \<Rightarrow> (Ok False, s') | (Panic, s') \<Rightarrow> (Panic, s'))"

definition mount_status :: "(pvalue \<Rightarrow> bytes) \<Rightarrow> (bytes \<Rightarrow> pvalue option) \<Rightarrow> bool mt" where
  "mount_status xml parse = bnd (mt_connect ''connect mounter shim'') (\<lambda>_.
    bnd (on_cur (lookup_one xml parse ''Personalized'')) (\<lambda>a.
    bnd (on_cur (lookup_one xml parse ''Developer'')) (\<lambda>b. ret (a \<or> b))))"

section \<open>The cache\<close>

text \<open>Where the files of one attempt can come from.\<close>

definition ddi_source :: "(string, ddi_files) outcome option \<Rightarrow> (string \<Rightarrow> bytes option) \<Rightarrow> ddi_files option" where
  "ddi_source core download = (case core of
     Some (Ok t) \<Rightarrow> Some t
   | _ \<Rightarrow> (case (download DDI_IMAGE, download DDI_MANIFEST, download DDI_TRUSTCACHE) of
       (Some img, Some mfst, Some tc) \<Rightarrow> Some (img, mfst, tc) | _ \<Rightarrow> None))"

fun fetch_all :: "((string, ddi_files) outcome option \<times> (string \<Rightarrow> bytes option)) list \<Rightarrow> ddi_fs \<Rightarrow> (string, ddi_files) outcome list \<times> ddi_fs" where
  "fetch_all [] f = ([], f)"
| "fetch_all ((core, dl) # as) f = (case fetch_ddi_files core dl f of
     (r, f1) \<Rightarrow> (case fetch_all as f1 of (rs, f2) \<Rightarrow> (r # rs, f2)))"

definition cache_ok :: "ddi_files set \<Rightarrow> ddi_fs \<Rightarrow> bool" where
  "cache_ok S f \<longleftrightarrow> fs_faults f = [] \<and>
    (case fs_files f TC of None \<Rightarrow> True | Some tc \<Rightarrow> (\<exists>img mfst. fs_files f IMG = Some img \<and> fs_files f MFST = Some mfst \<and> (img, mfst, tc) \<in> S))"

lemma fs_write_ok: "fs_faults f = [] \<Longrightarrow> fs_write path bs f = (Ok (), f\<lparr>fs_files := (fs_files f)(path \<mapsto> bs)\<rparr>)"
  by (simp add: fs_write_def)

lemma cache_ok_mono: "cache_ok S f \<Longrightarrow> S \<subseteq> S' \<Longrightarrow> cache_ok S' f"
  by (auto simp: cache_ok_def split: option.splits)

definition result_in :: "ddi_files set \<Rightarrow> (string, ddi_files) outcome \<Rightarrow> bool" where
  "result_in S r = (case r of Ok t \<Rightarrow> t \<in> S | Err _ \<Rightarrow> True | Panic \<Rightarrow> False)"

lemma save_ddi_ok:
  "fs_faults f = [] \<Longrightarrow> save_ddi img mfst tc f = (r, f') \<Longrightarrow> (img, mfst, tc) \<in> S \<Longrightarrow> cache_ok S f' \<and> result_in S r"
  by (auto simp: save_ddi_def fs_write_ok cache_ok_def result_in_def)

lemma download_ddi_ok:
  assumes "cache_ok S f" and "fs_files f TC = None" and "download_ddi dl f = (r, f')"
    and "\<And>img mfst tc. dl DDI_IMAGE = Some img \<Longrightarrow> dl DDI_MANIFEST = Some mfst \<Longrightarrow> dl DDI_TRUSTCACHE = Some tc \<Longrightarrow> (img, mfst, tc) \<in> S"
  shows "cache_ok S f' \<and> result_in S r"
proof -
  have "fs_faults f = []" using assms(1) by (simp add: cache_ok_def)
  then show ?thesis using assms(2-)
    by (cases "dl DDI_MANIFEST"; cases "dl DDI_IMAGE"; cases "dl DDI_TRUSTCACHE")
      (auto simp: download_ddi_def ok_or_def fs_write_ok cache_ok_def result_in_def)
qed

lemma fetch_cache_ok:
  assumes "cache_ok S f" and "fetch_ddi_files core dl f = (r, f')" and "set_option (ddi_source core dl) \<subseteq> S"
  shows "cache_ok S f' \<and> result_in S r"
proof (cases "fs_dir_ok f \<and> fs_files f TC = None")
  case True
  then have e: "fetch_ddi_files core dl f = (case core of Some (Ok (img, mfst, tc)) \<Rightarrow> save_ddi img mfst tc f | _ \<Rightarrow> download_ddi dl f)"
    by (simp add: fetch_ddi_files_def split: option.splits)
  have fl: "fs_faults f = []" using assms(1) by (simp add: cache_ok_def)
  show ?thesis
  proof (cases "\<exists>t. core = Some (Ok t)")
    case True
    then obtain img mfst tc where "core = Some (Ok (img, mfst, tc))" by auto
    then have "save_ddi img mfst tc f = (r, f')" "(img, mfst, tc) \<in> S" using assms(2,3) e by (simp_all add: ddi_source_def)
    then show ?thesis by (rule save_ddi_ok [OF fl])
  next
    case False
    then have "download_ddi dl f = (r, f')" "ddi_source core dl = (case (dl DDI_IMAGE, dl DDI_MANIFEST, dl DDI_TRUSTCACHE) of
        (Some img, Some mfst, Some tc) \<Rightarrow> Some (img, mfst, tc) | _ \<Rightarrow> None)"
      using assms(2) by (auto simp: e ddi_source_def split: option.splits outcome.splits)
    moreover from this(2) assms(3) have
      "dl DDI_IMAGE = Some img \<Longrightarrow> dl DDI_MANIFEST = Some mfst \<Longrightarrow> dl DDI_TRUSTCACHE = Some tc \<Longrightarrow> (img, mfst, tc) \<in> S" for img mfst tc
      by simp
    moreover have "fs_files f TC = None" using True by simp
    ultimately show ?thesis by (intro download_ddi_ok [OF assms(1)])
  qed
next
  case False
  then consider "\<not> fs_dir_ok f" | tc where "fs_dir_ok f" "fs_files f TC = Some tc" by auto
  then show ?thesis
  proof cases
    case 1
    then show ?thesis using assms(1,2) by (auto simp: fetch_ddi_files_def result_in_def)
  next
    case 2
    then obtain img mfst where "fs_files f IMG = Some img" "fs_files f MFST = Some mfst" "(img, mfst, tc) \<in> S"
      using assms(1) by (auto simp: cache_ok_def)
    then show ?thesis using 2 assms(1,2) by (auto simp: fetch_ddi_files_def result_in_def)
  qed
qed

text \<open>
  C28: The three image files always belong together: over any sequence of attempts, with downloads
  failing at any point and the local image appearing and disappearing, every attempt that
  succeeds returns the image, manifest and trust cache of one source, as long as file writes
  do not fail half-way.
\<close>

theorem ddi_files_belong_together:
  assumes "fetch_all as f = (rs, f')" and "fs_faults f = []" and "fs_files f TC = None"
  shows "list_all (result_in (\<Union>a\<in>set as. set_option (ddi_source (fst a) (snd a)))) rs"
proof -
  define S where "S = (\<Union>a\<in>set as. set_option (ddi_source (fst a) (snd a)))"
  have "cache_ok S f" using assms(2,3) by (simp add: cache_ok_def)
  moreover have "\<forall>a\<in>set as. set_option (ddi_source (fst a) (snd a)) \<subseteq> S" by (auto simp: S_def)
  ultimately have "list_all (result_in S) rs" using assms(1)
  proof (induction as arbitrary: f rs)
    case (Cons a as)
    obtain core dl where a: "a = (core, dl)" by (cases a)
    obtain r f1 rs1 where 1: "fetch_ddi_files core dl f = (r, f1)" "fetch_all as f1 = (rs1, f')" "rs = r # rs1"
      using Cons.prems(3) by (auto simp: a split: prod.splits)
    from fetch_cache_ok [OF Cons.prems(1) 1(1)] Cons.prems(2) a
    have "cache_ok S f1" "result_in S r" by auto
    then show ?case using Cons.IH [of f1 rs1] Cons.prems(2) 1 by simp
  qed simp
  then show ?thesis by (simp only: S_def)
qed

definition empty_fs :: ddi_fs where
  "empty_fs = \<lparr>fs_dir_ok = True, fs_files = (\<lambda>_. None), fs_faults = []\<rparr>"

theorem ddi_files_belong_together_witness:
  "list_all (result_in {([1], [2], [3])})
    (fst (fetch_all [(None, (\<lambda>_. None)), (Some (Ok ([1], [2], [3])), (\<lambda>_. None))] empty_fs))"
  using ddi_files_belong_together [of "[(None, (\<lambda>_. None)), (Some (Ok ([1], [2], [3])), (\<lambda>_. None))]" empty_fs
      "fst (fetch_all [(None, (\<lambda>_. None)), (Some (Ok ([1], [2], [3])), (\<lambda>_. None))] empty_fs)"
      "snd (fetch_all [(None, (\<lambda>_. None)), (Some (Ok ([1], [2], [3])), (\<lambda>_. None))] empty_fs)"]
  by (simp add: empty_fs_def ddi_source_def)

text \<open>
  A write of the trust cache that fails half-way is an error of that command, but the truncated
  file counts as cached: the next command uses it, whatever the sources could give.
\<close>

theorem torn_trust_cache_is_used:
  assumes "fs_dir_ok f" and "fs_files f = (\<lambda>_. None)" and "fs_faults f = [None, None, Some n]"
    and "fetch_ddi_files (Some (Ok (img, mfst, tc))) dl f = (r, f')"
  shows "r = Err ''write'' \<and> fst (fetch_ddi_files core' dl' f') = Ok (img, mfst, take n tc)"
  using assms by (auto simp: fetch_ddi_files_def save_ddi_def fs_write_def)

theorem torn_trust_cache_is_used_witness:
  "fst (fetch_ddi_files None (\<lambda>_. None)
     (snd (fetch_ddi_files (Some (Ok ([1], [2], [3, 4]))) (\<lambda>_. None) (empty_fs\<lparr>fs_faults := [None, None, Some 1]\<rparr>)))) = Ok ([1], [2], [3])"
  using torn_trust_cache_is_used [of "empty_fs\<lparr>fs_faults := [None, None, Some 1]\<rparr>" 1 "[1]" "[2]" "[3, 4]" "\<lambda>_. None"
      "fst (fetch_ddi_files (Some (Ok ([1], [2], [3, 4]))) (\<lambda>_. None) (empty_fs\<lparr>fs_faults := [None, None, Some 1]\<rparr>))"
      "snd (fetch_ddi_files (Some (Ok ([1], [2], [3, 4]))) (\<lambda>_. None) (empty_fs\<lparr>fs_faults := [None, None, Some 1]\<rparr>))" None "\<lambda>_. None"]
  by (simp add: empty_fs_def)

section \<open>The signing request, as a lookup\<close>

lemma insert_all_append: "insert_all (xs @ ys) e = insert_all ys (insert_all xs e)"
  by (simp add: insert_all_def)

lemma insert_all_lookup: "map_of (insert_all kvs e) k = (case map_of (rev kvs) k of Some v \<Rightarrow> Some v | None \<Rightarrow> map_of e k)"
proof (induction kvs arbitrary: e)
  case (Cons kv kvs)
  obtain a b where "kv = (a, b)" by (cases kv)
  with Cons show ?case by (simp add: insert_all_def ainsert_lookup map_of_append [abs_def] map_add_def split: option.splits)
qed (simp add: insert_all_def)

text \<open>What a rule sets: the entries of the dictionaries among its actions, if its conditions hold.\<close>

definition rule_pairs :: "pvalue \<Rightarrow> pdictionary" where
  "rule_pairs r = (case as_dictionary r of
     Some rule \<Rightarrow> if rule_met rule
       then (case Option.bind (dget rule ''Actions'') as_array of
               Some as \<Rightarrow> concat (map (\<lambda>a. case as_dictionary a of Some d \<Rightarrow> d | None \<Rightarrow> []) as) | None \<Rightarrow> [])
       else []
   | None \<Rightarrow> [])"

lemma apply_actions_insert: "apply_actions as e = insert_all (concat (map (\<lambda>a. case as_dictionary a of Some d \<Rightarrow> d | None \<Rightarrow> []) as)) e"
  by (induction as e rule: apply_actions.induct) (auto simp: insert_all_append insert_all_def split: option.splits)

lemma apply_rules_insert: "apply_restore_request_rules rs e = insert_all (concat (map rule_pairs rs)) e"
proof (induction rs e rule: apply_restore_request_rules.induct)
  case (2 r rs e)
  have "(case as_dictionary r of None \<Rightarrow> e | Some rule \<Rightarrow> if rule_met rule
      then (case Option.bind (dget rule ''Actions'') as_array of Some as \<Rightarrow> apply_actions as e | None \<Rightarrow> e) else e) = insert_all (rule_pairs r) e"
    by (auto simp: rule_pairs_def apply_actions_insert insert_all_def split: option.splits)
  then show ?case using 2 by (simp add: insert_all_append)
qed (simp add: insert_all_def)

lemma map_filter_alist:
  assumes "\<And>e e'. f e = Some e' \<Longrightarrow> fst e' = fst e" and "amap_wf es"
  shows "amap_wf (List.map_filter f es)" and "map_of (List.map_filter f es) c = Option.bind (map_of es c) (\<lambda>v. map_option snd (f (c, v)))"
proof -
  have s: "fst ` set (List.map_filter f es) \<subseteq> fst ` set es" for es
    by (induction es) (auto simp: List.map_filter_simps dest: assms(1) split: option.splits)
  have "amap_wf (List.map_filter f es) \<and> map_of (List.map_filter f es) c = Option.bind (map_of es c) (\<lambda>v. map_option snd (f (c, v)))"
    using assms(2)
  proof (induction es)
    case (Cons e es)
    then have n: "fst e \<notin> fst ` set (List.map_filter f es)" using s [of es] by auto
    then have "map_of (List.map_filter f es) (fst e) = None" by (simp add: map_of_eq_None_iff)
    with n Cons show ?case
    proof (cases "f e")
      case (Some e')
      then have "fst e' = fst e" by (rule assms(1))
      then show ?thesis using Cons n Some by (cases e; cases e') (auto simp: List.map_filter_simps)
    qed (cases e, auto simp: List.map_filter_simps)
  qed (simp add: List.map_filter_simps)
  then show "amap_wf (List.map_filter f es)" "map_of (List.map_filter f es) c = Option.bind (map_of es c) (\<lambda>v. map_option snd (f (c, v)))"
    by simp_all
qed

lemma component_entry_key: "component_entry e = Some e' \<Longrightarrow> fst e' = fst e"
  by (auto simp: component_entry_def split: option.splits if_splits)

lemma map_of_rev: "amap_wf m \<Longrightarrow> map_of (rev m) = map_of m"
  by (metis map_of_inject_set distinct_rev rev_map set_rev)

lemma tss_components_lookup:
  "amap_wf entries \<Longrightarrow> map_of (tss_components entries e) c =
    (case Option.bind (map_of entries c) (\<lambda>v. map_option snd (component_entry (c, v))) of Some v \<Rightarrow> Some v | None \<Rightarrow> map_of e c)"
  by (simp add: tss_components_def insert_all_lookup map_of_rev map_filter_alist [of component_entry, OF component_entry_key])

definition rules_of :: "pdictionary \<Rightarrow> pvalue list" where
  "rules_of entry = (case Option.bind (Option.bind (Option.bind (dget entry ''Info'') as_dictionary) (\<lambda>d. dget d ''RestoreRequestRules'')) as_array of
     Some rules \<Rightarrow> rules | None \<Rightarrow> [])"

lemma tss_entry_lookup:
  "dget (tss_entry entry) k = (case map_of (rev (concat (map rule_pairs (rules_of entry)))) k of
     Some v \<Rightarrow> Some v
   | None \<Rightarrow> if k = ''Trusted'' then Some (PBoolean True) else if k = ''Digest'' then dget entry ''Digest'' else None)"
proof -
  define e where "e = ainsert ''Trusted'' (PBoolean True) (case dget entry ''Digest'' of Some dg \<Rightarrow> [(''Digest'', dg)] | None \<Rightarrow> [])"
  have "tss_entry entry = insert_all (concat (map rule_pairs (rules_of entry))) e"
    by (simp add: tss_entry_def rules_of_def Let_def e_def apply_rules_insert insert_all_def split: option.splits)
  then show ?thesis by (simp add: insert_all_lookup e_def ainsert_lookup split: option.splits)
qed

text \<open>
  The signing request is for the first build identity that fits the board and the chip, and it
  names exactly its trusted components: under the name of one stands its digest, marked trusted,
  with what the restore rules set whose conditions a production device meets, the last one winning;
  under the name of another stands only what the request had without it.
\<close>

theorem tss_request_components:
  assumes "parse manifest = Some (PDictionary m)" and "dget m ''BuildIdentities'' = Some (PArray is)"
    and "List.find (identity_matches board_id chip_id) is = Some (PDictionary idn)"
    and "dget idn ''Manifest'' = Some (PDictionary entries)" and "amap_wf entries"
    and "map_of entries c = Some (PDictionary entry)" and "c \<noteq> ''Info''"
  shows "\<exists>req. tss_request_plist parse manifest board_id chip_id ecid nonce ids = Ok (PDictionary req) \<and>
    (if dget entry ''Trusted'' = Some (PBoolean True)
     then \<exists>e. dget req c = Some (PDictionary e) \<and>
       (\<forall>k. dget e k = (case map_of (rev (concat (map rule_pairs (rules_of entry)))) k of
          Some v \<Rightarrow> Some v
        | None \<Rightarrow> if k = ''Trusted'' then Some (PBoolean True) else if k = ''Digest'' then dget entry ''Digest'' else None))
     else dget req c = dget (forward_ids ids (tss_base board_id chip_id ecid nonce)) c)"
proof -
  define b where "b = forward_ids ids (tss_base board_id chip_id ecid nonce)"
  have r: "tss_request_plist parse manifest board_id chip_id ecid nonce ids = Ok (PDictionary (tss_components entries b))"
    using assms(1-4) by (simp add: tss_request_plist_def ok_or_def b_def)
  have "as_boolean v = Some True \<longleftrightarrow> v = PBoolean True" for v by (cases v) auto
  then have tr: "Option.bind (dget entry ''Trusted'') as_boolean = Some True \<longleftrightarrow> dget entry ''Trusted'' = Some (PBoolean True)"
    by (cases "dget entry ''Trusted''") auto
  have l: "dget (tss_components entries b) c = (if dget entry ''Trusted'' = Some (PBoolean True) then Some (PDictionary (tss_entry entry)) else dget b c)"
    using tss_components_lookup [OF assms(5), of b c] assms(6,7) tr by (simp add: component_entry_def)
  show ?thesis unfolding r b_def [symmetric] using l tss_entry_lookup [of entry] by auto
qed

definition demo_entry :: pdictionary where
  "demo_entry = [(''Digest'', PData [1, 2]), (''Trusted'', PBoolean True),
     (''Info'', PDictionary [(''RestoreRequestRules'', PArray [PDictionary [(''Actions'', PArray [PDictionary [(''EPRO'', PBoolean True)]]),
        (''Conditions'', PDictionary [(''ApRawProductionMode'', PBoolean True)])]])])]"

definition demo_identity :: pdictionary where
  "demo_identity = [(''ApBoardID'', PString ''0x0C''), (''ApChipID'', PString ''33040''),
     (''Manifest'', PDictionary [(''PersonalizedDMG'', PDictionary demo_entry)])]"

lemma demo_identity_matches: "identity_matches 12 33040 (PDictionary demo_identity)"
  by code_simp

theorem tss_request_components_witness:
  "\<exists>req e. tss_request_plist pv_parse (pv_enc (PDictionary [(''BuildIdentities'', PArray [PDictionary demo_identity])])) 12 33040 7 [9] [] = Ok (PDictionary req) \<and>
    dget req ''PersonalizedDMG'' = Some (PDictionary e) \<and> dget e ''Digest'' = Some (PData [1, 2])"
proof -
  have r: "map_of (rev (concat (map rule_pairs (rules_of demo_entry)))) ''Digest'' = None" by code_simp
  have "dget demo_identity ''Manifest'' = Some (PDictionary [(''PersonalizedDMG'', PDictionary demo_entry)])"
    "dget demo_entry ''Trusted'' = Some (PBoolean True)" "dget demo_entry ''Digest'' = Some (PData [1, 2])"
    by (simp_all add: demo_identity_def demo_entry_def)
  then show ?thesis
    using tss_request_components [of pv_parse "pv_enc (PDictionary [(''BuildIdentities'', PArray [PDictionary demo_identity])])"
        "[(''BuildIdentities'', PArray [PDictionary demo_identity])]" "[PDictionary demo_identity]" 12 33040 demo_identity
        "[(''PersonalizedDMG'', PDictionary demo_entry)]" "''PersonalizedDMG''" demo_entry 7 "[9]" "[]"] r
    by (auto simp: demo_identity_matches)
qed

section \<open>The exchange with the mounter\<close>

interpretation mnt: plist_peer "send_plist_m xml" "recv_plist_m parse" "svc_ready implausible xml parse rest" outp
  "\<lambda>v. lp_frame (xml v)" for xml parse rest
proof
  fix vs s q assume "svc_ready implausible xml parse rest vs s"
  then show "\<exists>s'. send_plist_m xml q s = (Ok (), s') \<and> svc_ready implausible xml parse rest vs s' \<and> outp s' = outp s @ lp_frame (xml q)"
    unfolding send_plist_m_def by (rule svc.sends)
next
  fix v vs s assume "svc_ready implausible xml parse rest (v # vs) s"
  then show "\<exists>s'. recv_plist_m parse s = (Ok v, s') \<and> svc_ready implausible xml parse rest vs s' \<and> outp s' = outp s"
    unfolding recv_plist_m_def by (rule svc.receives)
qed

lemma exchange_spec:
  "svc_ready implausible xml parse rest (v # vs) s \<Longrightarrow> \<exists>s'. exchange xml parse q f s = (f v, s') \<and>
    svc_ready implausible xml parse rest vs s' \<and> outp s' = outp s @ lp_frame (xml q)"
  unfolding exchange_def by (rule mnt.ask_spec)

lemma upload_spec:
  assumes "svc_ready implausible xml parse rest (a # c # vs) s" and "status_of a = ''ReceiveBytesAck''" and "status_of c = ''Complete''"
  shows "\<exists>s'. upload xml parse img im4m s = (Ok (), s') \<and> svc_ready implausible xml parse rest vs s' \<and>
    outp s' = outp s @ lp_frame (xml (receive_request (length img) im4m)) @ img"
proof -
  obtain s1 where s1: "exchange xml parse (receive_request (length img) im4m) (mt_expect_status ''ReceiveBytesAck'' ''ReceiveBytes: unexpected status '') s = (Ok (), s1)"
    "svc_ready implausible xml parse rest (c # vs) s1" "outp s1 = outp s @ lp_frame (xml (receive_request (length img) im4m))"
    using exchange_spec [OF assms(1), of "receive_request (length img) im4m" "mt_expect_status ''ReceiveBytesAck'' ''ReceiveBytes: unexpected status ''"] assms(2)
    by (auto simp: mt_expect_status_def)
  have r: "room s1 = None" using s1(2) by (simp add: svc_ready_def)
  have "svc_ready implausible xml parse rest (c # vs) (s1\<lparr>outp := outp s1 @ img\<rparr>)" using s1(2) by (simp add: svc_ready_def)
  then obtain s2 where "recv_plist_m parse (s1\<lparr>outp := outp s1 @ img\<rparr>) = (Ok c, s2)" "svc_ready implausible xml parse rest vs s2"
    "outp s2 = outp s1 @ img" using mnt.receives by fastforce
  then show ?thesis using s1 r assms(3) by (simp add: upload_def mt_expect_status_def)
qed

lemma mount_image_spec:
  assumes "svc_ready implausible xml parse rest (c # vs) s" and "status_of c = ''Complete''"
  shows "\<exists>s'. mount_image xml parse im4m tc s = (Ok (), s') \<and> svc_ready implausible xml parse rest vs s' \<and>
    outp s' = outp s @ lp_frame (xml (mount_request im4m tc))"
  using exchange_spec [OF assms(1), of "mount_request im4m tc" "mt_expect_status ''Complete'' ''MountImage: ''"] assms(2)
  by (simp add: mount_image_def mt_expect_status_def)

lemma cached_ticket_spec:
  assumes "svc_ready implausible xml parse rest (v # vs) s"
  shows "\<exists>s'. cached_ticket xml parse sha s = (Ok (Option.bind (Option.bind (as_dictionary v) (\<lambda>d. dget d ''ImageSignature'')) as_data), s') \<and>
    svc_ready implausible xml parse rest vs s' \<and> outp s' = outp s @ lp_frame (xml (manifest_request sha))"
proof -
  obtain s1 where s1: "send_plist_m xml (manifest_request sha) s = (Ok (), s1)" "svc_ready implausible xml parse rest (v # vs) s1"
    "outp s1 = outp s @ lp_frame (xml (manifest_request sha))" using mnt.sends [OF assms] by blast
  obtain s2 where "recv_plist_m parse s1 = (Ok v, s2)" "svc_ready implausible xml parse rest vs s2" "outp s2 = outp s1"
    using mnt.receives [OF s1(2)] by blast
  then show ?thesis using s1 by (simp add: cached_ticket_def)
qed

lemma tss_flow_spec:
  assumes "svc_ready implausible xml parse rest [i, n] s" and "identifiers_of i = Ok ids"
    and "int_from_plist ids ''BoardId'' = Ok board" and "int_from_plist ids ''ChipID'' = Ok chip" and "mt_nonce_of n = Ok nonce"
    and "ls_get_value xml parse None ''UniqueChipID'' (mw_ls w) = (Ok v, l)" and "as_unsigned_integer v = Some ecid"
    and "tss_request xml parse post manifest board chip ecid nonce ids = Ok im4m"
    and "mw_offers w = Inr s3 # r" and "mw_conns w = cs @ [s]"
  shows "\<exists>s'. tss_flow xml parse post manifest w = (Ok im4m, w\<lparr>mw_offers := r, mw_conns := cs @ [s', s3], mw_ls := l\<rparr>) \<and>
    outp s' = outp s @ lp_frame (xml identifiers_request) @ lp_frame (xml nonce_request)"
proof -
  obtain s1 where s1: "exchange xml parse identifiers_request identifiers_of s = (Ok ids, s1)"
    "svc_ready implausible xml parse rest [n] s1" "outp s1 = outp s @ lp_frame (xml identifiers_request)"
    using exchange_spec [OF assms(1), of identifiers_request identifiers_of] assms(2) by auto
  obtain s2 where s2: "exchange xml parse nonce_request mt_nonce_of s1 = (Ok nonce, s2)" "outp s2 = outp s1 @ lp_frame (xml nonce_request)"
    using exchange_spec [OF s1(2), of nonce_request mt_nonce_of] assms(5) by auto
  have 1: "on_cur (exchange xml parse identifiers_request identifiers_of) w = (Ok ids, w\<lparr>mw_conns := cs @ [s1]\<rparr>)"
    by (simp add: on_cur_def assms(10) s1(1))
  have 2: "on_cur (exchange xml parse nonce_request mt_nonce_of) (w\<lparr>mw_conns := cs @ [s1]\<rparr>) = (Ok nonce, w\<lparr>mw_conns := cs @ [s2]\<rparr>)"
    by (simp add: on_cur_def s2(1))
  have "on_lockdown ''get UniqueChipID'' (ls_get_value xml parse None ''UniqueChipID'') (w\<lparr>mw_conns := cs @ [s2]\<rparr>) = (Ok v, w\<lparr>mw_conns := cs @ [s2], mw_ls := l\<rparr>)"
    using assms(6) by (simp add: on_lockdown_def)
  then show ?thesis using 1 2 s1(3) s2(2) assms(3,4,7-9)
    by (intro exI [of _ s2]) (simp add: tss_flow_def ok_or_def mt_connect_def)
qed

text \<open>What a device that has the image not mounted and no ticket for it answers on the three connections.\<close>

definition device_answers :: "(pvalue \<Rightarrow> bytes) \<Rightarrow> (bytes \<Rightarrow> pvalue option) \<Rightarrow> pvalue list \<Rightarrow> pvalue list \<Rightarrow> pvalue list \<Rightarrow> sock list \<Rightarrow> bool" where
  "device_answers xml parse a b c ss \<longleftrightarrow> (\<exists>s1 s2 s3. ss = [s1, s2, s3] \<and> svc_ready implausible xml parse [] a s1 \<and>
     svc_ready implausible xml parse [] b s2 \<and> svc_ready implausible xml parse [] c s3 \<and> outp s1 = [] \<and> outp s2 = [] \<and> outp s3 = [])"

text \<open>
  C10: Mounting an image the device has no ticket for takes three connections: on the first the
  image is looked up and the ticket asked for; on the second the identifiers and the nonce are
  asked for, and the ticket of the signing server is for exactly that chip, board and nonce; on
  the third the image is announced with its size and that ticket, its bytes follow unframed, and it
  is mounted with the same ticket and the trust cache.
\<close>

theorem mount_via_signing_server:
  assumes "mw_offers w = map Inr ss" and "mw_conns w = []"
    and "device_answers xml parse [looked, noticket] [i, n] [ack, complete, done] ss"
    and "\<not> resp_image_present looked" and "Option.bind (as_dictionary noticket) (\<lambda>d. dget d ''ImageSignature'') = None"
    and "identifiers_of i = Ok ids" and "int_from_plist ids ''BoardId'' = Ok board" and "int_from_plist ids ''ChipID'' = Ok chip"
    and "mt_nonce_of n = Ok nonce" and "ls_get_value xml parse None ''UniqueChipID'' (mw_ls w) = (Ok v, l)"
    and "as_unsigned_integer v = Some ecid" and "tss_request xml parse post manifest board chip ecid nonce ids = Ok im4m"
    and "status_of ack = ''ReceiveBytesAck''" and "status_of complete = ''Complete''" and "status_of done = ''Complete''"
  shows "\<exists>w'. mount xml parse sha384 post (img, manifest, tc) w = (Ok False, w') \<and>
    map outp (mw_conns w') =
      [lp_frame (xml (lookup_request ''Personalized'')) @ lp_frame (xml (manifest_request (sha384 img))),
       lp_frame (xml identifiers_request) @ lp_frame (xml nonce_request),
       lp_frame (xml (receive_request (length img) im4m)) @ img @ lp_frame (xml (mount_request im4m tc))]"
proof -
  obtain s1 s2 s3 where ss: "ss = [s1, s2, s3]" "svc_ready implausible xml parse [] [looked, noticket] s1"
    "svc_ready implausible xml parse [] [i, n] s2" "svc_ready implausible xml parse [] [ack, complete, done] s3"
    "outp s1 = []" "outp s2 = []" "outp s3 = []" using assms(3) by (auto simp: device_answers_def)
  obtain t1 where t1: "exchange xml parse (lookup_request ''Personalized'') (\<lambda>r. Ok (resp_image_present r)) s1 = (Ok False, t1)"
    "svc_ready implausible xml parse [] [noticket] t1" "outp t1 = lp_frame (xml (lookup_request ''Personalized''))"
    using exchange_spec [OF ss(2), of "lookup_request ''Personalized''" "\<lambda>r. Ok (resp_image_present r)"] assms(4) ss(5) by auto
  obtain u1 where u1: "cached_ticket xml parse (sha384 img) t1 = (Ok None, u1)"
    "outp u1 = outp t1 @ lp_frame (xml (manifest_request (sha384 img)))"
    using cached_ticket_spec [OF t1(2), of "sha384 img"] assms(5) by auto
  define w2 where "w2 = w\<lparr>mw_offers := [Inr s3], mw_conns := [u1, s2]\<rparr>"
  obtain t2 where t2: "tss_flow xml parse post manifest w2 = (Ok im4m, w2\<lparr>mw_offers := [], mw_conns := [u1] @ [t2, s3], mw_ls := l\<rparr>)"
    "outp t2 = outp s2 @ lp_frame (xml identifiers_request) @ lp_frame (xml nonce_request)"
    using tss_flow_spec [OF ss(3) assms(6-9), of w2 v l ecid post manifest im4m s3 "[]" "[u1]"] assms(10-12) by (auto simp: w2_def)
  obtain t3 where t3: "upload xml parse img im4m s3 = (Ok (), t3)" "svc_ready implausible xml parse [] [done] t3"
    "outp t3 = lp_frame (xml (receive_request (length img) im4m)) @ img"
    using upload_spec [OF ss(4) assms(13,14), of img im4m] ss(7) by auto
  obtain u3 where u3: "mount_image xml parse im4m tc t3 = (Ok (), u3)" "outp u3 = outp t3 @ lp_frame (xml (mount_request im4m tc))"
    using mount_image_spec [OF t3(2) assms(15), of im4m tc] by auto
  have "get_ticket xml parse post (sha384 img) manifest (w\<lparr>mw_offers := [Inr s2, Inr s3], mw_conns := [t1]\<rparr>) =
      (Ok im4m, w2\<lparr>mw_offers := [], mw_conns := [u1, t2, s3], mw_ls := l\<rparr>)"
    using u1(1) t2(1) by (simp add: get_ticket_def on_cur_def mt_connect_def w2_def)
  moreover have "on_cur (exchange xml parse (lookup_request ''Personalized'') (\<lambda>r. Ok (resp_image_present r)))
      (w\<lparr>mw_offers := [Inr s2, Inr s3], mw_conns := [s1]\<rparr>) = (Ok False, w\<lparr>mw_offers := [Inr s2, Inr s3], mw_conns := [t1]\<rparr>)"
    "on_cur (upload xml parse img im4m) (w2\<lparr>mw_offers := [], mw_conns := [u1, t2, s3], mw_ls := l\<rparr>) =
      (Ok (), w2\<lparr>mw_offers := [], mw_conns := [u1, t2, t3], mw_ls := l\<rparr>)"
    "on_cur (mount_image xml parse im4m tc) (w2\<lparr>mw_offers := [], mw_conns := [u1, t2, t3], mw_ls := l\<rparr>) =
      (Ok (), w2\<lparr>mw_offers := [], mw_conns := [u1, t2, u3], mw_ls := l\<rparr>)"
    using t1(1) t3(1) u3(1) by (simp_all add: on_cur_def)
  ultimately have "mount xml parse sha384 post (img, manifest, tc) w = (Ok False, w2\<lparr>mw_offers := [], mw_conns := [u1, t2, u3], mw_ls := l\<rparr>)"
    using assms(1,2) by (simp add: mount_def mt_connect_def ss(1) bnd_def)
  then show ?thesis using t1(3) u1(2) t2(2) t3(3) u3(2) ss(6) by simp
qed

definition demo_mt_answers :: "pvalue list \<Rightarrow> sock" where
  "demo_mt_answers vs = \<lparr>inp = [Data (concat (map (\<lambda>v. lp_frame (pv_enc v)) vs))], outp = [], room = None\<rparr>"

lemma demo_mt_answers_ready:
  "list_all (wf_answer implausible pv_enc pv_parse) vs \<Longrightarrow> svc_ready implausible pv_enc pv_parse [] vs (demo_mt_answers vs)"
  by (simp add: svc_ready_def demo_mt_answers_def)

definition demo_manifest :: bytes where
  "demo_manifest = pv_enc (PDictionary [(''BuildIdentities'', PArray [PDictionary demo_identity])])"

definition demo_post :: "bytes \<Rightarrow> string option" where
  "demo_post body = Some (''STATUS=0&REQUEST_STRING='' @ map (\<lambda>b. char_of (unat b)) (pv_enc (PDictionary [(''ApImg4Ticket'', PData [5])])))"

lemma demo_ticket: "tss_request pv_enc pv_parse demo_post demo_manifest 12 33040 7 [9] ids = Ok [5]"
proof -
  have "tss_ticket pv_parse (''STATUS=0&REQUEST_STRING='' @ map (\<lambda>b. char_of (unat b)) (pv_enc (PDictionary [(''ApImg4Ticket'', PData [5])]))) = Ok [5]"
    by code_simp
  moreover have "\<exists>req. tss_request_plist pv_parse demo_manifest 12 33040 7 [9] ids = Ok req"
    by (simp add: tss_request_plist_def demo_manifest_def ok_or_def demo_identity_matches) (simp add: demo_identity_def)
  ultimately show ?thesis by (auto simp: tss_request_def demo_post_def ok_or_def)
qed

definition demo_dev1 :: "pvalue list" where
  "demo_dev1 = [PDictionary [(''ImagePresent'', PBoolean False)], PDictionary [(''Error'', PString ''x'')]]"

definition demo_dev2 :: "pvalue list" where
  "demo_dev2 = [PDictionary [(''PersonalizationIdentifiers'', PDictionary [(''BoardId'', PInteger 12), (''ChipID'', PInteger 33040)])],
     PDictionary [(''PersonalizationNonce'', PData [9])]]"

definition demo_dev3 :: "pvalue list" where
  "demo_dev3 = [PDictionary [(''Status'', PString ''ReceiveBytesAck'')], PDictionary [(''Status'', PString ''Complete'')],
     PDictionary [(''Status'', PString ''Complete'')]]"

theorem mount_via_signing_server_witness:
  "\<exists>w'. mount pv_enc pv_parse id demo_post ([1, 2, 3], demo_manifest, [4])
      \<lparr>mw_offers = map Inr [demo_mt_answers demo_dev1, demo_mt_answers demo_dev2, demo_mt_answers demo_dev3], mw_conns = [],
       mw_ls = demo_ls [PDictionary [(''Value'', PInteger 7)]]\<rparr> = (Ok False, w') \<and>
    map outp (mw_conns w') =
      [lp_frame (pv_enc (lookup_request ''Personalized'')) @ lp_frame (pv_enc (manifest_request [1, 2, 3])),
       lp_frame (pv_enc identifiers_request) @ lp_frame (pv_enc nonce_request),
       lp_frame (pv_enc (receive_request 3 [5])) @ [1, 2, 3] @ lp_frame (pv_enc (mount_request [5] [4]))]"
proof -
  let ?ls = "demo_ls [PDictionary [(''Value'', PInteger 7)]]"
  have r: "list_all (wf_answer implausible pv_enc pv_parse) demo_dev1" "list_all (wf_answer implausible pv_enc pv_parse) demo_dev2"
    "list_all (wf_answer implausible pv_enc pv_parse) demo_dev3" by code_simp+
  have d: "device_answers pv_enc pv_parse demo_dev1 demo_dev2 demo_dev3 [demo_mt_answers demo_dev1, demo_mt_answers demo_dev2, demo_mt_answers demo_dev3]"
    using r [THEN demo_mt_answers_ready] by (simp add: device_answers_def) (simp add: demo_mt_answers_def)
  have "fst (ls_get_value pv_enc pv_parse None ''UniqueChipID'' ?ls) = Ok (PInteger 7)" by code_simp
  then obtain l where l: "ls_get_value pv_enc pv_parse None ''UniqueChipID'' ?ls = (Ok (PInteger 7), l)"
    by (cases "ls_get_value pv_enc pv_parse None ''UniqueChipID'' ?ls") simp
  show ?thesis
    using mount_via_signing_server [of "\<lparr>mw_offers = map Inr [demo_mt_answers demo_dev1, demo_mt_answers demo_dev2, demo_mt_answers demo_dev3],
        mw_conns = [], mw_ls = ?ls\<rparr>", OF _ _ d [unfolded demo_dev1_def demo_dev2_def demo_dev3_def],
        of "[(''BoardId'', PInteger 12), (''ChipID'', PInteger 33040)]" 12 33040 "[9]" "PInteger 7" l 7 demo_post demo_manifest "[5]" id "[1, 2, 3]" "[4]"]
      l demo_ticket
    by (simp add: demo_dev1_def demo_dev2_def demo_dev3_def resp_image_present_def identifiers_of_def int_from_plist_def mt_nonce_of_def status_of_def ok_or_def numeral_3_eq_3)
qed

section \<open>Numbers\<close>

fun show_hex :: "nat \<Rightarrow> string" where
  "show_hex n = (if n < 16 then [hex_char n] else show_hex (n div 16) @ [hex_char (n mod 16)])"

declare show_hex.simps [simp del]

lemma parse_hex_append: "parse_hex_digits acc (xs @ [c]) = Option.bind (parse_hex_digits acc xs) (\<lambda>n. map_option (\<lambda>d. n * 16 + d) (hex_digit c))"
  by (induction xs arbitrary: acc) (auto split: option.splits)

lemma parse_hex_show: "parse_hex_digits 0 (show_hex n) = Some n"
proof (induction n rule: show_hex.induct)
  case (1 n)
  show ?case
  proof (cases "n < 16")
    case True
    then show ?thesis by (simp add: show_hex.simps [of n])
  next
    case False
    then show ?thesis using 1 by (simp add: show_hex.simps [of n] parse_hex_append)
  qed
qed

lemma show_hex_Cons: "\<exists>d cs. show_hex n = hex_char d # cs \<and> d < 16"
proof (induction n rule: show_hex.induct)
  case (1 n)
  then show ?case by (cases "n < 16") (auto simp: show_hex.simps [of n])
qed

lemma show_hex_visible: "list_all visible (show_hex n)"
proof (induction n rule: show_hex.induct)
  case (1 n)
  then show ?case by (cases "n < 16") (simp_all add: show_hex.simps [of n])
qed

text \<open>
  A board or chip number of a manifest reads back from either spelling, decimal or hexadecimal
  with its prefix, with white space around it.
\<close>

theorem manifest_numbers_read_back:
  assumes "n < 2 ^ 64"
  shows "parse_hex_or_dec (replicate i (CHR '' '') @ (''0x'' @ show_hex n) @ replicate j (CHR '' '')) = Some (word_of_nat n) \<and>
    parse_hex_or_dec (replicate i (CHR '' '') @ show_nat n @ replicate j (CHR '' '')) = Some (word_of_nat n)"
proof
  have z: "visible (CHR ''0'') \<and> visible (CHR ''x'')" by code_simp
  obtain d cs where h: "show_hex n = hex_char d # cs" "d < 16" using show_hex_Cons by blast
  have "trim (replicate i (CHR '' '') @ (''0x'' @ show_hex n) @ replicate j (CHR '' '')) = ''0x'' @ show_hex n"
    by (rule trim_inner) (simp add: z show_hex_visible)
  moreover have "parse_hex_u64 (show_hex n) = Some (word_of_nat n)"
    using parse_hex_show [of n] h hex_char_not_plus [of d] assms by (simp add: parse_hex_u64_def)
  ultimately show "parse_hex_or_dec (replicate i (CHR '' '') @ (''0x'' @ show_hex n) @ replicate j (CHR '' '')) = Some (word_of_nat n)"
    by (simp add: parse_hex_or_dec_def Let_def)
next
  have dg: "c \<noteq> CHR ''x'' \<and> c \<noteq> CHR ''X''" if c: "c \<in> set (show_nat n)" for c
  proof -
    obtain d where "d < 10" "c = digit_char d" using show_nat_digits [of n] c by (auto simp: list_all_iff)
    moreover have "\<forall>d<10. digit_char d \<noteq> CHR ''x'' \<and> digit_char d \<noteq> CHR ''X''" by code_simp
    ultimately show ?thesis by simp
  qed
  have "trim (replicate i (CHR '' '') @ show_nat n @ replicate j (CHR '' '')) = show_nat n"
    by (rule trim_inner) (rule show_nat_visible)
  moreover have "take 2 (show_nat n) \<noteq> ''0x'' \<and> take 2 (show_nat n) \<noteq> ''0X''"
  proof -
    have "CHR ''x'' \<notin> set (take 2 (show_nat n)) \<and> CHR ''X'' \<notin> set (take 2 (show_nat n))"
      using dg [of "CHR ''x''"] dg [of "CHR ''X''"] by (auto dest: in_set_takeD)
    then show ?thesis by auto
  qed
  ultimately show "parse_hex_or_dec (replicate i (CHR '' '') @ show_nat n @ replicate j (CHR '' '')) = Some (word_of_nat n)"
    using assms by (simp add: parse_hex_or_dec_def Let_def parse_u64_def parse_uint_show)
qed

end
