(* ===== verification/Oslog.thy ===== *)
theory Oslog
  imports Syslog
begin

text \<open>
  The structured log stream, \<open>src/src/bin/ios/cmd/oslog.rs\<close>: the start request and its answer, the
  binary layout of an entry, the filters and the printed line. The reader of this command goes on
  after an interrupted read. The printer is a function on a state of its own that says whether the
  line could be written; the lower-case mapping of Unicode is the parameter \<open>lower\<close>. Arithmetic wraps
  as in a release build.
\<close>

section \<open>Reading\<close>

lemma read_some_fail_weight: "read_some n s = (Inl k, s') \<Longrightarrow> weight s' < weight s"
  by (induction n s rule: read_some.induct) auto

function retry_loop :: "nat \<Rightarrow> bytes \<Rightarrow> (script, read_fail, bytes) prog" where
  "retry_loop n acc s =
    (if n = 0 then (Ok acc, s)
     else case read_some n s of
       (Inl k, s') \<Rightarrow> if k = Interrupted then retry_loop n acc s' else (Err (RIo k), s')
     | (Inr [], s') \<Rightarrow> (Err REof, s')
     | (Inr (b # c), s') \<Rightarrow> retry_loop (n - length (b # c)) (acc @ b # c) s')"
  by pat_completeness auto
termination
  by (relation "measure (\<lambda>(n, acc, s). n + weight s)")
    (auto dest!: sym [of _ "read_some _ _"] read_some_weight read_some_fail_weight)

declare retry_loop.simps [simp del]

definition os_read_exact :: "nat \<Rightarrow> (script, read_fail, bytes) prog" where
  "os_read_exact n = retry_loop n []"

section \<open>Entries\<close>

record LogEntry =
  le_pid :: u32
  le_timestamp :: string
  le_level :: string
  le_level_num :: u8
  le_process :: string
  le_subsystem :: string
  le_category :: string
  le_message :: string

definition read_cstring :: "bytes \<Rightarrow> nat \<Rightarrow> nat \<Rightarrow> string \<times> nat" where
  "read_cstring data off len =
    (if len = 0 \<or> off + len > length data then ([], off)
     else let slice = take len (drop off data) in
       (from_utf8_lossy (if last slice = 0 then butlast slice else slice), off + len))"

definition level_name :: "u8 \<Rightarrow> string" where
  "level_name l = (if l = 0x00 then ''Default'' else if l = 0x01 then ''Info'' else if l = 0x02 then ''Debug''
     else if l = 0x10 then ''Error'' else if l = 0x11 then ''Fault'' else ''Unknown'')"

definition parse_level :: "string \<Rightarrow> u8" where
  "parse_level s = (let l = map lower_char s in
     if l = ''debug'' then 0x00 else if l = ''info'' then 0x00 else if l = ''default'' then 0x00
     else if l = ''error'' then 0x10 else if l = ''fault'' then 0x11 else 0x00)"

definition APPLE_EPOCH_OFFSET :: u64 where "APPLE_EPOCH_OFFSET = 978307200"

definition pad_zero :: "nat \<Rightarrow> nat \<Rightarrow> string" where
  "pad_zero w n = replicate (w - length (show_nat n)) (CHR ''0'') @ show_nat n"

text \<open>
  The sum of a time and a duration panics beyond the range of the clock, which counts seconds in
  64 bits with a sign; a duration carries the nanoseconds beyond a second into its seconds.
\<close>

definition format_timestamp :: "u64 \<Rightarrow> u32 \<Rightarrow> (string, string) outcome" where
  "format_timestamp sec usec =
    (let unix = (if unat sec + unat APPLE_EPOCH_OFFSET < 2 ^ 64 then unat sec + unat APPLE_EPOCH_OFFSET else 2 ^ 64 - 1);
         secs = unix + unat (usec * 1000) div 10 ^ 9
     in if 2 ^ 63 \<le> secs then Panic
        else Ok (pad_zero 2 (secs mod 86400 div 3600) @ '':'' @ pad_zero 2 (secs mod 3600 div 60) @ '':'' @
          pad_zero 2 (secs mod 60) @ ''.'' @ pad_zero 6 (unat usec)))"

definition basename :: "string \<Rightarrow> string" where
  "basename path = last (split_on (CHR ''/'') path)"

definition os_parse_entry :: "bytes \<Rightarrow> (string, LogEntry) outcome" where
  "os_parse_entry data =
    (if length data < 129 then Err ''entry too short''
     else let fld = (\<lambda>a b. from_le (take (b - a) (drop a data)));
         level = data ! 68
       in obind (format_timestamp (word_of_nat (fld 55 63)) (word_of_nat (fld 63 67))) (\<lambda>ts.
         let (process, off) = read_cstring data 129 (fld 37 39);
             (image, off) = read_cstring data off (fld 107 109);
             (message, off) = read_cstring data off (fld 109 113);
             (subsystem, off) = read_cstring data off (fld 117 119);
             (category, off) = read_cstring data off (fld 121 123)
         in Ok \<lparr>le_pid = word_of_nat (fld 9 13), le_timestamp = ts, le_level = level_name level, le_level_num = level,
               le_process = basename process, le_subsystem = subsystem, le_category = category, le_message = message\<rparr>))"

definition read_entry :: "(script, string, LogEntry) prog" where
  "read_entry =
    bnd (on_err (\<lambda>_. ''io'') (os_read_exact 1)) (\<lambda>magic.
      if magic \<noteq> [0x02] then throw ''bad magic''
      else bnd (on_err (\<lambda>_. ''io'') (os_read_exact 4)) (\<lambda>len_buf.
        bnd (on_err (\<lambda>_. ''io'') (os_read_exact (from_le len_buf))) (\<lambda>data. lift_o (os_parse_entry data))))"

section \<open>The printed line\<close>

fun replace_char :: "char \<Rightarrow> string \<Rightarrow> string \<Rightarrow> string" where
  "replace_char c r [] = []"
| "replace_char c r (x # xs) = (if x = c then r @ replace_char c r xs else x # replace_char c r xs)"

text \<open>The backslash is character 92 and the double quote 34.\<close>

definition json_str :: "string \<Rightarrow> string" where
  "json_str s = [char_of (34 :: nat)] @
     replace_char (char_of (34 :: nat)) [char_of (92 :: nat), char_of (34 :: nat)]
       (replace_char (char_of (92 :: nat)) [char_of (92 :: nat), char_of (92 :: nat)] s) @ [char_of (34 :: nat)]"

definition pad_right :: "nat \<Rightarrow> string \<Rightarrow> string" where
  "pad_right w s = s @ replicate (w - char_count s) (CHR '' '')"

definition pad_left :: "nat \<Rightarrow> string \<Rightarrow> string" where
  "pad_left w s = replicate (w - char_count s) (CHR '' '') @ s"

text \<open>The cut is at a byte: inside a character it panics. The added character is the ellipsis.\<close>

definition char_boundary :: "string \<Rightarrow> nat \<Rightarrow> bool" where
  "char_boundary s i \<longleftrightarrow> i = length s \<or> i < length s \<and> \<not> (0x80 \<le> (of_char (s ! i) :: nat) \<and> of_char (s ! i) < (0xc0 :: nat))"

definition truncate_str :: "string \<Rightarrow> nat \<Rightarrow> (string, string) outcome" where
  "truncate_str s n =
    (if length s \<le> n then Ok (pad_right n s)
     else if char_boundary s (n - 1) then Ok (take (n - 1) s @ string_of [0xe2, 0x80, 0xa6]) else Panic)"

definition quoted :: "string \<Rightarrow> string" where
  "quoted k = [char_of (34 :: nat)] @ k @ [char_of (34 :: nat)]"

definition json_line :: "LogEntry \<Rightarrow> string" where
  "json_line e = ''{'' @ quoted ''ts'' @ '':'' @ quoted (le_timestamp e) @ '','' @ quoted ''pid'' @ '':'' @ show_nat (unat (le_pid e)) @
     '','' @ quoted ''level'' @ '':'' @ quoted (le_level e) @ '','' @ quoted ''process'' @ '':'' @ json_str (le_process e) @
     '','' @ quoted ''subsystem'' @ '':'' @ json_str (le_subsystem e) @ '','' @ quoted ''category'' @ '':'' @ json_str (le_category e) @
     '','' @ quoted ''message'' @ '':'' @ json_str (le_message e) @ ''}''"

definition text_line :: "LogEntry \<Rightarrow> (string, string) outcome" where
  "text_line e = obind (truncate_str (le_process e) 20) (\<lambda>p.
     Ok (le_timestamp e @ ''  '' @ pad_left 6 (show_nat (unat (le_pid e))) @ ''  '' @ pad_right 8 (le_level e) @ ''  '' @
       pad_right 20 p @ ''  '' @ le_message e))"

definition log_line_of :: "bool \<Rightarrow> LogEntry \<Rightarrow> (string, string) outcome" where
  "log_line_of json e = (if json then Ok (json_line e) else text_line e)"

definition wanted :: "(string \<Rightarrow> string) \<Rightarrow> u8 \<Rightarrow> string option \<Rightarrow> LogEntry \<Rightarrow> bool" where
  "wanted lower min_level process e \<longleftrightarrow> \<not> le_level_num e < min_level \<and>
     (case process of None \<Rightarrow> True | Some p \<Rightarrow> contains_str (lower p) (lower (le_process e)))"

section \<open>The command\<close>

definition start_activity :: pvalue where
  "start_activity = pdict [(''Request'', PString ''StartActivity''), (''Pid'', PInteger (- 1)),
     (''MessageFilter'', PInteger 0xFFFF), (''StreamFlags'', PInteger 0x20)]"

text \<open>\<open>for b in &len_bytes { plist_len = (plist_len << 8) | *b as u64 }\<close> after \<open>reverse\<close>.\<close>

definition plist_len_of :: "bytes \<Rightarrow> u64" where
  "plist_len_of len_bytes = fold (\<lambda>b acc. push_bit 8 acc OR ucast b) (rev len_bytes) 0"

text \<open>A buffer cannot be longer than half the address space: asking for more panics.\<close>

definition read_start_response :: "(bytes \<Rightarrow> pvalue option) \<Rightarrow> (script, string, unit) prog" where
  "read_start_response parse =
    bnd (on_err (\<lambda>_. ''read length-length'') (os_read_exact 4)) (\<lambda>ll.
    bnd (on_err (\<lambda>_. ''read plist length bytes'') (os_read_exact (from_le ll))) (\<lambda>len_bytes.
      if 2 ^ 63 \<le> unat (plist_len_of len_bytes) then panic
      else bnd (on_err (\<lambda>_. ''read StartActivity response'') (os_read_exact (unat (plist_len_of len_bytes)))) (\<lambda>buf.
        bnd (lift_o (ok_or (parse buf) ''plist'')) (\<lambda>resp.
          case resp of
            PDictionary d \<Rightarrow>
              if (case Option.bind (dget d ''Status'') as_string of Some s \<Rightarrow> s | None \<Rightarrow> []) \<noteq> ''RequestSuccessful''
              then throw ''StartActivity failed'' else ret ()
          | _ \<Rightarrow> ret ()))))"

lemma retry_weight: "retry_loop n acc s = (Ok xs, s') \<Longrightarrow> weight s' + n \<le> weight s"
proof (induction n acc s rule: retry_loop.induct)
  case (1 n acc s)
  show ?case
  proof (cases "n = 0")
    case True
    then show ?thesis using "1.prems" by (simp add: retry_loop.simps)
  next
    case False
    consider (i) s1 where "read_some n s = (Inl Interrupted, s1)" "retry_loop n acc s1 = (Ok xs, s')"
      | (d) b c s1 where "read_some n s = (Inr (b # c), s1)" "retry_loop (n - length (b # c)) (acc @ b # c) s1 = (Ok xs, s')"
      using "1.prems" False by (subst (asm) retry_loop.simps) (auto split: sum.splits list.splits prod.splits if_splits)
    then show ?thesis
    proof cases
      case i
      from "1.IH"(1) [OF False i(1) [symmetric] refl refl i(2)] read_some_fail_weight [OF i(1)] show ?thesis by linarith
    next
      case d
      from "1.IH"(2) [OF False d(1) [symmetric] refl refl d(2)] read_some_weight [OF d(1)] read_some_length [OF d(1)]
      show ?thesis by linarith
    qed
  qed
qed

lemma read_entry_weight: "read_entry s = (Ok e, s') \<Longrightarrow> weight s' < weight s"
  by (auto simp: read_entry_def os_read_exact_def bnd_Ok_iff on_err_Ok_iff split: if_splits dest!: retry_weight)

function os_loop :: "(LogEntry \<Rightarrow> bool) \<Rightarrow> (LogEntry \<Rightarrow> (string, string) outcome) \<Rightarrow> (string \<Rightarrow> 'c \<Rightarrow> bool \<times> 'c) \<Rightarrow> 'c \<Rightarrow> script \<Rightarrow>
    (string, unit) outcome \<times> 'c" where
  "os_loop want line write st s = (case read_entry s of
     (Ok e, s') \<Rightarrow>
       if \<not> want e then os_loop want line write st s'
       else (case line e of
           Ok l \<Rightarrow> (case write l st of
               (True, st') \<Rightarrow> os_loop want line write st' s'
             | (False, st') \<Rightarrow> (Ok (), st'))
         | Err x \<Rightarrow> (Err x, st)
         | Panic \<Rightarrow> (Panic, st))
   | (Err _, s') \<Rightarrow> (Ok (), st)
   | (Panic, s') \<Rightarrow> (Panic, st))"
  by pat_completeness auto
termination
  by (relation "measure (\<lambda>(want, line, write, st, s). weight s)") (auto dest!: sym [of _ "read_entry _"] read_entry_weight)

declare os_loop.simps [simp del]

definition os_run :: "(pvalue \<Rightarrow> bytes) \<Rightarrow> (bytes \<Rightarrow> pvalue option) \<Rightarrow> (string \<Rightarrow> string) \<Rightarrow> string option \<Rightarrow> string option \<Rightarrow> bool \<Rightarrow>
    (string \<Rightarrow> 'c \<Rightarrow> bool \<times> 'c) \<Rightarrow> 'c \<Rightarrow> sock \<Rightarrow> (string, unit) outcome \<times> 'c \<times> sock" where
  "os_run xml parse lower process level json write st s =
    (case bnd (on_err (\<lambda>_. ''write'') (send_plist xml start_activity)) (\<lambda>_. on_inp (read_start_response parse)) s of
       (Ok _, s') \<Rightarrow>
         (let min_level = parse_level (case level of Some l \<Rightarrow> l | None \<Rightarrow> ''default'');
              (r, st') = os_loop (wanted lower min_level process) (log_line_of json) write st (inp s')
          in (r, st', s'))
     | (Err e, s') \<Rightarrow> (Err e, st, s')
     | (Panic, s') \<Rightarrow> (Panic, st, s'))"


section \<open>Interrupted reads\<close>

text \<open>The script without interruptions and empty pieces: what the reader sees.\<close>

definition clean :: "script \<Rightarrow> script" where
  "clean = filter (\<lambda>e. e \<noteq> Fail Interrupted \<and> e \<noteq> Data [])"

lemma clean_simps [simp]:
  "clean [] = []" "clean (Fail Interrupted # s) = clean s" "clean (Data [] # s) = clean s"
  "k \<noteq> Interrupted \<Longrightarrow> clean (Fail k # s) = Fail k # clean s" "bs \<noteq> [] \<Longrightarrow> clean (Data bs # s) = Data bs # clean s"
  by (simp_all add: clean_def)

lemma read_some_clean:
  "read_some n s = (Inl Interrupted, s') \<Longrightarrow> clean s' = clean s"
  "read_some n s = (r, s') \<Longrightarrow> r \<noteq> Inl Interrupted \<Longrightarrow> read_some n (clean s) = (r, clean s')"
proof (induction n s rule: read_some.induct)
  case (2 n k r)
  {
    case 1
    then show ?case using 2 by simp
  next
    case 2
    then show ?case by (cases "k = Interrupted") auto
  }
next
  case (4 n b bs r)
  {
    case 1
    then show ?case by simp
  next
    case 2
    then show ?case by (cases "length (b # bs) \<le> n") auto
  }
qed auto

lemma retry_clean: "retry_loop n acc s = (r, s') \<Longrightarrow> read_loop n acc (clean s) = (r, clean s')"
proof (induction n acc s rule: retry_loop.induct)
  case (1 n acc s)
  show ?case
  proof (cases "n = 0")
    case True
    then show ?thesis using "1.prems" by (auto simp: retry_loop.simps read_loop.simps)
  next
    case False
    obtain x s1 where x: "read_some n s = (x, s1)" by force
    show ?thesis
    proof (cases "x = Inl Interrupted")
      case True
      then have "retry_loop n acc s1 = (r, s')" using "1.prems" False x by (simp add: retry_loop.simps [of n acc s])
      with "1.IH"(1) [OF False x [symmetric] True refl this] read_some_clean(1) [OF x [unfolded True]] show ?thesis by simp
    next
      case ne: False
      note rc = read_some_clean(2) [OF x ne]
      show ?thesis
      proof (cases "\<exists>b c. x = Inr (b # c)")
        case True
        then obtain b c where bc: "x = Inr (b # c)" by blast
        then have "retry_loop (n - length (b # c)) (acc @ b # c) s1 = (r, s')"
          using "1.prems" False x by (simp add: retry_loop.simps [of n acc s])
        from "1.IH"(2) [OF False x [symmetric] bc refl this] show ?thesis
          using False rc bc by (simp add: read_loop.simps [of n acc "clean s"])
      next
        case f: False
        then show ?thesis using "1.prems" False x rc ne
          by (auto simp: retry_loop.simps [of n acc s] read_loop.simps [of n acc "clean s"] split: sum.splits list.splits)
      qed
    qed
  qed
qed

lemma os_read_next:
  assumes "avail (clean s) = xs @ rest" and "length xs = n"
  obtains s' where "os_read_exact n s = (Ok xs, s')" and "avail (clean s') = rest" and "after (clean s') = after (clean s)"
proof -
  obtain r s' where r: "os_read_exact n s = (r, s')" by force
  then have "read_exact n (clean s) = (r, clean s')" by (simp add: os_read_exact_def read_exact_def retry_clean)
  with read_exact_next [OF assms] that r show ?thesis by (metis prod.inject)
qed

lemma os_read_end:
  assumes "avail (clean s) = []" and "0 < n"
  shows "\<exists>e s'. os_read_exact n s = (Err e, s')"
proof -
  obtain r s' where r: "os_read_exact n s = (r, s')" by force
  then have "read_exact n (clean s) = (r, clean s')" by (simp add: os_read_exact_def read_exact_def retry_clean)
  with read_exact_short [of "clean s" n] assms r show ?thesis by (auto split: list.splits rd_event.splits)
qed

section \<open>The layout of an entry\<close>

text \<open>
  An entry as the device writes it, after the layout in the head comment of the source: the named fields
  at their offsets, anything in between, and five C strings.
\<close>

record raw_entry =
  re_pid :: u32
  re_sec :: u64
  re_usec :: u32
  re_level :: u8
  re_process :: string
  re_image :: string
  re_message :: string
  re_subsystem :: string
  re_category :: string
  re_gap :: "nat \<Rightarrow> byte"

definition fill :: "(nat \<Rightarrow> byte) \<Rightarrow> nat \<Rightarrow> nat \<Rightarrow> bytes" where
  "fill f a b = map f [a..<b]"

lemma length_fill [simp]: "length (fill f a b) = b - a"
  by (simp add: fill_def)

definition cstr :: "string \<Rightarrow> bytes" where
  "cstr s = bytes_of s @ [0]"

definition entry_head :: "raw_entry \<Rightarrow> bytes" where
  "entry_head r = fill (re_gap r) 0 9 @ u32_le (re_pid r) @ fill (re_gap r) 13 37 @ le_bytes 2 (length (cstr (re_process r))) @
     fill (re_gap r) 39 55 @ u64_le (re_sec r) @ u32_le (re_usec r) @ fill (re_gap r) 67 68 @ [re_level r] @ fill (re_gap r) 69 107 @
     le_bytes 2 (length (cstr (re_image r))) @ le_bytes 4 (length (cstr (re_message r))) @ fill (re_gap r) 113 117 @
     le_bytes 2 (length (cstr (re_subsystem r))) @ fill (re_gap r) 119 121 @ le_bytes 2 (length (cstr (re_category r))) @
     fill (re_gap r) 123 129"

definition entry_strings :: "raw_entry \<Rightarrow> string list" where
  "entry_strings r = [re_process r, re_image r, re_message r, re_subsystem r, re_category r]"

definition entry_bytes :: "raw_entry \<Rightarrow> bytes" where
  "entry_bytes r = entry_head r @ concat (map cstr (entry_strings r))"

definition entry_frame :: "raw_entry \<Rightarrow> bytes" where
  "entry_frame r = [0x02] @ le_bytes 4 (length (entry_bytes r)) @ entry_bytes r"

definition raw_ok :: "raw_entry \<Rightarrow> bool" where
  "raw_ok r \<longleftrightarrow> list_all valid_str (entry_strings r) \<and> length (re_process r) < 2 ^ 16 - 1 \<and> length (re_image r) < 2 ^ 16 - 1 \<and>
     length (re_message r) < 2 ^ 32 - 1 \<and> length (re_subsystem r) < 2 ^ 16 - 1 \<and> length (re_category r) < 2 ^ 16 - 1 \<and>
     length (entry_bytes r) < 2 ^ 32 \<and> unat (re_sec r) + 978307200 < 2 ^ 63 \<and> unat (re_usec r) < 1000000"

text \<open>What it means: the process is the last component of its path, the time of day is in UTC.\<close>

definition day_time :: "nat \<Rightarrow> nat \<Rightarrow> string" where
  "day_time secs usec = pad_zero 2 (secs mod 86400 div 3600) @ '':'' @ pad_zero 2 (secs mod 3600 div 60) @ '':'' @
     pad_zero 2 (secs mod 60) @ ''.'' @ pad_zero 6 usec"

definition entry_view :: "raw_entry \<Rightarrow> LogEntry" where
  "entry_view r = \<lparr>le_pid = re_pid r, le_timestamp = day_time (unat (re_sec r) + 978307200) (unat (re_usec r)),
     le_level = level_name (re_level r), le_level_num = re_level r, le_process = basename (re_process r),
     le_subsystem = re_subsystem r, le_category = re_category r, le_message = re_message r\<rparr>"

lemma length_entry_head [simp]: "length (entry_head r) = 129"
  by (simp add: entry_head_def)

lemma length_cstr [simp]: "length (cstr s) = Suc (length s)"
  by (simp add: cstr_def)

lemma timestamp_ok:
  assumes "unat (re_sec r) + 978307200 < 2 ^ 63" and "unat (re_usec r) < 1000000"
  shows "format_timestamp (re_sec r) (re_usec r) = Ok (day_time (unat (re_sec r) + 978307200) (unat (re_usec r)))"
proof -
  have "unat (re_usec r * 1000) = unat (re_usec r) * 1000"
    using assms(2) by (subst unat_mult_lem [THEN iffD1]) simp_all
  then have "unat (re_usec r * 1000) div 10 ^ 9 = 0" using assms(2) by simp
  then show ?thesis using assms by (simp add: format_timestamp_def APPLE_EPOCH_OFFSET_def day_time_def Let_def)
qed

lemma os_entry_fields:
  fixes x :: bytes
  assumes "raw_ok r"
  shows "from_le (take 4 (drop 9 (entry_head r @ x))) = unat (re_pid r)"
    and "from_le (take 2 (drop 37 (entry_head r @ x))) = Suc (length (re_process r))"
    and "from_le (take 8 (drop 55 (entry_head r @ x))) = unat (re_sec r)"
    and "from_le (take 4 (drop 63 (entry_head r @ x))) = unat (re_usec r)"
    and "(entry_head r @ x) ! 68 = re_level r"
    and "from_le (take 2 (drop 107 (entry_head r @ x))) = Suc (length (re_image r))"
    and "from_le (take 4 (drop 109 (entry_head r @ x))) = Suc (length (re_message r))"
    and "from_le (take 2 (drop 117 (entry_head r @ x))) = Suc (length (re_subsystem r))"
    and "from_le (take 2 (drop 121 (entry_head r @ x))) = Suc (length (re_category r))"
proof -
  note l = assms [unfolded raw_ok_def]
  note w = unat_lt2p [of "re_pid r"] unat_lt2p [of "re_sec r"] unat_lt2p [of "re_usec r"]
  show "from_le (take 4 (drop 9 (entry_head r @ x))) = unat (re_pid r)" using w(1) by (simp add: entry_head_def u32_le_def from_le_le_bytes)
  show "from_le (take 2 (drop 37 (entry_head r @ x))) = Suc (length (re_process r))" using l by (simp add: entry_head_def from_le_le_bytes)
  show "from_le (take 8 (drop 55 (entry_head r @ x))) = unat (re_sec r)" using w(2) by (simp add: entry_head_def u64_le_def from_le_le_bytes)
  show "from_le (take 4 (drop 63 (entry_head r @ x))) = unat (re_usec r)" using w(3) by (simp add: entry_head_def u32_le_def from_le_le_bytes)
  show "(entry_head r @ x) ! 68 = re_level r" by (simp add: entry_head_def nth_append)
  show "from_le (take 2 (drop 107 (entry_head r @ x))) = Suc (length (re_image r))" using l by (simp add: entry_head_def from_le_le_bytes)
  show "from_le (take 4 (drop 109 (entry_head r @ x))) = Suc (length (re_message r))" using l by (simp add: entry_head_def from_le_le_bytes)
  show "from_le (take 2 (drop 117 (entry_head r @ x))) = Suc (length (re_subsystem r))" using l by (simp add: entry_head_def from_le_le_bytes)
  show "from_le (take 2 (drop 121 (entry_head r @ x))) = Suc (length (re_category r))" using l by (simp add: entry_head_def from_le_le_bytes)
qed


lemma read_cstring_next:
  assumes "drop off data = cstr s @ rest" and "off \<le> length data" and "valid_str s"
  obtains off' where "read_cstring data off (Suc (length s)) = (s, off')" "drop off' data = rest" "off' \<le> length data"
proof
  have "length (drop off data) = Suc (length s) + length rest" using assms(1) by simp
  then show le: "off + Suc (length s) \<le> length data" using assms(2) by simp
  have "from_utf8_lossy (bytes_of s) = s" using assms(3) by (simp add: from_utf8_lossy_def valid_str_def lossy_valid)
  then show "read_cstring data off (Suc (length s)) = (s, off + Suc (length s))"
    using le by (simp add: read_cstring_def assms(1) cstr_def)
  have "drop (off + Suc (length s)) data = drop (Suc (length s)) (drop off data)" by (simp add: add.commute)
  then show "drop (off + Suc (length s)) data = rest" by (simp add: assms(1))
qed

lemma parse_entry_bytes:
  assumes "raw_ok r"
  shows "os_parse_entry (entry_bytes r) = Ok (entry_view r)"
proof -
  define data where "data = entry_bytes r"
  have v: "valid_str (re_process r)" "valid_str (re_image r)" "valid_str (re_message r)" "valid_str (re_subsystem r)"
    "valid_str (re_category r)" using assms by (simp_all add: raw_ok_def entry_strings_def)
  have d: "drop 129 data = cstr (re_process r) @ cstr (re_image r) @ cstr (re_message r) @ cstr (re_subsystem r) @ cstr (re_category r)"
    and l: "129 \<le> length data" by (simp_all add: data_def entry_bytes_def entry_strings_def)
  obtain o1 where 1: "read_cstring data 129 (Suc (length (re_process r))) = (re_process r, o1)"
    "drop o1 data = cstr (re_image r) @ cstr (re_message r) @ cstr (re_subsystem r) @ cstr (re_category r)" "o1 \<le> length data"
    using d l v(1) by (rule read_cstring_next)
  obtain o2 where 2: "read_cstring data o1 (Suc (length (re_image r))) = (re_image r, o2)"
    "drop o2 data = cstr (re_message r) @ cstr (re_subsystem r) @ cstr (re_category r)" "o2 \<le> length data"
    using 1(2,3) v(2) by (rule read_cstring_next)
  obtain o3 where 3: "read_cstring data o2 (Suc (length (re_message r))) = (re_message r, o3)"
    "drop o3 data = cstr (re_subsystem r) @ cstr (re_category r) @ []" "o3 \<le> length data"
    using 2(2,3) v(3) by (rule read_cstring_next) simp
  obtain o4 where 4: "read_cstring data o3 (Suc (length (re_subsystem r))) = (re_subsystem r, o4)"
    "drop o4 data = cstr (re_category r) @ []" "o4 \<le> length data"
    using 3(2,3) v(4) by (rule read_cstring_next)
  obtain o5 where 5: "read_cstring data o4 (Suc (length (re_category r))) = (re_category r, o5)"
    using 4(2,3) v(5) by (rule read_cstring_next)
  note f = os_entry_fields [OF assms, of "concat (map cstr (entry_strings r))", folded entry_bytes_def, folded data_def]
  have t: "format_timestamp (re_sec r) (re_usec r) = Ok (day_time (unat (re_sec r) + 978307200) (unat (re_usec r)))"
    using assms by (intro timestamp_ok) (simp_all add: raw_ok_def)
  have "os_parse_entry data = Ok (entry_view r)"
    using l by (simp add: os_parse_entry_def Let_def f t 1(1) 2(1) 3(1) 4(1) 5(1) entry_view_def)
  then show ?thesis by (simp add: data_def)
qed

lemma read_entry_next:
  assumes "raw_ok r" and "avail (clean s) = entry_frame r @ rest"
  obtains s' where "read_entry s = (Ok (entry_view r), s')" and "avail (clean s') = rest"
proof -
  have n: "length (entry_bytes r) < 2 ^ 32" using assms(1) by (simp add: raw_ok_def)
  have "avail (clean s) = [0x02] @ (le_bytes 4 (length (entry_bytes r)) @ entry_bytes r @ rest)"
    using assms(2) by (simp add: entry_frame_def)
  then obtain s1 where 1: "os_read_exact 1 s = (Ok [0x02], s1)" "avail (clean s1) = le_bytes 4 (length (entry_bytes r)) @ entry_bytes r @ rest"
    by (rule os_read_next) simp_all
  obtain s2 where 2: "os_read_exact 4 s1 = (Ok (le_bytes 4 (length (entry_bytes r))), s2)" "avail (clean s2) = entry_bytes r @ rest"
    using 1(2) by (rule os_read_next) simp_all
  obtain s3 where 3: "os_read_exact (length (entry_bytes r)) s2 = (Ok (entry_bytes r), s3)" "avail (clean s3) = rest"
    using 2(2) by (rule os_read_next) simp_all
  have "from_le (le_bytes 4 (length (entry_bytes r))) = length (entry_bytes r)" using n by (simp add: from_le_le_bytes)
  with 1(1) 2(1) 3(1) parse_entry_bytes [OF assms(1)] have "read_entry s = (Ok (entry_view r), s3)" by (simp add: read_entry_def)
  then show thesis using 3(2) by (rule that)
qed

text \<open>The reference: the entries that pass the filter are printed in order until the printer fails.\<close>

fun os_ref :: "(LogEntry \<Rightarrow> bool) \<Rightarrow> (LogEntry \<Rightarrow> (string, string) outcome) \<Rightarrow> (string \<Rightarrow> 'c \<Rightarrow> bool \<times> 'c) \<Rightarrow> 'c \<Rightarrow> LogEntry list \<Rightarrow>
    (string, unit) outcome \<times> 'c" where
  "os_ref want line write st [] = (Ok (), st)"
| "os_ref want line write st (e # es) =
    (if \<not> want e then os_ref want line write st es
     else case line e of
       Ok l \<Rightarrow> (case write l st of (True, st') \<Rightarrow> os_ref want line write st' es | (False, st') \<Rightarrow> (Ok (), st'))
     | Err x \<Rightarrow> (Err x, st)
     | Panic \<Rightarrow> (Panic, st))"

lemma os_loop_ref:
  assumes "list_all raw_ok rs" and "avail (clean s) = concat (map entry_frame rs)"
  shows "os_loop want line write st s = os_ref want line write st (map entry_view rs)"
  using assms
proof (induction rs arbitrary: st s)
  case Nil
  then obtain e s' where "os_read_exact 1 s = (Err e, s')" using os_read_end [of s 1] by auto
  then have "read_entry s = (Err ''io'', s')" by (simp add: read_entry_def)
  then show ?case by (simp add: os_loop.simps)
next
  case (Cons r rs)
  obtain s' where s': "read_entry s = (Ok (entry_view r), s')" "avail (clean s') = concat (map entry_frame rs)"
    using Cons.prems by (auto elim: read_entry_next)
  then show ?case using Cons.IH [OF _ s'(2)] Cons.prems(1)
    by (simp add: os_loop.simps [of _ _ _ _ s] split: outcome.splits prod.splits bool.splits)
qed

lemma shift_in_byte: "push_bit 8 (word_of_nat x :: u64) OR ucast (b :: byte) = word_of_nat (unat b + 256 * x)"
proof -
  have "push_bit 8 (word_of_nat x :: u64) OR ucast b = push_bit 8 (word_of_nat x) + ucast b"
    by (intro disjunctive_add [symmetric]) (auto simp: bit_simps dest!: bit_imp_le_length)
  then show ?thesis by (simp add: push_bit_eq_mult)
qed

lemma plist_len_of_le: "plist_len_of bs = word_of_nat (from_le bs)"
proof -
  have "foldr (\<lambda>b acc. push_bit 8 acc OR ucast b) bs (0 :: u64) = word_of_nat (from_le bs)"
    by (induction bs) (simp_all add: shift_in_byte)
  then show ?thesis by (simp add: plist_len_of_def foldr_conv_fold)
qed


section \<open>Properties\<close>

definition start_answer :: "(pvalue \<Rightarrow> bytes) \<Rightarrow> nat \<Rightarrow> pvalue \<Rightarrow> bytes" where
  "start_answer xml k resp = u32_le (word_of_nat k) @ le_bytes k (length (xml resp)) @ xml resp"

lemma start_response_ok:
  assumes "avail (clean s) = start_answer xml k (PDictionary d) @ rest"
    and "k < 2 ^ 32" and "length (xml (PDictionary d)) < 256 ^ k" and "length (xml (PDictionary d)) < 2 ^ 63"
    and "parse (xml (PDictionary d)) = Some (PDictionary d)" and "dget d ''Status'' = Some (PString ''RequestSuccessful'')"
  shows "\<exists>s'. read_start_response parse s = (Ok (), s') \<and> avail (clean s') = rest"
proof -
  define body where "body = xml (PDictionary d)"
  have a: "avail (clean s) = u32_le (word_of_nat k) @ le_bytes k (length body) @ body @ rest"
    using assms(1) by (simp add: start_answer_def body_def)
  obtain s1 where 1: "os_read_exact 4 s = (Ok (u32_le (word_of_nat k)), s1)" "avail (clean s1) = le_bytes k (length body) @ body @ rest"
    using a by (rule os_read_next) simp_all
  obtain s2 where 2: "os_read_exact k s1 = (Ok (le_bytes k (length body)), s2)" "avail (clean s2) = body @ rest"
    using 1(2) by (rule os_read_next) simp_all
  obtain s3 where 3: "os_read_exact (length body) s2 = (Ok body, s3)" "avail (clean s3) = rest"
    using 2(2) by (rule os_read_next) simp_all
  have "from_le (u32_le (word_of_nat k)) = k" using assms(2) by (simp add: u32_le_def from_le_le_bytes)
  moreover have "unat (plist_len_of (le_bytes k (length body))) = length body"
    using assms(3,4) by (simp add: plist_len_of_le from_le_le_bytes body_def)
  moreover have "parse body = Some (PDictionary d)" using assms(5) by (simp add: body_def)
  ultimately have "read_start_response parse s = (Ok (), s3)"
    using 1(1) 2(1) 3(1) assms(4,6) by (simp add: read_start_response_def body_def)
  then show ?thesis using 3(2) by blast
qed

lemma wanted_levels:
  "wanted lower (parse_level l) process e \<longleftrightarrow>
    (map lower_char l = ''error'' \<longrightarrow> 16 \<le> unat (le_level_num e)) \<and> (map lower_char l = ''fault'' \<longrightarrow> 17 \<le> unat (le_level_num e)) \<and>
    (\<forall>p. process = Some p \<longrightarrow> (\<exists>a b. lower (le_process e) = a @ lower p @ b))"
  by (auto simp: wanted_def parse_level_def Let_def contains_str_iff word_less_nat_alt not_less split: option.splits)

text \<open>
  C13: The whole command: after the start request and a successful answer, whose length comes in any
  number of bytes, the entries of the stream are decoded and printed in order until the printer
  fails: those whose process name contains the text of the process filter, in lower case, and whose
  level is at least \<open>0x10\<close> when the level asked for is error, at least \<open>0x11\<close> when it is fault, and
  any when it is default, info, debug, none or unknown. How the bytes are cut and how often reads
  are interrupted makes no difference.
\<close>

theorem oslog_stream_decoded:
  assumes "room s = None" and "k < 2 ^ 32" and "length (xml (PDictionary d)) < 256 ^ k" and "length (xml (PDictionary d)) < 2 ^ 63"
    and "parse (xml (PDictionary d)) = Some (PDictionary d)" and "dget d ''Status'' = Some (PString ''RequestSuccessful'')"
    and "avail (clean (inp s)) = start_answer xml k (PDictionary d) @ concat (map entry_frame rs)" and "list_all raw_ok rs"
    and "os_run xml parse lower process level json write st s = (r, st', s')"
  shows "(r, st') = os_ref
      (\<lambda>e. (map_option (map lower_char) level = Some ''error'' \<longrightarrow> 16 \<le> unat (le_level_num e)) \<and>
        (map_option (map lower_char) level = Some ''fault'' \<longrightarrow> 17 \<le> unat (le_level_num e)) \<and>
        (\<forall>p. process = Some p \<longrightarrow> (\<exists>a b. lower (le_process e) = a @ lower p @ b)))
      (log_line_of json) write st (map entry_view rs) \<and>
    outp s' = outp s @ lp_frame (xml start_activity)"
proof -
  obtain i where i: "read_start_response parse (inp s) = (Ok (), i)" "avail (clean i) = concat (map entry_frame rs)"
    using start_response_ok [where xml = xml and parse = parse, OF assms(7,2-6)] by blast
  have "os_loop want line write st i = os_ref want line write st (map entry_view rs)" for want line
    using assms(8) i(2) by (rule os_loop_ref)
  moreover have "map lower_char (case level of Some l \<Rightarrow> l | None \<Rightarrow> ''default'') = x \<longleftrightarrow>
      map_option (map lower_char) level = Some x" if "x = ''error'' \<or> x = ''fault''" for x
    using that by (cases level) (auto simp: lower_char_def)
  ultimately show ?thesis using assms(1,9) i(1)
    by (auto simp: os_run_def send_plist_unlimited Let_def wanted_levels [abs_def] split: prod.splits)
qed

text \<open>
  The levels default, info and debug of the option filter nothing, although the option is documented
  as a minimum level: what is asked for as debug shows the default and info entries too.
\<close>

theorem low_levels_filter_nothing:
  "map lower_char level \<in> {''default'', ''info'', ''debug''} \<Longrightarrow> wanted lower (parse_level level) None e"
  by (auto simp: wanted_levels)

definition demo_raw :: "u8 \<Rightarrow> raw_entry" where
  "demo_raw l = \<lparr>re_pid = 7, re_sec = 0, re_usec = 5, re_level = l, re_process = ''/sbin/p'', re_image = [], re_message = ''hi'',
     re_subsystem = [], re_category = ''c'', re_gap = (\<lambda>_. 0)\<rparr>"

definition demo_ok :: pdictionary where
  "demo_ok = [(''Status'', PString ''RequestSuccessful'')]"

definition demo_os_sock :: sock where
  "demo_os_sock = \<lparr>inp = [Fail Interrupted, Data (start_answer pv_enc 2 (PDictionary demo_ok)), Fail Interrupted,
     Data (concat (map entry_frame [demo_raw 0, demo_raw 0x10]))], outp = [], room = None\<rparr>"


lemma demo_os_facts:
  "raw_ok (demo_raw 0)" "raw_ok (demo_raw 0x10)" "length (pv_enc (PDictionary demo_ok)) < 256 ^ 2"
  "avail (clean (inp demo_os_sock)) = start_answer pv_enc 2 (PDictionary demo_ok) @ concat (map entry_frame [demo_raw 0, demo_raw 0x10])"
  by code_simp+

definition demo_os_run :: "(string, unit) outcome \<times> nat \<times> sock" where
  "demo_os_run = os_run pv_enc pv_parse (\<lambda>s. s) None (Some ''error'') False (\<lambda>l n. (True, Suc n)) 0 demo_os_sock"

theorem oslog_stream_decoded_witness: "fst (snd demo_os_run) = 1"
proof -
  have "dget demo_ok ''Status'' = Some (PString ''RequestSuccessful'')" "room demo_os_sock = None"
    by (simp_all add: demo_ok_def demo_os_sock_def)
  moreover have "os_run pv_enc pv_parse (\<lambda>s. s) None (Some ''error'') False (\<lambda>l n. (True, Suc n)) 0 demo_os_sock =
      (fst demo_os_run, fst (snd demo_os_run), snd (snd demo_os_run))" by (simp add: demo_os_run_def)
  ultimately have "(fst demo_os_run, fst (snd demo_os_run)) =
      os_ref (\<lambda>e. 16 \<le> unat (le_level_num e)) (log_line_of False) (\<lambda>l n. (True, Suc n)) 0 (map entry_view [demo_raw 0, demo_raw 0x10])"
    using oslog_stream_decoded [of demo_os_sock 2 pv_enc demo_ok pv_parse "[demo_raw 0, demo_raw 0x10]" "\<lambda>s. s" None "Some ''error''" False
      "\<lambda>l n. (True, Suc n)" 0 "fst demo_os_run" "fst (snd demo_os_run)" "snd (snd demo_os_run)"] demo_os_facts
    by (simp add: lower_char_def)
  moreover have "os_ref (\<lambda>e. 16 \<le> unat (le_level_num e)) (log_line_of False) (\<lambda>l n. (True, Suc n)) 0
      (map entry_view [demo_raw 0, demo_raw 0x10]) = (Ok (), 1)" by code_simp
  ultimately show ?thesis by simp
qed

text \<open>
  A process name of more than twenty bytes whose twentieth byte is inside a character stops the
  text output with a panic.
\<close>

theorem long_name_panics:
  "text_line ((entry_view (demo_raw 0))\<lparr>le_process := replicate 18 (CHR ''a'') @ string_of [0xc3, 0xa9, 0xc3, 0xa9]\<rparr>) = Panic \<and>
   valid_str (replicate 18 (CHR ''a'') @ string_of [0xc3, 0xa9, 0xc3, 0xa9])"
  by code_simp

text \<open>A field whose length runs past the entry reads as empty, and the fields behind it are taken from its place.\<close>

theorem overlong_field_shifts:
  assumes "drop off data = cstr s @ rest" and "off \<le> length data" and "valid_str s" and "length data < off + n"
  shows "fst (read_cstring data (snd (read_cstring data off n)) (Suc (length s))) = s"
proof -
  have "snd (read_cstring data off n) = off" using assms(4) by (simp add: read_cstring_def)
  moreover obtain off' where "read_cstring data off (Suc (length s)) = (s, off')" using assms(1-3) by (rule read_cstring_next)
  ultimately show ?thesis by simp
qed

end
