(* ===== verification/Nska.thy ===== *)
theory Nska
  imports XcArchive DtxConn
begin

text \<open>
  Reading keyed archives and the process list, \<open>src/src/bin/ios/cmd/ps.rs\<close>; the decoder is written
  out a second time in \<open>src/src/bin/ios/cmd/perf.rs\<close>, line by line the same. It follows every
  reference without looking whether it has been there, so its recursion is run to a depth \<open>d\<close>:
  \<open>None\<close> is the stack overflow. The debug format of the plist crate is the parameter \<open>dbg\<close>.
\<close>

section \<open>The decoder\<close>

definition array_or_empty :: "pvalue option \<Rightarrow> pvalue list" where
  "array_or_empty v = (case Option.bind v as_array of Some a \<Rightarrow> a | None \<Rightarrow> [])"

definition key_text :: "(pvalue \<Rightarrow> string) \<Rightarrow> pvalue \<Rightarrow> string" where
  "key_text dbg v = (case v of PString s \<Rightarrow> s | _ \<Rightarrow> dbg v)"

definition insert_pairs :: "(string \<times> pvalue) list \<Rightarrow> pvalue" where
  "insert_pairs kvs = pdict kvs"

primrec nska_decode_value :: "(pvalue \<Rightarrow> string) \<Rightarrow> nat \<Rightarrow> objects \<Rightarrow> pvalue \<Rightarrow> pvalue option" where
  "nska_decode_value dbg 0 os v = None"
| "nska_decode_value dbg (Suc d) os v = (case v of
     PUid n \<Rightarrow> if n < length os then nska_decode_value dbg d os (os ! n) else Some (PString ''$null'')
   | PDictionary kvs \<Rightarrow>
       if dget kvs ''NS.keys'' \<noteq> None \<and> dget kvs ''NS.objects'' \<noteq> None
       then map_option insert_pairs (those (map
         (\<lambda>(k, x). case nska_decode_value dbg d os k of
            None \<Rightarrow> None
          | Some kd \<Rightarrow> map_option (Pair (key_text dbg kd)) (nska_decode_value dbg d os x))
         (zip (array_or_empty (dget kvs ''NS.keys'')) (array_or_empty (dget kvs ''NS.objects'')))))
       else (case Option.bind (dget kvs ''NS.objects'') as_array of
         Some arr \<Rightarrow> map_option PArray (those (map (nska_decode_value dbg d os) arr))
       | None \<Rightarrow> map_option insert_pairs (those (map
           (\<lambda>(k, x). map_option (Pair k) (nska_decode_value dbg d os x)) (filter (\<lambda>kv. fst kv \<noteq> ''$class'') kvs))))
   | PArray arr \<Rightarrow> map_option PArray (those (map (nska_decode_value dbg d os) arr))
   | _ \<Rightarrow> Some v)"

declare nska_decode_value.simps(2) [simp del]

section \<open>The process list\<close>

record ProcessInfo =
  pi_pid :: u64
  pi_name :: string
  pi_real_app_name :: string
  pi_is_application :: bool

definition nska_decode_array :: "(pvalue \<Rightarrow> string) \<Rightarrow> nat \<Rightarrow> objects \<Rightarrow> pvalue \<Rightarrow> pvalue list option" where
  "nska_decode_array dbg d os root = (case nska_decode_value dbg d os root of
     None \<Rightarrow> None
   | Some (PArray arr) \<Rightarrow> Some arr
   | Some (PDictionary kvs) \<Rightarrow>
       if dget kvs ''NS.objects'' \<noteq> None then those (map (nska_decode_value dbg d os) (array_or_empty (dget kvs ''NS.objects'')))
       else Some []
   | Some _ \<Rightarrow> Some [])"

text \<open>\<open>None\<close> inside is the value that is not an archive, outside the stack overflow.\<close>

definition archive_root :: "pvalue \<Rightarrow> (objects \<times> nat) option" where
  "archive_root v = Option.bind (as_dictionary v) (\<lambda>d. Option.bind (Option.bind (dget d ''$objects'') as_array) (\<lambda>os.
     Option.bind (Option.bind (dget d ''$top'') as_dictionary) (\<lambda>t. case dget t ''root'' of
       Some (PUid n) \<Rightarrow> if n < length os then Some (os, n) else None | _ \<Rightarrow> None)))"

definition nska_root_array :: "(pvalue \<Rightarrow> string) \<Rightarrow> nat \<Rightarrow> pvalue \<Rightarrow> pvalue list option option" where
  "nska_root_array dbg d v = (case archive_root v of
     None \<Rightarrow> Some None
   | Some (os, n) \<Rightarrow> map_option Some (nska_decode_array dbg d os (os ! n)))"

definition process_info :: "pdictionary \<Rightarrow> ProcessInfo" where
  "process_info d =
    \<lparr>pi_pid = (case Option.bind (dget d ''pid'') as_unsigned_integer of Some p \<Rightarrow> p | None \<Rightarrow> 0),
     pi_name = (case Option.bind (dget d ''name'') as_string of Some s \<Rightarrow> s | None \<Rightarrow> []),
     pi_real_app_name = (case Option.bind (dget d ''realAppName'') as_string of Some s \<Rightarrow> s | None \<Rightarrow> []),
     pi_is_application = (case Option.bind (dget d ''isApplication'') as_boolean of Some b \<Rightarrow> b | None \<Rightarrow> False)\<rparr>"

definition parse_process_list :: "(pvalue \<Rightarrow> string) \<Rightarrow> nat \<Rightarrow> pvalue \<Rightarrow> (string, ProcessInfo list) outcome" where
  "parse_process_list dbg d v = (case nska_root_array dbg d v of
     None \<Rightarrow> Panic
   | Some None \<Rightarrow> Err ''unexpected runningProcesses response shape''
   | Some (Some arr) \<Rightarrow> Ok (sort_key pi_pid (List.map_filter (\<lambda>i. map_option process_info (as_dictionary i)) arr)))"

definition first_plist :: "(bytes \<Rightarrow> pvalue option) \<Rightarrow> AuxValue list \<Rightarrow> pvalue option" where
  "first_plist parse aux = (case List.map_filter (\<lambda>a. case a of ABytes b \<Rightarrow> parse b | _ \<Rightarrow> None) aux of [] \<Rightarrow> None | v # _ \<Rightarrow> Some v)"

definition reply_value :: "(bytes \<Rightarrow> pvalue option) \<Rightarrow> dtx_message \<Rightarrow> pvalue option" where
  "reply_value parse m = (case dm_payload m of Some v \<Rightarrow> Some v | None \<Rightarrow> first_plist parse (dm_aux m))"

text \<open>\<open>n\<close> is how many turns the reader thread takes before a call gives up.\<close>

definition list_processes :: "(pvalue \<Rightarrow> bytes) \<Rightarrow> (bytes \<Rightarrow> pvalue option) \<Rightarrow> (pvalue \<Rightarrow> string) \<Rightarrow> nat \<Rightarrow> nat \<Rightarrow>
    (dtx_conn, string, ProcessInfo list) prog" where
  "list_processes bin parse dbg d n =
    bnd (on_err (\<lambda>_. ''handshake'') (dtx_handshake bin)) (\<lambda>_.
    bnd (on_err (\<lambda>_. ''deviceinfo channel'') (request_channel bin parse n ''com.apple.instruments.server.services.deviceinfo'')) (\<lambda>ch.
    bnd (on_err (\<lambda>_. ''runningProcesses'') (call_full bin parse n ch ''runningProcesses'' [])) (\<lambda>reply.
    bnd (lift_o (ok_or (reply_value parse reply) ''runningProcesses returned no data'')) (\<lambda>v.
      lift_o (parse_process_list dbg d v)))))"


section \<open>Termination\<close>

text \<open>A table in which every object refers only to objects before it, as one that is built bottom-up does.\<close>

definition backward :: "objects \<Rightarrow> bool" where
  "backward os \<longleftrightarrow> (\<forall>i < length os. \<forall>n \<in> set (uids (os ! i)). n < i)"

fun psize :: "pvalue \<Rightarrow> nat" where
  "psize (PArray vs) = Suc (sum_list (map psize vs))"
| "psize (PDictionary kvs) = Suc (sum_list (map (\<lambda>kv. psize (snd kv)) kvs))"
| "psize _ = 1"

lemma psize_elem: "v \<in> set vs \<Longrightarrow> psize v < psize (PArray vs)"
  using member_le_sum_list [of "psize v" "map psize vs"] by simp

lemma psize_dget: "dget kvs k = Some v \<Longrightarrow> psize v < psize (PDictionary kvs)"
  using member_le_sum_list [of "psize v" "map (\<lambda>kv. psize (snd kv)) kvs"] by (force dest: map_of_SomeD)

lemma uids_dget: "dget kvs k = Some v \<Longrightarrow> set (uids v) \<subseteq> set (uids (PDictionary kvs))"
  by (force dest: map_of_SomeD)

lemma those_ex: "(\<And>x. x \<in> set xs \<Longrightarrow> \<exists>y. f x = Some y) \<Longrightarrow> \<exists>ys. those (map f xs) = Some ys"
proof (induction xs)
  case (Cons x xs)
  then obtain y ys where "f x = Some y" "those (map f xs) = Some ys" by fastforce
  then show ?case by simp
qed simp

text \<open>What the recursion goes into: smaller, and with no other references.\<close>

definition part_of :: "pvalue \<Rightarrow> pvalue \<Rightarrow> bool" where
  "part_of x v \<longleftrightarrow> psize x < psize v \<and> set (uids x) \<subseteq> set (uids v)"

lemma part_of_elem: "x \<in> set arr \<Longrightarrow> part_of x (PArray arr)"
  using psize_elem by (auto simp: part_of_def)

lemma part_of_trans: "part_of x y \<Longrightarrow> part_of y z \<Longrightarrow> part_of x z"
  by (auto simp: part_of_def)

lemma part_of_dget: "dget kvs k = Some v \<Longrightarrow> part_of v (PDictionary kvs)"
  using psize_dget uids_dget by (simp add: part_of_def)

lemma part_of_array_or_empty: "x \<in> set (array_or_empty (dget kvs k)) \<Longrightarrow> part_of x (PDictionary kvs)"
proof -
  assume x: "x \<in> set (array_or_empty (dget kvs k))"
  then obtain arr where "dget kvs k = Some (PArray arr)" "x \<in> set arr"
    by (cases "dget kvs k" rule: option.exhaust; cases "the (dget kvs k)") (auto simp: array_or_empty_def)
  then show ?thesis using part_of_elem part_of_dget part_of_trans by blast
qed

lemma part_of_value: "(k, x) \<in> set kvs \<Longrightarrow> part_of x (PDictionary kvs)"
  using member_le_sum_list [of "psize x" "map (\<lambda>kv. psize (snd kv)) kvs"] by (force simp: part_of_def)

lemma decode_into_parts:
  assumes "\<And>x. part_of x v \<Longrightarrow> \<exists>y. nska_decode_value dbg d os x = Some y" and "\<And>n. v \<noteq> PUid n"
  shows "\<exists>y. nska_decode_value dbg (Suc d) os v = Some y"
proof (cases v)
  case (PArray arr)
  then have "\<exists>ys. those (map (nska_decode_value dbg d os) arr) = Some ys" by (intro those_ex assms(1)) (simp add: part_of_elem)
  then show ?thesis by (auto simp: PArray nska_decode_value.simps(2))
next
  case (PDictionary kvs)
  note p = assms(1) [unfolded PDictionary]
  let ?f = "\<lambda>(k, x). case nska_decode_value dbg d os k of None \<Rightarrow> None
      | Some kd \<Rightarrow> map_option (Pair (key_text dbg kd)) (nska_decode_value dbg d os x)"
  have "\<exists>y. ?f kx = Some y" if kx: "kx \<in> set (zip (array_or_empty (dget kvs ''NS.keys'')) (array_or_empty (dget kvs ''NS.objects'')))" for kx
  proof -
    obtain k x where "kx = (k, x)" by (cases kx)
    moreover from this kx have "part_of k (PDictionary kvs)" "part_of x (PDictionary kvs)"
      using part_of_array_or_empty by (blast dest: set_zip_leftD set_zip_rightD)+
    ultimately show ?thesis using p [of k] p [of x] by auto
  qed
  then have 1: "\<exists>ys. those (map ?f (zip (array_or_empty (dget kvs ''NS.keys'')) (array_or_empty (dget kvs ''NS.objects'')))) = Some ys"
    by (rule those_ex)
  have 2: "\<exists>ys. those (map (nska_decode_value dbg d os) arr) = Some ys" if "Option.bind (dget kvs ''NS.objects'') as_array = Some arr" for arr
    using that by (intro those_ex p part_of_array_or_empty [of _ _ "''NS.objects''"]) (simp add: array_or_empty_def)
  have 3: "\<exists>ys. those (map (\<lambda>(k, x). map_option (Pair k) (nska_decode_value dbg d os x)) (filter (\<lambda>kv. fst kv \<noteq> ''$class'') kvs)) = Some ys"
    by (intro those_ex) (use p part_of_value in \<open>fastforce split: prod.splits\<close>)
  show ?thesis using 1 2 3 by (auto simp: PDictionary nska_decode_value.simps(2) split: option.splits)
qed (use assms(2) in \<open>simp_all add: nska_decode_value.simps(2)\<close>)

lemma decode_backward:
  assumes "backward os" and "set (uids v) \<subseteq> {..<n}" and "n \<le> length os" and "psize v + (\<Sum>i<n. psize (os ! i)) \<le> d"
  shows "\<exists>x. nska_decode_value dbg d os v = Some x"
  using assms(2-4)
proof (induction d arbitrary: v n)
  case 0
  then show ?case by (cases v) simp_all
next
  case (Suc d)
  show ?case
  proof (cases "\<exists>u. v = PUid u")
    case True
    then obtain u where u: "v = PUid u" by blast
    then have un: "u < n" "u < length os" using Suc.prems by simp_all
    have "(\<Sum>i<Suc u. psize (os ! i)) \<le> (\<Sum>i<n. psize (os ! i))" using un(1) by (intro sum_mono2) auto
    then have "psize (os ! u) + (\<Sum>i<u. psize (os ! i)) \<le> d" using Suc.prems(3) by (simp add: u)
    moreover have "set (uids (os ! u)) \<subseteq> {..<u}" using assms(1) un(2) by (auto simp: backward_def)
    ultimately show ?thesis using Suc.IH [of "os ! u" u] un by (simp add: u nska_decode_value.simps(2))
  next
    case False
    show ?thesis
    proof (rule decode_into_parts)
      fix x
      assume "part_of x v"
      then show "\<exists>y. nska_decode_value dbg d os x = Some y" using Suc.prems by (intro Suc.IH [of x n]) (auto simp: part_of_def)
    qed (use False in blast)
  qed
qed


section \<open>Archives of one shape\<close>

definition arr_object :: "nat list \<Rightarrow> nat \<Rightarrow> pvalue" where
  "arr_object ns c = pdict [(''NS.objects'', PArray (map PUid ns)), (''$class'', PUid c)]"

fun scalar :: "pvalue \<Rightarrow> bool" where
  "scalar (PUid n) = False" | "scalar (PArray a) = False" | "scalar (PDictionary d) = False" | "scalar _ = True"

lemma nska_decode_scalar [simp]: "scalar v \<Longrightarrow> nska_decode_value dbg (Suc d) os v = Some v"
  by (cases v) (simp_all add: nska_decode_value.simps(2))

lemma decode_ref: "refers os n v \<Longrightarrow> nska_decode_value dbg (Suc d) os (PUid n) = nska_decode_value dbg d os v"
  by (simp add: nska_decode_value.simps(2) refers_def)

lemma those_all2: "list_all2 (\<lambda>n x. f n = Some x) ns xs \<Longrightarrow> those (map f ns) = Some xs"
  by (induction rule: list_all2_induct) simp_all

lemma decode_arr:
  assumes "list_all2 (\<lambda>n x. nska_decode_value dbg d os (PUid n) = Some x) ns xs"
  shows "nska_decode_value dbg (Suc d) os (arr_object ns c) = Some (PArray xs)"
  using those_all2 [OF assms] by (simp add: arr_object_def pdict_distinct nska_decode_value.simps(2) comp_def)

lemma decode_dict:
  assumes "list_all2 (\<lambda>n s. nska_decode_value dbg d os (PUid n) = Some (PString s)) ks ss"
    and "list_all2 (\<lambda>n x. nska_decode_value dbg d os (PUid n) = Some x) vs xs" and "length ks = length vs"
  shows "nska_decode_value dbg (Suc d) os (dict_object ks vs c) = Some (pdict (zip ss xs))"
proof -
  have "those (map (\<lambda>(k, x). case nska_decode_value dbg d os k of None \<Rightarrow> None
      | Some kd \<Rightarrow> map_option (Pair (key_text dbg kd)) (nska_decode_value dbg d os x)) (zip (map PUid ks) (map PUid vs))) = Some (zip ss xs)"
    using assms
  proof (induction ks arbitrary: ss vs xs)
    case (Cons k ks)
    then show ?case by (cases vs; cases ss; cases xs) (auto simp: key_text_def)
  qed simp
  then show ?thesis by (simp add: dict_object_def pdict_distinct nska_decode_value.simps(2) array_or_empty_def insert_pairs_def)
qed

lemma refs_to_decode:
  assumes "refs_to os ns vs" and "list_all scalar vs"
  shows "list_all2 (\<lambda>n x. nska_decode_value dbg (Suc (Suc d)) os (PUid n) = Some x) ns vs"
  using assms unfolding refs_to_def by (induction rule: list_all2_induct) (simp_all add: decode_ref)

text \<open>A dictionary of scalars with these entries at this place, its keys and values anywhere in the table.\<close>

definition dict_at :: "objects \<Rightarrow> nat \<Rightarrow> pdictionary \<Rightarrow> bool" where
  "dict_at os u kvs \<longleftrightarrow> distinct (map fst kvs) \<and> list_all scalar (map snd kvs) \<and>
     (\<exists>ks vs c. refers os u (dict_object ks vs c) \<and> refs_to os ks (map (\<lambda>kv. PString (fst kv)) kvs) \<and> refs_to os vs (map snd kvs))"

lemma decode_dict_at:
  assumes "dict_at os u kvs"
  shows "nska_decode_value dbg (Suc (Suc (Suc (Suc d)))) os (PUid u) = Some (PDictionary kvs)"
proof -
  obtain ks vs c where u: "refers os u (dict_object ks vs c)" "refs_to os ks (map (\<lambda>kv. PString (fst kv)) kvs)" "refs_to os vs (map snd kvs)"
    using assms by (auto simp: dict_at_def)
  have l: "length ks = length vs" using u(2,3) by (simp add: refs_to_def list_all2_lengthD)
  have "list_all2 (\<lambda>n x. nska_decode_value dbg (Suc (Suc d)) os (PUid n) = Some x) ks (map (\<lambda>kv. PString (fst kv)) kvs)"
    using u(2) by (rule refs_to_decode) (simp add: list_all_iff)
  then have k: "list_all2 (\<lambda>n s. nska_decode_value dbg (Suc (Suc d)) os (PUid n) = Some (PString s)) ks (map fst kvs)"
    by (simp add: list_all2_conv_all_nth)
  have v: "list_all2 (\<lambda>n x. nska_decode_value dbg (Suc (Suc d)) os (PUid n) = Some x) vs (map snd kvs)"
    using u(3) assms by (intro refs_to_decode) (simp_all add: dict_at_def)
  show ?thesis using decode_dict [OF k v l, of c] assms
    by (simp add: decode_ref [OF u(1)] zip_map_fst_snd pdict_distinct dict_at_def)
qed

section \<open>Properties\<close>

text \<open>
  C27: Decoding an archive ends: when every object refers only to earlier ones, the decoder returns
  within a depth that is the size of the value and of the objects it can reach.
\<close>

theorem archive_decoding_ends:
  assumes "backward os" and "u < length os" and "(\<Sum>i\<le>u. psize (os ! i)) < d"
  shows "\<exists>x. nska_decode_value dbg d os (PUid u) = Some x"
proof -
  have "psize (PUid u) + (\<Sum>i<Suc u. psize (os ! i)) \<le> d" using assms(3) by (simp add: lessThan_Suc_atMost)
  then show ?thesis using assms(1,2) by (intro decode_backward [of os "PUid u" "Suc u"]) simp_all
qed

theorem archive_decoding_ends_witness:
  "\<exists>x. nska_decode_value (\<lambda>_. []) 8 [PString ''$null'', PInteger 3, arr_object [1, 1] 0] (PUid 2) = Some x"
proof (rule archive_decoding_ends)
  show "backward [PString ''$null'', PInteger 3, arr_object [1, 1] 0]" by code_simp
  show "(\<Sum>i\<le>2. psize ([PString ''$null'', PInteger 3, arr_object [1, 1] 0] ! i)) < 8" by code_simp
qed simp

text \<open>An archive in which an array contains itself is never decoded: the stack overflows at every depth.\<close>

theorem cyclic_archive_overflows:
  assumes "refers os n (arr_object ns c)" and "n \<in> set ns"
  shows "nska_decode_value dbg d os (PUid n) = None \<and> nska_decode_value dbg d os (arr_object ns c) = None"
proof (induction d)
  case (Suc d)
  have "nska_decode_value dbg d os (PUid n) = None" using Suc by simp
  with assms(2) have "those (map (nska_decode_value dbg d os) (map PUid ns)) = None"
    by (induction ns) (auto split: option.splits)
  then show ?case using Suc
    by (simp add: decode_ref [OF assms(1)]) (simp add: arr_object_def pdict_distinct nska_decode_value.simps(2))
qed simp

text \<open>
  The process list: whatever the layout of the archive, a root array of process dictionaries
  gives one entry per dictionary, with its values and the defaults for missing ones, sorted by
  process id and otherwise in the order of the array.
\<close>

theorem processes_listed:
  assumes "archive_root v = Some (os, root)" and "os ! root = arr_object us c" and "list_all2 (dict_at os) us ps" and "5 \<le> d"
  shows "parse_process_list dbg d v = Ok (sort_key pi_pid (map process_info ps))"
proof -
  have "d = Suc (Suc (Suc (Suc (Suc (d - 5)))))" using assms(4) by simp
  then obtain e where d: "d = Suc (Suc (Suc (Suc (Suc e))))" by blast
  have "list_all2 (\<lambda>n x. nska_decode_value dbg (Suc (Suc (Suc (Suc e)))) os (PUid n) = Some x) us (map PDictionary ps)"
    using assms(3) by (simp add: list_all2_conv_all_nth decode_dict_at)
  from decode_arr [OF this, of c] have "nska_decode_array dbg d os (os ! root) = Some (map PDictionary ps)"
    by (simp add: nska_decode_array_def assms(2) d)
  moreover have "List.map_filter (\<lambda>i. map_option process_info (as_dictionary i)) (map PDictionary ps) = map process_info ps"
    by (induction ps) (simp_all add: map_filter_simps)
  ultimately show ?thesis using assms(1) by (simp add: parse_process_list_def nska_root_array_def)
qed

definition demo_procs :: objects where
  "demo_procs = [PString ''$null'', PString ''pid'', PString ''name'', PInteger 9, PString ''b'', dict_object [1, 2] [3, 4] 0,
     PInteger 2, PString ''a'', dict_object [1, 2] [6, 7] 0, arr_object [5, 8] 0]"

theorem processes_listed_witness:
  "parse_process_list (\<lambda>_. []) 5 (skeleton demo_procs 9) =
    Ok (sort_key pi_pid (map process_info [[(''pid'', PInteger 9), (''name'', PString ''b'')], [(''pid'', PInteger 2), (''name'', PString ''a'')]]))"
proof (rule processes_listed [where os = demo_procs and root = 9 and us = "[5, 8]" and c = 0])
  show "archive_root (skeleton demo_procs 9) = Some (demo_procs, 9)" by code_simp
  show "demo_procs ! 9 = arr_object [5, 8] 0" by (simp add: demo_procs_def)
  have "refers demo_procs 5 (dict_object [1, 2] [3, 4] 0)" "refers demo_procs 8 (dict_object [1, 2] [6, 7] 0)"
    "refs_to demo_procs [1, 2] [PString ''pid'', PString ''name'']" "refs_to demo_procs [3, 4] [PInteger 9, PString ''b'']"
    "refs_to demo_procs [6, 7] [PInteger 2, PString ''a'']"
    by (simp_all add: demo_procs_def refers_def refs_to_def)
  then show "list_all2 (dict_at demo_procs) [5, 8] [[(''pid'', PInteger 9), (''name'', PString ''b'')], [(''pid'', PInteger 2), (''name'', PString ''a'')]]"
    by (auto simp: dict_at_def)
qed simp

end
