(* ===== verification/Perf.thy ===== *)
theory Perf
  imports Nska
begin

text \<open>
  The performance monitor, \<open>src/src/bin/ios/cmd/perf.rs\<close>: the configuration archive, one sample over
  a DTX connection, the search for a snapshot in a message and its fields. The decoder of archives
  is that of theory Nska. Floating-point numbers are kept as their bits; the operations the
  code uses on them are the parameter \<open>F\<close>. The messages of the two channels reach the loop through
  forwarding threads in some order: they are a list of events. Multiplications wrap as in a release
  build. The display is not modelled.
\<close>

section \<open>The configuration\<close>

definition FALLBACK_PROC_ATTRS :: "string list" where
  "FALLBACK_PROC_ATTRS = [''memVirtualSize'', ''cpuUsage'', ''ctxSwitch'', ''intWakeups'', ''physFootprint'', ''memResidentSize'',
     ''memAnon'', ''pid'', ''ppid'', ''name'']"

definition FALLBACK_SYS_ATTRS :: "string list" where
  "FALLBACK_SYS_ATTRS = [''physMemSize'', ''vmUsedCount'', ''vmFreeCount'', ''__vmSwapUsage'', ''diskBytesRead'', ''diskBytesWritten'',
     ''netBytesIn'', ''netBytesOut'', ''threadCount'']"

definition make_arr :: "nat \<Rightarrow> string list \<Rightarrow> objects \<Rightarrow> nat \<times> objects" where
  "make_arr cls ss os = (let (ns, os) = push_strs ss os in push (arr_object ns cls) os)"

definition interval_ns :: "u64 \<Rightarrow> int" where
  "interval_ns interval_ms = sint (interval_ms * 1000000)"

definition perf_config_table :: "u64 \<Rightarrow> string list \<Rightarrow> string list \<Rightarrow> nat \<times> objects" where
  "perf_config_table interval_ms proc_attrs sys_attrs =
    (let (cls_dict, os) = push_class ''NSMutableDictionary'' [''NSDictionary'', ''NSObject''] null_objects;
         (cls_array, os) = push_class ''NSArray'' [''NSObject''] os;
         (v_ur, os) = push (PInteger 1) os;
         (v_bm, os) = push (PInteger 0) os;
         (v_si, os) = push (PInteger (interval_ns interval_ms)) os;
         (v_true, os) = push (PBoolean True) os;
         (v_proc, os) = make_arr cls_array proc_attrs os;
         (v_sys, os) = make_arr cls_array sys_attrs os;
         (ks, os) = push_strs [''ur'', ''bm'', ''sampleInterval'', ''cpuUsage'', ''physFootprint'', ''procAttrs'', ''sysAttrs''] os
     in push (dict_object ks [v_ur, v_bm, v_si, v_true, v_true, v_proc, v_sys] cls_dict) os)"

definition build_config :: "(pvalue \<Rightarrow> bytes) \<Rightarrow> u64 \<Rightarrow> string list \<Rightarrow> string list \<Rightarrow> bytes" where
  "build_config bin interval_ms proc_attrs sys_attrs =
    (let (root, os) = perf_config_table interval_ms proc_attrs sys_attrs in bin (skeleton os root))"

section \<open>Snapshots\<close>

record f64_ops =
  f_zero :: u64
  f_max0 :: "u64 \<Rightarrow> u64"
  f_of_int :: "int \<Rightarrow> u64"
  f_less :: "u64 \<Rightarrow> u64 \<Rightarrow> bool"

record ProcSnap =
  ps_pid :: u32
  ps_name :: string
  ps_cpu :: u64
  ps_phys :: u64
  ps_virt :: u64

record Snapshot =
  sn_ts :: u64
  sn_cpu_total :: u64
  sn_phys_mem :: u64
  sn_mem_used :: u64
  sn_processes :: "ProcSnap list"

fun as_real :: "pvalue \<Rightarrow> u64 option" where
  "as_real (PReal b) = Some b"
| "as_real _ = None"

definition real_or_int :: "f64_ops \<Rightarrow> pvalue \<Rightarrow> u64 option" where
  "real_or_int F v = (case as_real v of
     Some b \<Rightarrow> Some b
   | None \<Rightarrow> (case as_signed_integer v of
       Some i \<Rightarrow> Some (f_of_int F i)
     | None \<Rightarrow> map_option (\<lambda>u. f_of_int F (uint u)) (as_unsigned_integer v)))"

definition attr_index :: "pvalue list \<Rightarrow> string \<Rightarrow> nat option" where
  "attr_index schema name = List.find (\<lambda>i. as_string (schema ! i) = Some name) [0..<length schema]"

definition get_at :: "'a list \<Rightarrow> nat \<Rightarrow> 'a option" where
  "get_at xs i = (if i < length xs then Some (xs ! i) else None)"

definition opt_or :: "'a option \<Rightarrow> 'a \<Rightarrow> 'a" where
  "opt_or x d = (case x of Some v \<Rightarrow> v | None \<Rightarrow> d)"

definition PAGE :: u64 where "PAGE = 16384"

definition sys_lookup :: "pdictionary \<Rightarrow> string \<Rightarrow> u64" where
  "sys_lookup dict key = opt_or (Option.bind (Option.bind (dget dict ''SystemAttributes'') as_array) (\<lambda>s.
     Option.bind (Option.bind (dget dict ''System'') as_array) (\<lambda>v.
     Option.bind (attr_index s key) (\<lambda>i. Option.bind (get_at v i) as_unsigned_integer)))) 0"

definition memory_of :: "pdictionary \<Rightarrow> u64 \<times> u64" where
  "memory_of dict =
    (let phys = sys_lookup dict ''physMemSize''; used = sys_lookup dict ''vmUsedCount''; free = sys_lookup dict ''vmFreeCount''
     in (if 0 < phys then phys * PAGE else opt_or (Option.bind (dget dict ''physMemory'') as_unsigned_integer) 0,
         if 0 < used + free then used * PAGE else 0))"

text \<open>\<open>usize::MAX\<close> stands for an absent column: no row is that long.\<close>

definition proc_row :: "f64_ops \<Rightarrow> pvalue list \<Rightarrow> pvalue list \<Rightarrow> ProcSnap" where
  "proc_row F schema arr =
    (let i_cpu = opt_or (attr_index schema ''cpuUsage'') 1;
         i_phys = (case attr_index schema ''physFootprint'' of Some i \<Rightarrow> i | None \<Rightarrow> opt_or (attr_index schema ''memPhysFootprint'') 4);
         i_virt = opt_or (attr_index schema ''memVirtualSize'') 0
     in \<lparr>ps_pid = (case Option.bind (attr_index schema ''pid'') (get_at arr) of
            Some v \<Rightarrow> ucast (opt_or (as_unsigned_integer v) 0) | None \<Rightarrow> 0),
         ps_name = (case Option.bind (attr_index schema ''name'') (get_at arr) of Some v \<Rightarrow> opt_or (as_string v) ''?'' | None \<Rightarrow> ''?''),
         ps_cpu = opt_or (Option.bind (get_at arr i_cpu) (real_or_int F)) (f_zero F),
         ps_phys = opt_or (Option.bind (get_at arr i_phys) as_unsigned_integer) 0,
         ps_virt = opt_or (Option.bind (get_at arr i_virt) as_unsigned_integer) 0\<rparr>)"

text \<open>A stable sort, the busiest process first; two readings that do not compare keep their order.\<close>

fun insert_busy :: "f64_ops \<Rightarrow> ProcSnap \<Rightarrow> ProcSnap list \<Rightarrow> ProcSnap list" where
  "insert_busy F p [] = [p]"
| "insert_busy F p (q # qs) = (if f_less F (ps_cpu p) (ps_cpu q) then q # insert_busy F p qs else p # q # qs)"

definition sort_busy :: "f64_ops \<Rightarrow> ProcSnap list \<Rightarrow> ProcSnap list" where
  "sort_busy F ps = foldr (insert_busy F) ps []"

definition processes_of :: "f64_ops \<Rightarrow> pdictionary \<Rightarrow> ProcSnap list" where
  "processes_of F dict = (case (Option.bind (dget dict ''ProcessesAttributes'') as_array, Option.bind (dget dict ''Processes'') as_dictionary) of
     (Some schema, Some procs) \<Rightarrow> sort_busy F (List.map_filter (\<lambda>kv. map_option (proc_row F schema) (as_array (snd kv))) procs)
   | _ \<Rightarrow> [])"

definition try_parse_snapshot :: "f64_ops \<Rightarrow> u64 \<Rightarrow> pvalue \<Rightarrow> Snapshot option" where
  "try_parse_snapshot F now v = (case as_dictionary v of
     None \<Rightarrow> None
   | Some dict \<Rightarrow>
       if dget dict ''SystemCPUUsage'' = None \<and> dget dict ''Processes'' = None then None
       else Some \<lparr>sn_ts = now,
         sn_cpu_total = f_max0 F (opt_or (Option.bind (Option.bind (Option.bind (dget dict ''SystemCPUUsage'') as_dictionary)
           (\<lambda>d. dget d ''CPU_TotalLoad'')) as_real) (f_zero F)),
         sn_phys_mem = fst (memory_of dict), sn_mem_used = snd (memory_of dict), sn_processes = processes_of F dict\<rparr>)"

definition first_some :: "('a \<Rightarrow> 'b option) \<Rightarrow> 'a list \<Rightarrow> 'b option" where
  "first_some f xs = (case List.map_filter f xs of [] \<Rightarrow> None | y # _ \<Rightarrow> Some y)"

text \<open>
  In these searches the outer \<open>None\<close> is the stack overflow of the decoder. A reference that is
  missing or not one ends the whole search, as \<open>?\<close> does.
\<close>

fun nska_try_items :: "(pvalue \<Rightarrow> string) \<Rightarrow> nat \<Rightarrow> f64_ops \<Rightarrow> u64 \<Rightarrow> objects \<Rightarrow> pvalue list \<Rightarrow> Snapshot option option" where
  "nska_try_items dbg d F now os [] = Some None"
| "nska_try_items dbg d F now os (PUid n # is) =
    (if n < length os then
       (case nska_decode_value dbg d os (os ! n) of
          None \<Rightarrow> None
        | Some x \<Rightarrow> (case try_parse_snapshot F now x of Some s \<Rightarrow> Some (Some s) | None \<Rightarrow> nska_try_items dbg d F now os is))
     else Some None)"
| "nska_try_items dbg d F now os (_ # is) = Some None"

definition nska_try_array :: "(pvalue \<Rightarrow> string) \<Rightarrow> nat \<Rightarrow> f64_ops \<Rightarrow> u64 \<Rightarrow> objects \<Rightarrow> pvalue \<Rightarrow> Snapshot option option" where
  "nska_try_array dbg d F now os v = (case Option.bind (Option.bind (as_dictionary v) (\<lambda>k. dget k ''NS.objects'')) as_array of
     None \<Rightarrow> Some None | Some arr \<Rightarrow> nska_try_items dbg d F now os arr)"

definition nska_extract_snapshot :: "(pvalue \<Rightarrow> string) \<Rightarrow> nat \<Rightarrow> f64_ops \<Rightarrow> u64 \<Rightarrow> pvalue \<Rightarrow> Snapshot option option" where
  "nska_extract_snapshot dbg d F now v = (case archive_root v of
     None \<Rightarrow> Some None
   | Some (os, n) \<Rightarrow> (case nska_decode_value dbg d os (os ! n) of
       None \<Rightarrow> None
     | Some (PDictionary kvs) \<Rightarrow> Some (try_parse_snapshot F now (PDictionary kvs))
     | Some (PArray arr) \<Rightarrow> (case first_some (try_parse_snapshot F now) arr of
         Some s \<Rightarrow> Some (Some s) | None \<Rightarrow> nska_try_array dbg d F now os (os ! n))
     | Some _ \<Rightarrow> Some None))"

definition snapshot_in :: "(pvalue \<Rightarrow> string) \<Rightarrow> nat \<Rightarrow> f64_ops \<Rightarrow> u64 \<Rightarrow> pvalue \<Rightarrow> Snapshot option option" where
  "snapshot_in dbg d F now v = (case try_parse_snapshot F now v of
     Some s \<Rightarrow> Some (Some s) | None \<Rightarrow> nska_extract_snapshot dbg d F now v)"

fun snapshot_in_all :: "(pvalue \<Rightarrow> string) \<Rightarrow> nat \<Rightarrow> f64_ops \<Rightarrow> u64 \<Rightarrow> pvalue list \<Rightarrow> Snapshot option option" where
  "snapshot_in_all dbg d F now [] = Some None"
| "snapshot_in_all dbg d F now (v # vs) = (case snapshot_in dbg d F now v of
     None \<Rightarrow> None | Some (Some s) \<Rightarrow> Some (Some s) | Some None \<Rightarrow> snapshot_in_all dbg d F now vs)"

definition aux_plists :: "(bytes \<Rightarrow> pvalue option) \<Rightarrow> AuxValue list \<Rightarrow> pvalue list" where
  "aux_plists parse aux = List.map_filter (\<lambda>a. case a of ABytes b \<Rightarrow> parse b | _ \<Rightarrow> None) aux"

definition extract_snapshot :: "(bytes \<Rightarrow> pvalue option) \<Rightarrow> (pvalue \<Rightarrow> string) \<Rightarrow> nat \<Rightarrow> f64_ops \<Rightarrow> u64 \<Rightarrow> dtx_message \<Rightarrow> Snapshot option option" where
  "extract_snapshot parse dbg d F now m =
    snapshot_in_all dbg d F now ((case dm_payload m of Some v \<Rightarrow> [v] | None \<Rightarrow> []) @ aux_plists parse (dm_aux m))"

section \<open>One sample\<close>

text \<open>What the loop sees: a message at some time, no message before the wait ran out, or the deadline.\<close>

datatype tap_event = TapMsg u64 dtx_message | TapGone | TapLate

definition ignoring :: "'a dtx \<Rightarrow> dtx_conn \<Rightarrow> dtx_conn" where
  "ignoring m c = snd (m c)"

fun sample_loop :: "(pvalue \<Rightarrow> bytes) \<Rightarrow> (dtx_message \<Rightarrow> u64 \<Rightarrow> Snapshot option option) \<Rightarrow> u32 \<Rightarrow> tap_event list \<Rightarrow>
    (dtx_conn, string, Snapshot) prog" where
  "sample_loop bin extract tap [] c = (Err ''connection closed without snapshot'', ignoring (call_async bin tap ''stop'' []) c)"
| "sample_loop bin extract tap (TapLate # es) c = (Err ''no snapshot within 20s'', ignoring (call_async bin tap ''stop'' []) c)"
| "sample_loop bin extract tap (TapGone # es) c = (Err ''connection closed without snapshot'', ignoring (call_async bin tap ''stop'' []) c)"
| "sample_loop bin extract tap (TapMsg now m # es) c =
    (let c = (if dm_expects_reply m then ignoring (dtx_ack m) c else c)
     in case extract m now of
       None \<Rightarrow> (Panic, c)
     | Some (Some s) \<Rightarrow> (Ok s, ignoring (call_async bin tap ''stop'' []) c)
     | Some None \<Rightarrow> sample_loop bin extract tap es c)"

text \<open>The device information channel is asked for, and its two queries are sent, without looking at the results.\<close>

definition device_info_queries :: "(pvalue \<Rightarrow> bytes) \<Rightarrow> (bytes \<Rightarrow> pvalue option) \<Rightarrow> nat \<Rightarrow> (dtx_conn, string, unit) prog" where
  "device_info_queries bin parse n c =
    (case request_channel bin parse n ''com.apple.instruments.server.services.deviceinfo'' c of
       (Ok di, c1) \<Rightarrow> (Ok (), ignoring (call_async bin di ''sysmonSystemAttributes'' []) (ignoring (call_async bin di ''sysmonProcessAttributes'' []) c1))
     | (Err _, c1) \<Rightarrow> (Ok (), c1)
     | (Panic, c1) \<Rightarrow> (Panic, c1))"

definition sample_once :: "(pvalue \<Rightarrow> bytes) \<Rightarrow> (bytes \<Rightarrow> pvalue option) \<Rightarrow> nat \<Rightarrow> (dtx_message \<Rightarrow> u64 \<Rightarrow> Snapshot option option) \<Rightarrow>
    bytes \<Rightarrow> tap_event list \<Rightarrow> (dtx_conn, string, Snapshot) prog" where
  "sample_once bin parse n extract config es =
    bnd (on_err (\<lambda>_. ''handshake'') (dtx_handshake bin)) (\<lambda>_.
    bnd (device_info_queries bin parse n) (\<lambda>_.
    bnd (on_err (\<lambda>_. ''sysmontap channel'') (request_channel bin parse n ''com.apple.instruments.server.services.sysmontap'')) (\<lambda>tap.
    bnd (\<lambda>c. (Ok (), snd (register_channel (- tap) (snd (register_channel tap c))))) (\<lambda>_.
    bnd (on_err (\<lambda>_. ''setConfig'') (call_async bin tap ''setConfig:'' [ABytes config])) (\<lambda>_.
    bnd (on_err (\<lambda>_. ''start'') (call_async bin tap ''start'' [])) (\<lambda>_.
      sample_loop bin extract tap es))))))"

text \<open>One turn of the outer loop: how long it waits first, and the failures in a row after it.\<close>

definition backoff_ms :: "u32 \<Rightarrow> nat" where
  "backoff_ms failures = (if 0 < failures then 500 * 2 ^ min (unat failures) 4 else 0)"

definition failures_after :: "('e, 'a) outcome \<Rightarrow> u32 \<Rightarrow> u32" where
  "failures_after r failures = (case r of Ok _ \<Rightarrow> 0 | Err _ \<Rightarrow> failures + 1 | Panic \<Rightarrow> failures)"


section \<open>What a configuration says\<close>

text \<open>The position decodes to this value, at every depth from four.\<close>

definition decodes :: "objects \<Rightarrow> nat \<Rightarrow> pvalue \<Rightarrow> bool" where
  "decodes os n x \<longleftrightarrow> n < length os \<and> (\<forall>dbg d. nska_decode_value dbg (Suc (Suc (Suc (Suc d)))) os (PUid n) = Some x)"

lemma decodes_scalar: "refers os n v \<Longrightarrow> scalar v \<Longrightarrow> decodes os n v"
  by (simp add: decodes_def decode_ref refers_less)

interpretation pval: builder "push v" "\<lambda>_. scalar v" "\<lambda>os n. decodes os n v" for v
proof
  fix os n os'
  assume os: "os \<noteq> []" "scalar v" "push v os = (n, os')"
  then have u: "uids v = []" by (cases v) simp_all
  with os have p: "grows os os'" "refers os' n v" by (auto elim!: push_grows)
  then show "grows os os'" by simp
  show "decodes os'' n v" if "grows os' os''" for os''
    using refers_grows [OF p(2) that] os(2) by (rule decodes_scalar)
qed

interpretation parr: builder "make_arr cls ss" "\<lambda>os. cls < length os" "\<lambda>os n. decodes os n (PArray (map PString ss))" for cls ss
proof
  fix os n os'
  assume os: "os \<noteq> []" "cls < length os" "make_arr cls ss os = (n, os')"
  obtain ns os1 where s: "push_strs ss os = (ns, os1)" by (cases "push_strs ss os")
  note g = push_strs_grows [OF s os(1)]
  have p: "push (arr_object ns cls) os1 = (n, os')" using os(3) s by (simp add: make_arr_def)
  have "length os \<le> length os1" using g by (auto simp: grows_def prefix_def)
  then have "\<forall>m\<in>set (uids (arr_object ns cls)). m < length os1"
    using os(2) g refs_to_less by (auto simp: arr_object_def pdict_distinct)
  then have q: "grows os1 os'" "refers os' n (arr_object ns cls)" using p grows_nonempty g by (auto elim!: push_grows)
  show "grows os os'" using g q(1) grows_trans by blast
  show "decodes os'' n (PArray (map PString ss))" if g2: "grows os' os''" for os''
  proof -
    have "refs_to os'' ns (map PString ss)" using g q(1) g2 by (blast intro: refs_to_grows)
    then have "list_all2 (\<lambda>n x. nska_decode_value dbg (Suc (Suc d)) os'' (PUid n) = Some x) ns (map PString ss)" for dbg d
      by (rule refs_to_decode) (simp add: list_all_iff)
    moreover have r: "refers os'' n (arr_object ns cls)" using q(2) g2 by (rule refers_grows)
    ultimately show ?thesis by (simp add: decodes_def decode_ref refers_less decode_arr)
  qed
qed


definition CONFIG_KEYS :: "string list" where
  "CONFIG_KEYS = [''ur'', ''bm'', ''sampleInterval'', ''cpuUsage'', ''physFootprint'', ''procAttrs'', ''sysAttrs'']"

definition config_values :: "u64 \<Rightarrow> string list \<Rightarrow> string list \<Rightarrow> pvalue list" where
  "config_values ms ps ss = [PInteger 1, PInteger 0, PInteger (interval_ns ms), PBoolean True, PBoolean True,
     PArray (map PString ps), PArray (map PString ss)]"

lemma two_classes:
  "push_class n1 s1 null_objects = (1, [PString ''$null'', class_dict n1 s1])"
  "push_class n2 s2 [PString ''$null'', class_dict n1 s1] = (2, [PString ''$null'', class_dict n1 s1, class_dict n2 s2])"
  by (simp_all add: push_class_def push_def null_objects_def)

lemma grows_length: "grows os os' \<Longrightarrow> n < length os \<Longrightarrow> n < length os'"
  by (auto simp: grows_def prefix_def)

lemma dict_of_decodes:
  assumes "refers os n (dict_object ks vs c)" and "refs_to os ks (map PString ss)" and "list_all2 (decodes os) vs xs" and "length ss = length xs"
  shows "nska_decode_value dbg (Suc (Suc (Suc (Suc (Suc (Suc d)))))) os (PUid n) = Some (pdict (zip ss xs))"
proof -
  have "list_all2 (\<lambda>n x. nska_decode_value dbg (Suc (Suc (Suc (Suc d)))) os (PUid n) = Some x) ks (map PString ss)"
    using assms(2) by (rule refs_to_decode) (simp add: list_all_iff)
  then have k: "list_all2 (\<lambda>n s. nska_decode_value dbg (Suc (Suc (Suc (Suc d)))) os (PUid n) = Some (PString s)) ks ss"
    by (simp add: list_all2_conv_all_nth)
  have v: "list_all2 (\<lambda>n x. nska_decode_value dbg (Suc (Suc (Suc (Suc d)))) os (PUid n) = Some x) vs xs"
    using assms(3) by (simp add: list_all2_conv_all_nth decodes_def)
  have "length ks = length vs" using assms(2-4) by (auto simp: refs_to_def dest!: list_all2_lengthD)
  from decode_dict [OF k v this] show ?thesis by (simp add: decode_ref [OF assms(1)])
qed

text \<open>
  The sampling configuration is a well-formed archive: every reference is inside the table, and
  decoding it gives back the interval in nanoseconds, the switches and the two attribute lists.
\<close>

theorem sysmontap_config_reads_back:
  assumes "perf_config_table ms ps ss = (root, os)"
  shows "closed_table os \<and> root < length os \<and>
    nska_decode_value dbg (Suc (Suc (Suc (Suc (Suc (Suc d)))))) os (PUid root) = Some (PDictionary (zip CONFIG_KEYS (config_values ms ps ss)))"
proof -
  define o2 where "o2 = [PString ''$null'', class_dict ''NSMutableDictionary'' [''NSDictionary'', ''NSObject''], class_dict ''NSArray'' [''NSObject'']]"
  have c2: "closed_table o2" "o2 \<noteq> []" "length o2 = 3" by (simp_all add: o2_def closed_table_def)
  obtain u o3 where 3: "push (PInteger 1) o2 = (u, o3)" "grows o2 o3" "\<forall>o'. grows o3 o' \<longrightarrow> decodes o' u (PInteger 1)"
    using pval.build_step [OF c2(2), of "PInteger 1"] by auto
  obtain b o4 where 4: "push (PInteger 0) o3 = (b, o4)" "grows o3 o4" "\<forall>o'. grows o4 o' \<longrightarrow> decodes o' b (PInteger 0)"
    using pval.build_step [OF grows_nonempty [OF 3(2)], of "PInteger 0"] by auto
  obtain i o5 where 5: "push (PInteger (interval_ns ms)) o4 = (i, o5)" "grows o4 o5" "\<forall>o'. grows o5 o' \<longrightarrow> decodes o' i (PInteger (interval_ns ms))"
    using pval.build_step [OF grows_nonempty [OF 4(2)], of "PInteger (interval_ns ms)"] by auto
  obtain t o6 where 6: "push (PBoolean True) o5 = (t, o6)" "grows o5 o6" "\<forall>o'. grows o6 o' \<longrightarrow> decodes o' t (PBoolean True)"
    using pval.build_step [OF grows_nonempty [OF 5(2)], of "PBoolean True"] by auto
  have g6: "grows o2 o6" using 3(2) 4(2) 5(2) 6(2) by (blast intro: grows_trans)
  then have "2 < length o6" by (rule grows_length) (simp add: c2)
  then obtain p o7 where 7: "make_arr 2 ps o6 = (p, o7)" "grows o6 o7" "\<forall>o'. grows o7 o' \<longrightarrow> decodes o' p (PArray (map PString ps))"
    using parr.build_step [OF grows_nonempty [OF 6(2)], of 2 ps] by blast
  have "2 < length o7" using 7(2) \<open>2 < length o6\<close> by (rule grows_length)
  then obtain s o8 where 8: "make_arr 2 ss o7 = (s, o8)" "grows o7 o8" "\<forall>o'. grows o8 o' \<longrightarrow> decodes o' s (PArray (map PString ss))"
    using parr.build_step [OF grows_nonempty [OF 7(2)], of 2 ss] by blast
  obtain ks o9 where k: "push_strs CONFIG_KEYS o8 = (ks, o9)" by (metis prod.exhaust)
  have 9: "grows o8 o9" "refs_to o9 ks (map PString CONFIG_KEYS)" using push_strs_grows [OF k grows_nonempty [OF 8(2)]] by simp_all
  let ?vs = "[u, b, i, t, t, p, s]"
  have r: "push (dict_object ks ?vs 1) o9 = (root, os)"
    using assms by (simp add: perf_config_table_def two_classes Let_def 3(1) 4(1) 5(1) 6(1) 7(1) 8(1) k
        o2_def [symmetric] CONFIG_KEYS_def [symmetric])
  have dec: "list_all2 (decodes o') ?vs (config_values ms ps ss)" if "grows o9 o'" for o'
  proof -
    have g: "grows o8 o'" "grows o7 o'" "grows o6 o'" "grows o5 o'" "grows o4 o'" "grows o3 o'"
      using that 9(1) 8(2) 7(2) 6(2) 5(2) 4(2) by (blast intro: grows_trans)+
    then show ?thesis using 3(3) 4(3) 5(3) 6(3) 7(3) 8(3) by (simp add: config_values_def)
  qed
  have g9: "grows o2 o9" using g6 7(2) 8(2) 9(1) by (blast intro: grows_trans)
  have "\<forall>m\<in>set ?vs. m < length o9" using dec [OF grows_refl [OF grows_nonempty [OF 9(1)]]] by (auto simp: decodes_def config_values_def)
  moreover have "1 < length o9" using g9 by (rule grows_length) (simp add: c2)
  ultimately have "\<forall>m\<in>set (uids (dict_object ks ?vs 1)). m < length o9" using refs_to_less [OF 9(2)] by auto
  then have f: "grows o9 os" "refers os root (dict_object ks ?vs 1)" using push_grows [OF r grows_nonempty [OF 9(1)]] by simp_all
  have "closed_table os" using g9 f(1) c2(1) by (auto simp: grows_def)
  moreover have "nska_decode_value dbg (Suc (Suc (Suc (Suc (Suc (Suc d)))))) os (PUid root) = Some (pdict (zip CONFIG_KEYS (config_values ms ps ss)))"
    using f(2) refs_to_grows [OF 9(2) f(1)] dec [OF f(1)] by (rule dict_of_decodes) (simp add: CONFIG_KEYS_def config_values_def)
  moreover have "pdict (zip CONFIG_KEYS (config_values ms ps ss)) = PDictionary (zip CONFIG_KEYS (config_values ms ps ss))"
    by (rule pdict_distinct) (simp add: CONFIG_KEYS_def config_values_def)
  ultimately show ?thesis using refers_less [OF f(2)] by simp
qed

theorem sysmontap_config_reads_back_witness:
  "nska_decode_value (\<lambda>_. []) 6 (snd (perf_config_table 500 [''pid''] [])) (PUid (fst (perf_config_table 500 [''pid''] []))) =
    Some (PDictionary (zip CONFIG_KEYS (config_values 500 [''pid''] [])))"
  using sysmontap_config_reads_back [of 500 "[''pid'']" "[]" "fst (perf_config_table 500 [''pid''] [])" "snd (perf_config_table 500 [''pid''] [])"
      "\<lambda>_. []" 0] by (simp add: numeral_eq_Suc)


section \<open>A sample on the wire\<close>

text \<open>The messages the loop takes, and how it ends, when no decoding overflows.\<close>

fun tap_ref :: "(dtx_message \<Rightarrow> u64 \<Rightarrow> Snapshot option option) \<Rightarrow> tap_event list \<Rightarrow> dtx_message list \<times> (string, Snapshot) outcome" where
  "tap_ref extract [] = ([], Err ''connection closed without snapshot'')"
| "tap_ref extract (TapLate # es) = ([], Err ''no snapshot within 20s'')"
| "tap_ref extract (TapGone # es) = ([], Err ''connection closed without snapshot'')"
| "tap_ref extract (TapMsg now m # es) = (case extract m now of
     Some (Some s) \<Rightarrow> ([m], Ok s)
   | _ \<Rightarrow> (case tap_ref extract es of (ms, r) \<Rightarrow> (m # ms, r)))"

definition ack_bytes :: "dtx_message \<Rightarrow> bytes" where
  "ack_bytes m = (if dm_expects_reply m then encode_ack m else [])"

lemma ignoring_ack:
  assumes "room (dx_sock c) = None"
  shows "outp (dx_sock (ignoring (dtx_ack m) c)) = outp (dx_sock c) @ encode_ack m"
    and "room (dx_sock (ignoring (dtx_ack m) c)) = None" and "dx_next_id (ignoring (dtx_ack m) c) = dx_next_id c"
  using assms by (simp_all add: ignoring_def dtx_ack_def write_bytes_def on_err_def)

lemma ignoring_async:
  assumes "room (dx_sock c) = None"
  shows "outp (dx_sock (ignoring (call_async bin ch sel aux) c)) = outp (dx_sock c) @ encode_call bin (dx_next_id c) 0 ch False sel aux"
  using assms by (simp add: ignoring_def call_async_def dtx_alloc_id_def write_bytes_def on_err_def)

text \<open>
  C31: One sample: the loop takes messages until one holds a snapshot, the wait runs out or the deadline
  passes; each message that wants a reply is acknowledged once, in order, and whatever the end,
  the tap is told to stop exactly once, as the last thing sent.
\<close>

theorem sample_conversation:
  assumes "sample_loop bin extract tap es c = (r, c')" and "room (dx_sock c) = None"
    and "\<forall>now m. TapMsg now m \<in> set es \<longrightarrow> extract m now \<noteq> None" and "tap_ref extract es = (ms, q)"
  shows "r = q \<and> outp (dx_sock c') = outp (dx_sock c) @ concat (map ack_bytes ms) @ encode_call bin (dx_next_id c) 0 tap False ''stop'' []"
  using assms
proof (induction es arbitrary: c ms)
  case Nil
  then show ?case by (auto simp: ignoring_async)
next
  case (Cons e es)
  show ?case
  proof (cases e)
    case (TapMsg now m)
    define c1 where "c1 = (if dm_expects_reply m then ignoring (dtx_ack m) c else c)"
    have c1: "outp (dx_sock c1) = outp (dx_sock c) @ ack_bytes m" "room (dx_sock c1) = None" "dx_next_id c1 = dx_next_id c"
      using ignoring_ack [OF Cons.prems(2), of m] Cons.prems(2) by (simp_all add: c1_def ack_bytes_def)
    obtain x where x: "extract m now = Some x" using Cons.prems(3) TapMsg by auto
    show ?thesis
    proof (cases x)
      case None
      then have l: "sample_loop bin extract tap es c1 = (r, c')" using Cons.prems(1) x TapMsg by (simp add: c1_def)
      obtain ms1 where m1: "tap_ref extract es = (ms1, q)" "ms = m # ms1"
        using Cons.prems(4) x None TapMsg by (auto split: prod.splits)
      have "\<forall>now m. TapMsg now m \<in> set es \<longrightarrow> extract m now \<noteq> None" using Cons.prems(3) by simp
      from Cons.IH [OF l c1(2) this m1(1)] show ?thesis by (simp add: c1 m1(2))
    next
      case (Some s)
      then show ?thesis using Cons.prems(1,4) x TapMsg ignoring_async [OF c1(2)] by (auto simp: c1_def [symmetric] c1)
    qed
  qed (use Cons.prems in \<open>auto simp: ignoring_async\<close>)
qed

definition demo_ops :: f64_ops where
  "demo_ops = \<lparr>f_zero = 0, f_max0 = (\<lambda>x. x), f_of_int = word_of_int, f_less = (\<lambda>a b. a < b)\<rparr>"

definition demo_snap_msg :: "bool \<Rightarrow> dtx_message" where
  "demo_snap_msg b = \<lparr>dm_msg_id = 9, dm_conv_id = 0, dm_channel = 1, dm_expects_reply = True, dm_msg_type = 2, dm_aux = [],
     dm_payload = Some (if b then PDictionary [(''Processes'', PDictionary [])] else PInteger 1)\<rparr>"

definition demo_extract :: "dtx_message \<Rightarrow> u64 \<Rightarrow> Snapshot option option" where
  "demo_extract m now = extract_snapshot pv_parse (\<lambda>_. []) 4 demo_ops now m"

theorem sample_conversation_witness:
  "outp (dx_sock (snd (sample_loop pv_enc demo_extract 2 [TapMsg 1 (demo_snap_msg False), TapMsg 2 (demo_snap_msg True)] (dtx_new (demo_sock []))))) =
    encode_ack (demo_snap_msg False) @ encode_ack (demo_snap_msg True) @ encode_call pv_enc 5 0 2 False ''stop'' []"
proof -
  let ?es = "[TapMsg 1 (demo_snap_msg False), TapMsg 2 (demo_snap_msg True)]" and ?c = "dtx_new (demo_sock [])"
  have e: "demo_extract (demo_snap_msg False) 1 = Some None" "\<exists>s. demo_extract (demo_snap_msg True) 2 = Some (Some s)"
    by (simp_all add: demo_extract_def extract_snapshot_def demo_snap_msg_def snapshot_in_def try_parse_snapshot_def
        nska_extract_snapshot_def archive_root_def aux_plists_def map_filter_simps)
  then obtain s where s: "demo_extract (demo_snap_msg True) 2 = Some (Some s)" by blast
  have "tap_ref demo_extract ?es = ([demo_snap_msg False, demo_snap_msg True], Ok s)" by (simp add: e s)
  then have "outp (dx_sock (snd (sample_loop pv_enc demo_extract 2 ?es ?c))) = outp (dx_sock ?c) @
      concat (map ack_bytes [demo_snap_msg False, demo_snap_msg True]) @ encode_call pv_enc (dx_next_id ?c) 0 2 False ''stop'' []"
    using sample_conversation [of pv_enc demo_extract 2 ?es ?c "fst (sample_loop pv_enc demo_extract 2 ?es ?c)"
        "snd (sample_loop pv_enc demo_extract 2 ?es ?c)" "[demo_snap_msg False, demo_snap_msg True]" "Ok s"] e s
    by (simp add: dtx_new_def Dtx.demo_sock_def)
  then show ?thesis by (simp add: dtx_new_def Dtx.demo_sock_def ack_bytes_def demo_snap_msg_def)
qed

text \<open>The pause between samples doubles with every failure in a row, from one second to eight.\<close>

lemma backoff_bounds: "0 < failures \<Longrightarrow> 1000 \<le> backoff_ms failures \<and> backoff_ms failures \<le> 8000"
proof -
  assume "0 < failures"
  then have "1 \<le> unat failures" by (simp add: word_less_nat_alt Suc_le_eq)
  then have "min (unat failures) 4 \<in> {1, 2, 3, 4}" by auto
  then show ?thesis using \<open>0 < failures\<close> by (auto simp: backoff_ms_def)
qed

text \<open>The processes of a snapshot are the rows of its table, in order of their load when the readings are comparable.\<close>

lemma insert_busy_set: "set (insert_busy F p qs) = insert p (set qs)" "length (insert_busy F p qs) = Suc (length qs)"
  by (induction qs) auto

lemma sort_busy_perm: "set (sort_busy F ps) = set ps" "length (sort_busy F ps) = length ps"
  by (induction ps) (simp_all add: sort_busy_def insert_busy_set)

lemma insert_busy_sorted:
  assumes "\<And>a b c. \<not> f_less F a b \<Longrightarrow> \<not> f_less F b c \<Longrightarrow> \<not> f_less F a c" and "\<And>a b. f_less F a b \<Longrightarrow> \<not> f_less F b a"
    and "sorted_wrt (\<lambda>p q. \<not> f_less F (ps_cpu p) (ps_cpu q)) qs"
  shows "sorted_wrt (\<lambda>p q. \<not> f_less F (ps_cpu p) (ps_cpu q)) (insert_busy F p qs)"
  using assms(3)
proof (induction qs)
  case (Cons q qs)
  show ?case
  proof (cases "f_less F (ps_cpu p) (ps_cpu q)")
    case True
    then have "\<not> f_less F (ps_cpu q) (ps_cpu p)" by (rule assms(2))
    then show ?thesis using Cons True by (simp add: insert_busy_set)
  next
    case False
    have "\<not> f_less F (ps_cpu p) (ps_cpu r)" if "r \<in> set qs" for r
      using assms(1) [OF False, of "ps_cpu r"] Cons.prems that by simp
    with Cons.prems False show ?thesis by simp
  qed
qed simp

lemma sort_busy_sorted:
  assumes "\<And>a b c. \<not> f_less F a b \<Longrightarrow> \<not> f_less F b c \<Longrightarrow> \<not> f_less F a c" and "\<And>a b. f_less F a b \<Longrightarrow> \<not> f_less F b a"
  shows "sorted_wrt (\<lambda>p q. \<not> f_less F (ps_cpu p) (ps_cpu q)) (sort_busy F ps)"
  by (induction ps) (simp_all add: sort_busy_def insert_busy_sorted [OF assms])

end
