(* ===== verification/AfcTree.thy ===== *)
theory AfcTree
  imports Afc "HOL-Library.List_Lexorder" "HOL-Library.Char_ord"
begin

text \<open>
  Copying files and directory trees between the device and the local disk, \<open>pull_file\<close>, \<open>push_file\<close> and
  \<open>put_file_from_path\<close> of \<open>src/src/lockdown/services/afc.rs\<close>, and the commands of
  \<open>src/src/bin/ios/cmd/afc.rs\<close> that use them. The local disk is a map from paths as they are written
  to files and directories, with a schedule of failing operations; a parent that is missing is
  one of these failures. The recursion over directories runs to a depth \<open>d\<close>, whose exhaustion is the
  stack overflow.
\<close>

section \<open>The local disk\<close>

datatype lnode = NFile bytes | NDir

record lfs =
  lf_nodes :: "string \<rightharpoonup> lnode"
  lf_faults :: "nat option list"

type_synonym 'a lfp = "(lfs, afc_error, 'a) prog"

text \<open>The next entry of the schedule: \<open>Some n\<close> makes the operation fail, a write after \<open>n\<close> bytes.\<close>

definition next_fault :: "lfs \<Rightarrow> nat option \<times> lfs" where
  "next_fault f = (case lf_faults f of [] \<Rightarrow> (None, f) | x # r \<Rightarrow> (x, f\<lparr>lf_faults := r\<rparr>))"

fun is_file :: "lnode option \<Rightarrow> bool" where
  "is_file (Some (NFile b)) = True" | "is_file _ = False"

text \<open>
  \<open>create_dir_all\<close> also makes the parents that are missing; the map has no entry for them, since no
  operation here looks at a parent.
\<close>

definition lf_create_dir_all :: "string \<Rightarrow> unit lfp" where
  "lf_create_dir_all p f = (case next_fault f of
     (Some _, f) \<Rightarrow> (Err (AfcLocal ''create_dir''), f)
   | (None, f) \<Rightarrow> if is_file (lf_nodes f p) then (Err (AfcLocal ''create_dir''), f)
       else (Ok (), f\<lparr>lf_nodes := (lf_nodes f)(p \<mapsto> NDir)\<rparr>))"

definition lf_create :: "string \<Rightarrow> unit lfp" where
  "lf_create p f = (case next_fault f of
     (Some _, f) \<Rightarrow> (Err (AfcLocal ''create''), f)
   | (None, f) \<Rightarrow> if lf_nodes f p = Some NDir then (Err (AfcLocal ''create''), f)
       else (Ok (), f\<lparr>lf_nodes := (lf_nodes f)(p \<mapsto> NFile [])\<rparr>))"

definition content :: "lnode option \<Rightarrow> bytes" where
  "content n = (case n of Some (NFile b) \<Rightarrow> b | _ \<Rightarrow> [])"

definition lf_write :: "string \<Rightarrow> bytes \<Rightarrow> unit lfp" where
  "lf_write p bs f = (case next_fault f of
     (Some n, f) \<Rightarrow> (Err (AfcLocal ''write local''), f\<lparr>lf_nodes := (lf_nodes f)(p \<mapsto> NFile (content (lf_nodes f p) @ take n bs))\<rparr>)
   | (None, f) \<Rightarrow> (Ok (), f\<lparr>lf_nodes := (lf_nodes f)(p \<mapsto> NFile (content (lf_nodes f p) @ bs))\<rparr>))"

text \<open>\<open>Path::join\<close>: an absolute name replaces the whole path.\<close>

definition path_join :: "string \<Rightarrow> string \<Rightarrow> string" where
  "path_join p e = (if take 1 e = ''/'' then e else if p = [] \<or> last p = CHR ''/'' then p @ e else p @ ''/'' @ e)"

section \<open>Pulling\<close>

record xfer =
  xf_afc :: afc
  xf_local :: lfs
  xf_progress :: "(u64 \<times> u64) list"

type_synonym 'a xf = "(xfer, afc_error, 'a) prog"

definition on_xafc :: "'a afcp \<Rightarrow> 'a xf" where
  "on_xafc m x = (case m (xf_afc x) of (r, c) \<Rightarrow> (r, x\<lparr>xf_afc := c\<rparr>))"

definition on_local :: "'a lfp \<Rightarrow> 'a xf" where
  "on_local m x = (case m (xf_local x) of (r, l) \<Rightarrow> (r, x\<lparr>xf_local := l\<rparr>))"

fun each :: "('a \<Rightarrow> ('s, 'e, unit) prog) \<Rightarrow> 'a list \<Rightarrow> ('s, 'e, unit) prog" where
  "each f [] = ret ()"
| "each f (y # ys) = bnd (f y) (\<lambda>_. each f ys)"

lemma each_cong [fundef_cong]: "xs = ys \<Longrightarrow> (\<And>y. y \<in> set ys \<Longrightarrow> f y = g y) \<Longrightarrow> each f xs = each g ys"
proof -
  have "(\<And>y. y \<in> set ys \<Longrightarrow> f y = g y) \<Longrightarrow> each f ys = each g ys" by (induction ys) simp_all
  then show "xs = ys \<Longrightarrow> (\<And>y. y \<in> set ys \<Longrightarrow> f y = g y) \<Longrightarrow> each f xs = each g ys" by simp
qed

text \<open>A local write that fails leaves the function without closing the handle, as \<open>?\<close> does there.\<close>

function pull_chunks :: "u64 \<Rightarrow> string \<Rightarrow> u64 \<Rightarrow> u64 \<Rightarrow> unit xf" where
  "pull_chunks h p tot cnt x = (case file_read h READ_CHUNK (xf_afc x) of
     (Ok d, c) \<Rightarrow>
       if d = [] then (Ok (), x\<lparr>xf_afc := c\<rparr>)
       else (case lf_write p d (xf_local x) of
           (Ok _, l) \<Rightarrow> pull_chunks h p tot (cnt + word_of_nat (length d))
             (x\<lparr>xf_afc := c, xf_local := l, xf_progress := xf_progress x @ [(cnt + word_of_nat (length d), tot)]\<rparr>)
         | (Err e, l) \<Rightarrow> (Err e, x\<lparr>xf_afc := c, xf_local := l\<rparr>)
         | (Panic, l) \<Rightarrow> (Panic, x\<lparr>xf_afc := c, xf_local := l\<rparr>))
   | (Err e, c) \<Rightarrow> (case close_and_fail h e c of (r, c') \<Rightarrow> (r, x\<lparr>xf_afc := c'\<rparr>))
   | (Panic, c) \<Rightarrow> (Panic, x\<lparr>xf_afc := c\<rparr>))"
  by pat_completeness auto
termination
  by (relation "measure (\<lambda>(h, p, t, n, x). weight (inp (afc_stream (xf_afc x))))")
    (auto dest!: sym [of _ "file_read _ _ _"] file_read_weight)

declare pull_chunks.simps [simp del]

definition pull_one :: "string \<Rightarrow> string \<Rightarrow> u64 \<Rightarrow> unit xf" where
  "pull_one remote loc tot =
    bnd (on_xafc (file_open_read remote)) (\<lambda>h.
    bnd (on_local (lf_create loc)) (\<lambda>_.
    bnd (pull_chunks h loc tot 0) (\<lambda>_. on_xafc (file_close h))))"

definition remote_join :: "string \<Rightarrow> string \<Rightarrow> string" where
  "remote_join path e = trim_end_matches ''/'' path @ ''/'' @ e"

primrec pull_file_dyn :: "nat \<Rightarrow> string \<Rightarrow> string \<Rightarrow> unit xf" where
  "pull_file_dyn 0 remote loc = panic"
| "pull_file_dyn (Suc d) remote loc =
    bnd (on_xafc (get_file_info remote)) (\<lambda>info.
      if fi_type info = Directory
      then bnd (on_local (lf_create_dir_all loc)) (\<lambda>_.
        bnd (on_xafc (list_dir remote)) (\<lambda>es.
          each (\<lambda>e. pull_file_dyn d (remote_join remote e) (path_join loc e)) es))
      else pull_one remote loc (fi_size info))"

section \<open>Pushing\<close>

text \<open>
  What the local disk has to push: a file as the pieces its reads give, which may end in an error,
  a directory in the order it is listed, or something that cannot be looked at or opened.
\<close>

datatype ltree =
    LFile "bytes list" bool
  | LClosed
  | LDir "(string \<times> ltree) list"
  | LUnlisted
  | LGone

text \<open>The upload loop: a failing read of the local file leaves the handle open, a failing write closes it.\<close>

fun put_pieces :: "u64 \<Rightarrow> bytes list \<Rightarrow> bool \<Rightarrow> unit afcp" where
  "put_pieces h [] bad c = (if bad then (Err (AfcLocal ''read local''), c) else (Ok (), c))"
| "put_pieces h (p # ps) bad c = (case file_write h p c of
     (Ok _, c') \<Rightarrow> put_pieces h ps bad c'
   | (Err e, c') \<Rightarrow> close_and_fail h e c'
   | (Panic, c') \<Rightarrow> (Panic, c'))"

definition put_file_from_path :: "bytes list \<Rightarrow> bool \<Rightarrow> string \<Rightarrow> unit afcp" where
  "put_file_from_path pieces bad remote =
    bnd (file_open remote) (\<lambda>h. bnd (put_pieces h pieces bad) (\<lambda>_. file_close h))"

fun push_file :: "ltree \<Rightarrow> string \<Rightarrow> unit afcp" where
  "push_file LGone remote = throw (AfcLocal ''stat'')"
| "push_file LClosed remote = throw (AfcLocal ''open'')"
| "push_file LUnlisted remote = bnd (mkdir remote) (\<lambda>_. throw (AfcLocal ''read_dir''))"
| "push_file (LFile pieces bad) remote = put_file_from_path pieces bad remote"
| "push_file (LDir es) remote = bnd (mkdir remote) (\<lambda>_. each (\<lambda>e. push_file (snd e) (remote_join remote (fst e))) es)"

section \<open>The commands\<close>

definition cmd_leaf :: "string \<Rightarrow> string" where
  "cmd_leaf path = last (split_on (CHR ''/'') (trim_end_matches ''/'' path))"

definition pull_dest :: "bool \<Rightarrow> string \<Rightarrow> string \<Rightarrow> string" where
  "pull_dest is_dir loc remote = (if is_dir then path_join loc (cmd_leaf remote) else loc)"

definition cmd_pull :: "nat \<Rightarrow> string \<Rightarrow> string \<Rightarrow> unit xf" where
  "cmd_pull d remote loc x = pull_file_dyn d remote (pull_dest (lf_nodes (xf_local x) loc = Some NDir) loc remote) x"

text \<open>\<open>name\<close> is the last component of the local path, if it has one.\<close>

definition push_dest :: "string \<Rightarrow> string option \<Rightarrow> string" where
  "push_dest remote name =
    (if ends_with ''/'' remote then remote_join remote (case name of Some n \<Rightarrow> n | None \<Rightarrow> []) else remote)"

definition cmd_push :: "ltree \<Rightarrow> string option \<Rightarrow> string \<Rightarrow> unit afcp" where
  "cmd_push t name remote = (if t = LGone then throw (AfcLocal ''does not exist'') else push_file t (push_dest remote name))"

fun kind_text :: "FileType \<Rightarrow> string" where
  "kind_text Regular = ''file''" | "kind_text Directory = ''directory''" | "kind_text Symlink = ''symlink''"
| "kind_text OtherType = ''other''"

record AfcEntry =
  ae_name :: string
  ae_kind :: string
  ae_size :: "u64 option"
  ae_mtime :: "u64 option"

definition entry_of :: "string \<Rightarrow> FileInfo \<Rightarrow> AfcEntry" where
  "entry_of name info = \<lparr>ae_name = name, ae_kind = kind_text (fi_type info),
     ae_size = (if fi_type info = Regular then Some (fi_size info) else None), ae_mtime = Some (fi_modified_nanos info div 1000000000)\<rparr>"

text \<open>An entry whose information cannot be had is listed as unknown.\<close>

fun ls_entries :: "string \<Rightarrow> string list \<Rightarrow> AfcEntry list afcp" where
  "ls_entries path [] c = (Ok [], c)"
| "ls_entries path (n # ns) c = (case get_file_info (remote_join path n) c of
     (Panic, c1) \<Rightarrow> (Panic, c1)
   | (r, c1) \<Rightarrow> (case ls_entries path ns c1 of
       (Ok es, c2) \<Rightarrow> (Ok ((case r of Ok info \<Rightarrow> entry_of n info
           | _ \<Rightarrow> \<lparr>ae_name = n, ae_kind = ''unknown'', ae_size = None, ae_mtime = None\<rparr>) # es), c2)
     | (e, c2) \<Rightarrow> (e, c2)))"

definition cmd_ls :: "string \<Rightarrow> AfcEntry list afcp" where
  "cmd_ls path = bnd (list_dir path) (\<lambda>es. ls_entries path (sort es))"

definition cmd_stat :: "string \<Rightarrow> (string \<times> u64 \<times> u64) afcp" where
  "cmd_stat path = bnd (get_file_info path) (\<lambda>i. ret (kind_text (fi_type i), fi_size i, fi_modified_nanos i div 1000000000))"


section \<open>A remote tree\<close>

text \<open>
  A tree on the device, with what the device answers for it: the attributes of each node, and for a
  file its handle and the pieces it is read in.
\<close>

datatype rtree = RFile bytes u64 "bytes list" | RDir bytes "(string \<times> rtree) list"

definition names_bytes :: "string list \<Rightarrow> bytes" where
  "names_bytes ns = concat (map nul_str (''.'' # ''..'' # ns))"

fun answers :: "rtree \<Rightarrow> (u64 \<times> bytes) list" where
  "answers (RFile info h ds) = (OP_DATA, info) # (OP_FILE_OPEN_RES, u64_le h) # map (Pair OP_DATA) ds @
     [(OP_STATUS, u64_le STATUS_END_OF_DATA), (OP_STATUS, u64_le STATUS_SUCCESS)]"
| "answers (RDir info es) = (OP_DATA, info) # (OP_DATA, names_bytes (map fst es)) # concat (map (\<lambda>e. answers (snd e)) es)"

fun requests :: "string \<Rightarrow> rtree \<Rightarrow> afc_req list" where
  "requests r (RFile info h ds) = (OP_GET_FILE_INFO, nul_str r, []) # (OP_FILE_OPEN, u64_le FOPEN_RDONLY @ nul_str r, []) #
     replicate (length ds + 1) (read_req h) @ [close_req h]"
| "requests r (RDir info es) = (OP_GET_FILE_INFO, nul_str r, []) # (OP_READ_DIR, nul_str r, []) #
     concat (map (\<lambda>e. requests (remote_join r (fst e)) (snd e)) es)"

fun layout :: "string \<Rightarrow> rtree \<Rightarrow> (string \<times> lnode) list" where
  "layout p (RFile info h ds) = [(p, NFile (concat ds))]"
| "layout p (RDir info es) = (p, NDir) # concat (map (\<lambda>e. layout (path_join p (fst e)) (snd e)) es)"

fun tree_ok :: "rtree \<Rightarrow> bool" where
  "tree_ok (RFile info h ds) \<longleftrightarrow> fi_type (parse_file_info [] info) \<noteq> Directory \<and> list_all (\<lambda>d. d \<noteq> []) ds"
| "tree_ok (RDir info es) \<longleftrightarrow> fi_type (parse_file_info [] info) = Directory \<and>
     list_all (\<lambda>e. attr_ok (fst e) \<and> fst e \<noteq> ''.'' \<and> fst e \<noteq> ''..'' \<and> tree_ok (snd e)) es"

fun height :: "rtree \<Rightarrow> nat" where
  "height (RFile info h ds) = 1"
| "height (RDir info es) = Suc (fold max (map (\<lambda>e. height (snd e)) es) 0)"

lemma fold_max_ge: "(k :: nat) \<le> fold max xs k" "x \<in> set xs \<Longrightarrow> x \<le> fold max xs k"
proof (induction xs arbitrary: k)
  case (Cons y ys)
  {
    case 1
    then show ?case using Cons.IH(1) [of "max y k"] by simp
  next
    case 2
    then show ?case using Cons.IH(1) [of "max y k"] Cons.IH(2) [of "max y k"] by auto
  }
qed simp_all

section \<open>Runs\<close>

definition lay :: "(string \<times> lnode) list \<Rightarrow> (string \<rightharpoonup> lnode) \<Rightarrow> (string \<rightharpoonup> lnode)" where
  "lay ups m = fold (\<lambda>(p, n) m. m(p \<mapsto> n)) ups m"

lemma lay_simps [simp]: "lay [] m = m" "lay ((p, n) # ups) m = lay ups (m(p \<mapsto> n))" "lay (xs @ ys) m = lay ys (lay xs m)"
  by (simp_all add: lay_def)

lemma lay_other: "p \<notin> fst ` set ups \<Longrightarrow> lay ups m p = m p"
  by (induction ups arbitrary: m) auto

text \<open>A transfer that answers \<open>rs\<close> are still to come for, on a disk where nothing fails.\<close>

definition xf_sees :: "xfer \<Rightarrow> (u64 \<times> bytes) list \<Rightarrow> bool" where
  "xf_sees x rs \<longleftrightarrow> afc_sees (xf_afc x) rs \<and> lf_faults (xf_local x) = []"

definition xf_did :: "xfer \<Rightarrow> afc_req list \<Rightarrow> (string \<times> lnode) list \<Rightarrow> (u64 \<times> bytes) list \<Rightarrow> xfer \<Rightarrow> bool" where
  "xf_did x reqs ups rs x' \<longleftrightarrow> afc_did (xf_afc x) reqs rs (xf_afc x') \<and> lf_faults (xf_local x') = [] \<and>
     lf_nodes (xf_local x') = lay ups (lf_nodes (xf_local x))"

lemma xf_did_sees: "xf_did x reqs ups rs x' \<Longrightarrow> xf_sees x' rs"
  by (auto simp: xf_did_def xf_sees_def dest: afc_did_sees)

lemma xf_did_refl: "xf_sees x rs \<Longrightarrow> xf_did x [] [] rs x"
  by (simp add: xf_did_def xf_sees_def afc_did_refl)

lemma xf_did_trans: "xf_did x r1 u1 s1 y \<Longrightarrow> xf_did y r2 u2 s2 z \<Longrightarrow> xf_did x (r1 @ r2) (u1 @ u2) s2 z"
  by (auto simp: xf_did_def intro: afc_did_trans)

lemma query_ops:
  assumes "afc_sees c ((OP_DATA, b) # rs)"
  shows "\<exists>c'. get_file_info r c = (Ok (parse_file_info (leaf r) b), c') \<and> afc_did c [(OP_GET_FILE_INFO, nul_str r, [])] rs c'"
    and "\<exists>c'. list_dir r c = (Ok (filter (\<lambda>n. n \<noteq> ''.'' \<and> n \<noteq> ''..'') (parse_nul_strings b)), c') \<and>
      afc_did c [(OP_READ_DIR, nul_str r, [])] rs c'"
proof -
  show "\<exists>c'. get_file_info r c = (Ok (parse_file_info (leaf r) b), c') \<and> afc_did c [(OP_GET_FILE_INFO, nul_str r, [])] rs c'"
    using assms by (rule exchange [where op = OP_GET_FILE_INFO and a = "nul_str r" and d = "[]"])
      (simp add: get_file_info_def expect_data_def)
  show "\<exists>c'. list_dir r c = (Ok (filter (\<lambda>n. n \<noteq> ''.'' \<and> n \<noteq> ''..'') (parse_nul_strings b)), c') \<and>
      afc_did c [(OP_READ_DIR, nul_str r, [])] rs c'"
    using assms by (rule exchange [where op = OP_READ_DIR and a = "nul_str r" and d = "[]"])
      (simp add: list_dir_def expect_data_def)
qed

lemma on_xafc_step:
  assumes "m (xf_afc x) = (Ok v, c)" and "afc_did (xf_afc x) reqs rs c" and "xf_sees x ss"
  shows "on_xafc m x = (Ok v, x\<lparr>xf_afc := c\<rparr>)" "xf_did x reqs [] rs (x\<lparr>xf_afc := c\<rparr>)"
  using assms by (simp_all add: on_xafc_def xf_did_def xf_sees_def)

lemma names_listed:
  "list_all (\<lambda>n. attr_ok n \<and> n \<noteq> ''.'' \<and> n \<noteq> ''..'') ns \<Longrightarrow>
    filter (\<lambda>n. n \<noteq> ''.'' \<and> n \<noteq> ''..'') (parse_nul_strings (names_bytes ns)) = ns"
proof -
  have d: "attr_ok ''.''" "attr_ok ''..''" by code_simp+
  assume ns: "list_all (\<lambda>n. attr_ok n \<and> n \<noteq> ''.'' \<and> n \<noteq> ''..'') ns"
  then have "parse_nul_strings (concat (map nul_str ns)) = ns" by (induction ns) (simp_all add: parse_nul_strings_nul_str)
  then show ?thesis using d ns by (simp add: names_bytes_def parse_nul_strings_nul_str list_all_iff)
qed

lemma fi_fields: "fi_type (parse_file_info a b) = fi_type (parse_file_info [] b)" "fi_size (parse_file_info a b) = fi_size (parse_file_info [] b)"
  by (simp_all add: parse_file_info_def Let_def)

lemma pull_chunks_run:
  assumes "xf_sees x (map (Pair OP_DATA) ds @ (OP_STATUS, u64_le STATUS_END_OF_DATA) # rs)" and "list_all (\<lambda>d. d \<noteq> []) ds"
    and "lf_nodes (xf_local x) p = Some (NFile b)"
  shows "\<exists>x'. pull_chunks h p tot cnt x = (Ok (), x') \<and> xf_did x (replicate (length ds + 1) (read_req h)) [(p, NFile (b @ concat ds))] rs x'"
  using assms
proof (induction ds arbitrary: x b cnt)
  case Nil
  then have "afc_sees (xf_afc x) ((OP_STATUS, u64_le STATUS_END_OF_DATA) # rs)" by (simp add: xf_sees_def)
  from file_ops(3) [OF this, of h READ_CHUNK] obtain c where "file_read h READ_CHUNK (xf_afc x) = (Ok [], c)" "afc_did (xf_afc x) [read_req h] rs c"
    by (auto simp: le_u64_def OP_STATUS_def OP_DATA_def)
  with Nil show ?case by (intro exI [of _ "x\<lparr>xf_afc := c\<rparr>"])
      (simp add: pull_chunks.simps [of h p tot cnt x] xf_did_def xf_sees_def fun_upd_idem)
next
  case (Cons d ds)
  then have "afc_sees (xf_afc x) ((OP_DATA, d) # (map (Pair OP_DATA) ds @ (OP_STATUS, u64_le STATUS_END_OF_DATA) # rs))" by (simp add: xf_sees_def)
  from file_ops(3) [OF this, of h READ_CHUNK] obtain c where c: "file_read h READ_CHUNK (xf_afc x) = (Ok d, c)"
    "afc_did (xf_afc x) [read_req h] (map (Pair OP_DATA) ds @ (OP_STATUS, u64_le STATUS_END_OF_DATA) # rs) c" by auto
  let ?l = "(xf_local x)\<lparr>lf_nodes := (lf_nodes (xf_local x))(p \<mapsto> NFile (b @ d))\<rparr>"
  have l: "lf_write p d (xf_local x) = (Ok (), ?l)"
    using Cons.prems(1,3) by (simp add: lf_write_def next_fault_def xf_sees_def content_def)
  let ?x1 = "x\<lparr>xf_afc := c, xf_local := ?l, xf_progress := xf_progress x @ [(cnt + word_of_nat (length d), tot)]\<rparr>"
  have e: "pull_chunks h p tot cnt x = pull_chunks h p tot (cnt + word_of_nat (length d)) ?x1"
    using c(1) l Cons.prems(2) by (simp add: pull_chunks.simps [of h p tot cnt x])
  have "xf_sees ?x1 (map (Pair OP_DATA) ds @ (OP_STATUS, u64_le STATUS_END_OF_DATA) # rs)"
    using afc_did_sees [OF c(2)] Cons.prems(1) by (simp add: xf_sees_def)
  from Cons.IH [OF this, of "b @ d" "cnt + word_of_nat (length d)"] Cons.prems(2) obtain x' where
    x': "pull_chunks h p tot (cnt + word_of_nat (length d)) ?x1 = (Ok (), x')"
    "xf_did ?x1 (replicate (length ds + 1) (read_req h)) [(p, NFile ((b @ d) @ concat ds))] rs x'" by auto
  have "afc_did (xf_afc x) ([read_req h] @ replicate (length ds + 1) (read_req h)) rs (xf_afc x')"
    using c(2) x'(2) by (intro afc_did_trans) (auto simp: xf_did_def)
  then show ?case using e x' by (intro exI [of _ x']) (simp add: xf_did_def)
qed


lemma pull_one_run:
  assumes "xf_sees x ((OP_FILE_OPEN_RES, u64_le h) # map (Pair OP_DATA) ds @
      (OP_STATUS, u64_le STATUS_END_OF_DATA) # (OP_STATUS, u64_le STATUS_SUCCESS) # rs)"
    and "list_all (\<lambda>d. d \<noteq> []) ds" and "lf_nodes (xf_local x) p \<noteq> Some NDir"
  shows "\<exists>x'. pull_one r p tot x = (Ok (), x') \<and> xf_did x ((OP_FILE_OPEN, u64_le FOPEN_RDONLY @ nul_str r, []) #
    replicate (length ds + 1) (read_req h) @ [close_req h]) [(p, NFile (concat ds))] rs x'"
proof -
  let ?r1 = "map (Pair OP_DATA) ds @ (OP_STATUS, u64_le STATUS_END_OF_DATA) # (OP_STATUS, u64_le STATUS_SUCCESS) # rs"
  have "afc_sees (xf_afc x) ((OP_FILE_OPEN_RES, u64_le h) # ?r1)" using assms(1) by (simp add: xf_sees_def)
  from file_ops(4) [OF this, of r FOPEN_RDONLY] obtain c1 where
    c1: "file_open_read r (xf_afc x) = (Ok h, c1)" "afc_did (xf_afc x) [(OP_FILE_OPEN, u64_le FOPEN_RDONLY @ nul_str r, [])] ?r1 c1"
    by (auto simp: file_open_read_def le_u64_def)
  note s1 = on_xafc_step [where m = "file_open_read r" and x = x, OF c1 assms(1)]
  let ?x2 = "x\<lparr>xf_afc := c1, xf_local := (xf_local x)\<lparr>lf_nodes := (lf_nodes (xf_local x))(p \<mapsto> NFile [])\<rparr>\<rparr>"
  have s2: "on_local (lf_create p) (x\<lparr>xf_afc := c1\<rparr>) = (Ok (), ?x2)"
    using assms(1,3) by (simp add: on_local_def lf_create_def next_fault_def xf_sees_def)
  have d2: "xf_did x [(OP_FILE_OPEN, u64_le FOPEN_RDONLY @ nul_str r, [])] [(p, NFile [])] ?r1 ?x2"
    using c1(2) assms(1) by (simp add: xf_did_def xf_sees_def)
  have n2: "lf_nodes (xf_local ?x2) p = Some (NFile [])" by simp
  from pull_chunks_run [OF xf_did_sees [OF d2] assms(2) n2, of h tot 0] obtain x3 where
    s3: "pull_chunks h p tot 0 ?x2 = (Ok (), x3)"
    and d3: "xf_did ?x2 (replicate (length ds + 1) (read_req h)) [(p, NFile (concat ds))] ((OP_STATUS, u64_le STATUS_SUCCESS) # rs) x3"
    by auto
  have "afc_sees (xf_afc x3) ((OP_STATUS, u64_le STATUS_SUCCESS) # rs)" using xf_did_sees [OF d3] by (simp add: xf_sees_def)
  from file_ops(1) [OF this, of h] obtain c4 where c4: "file_close h (xf_afc x3) = (Ok (), c4)" "afc_did (xf_afc x3) [close_req h] rs c4"
    by (auto simp: le_u64_def)
  note s4 = on_xafc_step [where m = "file_close h" and x = x3, OF c4 xf_did_sees [OF d3]]
  have "pull_one r p tot x = (Ok (), x3\<lparr>xf_afc := c4\<rparr>)" using s1(1) s2 s3 s4(1) by (simp add: pull_one_def)
  moreover have "xf_did x ([(OP_FILE_OPEN, u64_le FOPEN_RDONLY @ nul_str r, [])] @ replicate (length ds + 1) (read_req h) @ [close_req h])
      ([(p, NFile [])] @ [(p, NFile (concat ds))] @ []) rs (x3\<lparr>xf_afc := c4\<rparr>)"
    using d2 d3 s4(2) by (blast intro: xf_did_trans)
  ultimately show ?thesis by (simp add: xf_did_def)
qed

definition fresh_at :: "(string \<times> lnode) list \<Rightarrow> xfer \<Rightarrow> bool" where
  "fresh_at ups x \<longleftrightarrow> distinct (map fst ups) \<and> (\<forall>p \<in> fst ` set ups. lf_nodes (xf_local x) p = None)"

lemma fresh_at_app:
  assumes "fresh_at (u1 @ u2) x" and "xf_did x reqs u1 rs x'"
  shows "fresh_at u2 x'"
proof -
  have "fst ` set u1 \<inter> fst ` set u2 = {}" using assms(1) by (simp add: fresh_at_def)
  then have "lf_nodes (xf_local x') p = lf_nodes (xf_local x) p" if "p \<in> fst ` set u2" for p
    using assms(2) that by (auto simp: xf_did_def intro!: lay_other)
  then show ?thesis using assms(1) by (auto simp: fresh_at_def)
qed

lemma each_entries_run:
  assumes "\<And>e x rs. e \<in> set es \<Longrightarrow> xf_sees x (answers (snd e) @ rs) \<Longrightarrow> fresh_at (layout (path_join loc (fst e)) (snd e)) x \<Longrightarrow>
      \<exists>x'. f (fst e) x = (Ok (), x') \<and> xf_did x (requests (remote_join r (fst e)) (snd e)) (layout (path_join loc (fst e)) (snd e)) rs x'"
    and "xf_sees x (concat (map (\<lambda>e. answers (snd e)) es) @ rs)"
    and "fresh_at (concat (map (\<lambda>e. layout (path_join loc (fst e)) (snd e)) es)) x"
  shows "\<exists>x'. each f (map fst es) x = (Ok (), x') \<and>
    xf_did x (concat (map (\<lambda>e. requests (remote_join r (fst e)) (snd e)) es)) (concat (map (\<lambda>e. layout (path_join loc (fst e)) (snd e)) es)) rs x'"
  using assms
proof (induction es arbitrary: x)
  case Nil
  then show ?case by (auto intro: xf_did_refl)
next
  case (Cons e es)
  let ?u1 = "layout (path_join loc (fst e)) (snd e)" and ?u2 = "concat (map (\<lambda>e. layout (path_join loc (fst e)) (snd e)) es)"
  have s: "xf_sees x (answers (snd e) @ concat (map (\<lambda>e. answers (snd e)) es) @ rs)" using Cons.prems(2) by simp
  have fr: "fresh_at (?u1 @ ?u2) x" using Cons.prems(3) by simp
  then have "fresh_at ?u1 x" by (auto simp: fresh_at_def)
  from Cons.prems(1) [OF _ s this] obtain x1 where x1: "f (fst e) x = (Ok (), x1)"
    "xf_did x (requests (remote_join r (fst e)) (snd e)) ?u1 (concat (map (\<lambda>e. answers (snd e)) es) @ rs) x1" by auto
  from Cons.IH [OF Cons.prems(1) xf_did_sees [OF x1(2)] fresh_at_app [OF fr x1(2)]] obtain x2 where
    "each f (map fst es) x1 = (Ok (), x2)" "xf_did x1 (concat (map (\<lambda>e. requests (remote_join r (fst e)) (snd e)) es)) ?u2 rs x2" by auto
  then show ?case using x1 by (auto intro: xf_did_trans)
qed

lemma pull_tree_run:
  assumes "tree_ok t" and "height t \<le> d" and "xf_sees x (answers t @ rs)" and "fresh_at (layout loc t) x"
  shows "\<exists>x'. pull_file_dyn d r loc x = (Ok (), x') \<and> xf_did x (requests r t) (layout loc t) rs x'"
  using assms
proof (induction d arbitrary: t x r loc rs)
  case 0
  then show ?case by (cases t) simp_all
next
  case (Suc d)
  show ?case
  proof (cases t)
    case (RFile info h ds)
    let ?rs = "(OP_FILE_OPEN_RES, u64_le h) # map (Pair OP_DATA) ds @ (OP_STATUS, u64_le STATUS_END_OF_DATA) # (OP_STATUS, u64_le STATUS_SUCCESS) # rs"
    have "afc_sees (xf_afc x) ((OP_DATA, info) # ?rs)" using Suc.prems(3) by (simp add: RFile xf_sees_def)
    from query_ops(1) [OF this, of r] obtain c1 where c1: "get_file_info r (xf_afc x) = (Ok (parse_file_info (leaf r) info), c1)"
      "afc_did (xf_afc x) [(OP_GET_FILE_INFO, nul_str r, [])] ?rs c1" by blast
    note s1 = on_xafc_step [where m = "get_file_info r" and x = x, OF c1 Suc.prems(3)]
    let ?x1 = "x\<lparr>xf_afc := c1\<rparr>"
    have "lf_nodes (xf_local ?x1) loc \<noteq> Some NDir" using Suc.prems(4) by (simp add: RFile fresh_at_def)
    from pull_one_run [OF xf_did_sees [OF s1(2)] _ this, of r "fi_size (parse_file_info (leaf r) info)"] Suc.prems(1) obtain x2 where
      x2: "pull_one r loc (fi_size (parse_file_info (leaf r) info)) ?x1 = (Ok (), x2)"
      "xf_did ?x1 ((OP_FILE_OPEN, u64_le FOPEN_RDONLY @ nul_str r, []) # replicate (length ds + 1) (read_req h) @ [close_req h])
        [(loc, NFile (concat ds))] rs x2" by (auto simp: RFile)
    have "pull_file_dyn (Suc d) r loc x = (Ok (), x2)"
      using s1(1) x2(1) Suc.prems(1) fi_fields(1) [of "leaf r" info] by (simp add: RFile)
    moreover have "xf_did x (requests r t) (layout loc t) rs x2"
      using xf_did_trans [OF s1(2) x2(2)] by (simp add: RFile)
    ultimately show ?thesis by blast
  next
    case (RDir info es)
    let ?r1 = "concat (map (\<lambda>e. answers (snd e)) es) @ rs"
    let ?u = "concat (map (\<lambda>e. layout (path_join loc (fst e)) (snd e)) es)"
    have "afc_sees (xf_afc x) ((OP_DATA, info) # (OP_DATA, names_bytes (map fst es)) # ?r1)" using Suc.prems(3) by (simp add: RDir xf_sees_def)
    from query_ops(1) [OF this, of r] obtain c1 where c1: "get_file_info r (xf_afc x) = (Ok (parse_file_info (leaf r) info), c1)"
      "afc_did (xf_afc x) [(OP_GET_FILE_INFO, nul_str r, [])] ((OP_DATA, names_bytes (map fst es)) # ?r1) c1" by blast
    note s1 = on_xafc_step [where m = "get_file_info r" and x = x, OF c1 Suc.prems(3)]
    let ?x2 = "x\<lparr>xf_afc := c1, xf_local := (xf_local x)\<lparr>lf_nodes := (lf_nodes (xf_local x))(loc \<mapsto> NDir)\<rparr>\<rparr>"
    have s2: "on_local (lf_create_dir_all loc) (x\<lparr>xf_afc := c1\<rparr>) = (Ok (), ?x2)"
      using Suc.prems(3,4) by (simp add: on_local_def lf_create_dir_all_def next_fault_def xf_sees_def fresh_at_def RDir)
    have d2: "xf_did x [(OP_GET_FILE_INFO, nul_str r, [])] [(loc, NDir)] ((OP_DATA, names_bytes (map fst es)) # ?r1) ?x2"
      using c1(2) Suc.prems(3) by (simp add: xf_did_def xf_sees_def)
    have "afc_sees (xf_afc ?x2) ((OP_DATA, names_bytes (map fst es)) # ?r1)" using xf_did_sees [OF d2] by (simp add: xf_sees_def)
    from query_ops(2) [OF this, of r] names_listed [of "map fst es"] Suc.prems(1) obtain c3 where
      c3: "list_dir r (xf_afc ?x2) = (Ok (map fst es), c3)" "afc_did (xf_afc ?x2) [(OP_READ_DIR, nul_str r, [])] ?r1 c3"
      by (auto simp: RDir list_all_iff)
    note s3 = on_xafc_step [where m = "list_dir r" and x = ?x2, OF c3 xf_did_sees [OF d2]]
    let ?x3 = "?x2\<lparr>xf_afc := c3\<rparr>"
    have d3: "xf_did x ([(OP_GET_FILE_INFO, nul_str r, [])] @ [(OP_READ_DIR, nul_str r, [])]) ([(loc, NDir)] @ []) ?r1 ?x3"
      using d2 s3(2) by (rule xf_did_trans)
    have fr: "fresh_at ?u ?x3" using Suc.prems(4) d3 by (intro fresh_at_app [of "[(loc, NDir)]" ?u x]) (simp_all add: RDir)
    have "\<exists>x'. pull_file_dyn d (remote_join r (fst e)) (path_join loc (fst e)) y = (Ok (), x') \<and>
        xf_did y (requests (remote_join r (fst e)) (snd e)) (layout (path_join loc (fst e)) (snd e)) qs x'"
      if "e \<in> set es" "xf_sees y (answers (snd e) @ qs)" "fresh_at (layout (path_join loc (fst e)) (snd e)) y" for e y qs
    proof (rule Suc.IH [OF _ _ that(2,3)])
      show "tree_ok (snd e)" using Suc.prems(1) that(1) by (simp add: RDir list_all_iff)
      have "height (snd e) \<le> fold max (map (\<lambda>e. height (snd e)) es) 0" using that(1) by (intro fold_max_ge(2)) simp
      then show "height (snd e) \<le> d" using Suc.prems(2) by (simp add: RDir)
    qed
    from each_entries_run [OF this xf_did_sees [OF d3] fr] obtain x4 where
      x4: "each (\<lambda>e. pull_file_dyn d (remote_join r e) (path_join loc e)) (map fst es) ?x3 = (Ok (), x4)"
      "xf_did ?x3 (concat (map (\<lambda>e. requests (remote_join r (fst e)) (snd e)) es)) ?u rs x4" by blast
    have "pull_file_dyn (Suc d) r loc x = (Ok (), x4)"
      using s1(1) s2 s3(1) x4(1) Suc.prems(1) fi_fields(1) [of "leaf r" info] by (simp add: RDir)
    moreover have "xf_did x (requests r t) (layout loc t) rs x4" using xf_did_trans [OF d3 x4(2)] by (simp add: RDir)
    ultimately show ?thesis by blast
  qed
qed


lemma lay_map_of: "distinct (map fst ups) \<Longrightarrow> lay ups m = m ++ map_of ups"
proof (induction ups arbitrary: m)
  case (Cons u ups)
  obtain p n where u: "u = (p, n)" by (cases u)
  have "map_of ups p = None" using Cons.prems by (simp add: u map_of_eq_None_iff)
  then show ?case using Cons by (auto simp: u map_add_def split: option.splits)
qed simp

section \<open>A pulled tree\<close>

text \<open>
  C9: Pulling a tree leaves the local disk with exactly the directories and files of the tree added,
  each file with the pieces the device gave joined, and has sent the requests of a walk in the order
  the directories list their entries: for each file one open, a read for each piece and one
  more, and one close. The tree may be as high as the stack is deep.
\<close>
theorem pull_copies_tree:
  assumes "tree_ok t" and "height t \<le> d" and "xf_sees x (answers t @ rs)" and "fresh_at (layout loc t) x"
  shows "\<exists>x'. pull_file_dyn d r loc x = (Ok (), x') \<and>
    lf_nodes (xf_local x') = lf_nodes (xf_local x) ++ map_of (layout loc t) \<and>
    afc_did (xf_afc x) (requests r t) rs (xf_afc x')"
proof -
  from pull_tree_run [OF assms, of r] obtain x' where x': "pull_file_dyn d r loc x = (Ok (), x')"
    "xf_did x (requests r t) (layout loc t) rs x'" by blast
  moreover have "lay (layout loc t) m = m ++ map_of (layout loc t)" for m
    using assms(4) by (intro lay_map_of) (simp add: fresh_at_def)
  ultimately show ?thesis by (simp add: xf_did_def)
qed

definition demo_tree :: rtree where
  "demo_tree = RDir (concat (map nul_str [''st_ifmt'', ''S_IFDIR'']))
     [(''a'', RFile (concat (map nul_str [''st_ifmt'', ''S_IFREG'', ''st_size'', ''3''])) 7 [[1, 2], [3]]),
      (''d'', RDir (concat (map nul_str [''st_ifmt'', ''S_IFDIR''])) [])]"

definition demo_xfer :: "(u64 \<times> bytes) list \<Rightarrow> nat option list \<Rightarrow> xfer" where
  "demo_xfer rs fs = \<lparr>xf_afc = demo_afc rs, xf_local = \<lparr>lf_nodes = (\<lambda>p. if p = ''out'' then Some NDir else None), lf_faults = fs\<rparr>,
     xf_progress = []\<rparr>"

theorem pull_copies_tree_witness:
  "\<exists>x'. pull_file_dyn 2 ''/DCIM'' ''out/DCIM'' (demo_xfer (answers demo_tree) []) = (Ok (), x') \<and>
    lf_nodes (xf_local x') ''out/DCIM/a'' = Some (NFile [1, 2, 3])"
proof -
  have "tree_ok demo_tree" "height demo_tree \<le> 2" by code_simp+
  moreover have "list_all afc_wf (answers demo_tree)" by code_simp
  then have "xf_sees (demo_xfer (answers demo_tree) []) (answers demo_tree @ [])"
    by (simp add: xf_sees_def demo_xfer_def demo_afc_sees)
  moreover have l: "layout ''out/DCIM'' demo_tree = [(''out/DCIM'', NDir), (''out/DCIM/a'', NFile [1, 2, 3]), (''out/DCIM/d'', NDir)]"
    by code_simp
  have "fresh_at (layout ''out/DCIM'' demo_tree) (demo_xfer (answers demo_tree) [])"
    unfolding l by (simp add: fresh_at_def demo_xfer_def)
  ultimately obtain x' where "pull_file_dyn 2 ''/DCIM'' ''out/DCIM'' (demo_xfer (answers demo_tree) []) = (Ok (), x')"
    "lf_nodes (xf_local x') = lf_nodes (xf_local (demo_xfer (answers demo_tree) [])) ++ map_of (layout ''out/DCIM'' demo_tree)"
    using pull_copies_tree [of demo_tree 2 _ "[]" "''out/DCIM''" "''/DCIM''"] by blast
  then show ?thesis by (simp add: l)
qed

section \<open>A pushed tree\<close>

text \<open>\<open>hf\<close> is the handle the device opens a path with, \<open>ex\<close> tells the directories that exist already.\<close>

fun push_requests :: "(string \<Rightarrow> u64) \<Rightarrow> string \<Rightarrow> ltree \<Rightarrow> afc_req list" where
  "push_requests hf r (LFile ps bad) = (OP_FILE_OPEN, u64_le FOPEN_WR @ nul_str r, []) #
     map (\<lambda>p. (OP_FILE_WRITE, u64_le (hf r), p)) ps @ [close_req (hf r)]"
| "push_requests hf r (LDir es) = (OP_MAKE_DIR, nul_str r, []) #
     concat (map (\<lambda>e. push_requests hf (remote_join r (fst e)) (snd e)) es)"
| "push_requests hf r _ = []"

fun push_answers :: "(string \<Rightarrow> bool) \<Rightarrow> (string \<Rightarrow> u64) \<Rightarrow> string \<Rightarrow> ltree \<Rightarrow> (u64 \<times> bytes) list" where
  "push_answers ex hf r (LFile ps bad) = (OP_FILE_OPEN_RES, u64_le (hf r)) # map (\<lambda>p. (OP_STATUS, u64_le STATUS_SUCCESS)) ps @
     [(OP_STATUS, u64_le STATUS_SUCCESS)]"
| "push_answers ex hf r (LDir es) = (OP_STATUS, u64_le (if ex r then STATUS_OBJECT_EXISTS else STATUS_SUCCESS)) #
     concat (map (\<lambda>e. push_answers ex hf (remote_join r (fst e)) (snd e)) es)"
| "push_answers ex hf r _ = []"

text \<open>Every file and directory can be read to its end.\<close>

fun readable :: "ltree \<Rightarrow> bool" where
  "readable (LFile ps bad) \<longleftrightarrow> \<not> bad" | "readable (LDir es) \<longleftrightarrow> list_all (\<lambda>e. readable (snd e)) es" | "readable _ \<longleftrightarrow> False"

lemma put_pieces_write_chunks: "put_pieces h ps False c = write_chunks h ps c"
  by (induction ps arbitrary: c) (auto split: prod.splits outcome.splits)

lemma put_file_run:
  assumes "afc_sees c (push_answers ex hf r (LFile ps False) @ rs)"
  shows "\<exists>c'. put_file_from_path ps False r c = (Ok (), c') \<and> afc_did c (push_requests hf r (LFile ps False)) rs c'"
proof -
  let ?s = "(OP_STATUS, u64_le STATUS_SUCCESS)"
  have "afc_sees c ((OP_FILE_OPEN_RES, u64_le (hf r)) # map (Pair OP_STATUS) (map (\<lambda>p. u64_le STATUS_SUCCESS) ps) @ ?s # rs)"
    using assms by (simp add: comp_def)
  from file_ops(4) [OF this, of r FOPEN_WR] obtain c1 where c1: "file_open r c = (Ok (hf r), c1)"
    "afc_did c [(OP_FILE_OPEN, u64_le FOPEN_WR @ nul_str r, [])] (map (Pair OP_STATUS) (map (\<lambda>p. u64_le STATUS_SUCCESS) ps) @ ?s # rs) c1"
    by (auto simp: file_open_def le_u64_def)
  from write_chunks_run [OF afc_did_sees [OF c1(2)], of ps "hf r"] obtain c2 where c2: "write_chunks (hf r) ps c1 = (Ok (), c2)"
    "afc_did c1 (map (\<lambda>d. (OP_FILE_WRITE, u64_le (hf r), d)) ps) (?s # rs) c2" by (auto simp: le_u64_def)
  from file_ops(1) [OF afc_did_sees [OF c2(2)], of "hf r"] obtain c3 where c3: "file_close (hf r) c2 = (Ok (), c3)"
    "afc_did c2 [close_req (hf r)] rs c3" by (auto simp: le_u64_def)
  have "put_file_from_path ps False r c = (Ok (), c3)"
    using c1(1) c2(1) c3(1) by (simp add: put_file_from_path_def put_pieces_write_chunks)
  then show ?thesis using afc_did_trans [OF c1(2) afc_did_trans [OF c2(2) c3(2)]] by simp
qed

text \<open>
  Pushing a readable local tree sends one request to make each directory, before anything inside it
  and also when it exists already, and for each file one open, a write for each piece that was
  read and one close, in the order the directories list their entries.
\<close>
theorem push_sends_tree:
  assumes "readable t" and "afc_sees c (push_answers ex hf r t @ rs)"
  shows "\<exists>c'. push_file t r c = (Ok (), c') \<and> afc_did c (push_requests hf r t) rs c'"
  using assms
proof (induction t r arbitrary: c rs rule: push_file.induct)
  case (4 ps bad r)
  then show ?case using put_file_run by simp
next
  case (5 es r)
  have each: "\<exists>c'. each (\<lambda>e. push_file (snd e) (remote_join r (fst e))) xs c = (Ok (), c') \<and>
      afc_did c (concat (map (\<lambda>e. push_requests hf (remote_join r (fst e)) (snd e)) xs)) rs c'"
    if "set xs \<subseteq> set es" "afc_sees c (concat (map (\<lambda>e. push_answers ex hf (remote_join r (fst e)) (snd e)) xs) @ rs)" for xs c
    using that
  proof (induction xs arbitrary: c)
    case Nil
    then show ?case by (auto intro: afc_did_refl)
  next
    case (Cons e xs)
    have "readable (snd e)" using "5.prems"(1) Cons.prems(1) by (simp add: list_all_iff)
    moreover have "afc_sees c (push_answers ex hf (remote_join r (fst e)) (snd e) @
        concat (map (\<lambda>e. push_answers ex hf (remote_join r (fst e)) (snd e)) xs) @ rs)" using Cons.prems(2) by simp
    moreover have "e \<in> set es" using Cons.prems(1) by simp
    ultimately obtain c1 where c1: "push_file (snd e) (remote_join r (fst e)) c = (Ok (), c1)"
      "afc_did c (push_requests hf (remote_join r (fst e)) (snd e)) (concat (map (\<lambda>e. push_answers ex hf (remote_join r (fst e)) (snd e)) xs) @ rs) c1"
      using "5.IH" by blast
    from Cons.IH [OF _ afc_did_sees [OF c1(2)]] Cons.prems(1) obtain c2 where
      "each (\<lambda>e. push_file (snd e) (remote_join r (fst e))) xs c1 = (Ok (), c2)"
      "afc_did c1 (concat (map (\<lambda>e. push_requests hf (remote_join r (fst e)) (snd e)) xs)) rs c2" by auto
    then show ?case using c1 by (auto intro: afc_did_trans)
  qed
  have "afc_sees c ((OP_STATUS, u64_le (if ex r then STATUS_OBJECT_EXISTS else STATUS_SUCCESS)) # concat (map (\<lambda>e. push_answers ex hf (remote_join r (fst e)) (snd e)) es) @ rs)"
    using "5.prems"(2) by simp
  from file_ops(5) [OF this, of r] obtain c1 where c1: "mkdir r c = (Ok (), c1)"
    "afc_did c [(OP_MAKE_DIR, nul_str r, [])] (concat (map (\<lambda>e. push_answers ex hf (remote_join r (fst e)) (snd e)) es) @ rs) c1"
    by (auto simp: le_u64_def)
  from each [OF _ afc_did_sees [OF c1(2)]] obtain c2 where
    "each (\<lambda>e. push_file (snd e) (remote_join r (fst e))) es c1 = (Ok (), c2)"
    "afc_did c1 (concat (map (\<lambda>e. push_requests hf (remote_join r (fst e)) (snd e)) es)) rs c2" by auto
  then show ?case using c1 afc_did_trans [OF c1(2)] by auto
qed simp_all

definition demo_local :: ltree where
  "demo_local = LDir [(''x'', LFile [[1, 2], [3]] False), (''e'', LDir [])]"

theorem push_sends_tree_witness:
  "\<exists>c'. push_file demo_local ''/in'' (demo_afc (push_answers (\<lambda>p. p = ''/in'') (\<lambda>_. 9) ''/in'' demo_local)) = (Ok (), c') \<and>
    packet_num c' = 6"
proof -
  have "list_all afc_wf (push_answers (\<lambda>p. p = ''/in'') (\<lambda>_. 9) ''/in'' demo_local)" by code_simp
  then have "afc_sees (demo_afc (push_answers (\<lambda>p. p = ''/in'') (\<lambda>_. 9) ''/in'' demo_local)) (push_answers (\<lambda>p. p = ''/in'') (\<lambda>_. 9) ''/in'' demo_local @ [])"
    by (simp add: demo_afc_sees)
  moreover have "readable demo_local" by code_simp
  moreover have "length (push_requests (\<lambda>_. 9) ''/in'' demo_local) = 6" by code_simp
  ultimately show ?thesis using push_sends_tree [of demo_local _ "\<lambda>p. p = ''/in''" "\<lambda>_. 9" "''/in''" "[]"]
    by (force simp: afc_did_def demo_afc_def)
qed

section \<open>Weaknesses\<close>

text \<open>A local write that fails ends the transfer with the remote file still open.\<close>

lemma pull_write_failure_leaks:
  "fst (pull_one ''/a'' ''b'' 3 (demo_xfer [(OP_FILE_OPEN_RES, u64_le 7), (OP_DATA, [1, 2])] [None, Some 1])) = Err (AfcLocal ''write local'') \<and>
   outp (afc_stream (xf_afc (snd (pull_one ''/a'' ''b'' 3 (demo_xfer [(OP_FILE_OPEN_RES, u64_le 7), (OP_DATA, [1, 2])] [None, Some 1]))))) =
     req_bytes 0 [(OP_FILE_OPEN, u64_le FOPEN_RDONLY @ nul_str ''/a'', []), read_req 7]"
  by code_simp

text \<open>A failing read of the local file leaves the remote one open too.\<close>

lemma push_read_failure_leaks:
  "put_file_from_path [] True r c = (case file_open r c of (Ok h, c') \<Rightarrow> (Err (AfcLocal ''read local''), c') | (Err e, c') \<Rightarrow> (Err e, c')
    | (Panic, c') \<Rightarrow> (Panic, c'))"
  by (simp add: put_file_from_path_def bnd_def split: prod.splits outcome.splits)

text \<open>An entry name of the device that begins with a slash is written outside the directory that was asked for.\<close>

lemma remote_name_escapes:
  "(''/'' @ n, tr) \<in> set es \<Longrightarrow> layout (''/'' @ n) tr \<noteq> [] \<and> set (layout (''/'' @ n) tr) \<subseteq> set (layout loc (RDir info es))"
proof
  assume e: "(''/'' @ n, tr) \<in> set es"
  show "layout (''/'' @ n) tr \<noteq> []" by (cases tr) simp_all
  have "path_join loc (''/'' @ n) = ''/'' @ n" by (simp add: path_join_def)
  then show "set (layout (''/'' @ n) tr) \<subseteq> set (layout loc (RDir info es))" using e by force
qed

end
