(* ===== verification/AfcConnect.thy ===== *)
theory AfcConnect
  imports AfcTree DeviceSession
begin

text \<open>
  How an AFC client is connected: the constructors of \<open>src/src/lockdown/services/afc.rs\<close> that go
  through a lockdown session, and \<open>connect\<close> of \<open>src/src/bin/ios/cmd/afc.rs\<close>, which picks the
  container of an app or the media partition and, for a container, the shim of the discovery
  path or the lockdown service.
\<close>

datatype conn_error = CeLockdown ld_error | CeAfc afc_error | CeDevice dev_error

definition AFC_SERVICE :: string where "AFC_SERVICE = ''com.apple.afc''"

definition HOUSE_ARREST :: string where "HOUSE_ARREST = ''com.apple.mobile.house_arrest''"

type_synonym 'a lc = "(lockdown_session, conn_error, 'a) prog"

definition afc_connect :: "(pvalue \<Rightarrow> bytes) \<Rightarrow> (bytes \<Rightarrow> pvalue option) \<Rightarrow> ('c, 'd) tls \<Rightarrow> connection \<Rightarrow> afc lc" where
  "afc_connect xml parse T mux =
    bnd (on_err CeLockdown (connect_service xml parse T AFC_SERVICE mux)) (\<lambda>s. ret (afc_from_stream s))"

text \<open>A constructor that owns the stream it talks on; the client it gives holds the stream.\<close>

definition owning :: "(sock, afc_error, afc) prog \<Rightarrow> sock \<Rightarrow> (conn_error, afc) outcome" where
  "owning m s = map_err CeAfc (fst (m s))"

definition connect_app :: "(pvalue \<Rightarrow> bytes) \<Rightarrow> (bytes \<Rightarrow> pvalue option) \<Rightarrow> ('c, 'd) tls \<Rightarrow> connection \<Rightarrow> string \<Rightarrow> afc lc" where
  "connect_app xml parse T mux bundle_id =
    bnd (on_err CeLockdown (connect_service xml parse T HOUSE_ARREST mux)) (\<lambda>s.
      lift_o (owning (house_arrest_on_stream xml parse ''VendContainer'' bundle_id) s))"

definition connect_app_documents :: "(pvalue \<Rightarrow> bytes) \<Rightarrow> (bytes \<Rightarrow> pvalue option) \<Rightarrow> ('c, 'd) tls \<Rightarrow> connection \<Rightarrow> string \<Rightarrow> afc lc" where
  "connect_app_documents xml parse T mux bundle_id =
    bnd (on_err CeLockdown (connect_service xml parse T HOUSE_ARREST mux)) (\<lambda>s.
      lift_o (owning (house_arrest_on_stream xml parse ''VendDocuments'' bundle_id) s))"

text \<open>The lockdown session inside the device session is what \<open>connect\<close> changes.\<close>

definition cmd_connect :: "'t svc_env \<Rightarrow> (pvalue \<Rightarrow> bytes) \<Rightarrow> (bytes \<Rightarrow> pvalue option) \<Rightarrow> ('c, 'd) tls \<Rightarrow> connection \<Rightarrow>
    't device_session \<Rightarrow> string option \<Rightarrow> afc lc" where
  "cmd_connect V xml parse T mux d app = (case app of
     Some bundle_id \<Rightarrow>
       if is_rsd d
       then bnd (lift_o (map_err CeDevice (connect_rsd_shim V xml parse (ds_inner d) (HOUSE_ARREST @ ''.shim.remote'')))) (\<lambda>s.
         lift_o (owning (connect_app_shim xml parse bundle_id) s))
       else connect_app xml parse T mux bundle_id
   | None \<Rightarrow> afc_connect xml parse T mux)"

section \<open>Facts\<close>

lemma house_arrest_client:
  assumes "house_arrest_on_stream xml parse cmd b s = (Ok c, s')"
  shows "c = afc_from_stream s' \<and> (\<exists>v body. parse body = Some v \<and> house_arrest_error v = None)"
  using assms by (auto simp: house_arrest_on_stream_def Let_def bnd_Ok_iff lift_o_def ok_or_def afc_from_stream_def
      throw_def split: if_splits option.splits)

text \<open>
  A client that was connected starts at packet zero on its stream. For a container the
  device has answered the house-arrest request, and not with an error; on the discovery path the
  lockdown session is not used for it.
\<close>

theorem container_connected:
  assumes "cmd_connect V xml parse T mux d app l = (Ok c, l')"
  shows "packet_num c = 0 \<and> (\<forall>b. app = Some b \<longrightarrow> (\<exists>v body. parse body = Some v \<and> house_arrest_error v = None) \<and> (is_rsd d \<longrightarrow> l' = l))"
proof -
  have own: "packet_num c = 0 \<and> (\<exists>v body. parse body = Some v \<and> house_arrest_error v = None)"
    if "owning (house_arrest_on_stream xml parse cmd b) s = Ok c" for cmd b s
  proof -
    from that have "\<exists>s'. house_arrest_on_stream xml parse cmd b s = (Ok c, s')"
      by (cases "house_arrest_on_stream xml parse cmd b s"; cases "fst (house_arrest_on_stream xml parse cmd b s)")
        (auto simp: owning_def)
    then show ?thesis by (auto simp: afc_from_stream_def dest!: house_arrest_client)
  qed
  show ?thesis
  proof (cases app)
    case None
    then show ?thesis using assms by (auto simp: cmd_connect_def afc_connect_def bnd_Ok_iff afc_from_stream_def)
  next
    case (Some b)
    then show ?thesis using assms
      by (auto simp: cmd_connect_def connect_app_def connect_app_shim_def bnd_Ok_iff lift_o_def dest!: own split: if_splits)
  qed
qed

end
