(* ===== verification/Setup.thy ===== *)
theory Setup
  imports Services Pairing
begin

text \<open>
  Setting up a device, \<open>src/src/bin/ios/cmd/setup.rs\<close>: reading the supervision state, skipping
  the setup assistant, and supervised enrolment, on the MCInstall client of theory Services and
  the signatures of theory Pairing. The certificate may be a DER or a PEM file; its base64 reader
  is the one of this command. The files are given by what reading them gives.
\<close>

section \<open>Certificate files\<close>

text \<open>\<open>str::lines\<close>: a carriage return before the newline belongs to it, and an empty last piece is no line.\<close>

definition strip_cr :: "string \<Rightarrow> string" where
  "strip_cr l = (if l \<noteq> [] \<and> last l = CHR 0x0D then butlast l else l)"

definition str_lines :: "string \<Rightarrow> string list" where
  "str_lines s = (let ps = split_on (CHR 0x0A) s in map strip_cr (butlast ps) @ (if last ps = [] then [] else [last ps]))"

definition starts_str :: "string \<Rightarrow> string \<Rightarrow> bool" where
  "starts_str p s \<longleftrightarrow> take (length p) s = p"

text \<open>The table of the decoder; other characters map to 255.\<close>

definition b64_map :: "char \<Rightarrow> byte" where
  "b64_map c = (if c \<in> set B64_TABLE then word_of_nat (length (takeWhile (\<lambda>d. d \<noteq> c) B64_TABLE)) else 0xff)"

fun b64_groups :: "byte list \<Rightarrow> bytes" where
  "b64_groups (a # b # c # d # r) =
    [push_bit 2 a OR drop_bit 4 b, push_bit 4 b OR drop_bit 2 c, push_bit 6 c OR d] @ b64_groups r"
| "b64_groups [a, b, c] = [push_bit 2 a OR drop_bit 4 b, push_bit 4 b OR drop_bit 2 c]"
| "b64_groups [a, b] = [push_bit 2 a OR drop_bit 4 b]"
| "b64_groups _ = []"

definition setup_base64_decode :: "string \<Rightarrow> bytes" where
  "setup_base64_decode s = b64_groups (map b64_map (filter (\<lambda>c. c \<notin> {CHR ''='', CHR 0x0A, CHR 0x0D}) s))"

fun pem_block :: "bool \<Rightarrow> string list \<Rightarrow> string" where
  "pem_block in_block [] = []"
| "pem_block in_block (l # ls) =
    (if starts_str ''-----BEGIN'' l then pem_block True ls
     else if starts_str ''-----END'' l then []
     else (if in_block then l else []) @ pem_block in_block ls)"

datatype setup_error = SeMc ld_error | SeFile string | SeUtf8 | SeKey | SeSign

definition load_der_or_pem_cert :: "bytes option \<Rightarrow> (setup_error, bytes) outcome" where
  "load_der_or_pem_cert file =
    obind (ok_or file (SeFile ''read'')) (\<lambda>raw.
      if contains_str ''-----'' (string_of raw)
      then obind (ok_or (from_utf8 raw) SeUtf8) (\<lambda>pem. Ok (setup_base64_decode (pem_block False (str_lines pem))))
      else Ok raw)"

section \<open>Commands\<close>

definition SKIP_SETUP_KEYS :: "string list" where
  "SKIP_SETUP_KEYS = [''Accessibility'', ''AccessibilityAppearance'', ''ActionButton'', ''AgeAssurance'',
     ''AgeBasedSafetySettings'', ''Android'', ''Appearance'', ''AppleID'', ''AppStore'', ''Avatar'', ''Biometric'',
     ''CameraButton'', ''CloudStorage'', ''DeviceProtection'', ''DeviceToDeviceMigration'', ''Diagnostics'', ''Display'',
     ''EnableLockdownMode'', ''ExpressLanguage'', ''FileVault'', ''iCloudDiagnostics'', ''iCloudStorage'',
     ''iMessageAndFaceTime'', ''IntendedUser'', ''Intelligence'', ''Keyboard'', ''Language'', ''LanguageAndLocale'',
     ''Location'', ''LockdownMode'', ''MessagingActivationUsingPhoneNumber'', ''Multitasking'', ''OSShowCase'',
     ''Passcode'', ''Payment'', ''PreferredLanguage'', ''Privacy'', ''Region'', ''Registration'', ''Restore'',
     ''RestoreCompleted'', ''Safety'', ''SafetyAndHandling'', ''ScreenSaver'', ''ScreenTime'', ''SIMSetup'', ''Siri'',
     ''SoftwareUpdate'', ''SpokenLanguage'', ''TapToSetup'', ''TermsOfAddress'', ''Tips'', ''Tone'', ''TOS'', ''TouchID'',
     ''TrueToneDisplay'', ''TVHomeScreenSync'', ''TVProviderSignIn'', ''TVRoom'', ''UnlockWithWatch'',
     ''UpdateCompleted'', ''Wallpaper'', ''WatchMigration'', ''WebContentFiltering'', ''Welcome'', ''WiFi'']"

record SetupStatus =
  su_supervised :: bool
  su_organization :: "string option"
  su_complete :: bool

definition or_false :: "bool option \<Rightarrow> bool" where
  "or_false b = (case b of Some x \<Rightarrow> x | None \<Rightarrow> False)"

definition setup_status :: "(pvalue \<Rightarrow> bytes) \<Rightarrow> (bytes \<Rightarrow> pvalue option) \<Rightarrow> SetupStatus svc" where
  "setup_status xml parse =
    bnd (mc_flush xml parse) (\<lambda>_. bnd (get_cloud_config xml parse) (\<lambda>config.
      ret \<lparr>su_supervised = or_false (Option.bind (dget config ''IsSupervised'') as_boolean),
           su_organization = Option.bind (dget config ''OrganizationName'') as_string,
           su_complete = or_false (Option.bind (dget config ''CloudConfigurationIsComplete'') as_boolean)\<rparr>))"

definition skip_config :: pdictionary where
  "skip_config = [(''AllowPairing'', PBoolean True), (''SkipSetup'', PArray (map PString SKIP_SETUP_KEYS))]"

definition setup_skip :: "(pvalue \<Rightarrow> bytes) \<Rightarrow> (bytes \<Rightarrow> pvalue option) \<Rightarrow> unit svc" where
  "setup_skip xml parse =
    bnd (mc_flush xml parse) (\<lambda>_. bnd (mc_hello xml parse) (\<lambda>_. set_cloud_config xml parse skip_config))"

definition hex_fixed :: "nat \<Rightarrow> nat \<Rightarrow> string" where
  "hex_fixed w n = map (\<lambda>i. hex_char_up (n div 16 ^ (w - 1 - i) mod 16)) [0..<w]"

text \<open>The identifier is the clock in nanoseconds, cut into fields.\<close>

definition setup_random_uuid :: "nat \<Rightarrow> string" where
  "setup_random_uuid n =
    hex_fixed 8 (n div 2 ^ 96) @ ''-'' @ hex_fixed 4 (n div 2 ^ 80) @ ''-4'' @ hex_fixed 3 (n div 2 ^ 68 mod 0x1000) @ ''-'' @
    hex_fixed 4 (n div 2 ^ 52 mod 0x4000 + 0x8000) @ ''-'' @ hex_fixed 12 (n mod 2 ^ 48)"

definition enroll_config :: "string \<Rightarrow> string \<Rightarrow> bytes \<Rightarrow> pdictionary" where
  "enroll_config org org_magic cert_der =
    [(''AllowPairing'', PBoolean True), (''IsSupervised'', PBoolean True), (''IsMultiUser'', PBoolean False),
     (''OrganizationName'', PString org), (''OrganizationMagic'', PString org_magic),
     (''SkipSetup'', PArray (map PString SKIP_SETUP_KEYS)), (''SupervisorHostCertificates'', PArray [PData cert_der])]"

definition enroll_session :: "(pvalue \<Rightarrow> bytes) \<Rightarrow> (bytes \<Rightarrow> pvalue option) \<Rightarrow> ('p, 'k) rsa_lib \<Rightarrow> string \<Rightarrow> string \<Rightarrow>
    bytes \<Rightarrow> 'k \<Rightarrow> (sock, setup_error, unit) prog" where
  "enroll_session xml parse R org org_magic cert_der key =
    bnd (on_err SeMc (mc_flush xml parse)) (\<lambda>_.
    bnd (on_err SeMc (mc_hello xml parse)) (\<lambda>_.
    bnd (on_err SeMc (set_cloud_config xml parse (enroll_config org org_magic cert_der))) (\<lambda>_.
    bnd (on_err SeMc (escalate xml parse cert_der)) (\<lambda>challenge.
    bnd (lift_o (map_err (\<lambda>_. SeSign) (build_pkcs7_signed_data R challenge cert_der key))) (\<lambda>signed_data.
    bnd (on_err SeMc (escalate_response xml parse signed_data)) (\<lambda>_.
      on_err SeMc (proceed_keybag_migration xml parse)))))))"

definition setup_enroll :: "(pvalue \<Rightarrow> bytes) \<Rightarrow> (bytes \<Rightarrow> pvalue option) \<Rightarrow> ('p, 'k) rsa_lib \<Rightarrow> string \<Rightarrow>
    bytes option \<Rightarrow> bytes option \<Rightarrow> nat \<Rightarrow> (sock, setup_error, unit) prog" where
  "setup_enroll xml parse R org cert_file key_file nanos =
    bnd (lift_o (load_der_or_pem_cert cert_file)) (\<lambda>cert_der.
    bnd (lift_o (ok_or key_file (SeFile ''read supervision key''))) (\<lambda>key_bytes.
    bnd (lift_o (map_err (\<lambda>_. SeKey) (parse_rsa_key_bytes R key_bytes))) (\<lambda>key.
      enroll_session xml parse R org (setup_random_uuid nanos) cert_der key)))"

section \<open>The base64 reader\<close>

lemma push_or:
  fixes a b :: byte
  assumes "unat b < 2 ^ k" and "k \<le> 8"
  shows "push_bit k a OR b = word_of_nat (2 ^ k * unat a + unat b)"
proof -
  have "unat (take_bit k b) = unat b" using assms(1) by (simp only: unsigned_take_bit_eq) (simp add: take_bit_nat_eq_self)
  then have "b = take_bit k b" by (simp add: word_unat_eq_iff)
  then have "push_bit k a + b = push_bit k a OR b"
    by (intro disjunctive_add) (metis bit_push_bit_iff bit_take_bit_iff not_less)
  moreover have "push_bit k a + b = word_of_nat (2 ^ k * unat a + unat b)"
    by (simp add: push_bit_eq_mult mult.commute)
  ultimately show ?thesis by simp
qed

lemma takeWhile_found: "c \<in> set xs \<Longrightarrow> length (takeWhile (\<lambda>d. d \<noteq> c) xs) < length xs"
  by (induction xs) auto

lemma b64_map_index:
  assumes "b64_index c = Some p"
  shows "b64_map c = word_of_nat p" "p < 64" "c \<notin> {CHR ''='', CHR 0x0A, CHR 0x0D}"
proof -
  have c: "c \<in> set B64_TABLE" and p: "p = length (takeWhile (\<lambda>d. d \<noteq> c) B64_TABLE)"
    using assms by (simp_all add: b64_index_def split: if_splits)
  have "p < length B64_TABLE" unfolding p using c by (rule takeWhile_found)
  moreover have "length B64_TABLE = 64" by code_simp
  ultimately show "p < 64" by simp
  show "b64_map c = word_of_nat p" using c p by (simp add: b64_map_def)
  have "list_all (\<lambda>d. d \<notin> {CHR ''='', CHR 0x0A, CHR 0x0D}) B64_TABLE" by code_simp
  then show "c \<notin> {CHR ''='', CHR 0x0A, CHR 0x0D}" using c by (simp add: list_all_iff)
qed

lemma b64_pieces:
  assumes "p < 64" and "q < 64"
  shows "push_bit 2 (word_of_nat p :: byte) OR drop_bit 4 (word_of_nat q) = word_of_nat (4 * p + q div 16)"
    and "push_bit 4 (word_of_nat p :: byte) OR drop_bit 2 (word_of_nat q) = word_of_nat (p mod 16 * 16 + q div 4)"
    and "push_bit 6 (word_of_nat p :: byte) OR word_of_nat q = word_of_nat (p mod 4 * 64 + q)"
proof -
  have u: "unat (word_of_nat p :: byte) = p" "unat (word_of_nat q :: byte) = q"
    using assms by (simp_all add: unat_word_of_nat_byte)
  have d: "unat (drop_bit j (word_of_nat q :: byte)) = q div 2 ^ j" for j
    using assms(2) by (simp only: unsigned_drop_bit_eq u) (simp add: drop_bit_eq_div take_bit_nat_eq_self)
  have m: "(word_of_nat (x * 256 + y) :: byte) = word_of_nat y" for x y by (simp only: word_unat_eq_iff unat_word_of_nat_byte) simp
  have "q div 16 < 4" "q div 4 < 16" using assms(2) by (simp_all add: div_less_iff_less_mult)
  then show "push_bit 2 (word_of_nat p :: byte) OR drop_bit 4 (word_of_nat q) = word_of_nat (4 * p + q div 16)"
    using push_or [of "drop_bit 4 (word_of_nat q)" 2 "word_of_nat p"] d [of 4] u by simp
  have "16 * p + q div 4 = p div 16 * 256 + (p mod 16 * 16 + q div 4)"
    using div_mult_mod_eq [of p 16] by linarith
  then show "push_bit 4 (word_of_nat p :: byte) OR drop_bit 2 (word_of_nat q) = word_of_nat (p mod 16 * 16 + q div 4)"
    using push_or [of "drop_bit 2 (word_of_nat q)" 4 "word_of_nat p"] d [of 2] u \<open>q div 4 < 16\<close> m [of "p div 16"] by simp
  have "64 * p + q = p div 4 * 256 + (p mod 4 * 64 + q)" using div_mult_mod_eq [of p 4] by linarith
  then show "push_bit 6 (word_of_nat p :: byte) OR word_of_nat q = word_of_nat (p mod 4 * 64 + q)"
    using push_or [of "word_of_nat q" 6 "word_of_nat p"] u assms(2) m [of "p div 4"] by simp
qed

text \<open>On text that the standard reader accepts, this reader agrees with it.\<close>

lemma setup_base64_agrees: "base64_decode s = Some bs \<Longrightarrow> setup_base64_decode s = bs"
proof (induction s arbitrary: bs rule: base64_decode.induct)
  case (2 a b c d rest)
  from "2.prems" obtain p q where p: "b64_index a = Some p" and q: "b64_index b = Some q"
    by (auto split: option.splits)
  note pq = b64_map_index [OF p] b64_map_index [OF q]
  show ?case
  proof (cases "b64_index c")
    case None
    then show ?thesis using "2.prems" p q pq by (auto simp: setup_base64_decode_def b64_pieces split: option.splits if_splits)
  next
    case r: (Some r)
    note pr = pq b64_map_index [OF r]
    show ?thesis
    proof (cases "b64_index d")
      case None
      then show ?thesis using "2.prems" p q r pr by (auto simp: setup_base64_decode_def b64_pieces split: if_splits)
    next
      case s: (Some s)
      then obtain bs' where bs: "base64_decode rest = Some bs'"
        "bs = [word_of_nat (4 * p + q div 16), word_of_nat (q mod 16 * 16 + r div 4), word_of_nat (r mod 4 * 64 + s)] @ bs'"
        using "2.prems" p q r by auto
      have "setup_base64_decode rest = bs'" using "2.IH" p q r s bs(1) by simp
      then show ?thesis using pr b64_map_index [OF s] bs(2) by (simp add: setup_base64_decode_def b64_pieces)
    qed
  qed
qed (simp_all add: setup_base64_decode_def)


section \<open>PEM files\<close>

lemma b64_char_table: "b64_char k b \<in> set B64_TABLE"
  using b64_index_char [of k b] by (simp add: b64_index_def split: if_splits)

lemma base64_encode_chars: "set (base64_encode bs) \<subseteq> insert (CHR ''='') (set B64_TABLE)"
  by (induction bs rule: base64_encode.induct) (auto simp: Let_def b64_char_table)

lemma base64_encode_plain:
  assumes "c \<in> set (base64_encode bs)"
  shows "c \<noteq> CHR 0x0A" "c \<noteq> CHR 0x0D" "c \<noteq> CHR ''-''"
proof -
  have "list_all (\<lambda>c. c \<noteq> CHR 0x0A \<and> c \<noteq> CHR 0x0D \<and> c \<noteq> CHR ''-'') (CHR ''='' # B64_TABLE)" by code_simp
  moreover have "c \<in> set (CHR ''='' # B64_TABLE)" using assms base64_encode_chars by fastforce
  ultimately show "c \<noteq> CHR 0x0A" "c \<noteq> CHR 0x0D" "c \<noteq> CHR ''-''" by (auto simp: list_all_iff)
qed

lemma split_on_line: "c \<notin> set a \<Longrightarrow> split_on c (a @ c # r) = a # split_on c r"
  by (induction a) auto

lemma str_lines_Nil [simp]: "str_lines [] = []"
  by (simp add: str_lines_def)

lemma str_lines_line: "CHR 0x0A \<notin> set a \<Longrightarrow> str_lines (a @ CHR 0x0A # r) = strip_cr a # str_lines r"
  by (simp add: str_lines_def split_on_line Let_def)

lemma str_lines_lines:
  "list_all (\<lambda>l. CHR 0x0A \<notin> set l) ls \<Longrightarrow> str_lines (concat (map (\<lambda>l. l @ [CHR 0x0A]) ls) @ r) = map strip_cr ls @ str_lines r"
  by (induction ls) (simp_all add: str_lines_line)

lemma str_lines_pem:
  assumes "list_all (\<lambda>l. CHR 0x0A \<notin> set l) pre" "CHR 0x0A \<notin> set b" "list_all (\<lambda>l. CHR 0x0A \<notin> set l) cs" "CHR 0x0A \<notin> set e"
  shows "str_lines (concat (map (\<lambda>l. l @ [CHR 0x0A]) pre) @ b @ CHR 0x0A # concat (map (\<lambda>c. c @ [CHR 0x0A]) cs) @ e @ [CHR 0x0A]) =
    map strip_cr pre @ strip_cr b # map strip_cr cs @ [strip_cr e]"
  using assms by (simp add: str_lines_lines str_lines_line)

lemma starts_strip_cr: "starts_str p (strip_cr l) \<Longrightarrow> starts_str p l"
proof -
  assume "starts_str p (strip_cr l)"
  moreover have "\<exists>r. l = strip_cr l @ r"
    by (metis append_butlast_last_id append_Nil2 strip_cr_def)
  ultimately show "starts_str p l" unfolding starts_str_def by (metis append_take_drop_id append_eq_conv_conj append.assoc)
qed

definition pem_line :: "string \<Rightarrow> bool" where
  "pem_line l \<longleftrightarrow> \<not> starts_str ''-----BEGIN'' l \<and> \<not> starts_str ''-----END'' l"

lemma pem_line_strip: "pem_line l \<Longrightarrow> pem_line (strip_cr l)"
  by (auto simp: pem_line_def dest: starts_strip_cr)

lemma pem_block_lines: "list_all pem_line ls \<Longrightarrow> pem_block b (ls @ r) = (if b then concat ls else []) @ pem_block b r"
  by (induction ls) (auto simp: pem_line_def)

lemma chunk_line:
  assumes "c \<in> set (chunks 64 (base64_encode der))"
  shows "strip_cr c = c" "pem_line c" "CHR 0x0A \<notin> set c"
proof -
  have "set c \<subseteq> set (base64_encode der)" using assms concat_chunks [of 64 "base64_encode der"] by (metis UN_upper set_concat zero_less_numeral)
  then have p: "x \<noteq> CHR 0x0A" "x \<noteq> CHR 0x0D" "x \<noteq> CHR ''-''" if "x \<in> set c" for x using that base64_encode_plain by blast+
  show "CHR 0x0A \<notin> set c" using p(1) by blast
  show "strip_cr c = c" using p(2) last_in_set [of c] by (metis strip_cr_def)
  show "pem_line c" using p(3) [of "hd c"] by (cases c) (auto simp: pem_line_def starts_str_def)
qed

text \<open>
  A certificate that was written as PEM is loaded as the bytes it was made from, whatever its
  length, also with other lines, such as bag attributes, in front of the block and with either line ending
  in them.
\<close>

theorem pem_cert_loaded:
  assumes "list_all (\<lambda>l. CHR 0x0A \<notin> set l \<and> pem_line l) pre" and "CHR 0x0A \<notin> set label"
    and "valid_str (concat (map (\<lambda>l. l @ [CHR 0x0A]) pre) @ string_of (pem_encode label der))"
  shows "load_der_or_pem_cert (Some (bytes_of (concat (map (\<lambda>l. l @ [CHR 0x0A]) pre)) @ pem_encode label der)) = Ok der"
proof -
  let ?pre = "concat (map (\<lambda>l. l @ [CHR 0x0A]) pre)" and ?cs = "chunks 64 (base64_encode der)"
  let ?b = "''-----BEGIN '' @ label @ ''-----''" and ?e = "''-----END '' @ label @ ''-----''"
  let ?t = "?pre @ ?b @ CHR 0x0A # concat (map (\<lambda>c. c @ [CHR 0x0A]) ?cs) @ ?e @ [CHR 0x0A]"
  have t: "bytes_of ?pre @ pem_encode label der = bytes_of ?t" by (simp add: pem_encode_def bytes_of_def)
  have v: "valid_str ?t" using assms(3) by (simp add: pem_encode_def)
  have "contains_str ''-----'' ?t" using contains_str_inner [of "''-----''" ?pre] by simp
  moreover have "str_lines ?t = map strip_cr pre @ strip_cr ?b # ?cs @ [strip_cr ?e]"
  proof -
    have "list_all (\<lambda>l. CHR 0x0A \<notin> set l) ?cs" "map strip_cr ?cs = ?cs" using chunk_line by (auto simp: list_all_iff intro: map_idI)
    moreover have "list_all (\<lambda>l. CHR 0x0A \<notin> set l) pre" using assms(1) by (auto simp: list_all_iff)
    ultimately show ?thesis using str_lines_pem [of pre ?b ?cs ?e] assms(2) by simp
  qed
  moreover have "pem_block False (map strip_cr pre @ strip_cr ?b # ?cs @ [strip_cr ?e]) = base64_encode der"
  proof -
    have "list_all pem_line (map strip_cr pre)" "list_all pem_line ?cs"
      using assms(1) chunk_line by (auto simp: list_all_iff intro: pem_line_strip)
    moreover have "strip_cr ?b = ?b" "strip_cr ?e = ?e" by (simp_all add: strip_cr_def)
    ultimately show ?thesis by (simp add: pem_block_lines starts_str_def concat_chunks)
  qed
  ultimately show ?thesis using v setup_base64_agrees [OF base64_roundtrip]
    by (simp add: t load_der_or_pem_cert_def)
qed


theorem pem_cert_loaded_witness:
  "load_der_or_pem_cert (Some (bytes_of (concat (map (\<lambda>l. l @ [CHR 0x0A]) [''Bag Attributes'' @ [CHR 0x0D]])) @
     pem_encode ''CERTIFICATE'' [0x30, 0x03, 0x02, 0x01])) = Ok [0x30, 0x03, 0x02, 0x01]"
proof (rule pem_cert_loaded)
  show "list_all (\<lambda>l. CHR 0x0A \<notin> set l \<and> pem_line l) [''Bag Attributes'' @ [CHR 0x0D]]" by code_simp
  show "CHR 0x0A \<notin> set ''CERTIFICATE''" by code_simp
  show "valid_str (concat (map (\<lambda>l. l @ [CHR 0x0A]) [''Bag Attributes'' @ [CHR 0x0D]]) @
      string_of (pem_encode ''CERTIFICATE'' [0x30, 0x03, 0x02, 0x01]))" by code_simp
qed

section \<open>Enrolment\<close>

lemma mc_step:
  assumes "svc_ready (svc_bad McInstall) xml parse rest (v # vs) s"
  obtains s' where "on_err SeMc (svc_ask McInstall xml parse q f) s = (map_err SeMc (f v), s')"
    and "svc_ready (svc_bad McInstall) xml parse rest vs s'" and "outp s' = outp s @ lp_frame (xml q)"
proof -
  from svc_client.ask_spec [OF assms, of q f] obtain s' where "svc_ask McInstall xml parse q f s = (f v, s')"
    "svc_ready (svc_bad McInstall) xml parse rest vs s'" "outp s' = outp s @ lp_frame (xml q)"
    by (auto simp: svc_ask_def)
  then show thesis using that by (cases "f v") (auto simp: on_err_def)
qed

definition enroll_requests :: "string \<Rightarrow> string \<Rightarrow> bytes \<Rightarrow> bytes \<Rightarrow> pvalue list" where
  "enroll_requests org magic cert sd = [mc_request ''Flush'' [], mc_request ''HelloHostIdentifier'' [],
     mc_request ''SetCloudConfiguration'' [(''CloudConfiguration'', PDictionary (enroll_config org magic cert))],
     mc_request ''Escalate'' [(''SupervisorCertificate'', PData cert)],
     mc_request ''EscalateResponse'' [(''SignedRequest'', PData sd)], mc_request ''ProceedWithKeybagMigration'' []]"

lemmas mc_defs = mc_flush_def mc_hello_def set_cloud_config_def escalate_def escalate_response_def
  proceed_keybag_migration_def send_recv_ack_def

text \<open>
  A device that acknowledges every step is enrolled with the six requests in their order, and the
  fifth carries the signature of the challenge the device has just given. A device that
  refuses the configuration is asked nothing more: it is not escalated.
\<close>

theorem enroll_conversation:
  assumes "svc_ready (svc_bad McInstall) xml parse rest ([v1, v2, v3, v4, v5, v6] @ vs) s"
    and "ack_reply ''Flush'' v1 = Ok ()"
  shows "ack_reply ''SetCloudConfiguration'' v3 = Ok () \<Longrightarrow> escalate_reply v4 = Ok ch \<Longrightarrow>
      build_pkcs7_signed_data R ch cert key = Ok sd \<Longrightarrow> ack_reply ''EscalateResponse'' v5 = Ok () \<Longrightarrow>
      ack_reply ''ProceedWithKeybagMigration'' v6 = Ok () \<Longrightarrow>
      \<exists>s'. enroll_session xml parse R org magic cert key s = (Ok (), s') \<and> svc_ready (svc_bad McInstall) xml parse rest vs s' \<and>
        outp s' = outp s @ concat (map (\<lambda>q. lp_frame (xml q)) (enroll_requests org magic cert sd))"
    and "ack_reply ''SetCloudConfiguration'' v3 = Err e \<Longrightarrow>
      \<exists>s'. enroll_session xml parse R org magic cert key s = (Err (SeMc e), s') \<and>
        outp s' = outp s @ concat (map (\<lambda>q. lp_frame (xml q)) (take 3 (enroll_requests org magic cert sd)))"
proof -
  let ?e = "enroll_requests org magic cert sd" and ?rdy = "svc_ready (svc_bad McInstall) xml parse rest"
  obtain s1 where s1: "on_err SeMc (mc_flush xml parse) s = (Ok (), s1)" "?rdy ([v2, v3, v4, v5, v6] @ vs) s1"
    "outp s1 = outp s @ lp_frame (xml (?e ! 0))"
    using mc_step [of xml parse rest v1 "[v2, v3, v4, v5, v6] @ vs" s "mc_request ''Flush'' []" "ack_reply ''Flush''"] assms
    by (auto simp: mc_defs enroll_requests_def)
  obtain s2 where s2: "on_err SeMc (mc_hello xml parse) s1 = (Ok (), s2)" "?rdy ([v3, v4, v5, v6] @ vs) s2"
    "outp s2 = outp s1 @ lp_frame (xml (?e ! 1))"
    using mc_step [OF s1(2) [unfolded append.simps], of "mc_request ''HelloHostIdentifier'' []" "\<lambda>_. Ok ()"]
    by (auto simp: mc_defs enroll_requests_def)
  obtain s3 where s3: "on_err SeMc (set_cloud_config xml parse (enroll_config org magic cert)) s2 =
      (map_err SeMc (ack_reply ''SetCloudConfiguration'' v3), s3)" "?rdy ([v4, v5, v6] @ vs) s3"
    "outp s3 = outp s2 @ lp_frame (xml (?e ! 2))"
    using mc_step [OF s2(2) [unfolded append.simps], of
        "mc_request ''SetCloudConfiguration'' [(''CloudConfiguration'', PDictionary (enroll_config org magic cert))]"
        "ack_reply ''SetCloudConfiguration''"]
    by (auto simp: mc_defs enroll_requests_def)
  {
    assume "ack_reply ''SetCloudConfiguration'' v3 = Err e"
    then have "enroll_session xml parse R org magic cert key s = (Err (SeMc e), s3)"
      using s1(1) s2(1) s3(1) by (simp add: enroll_session_def bnd_def)
    then show "\<exists>s'. enroll_session xml parse R org magic cert key s = (Err (SeMc e), s') \<and>
        outp s' = outp s @ concat (map (\<lambda>q. lp_frame (xml q)) (take 3 ?e))"
      using s1(3) s2(3) s3(3) by (simp add: enroll_requests_def)
  next
    assume a: "ack_reply ''SetCloudConfiguration'' v3 = Ok ()" "escalate_reply v4 = Ok ch"
      "build_pkcs7_signed_data R ch cert key = Ok sd" "ack_reply ''EscalateResponse'' v5 = Ok ()"
      "ack_reply ''ProceedWithKeybagMigration'' v6 = Ok ()"
    obtain s4 where s4: "on_err SeMc (escalate xml parse cert) s3 = (Ok ch, s4)" "?rdy ([v5, v6] @ vs) s4"
      "outp s4 = outp s3 @ lp_frame (xml (?e ! 3))"
      using mc_step [OF s3(2) [unfolded append.simps], of "mc_request ''Escalate'' [(''SupervisorCertificate'', PData cert)]" escalate_reply] a
      by (auto simp: mc_defs enroll_requests_def)
    obtain s5 where s5: "on_err SeMc (escalate_response xml parse sd) s4 = (Ok (), s5)" "?rdy ([v6] @ vs) s5"
      "outp s5 = outp s4 @ lp_frame (xml (?e ! 4))"
      using mc_step [OF s4(2) [unfolded append.simps], of "mc_request ''EscalateResponse'' [(''SignedRequest'', PData sd)]"
          "ack_reply ''EscalateResponse''"] a
      by (auto simp: mc_defs enroll_requests_def)
    obtain s6 where s6: "on_err SeMc (proceed_keybag_migration xml parse) s5 = (Ok (), s6)" "?rdy vs s6"
      "outp s6 = outp s5 @ lp_frame (xml (?e ! 5))"
      using mc_step [OF s5(2) [unfolded append.simps], of "mc_request ''ProceedWithKeybagMigration'' []"
          "ack_reply ''ProceedWithKeybagMigration''"] a
      by (auto simp: mc_defs enroll_requests_def)
    have "enroll_session xml parse R org magic cert key s = (Ok (), s6)"
      using s1(1) s2(1) s3(1) s4(1) s5(1) s6(1) a by (simp add: enroll_session_def bnd_def lift_o_def)
    then show "\<exists>s'. enroll_session xml parse R org magic cert key s = (Ok (), s') \<and> ?rdy vs s' \<and>
        outp s' = outp s @ concat (map (\<lambda>q. lp_frame (xml q)) ?e)"
      using s1(3) s2(3) s3(3) s4(3) s5(3) s6(2,3) by (simp add: enroll_requests_def)
  }
qed

section \<open>Weaknesses\<close>

text \<open>A character outside the table decodes without an error.\<close>

lemma bad_base64_accepted: "setup_base64_decode ''A!AA'' = [0x0f, 0xf0, 0x00]"
  by code_simp

text \<open>A DER file with five hyphens somewhere inside is taken for PEM and loads as nothing.\<close>

lemma der_with_hyphens_lost: "load_der_or_pem_cert (Some ([0x30, 0x05] @ bytes_of ''-----'')) = Ok []"
  by code_simp

text \<open>Skipping the assistant never sends the key that its description names.\<close>

lemma skip_config_incomplete: "dget skip_config ''CloudConfigurationIsComplete'' = None"
  by code_simp

end
