(* ===== verification/Ios17.thy ===== *)
theory Ios17
  imports CdTunnel Version
begin

text \<open>
  Bringing up the tunnel of iOS 17: \<open>do_handshake\<close> of \<open>src/src/tunnel/cdtunnel.rs\<close> and
  \<open>src/src/tunnel/ios17.rs\<close>. The JSON crate is given by the text of the request and by what it
  reads from an answer; the text of an IPv6 address is read as the standard library does. Each
  connection to usbmuxd that is opened is an argument. A Unix socket that is relayed
  through a loopback connection carries the same bytes and is not told apart.
\<close>

section \<open>Addresses\<close>

text \<open>Readers give the rest of the text; one that fails leaves the text as it was.\<close>

type_synonym 'a reader = "string \<Rightarrow> ('a \<times> string) option"

definition to_digit :: "nat \<Rightarrow> char \<Rightarrow> nat option" where
  "to_digit radix c = (case hex_digit c of Some d \<Rightarrow> if d < radix then Some d else None | None \<Rightarrow> None)"

fun digits_loop :: "nat \<Rightarrow> nat \<Rightarrow> nat \<Rightarrow> nat \<Rightarrow> string \<Rightarrow> (nat \<times> nat \<times> string) option" where
  "digits_loop radix max_digits acc cnt [] = Some (acc, cnt, [])"
| "digits_loop radix max_digits acc cnt (c # r) = (case to_digit radix c of
     None \<Rightarrow> Some (acc, cnt, c # r)
   | Some d \<Rightarrow> if max_digits < cnt + 1 then None else digits_loop radix max_digits (acc * radix + d) (cnt + 1) r)"

text \<open>\<open>bound\<close> is one more than the largest value of the result type.\<close>

definition read_number :: "nat \<Rightarrow> nat \<Rightarrow> bool \<Rightarrow> nat \<Rightarrow> nat reader" where
  "read_number radix max_digits allow_zero_prefix bound s = (case digits_loop radix max_digits 0 0 s of
     None \<Rightarrow> None
   | Some (v, cnt, r) \<Rightarrow>
       if cnt = 0 \<or> \<not> allow_zero_prefix \<and> take 1 s = ''0'' \<and> 1 < cnt \<or> bound \<le> v then None else Some (v, r))"

definition read_separator :: "char \<Rightarrow> nat \<Rightarrow> 'a reader \<Rightarrow> 'a reader" where
  "read_separator sep i inner s = (if i = 0 then inner s else case s of c # r \<Rightarrow> if c = sep then inner r else None | [] \<Rightarrow> None)"

fun read_octets :: "nat \<Rightarrow> nat \<Rightarrow> nat list reader" where
  "read_octets i 0 s = Some ([], s)"
| "read_octets i (Suc n) s = (case read_separator (CHR ''.'') i (read_number 10 3 False 256) s of
     None \<Rightarrow> None
   | Some (v, r) \<Rightarrow> map_option (\<lambda>(vs, r'). (v # vs, r')) (read_octets (i + 1) n r))"

definition read_ipv4_addr :: "nat list reader" where
  "read_ipv4_addr s = read_octets 0 4 s"

text \<open>Up to \<open>n\<close> more groups at index \<open>i\<close>; the flag tells that the last two came from an IPv4 address.\<close>

fun read_groups :: "nat \<Rightarrow> nat \<Rightarrow> string \<Rightarrow> nat list \<times> bool \<times> string" where
  "read_groups i 0 s = ([], False, s)"
| "read_groups i (Suc n) s =
    (case (if n = 0 then None else read_separator (CHR '':'') i read_ipv4_addr s) of
       Some (os, r) \<Rightarrow> ([os ! 0 * 256 + os ! 1, os ! 2 * 256 + os ! 3], True, r)
     | None \<Rightarrow> (case read_separator (CHR '':'') i (read_number 16 4 True 65536) s of
         None \<Rightarrow> ([], False, s)
       | Some (v, r) \<Rightarrow> (case read_groups (i + 1) n r of (gs, b, r') \<Rightarrow> (v # gs, b, r'))))"

definition parse_ipv6 :: "string \<Rightarrow> nat list option" where
  "parse_ipv6 s = (case read_groups 0 8 s of (hd_gs, v4, r) \<Rightarrow>
     if length hd_gs = 8 then (if r = [] then Some hd_gs else None)
     else if v4 \<or> take 2 r \<noteq> ''::'' then None
     else case read_groups 0 (8 - (length hd_gs + 1)) (drop 2 r) of (tl_gs, _, r') \<Rightarrow>
       if r' = [] then Some (hd_gs @ replicate (8 - length hd_gs - length tl_gs) 0 @ tl_gs) else None)"

section \<open>The handshake\<close>

record ClientParams =
  cp_address :: string
  cp_mtu :: u16

record ServerHandshake =
  sh_server_address :: string
  sh_server_rsd_port :: u16
  sh_client_parameters :: ClientParams

record TunnelParams =
  tp_client_addr :: "nat list"
  tp_server_addr :: "nat list"
  tp_server_rsd_port :: u16
  tp_mtu :: u16

record ClientHandshake =
  ch_kind :: string
  ch_mtu :: u16

text \<open>The crate that writes and reads JSON.\<close>

record json_lib =
  json_request :: "ClientHandshake \<Rightarrow> bytes"
  json_server :: "bytes \<Rightarrow> ServerHandshake option"

definition params_of :: "ServerHandshake \<Rightarrow> (tun_error, TunnelParams) outcome" where
  "params_of resp =
    obind (ok_or (parse_ipv6 (cp_address (sh_client_parameters resp))) TunProtocol) (\<lambda>client_addr.
    obind (ok_or (parse_ipv6 (sh_server_address resp)) TunProtocol) (\<lambda>server_addr.
      Ok \<lparr>tp_client_addr = client_addr, tp_server_addr = server_addr, tp_server_rsd_port = sh_server_rsd_port resp,
          tp_mtu = cp_mtu (sh_client_parameters resp)\<rparr>))"

definition do_handshake :: "json_lib \<Rightarrow> (sock, tun_error, TunnelParams) prog" where
  "do_handshake J =
    bnd (on_err TunIo (cd_send_frame (json_request J \<lparr>ch_kind = ''clientHandshakeRequest'', ch_mtu = 1280\<rparr>))) (\<lambda>_.
    bnd (on_inp cd_recv_frame) (\<lambda>body.
    bnd (lift_o (ok_or (json_server J body) TunJson)) (\<lambda>resp. lift_o (params_of resp))))"

section \<open>Connecting\<close>

datatype t17_error = T17Tun tun_error | T17Usb usb_error | T17Lockdown ld_error | T17Protocol string | T17Version version_error

text \<open>
  The stack that is started: on the plain socket the reader thread, on TLS the unified loop, each
  with the read timeout in milliseconds that its socket has.
\<close>

datatype stack_kind = PlainStack | TlsStack

record Ios17Tunnel =
  it_params :: TunnelParams
  it_kind :: stack_kind
  it_sock :: sock
  it_read_timeout :: nat
  it_version :: IosVersion

definition HANDSHAKE_TIMEOUT :: nat where "HANDSHAKE_TIMEOUT = 10000"
definition POLL_READ_TIMEOUT :: nat where "POLL_READ_TIMEOUT = 2"
definition CORE_DEVICE_PROXY :: string where "CORE_DEVICE_PROXY = ''com.apple.internal.devicecompute.CoreDeviceProxy''"

definition cdtunnel_over_tcp :: "json_lib \<Rightarrow> IosVersion \<Rightarrow> sock \<Rightarrow> (t17_error, Ios17Tunnel) outcome" where
  "cdtunnel_over_tcp J version s = (case do_handshake J s of
     (Ok p, s') \<Rightarrow> Ok \<lparr>it_params = p, it_kind = PlainStack, it_sock = s', it_read_timeout = HANDSHAKE_TIMEOUT, it_version = version\<rparr>
   | (Err e, _) \<Rightarrow> Err (T17Tun e) | (Panic, _) \<Rightarrow> Panic)"

definition cdtunnel_over_tls :: "json_lib \<Rightarrow> IosVersion \<Rightarrow> sock \<Rightarrow> (t17_error, Ios17Tunnel) outcome" where
  "cdtunnel_over_tls J version s = (case do_handshake J s of
     (Ok p, s') \<Rightarrow> Ok \<lparr>it_params = p, it_kind = TlsStack, it_sock = s', it_read_timeout = POLL_READ_TIMEOUT, it_version = version\<rparr>
   | (Err e, _) \<Rightarrow> Err (T17Tun e) | (Panic, _) \<Rightarrow> Panic)"

definition tls_config_17 :: "('c, 'd) tls \<Rightarrow> pair_record \<Rightarrow> (t17_error, 'c) outcome" where
  "tls_config_17 T pair =
    obind (ok_or (pem_certs T (host_certificate pair)) (T17Protocol ''cert'')) (\<lambda>certs.
    obind (ok_or (pem_key T (host_private_key pair)) (T17Protocol ''key'')) (\<lambda>k.
    obind (ok_or k (T17Protocol ''no private key'')) (\<lambda>key.
      ok_or (client_config T certs key) (T17Protocol ''config''))))"

definition tls_wrap :: "('c, 'd) tls \<Rightarrow> pair_record \<Rightarrow> sock \<Rightarrow> (t17_error, sock) outcome" where
  "tls_wrap T pair s =
    obind (tls_config_17 T pair) (\<lambda>config.
    obind (ok_or (client_connection T config) (T17Protocol ''TLS init'')) (\<lambda>conn.
      case complete_handshake T conn s of Inl _ \<Rightarrow> Err (T17Protocol ''service TLS handshake'') | Inr s' \<Rightarrow> Ok s'))"

text \<open>Without a name for the device, its own answer is used, and the empty one if it gives none.\<close>

definition device_udid :: "(pvalue \<Rightarrow> bytes) \<Rightarrow> (bytes \<Rightarrow> pvalue option) \<Rightarrow> u32 \<Rightarrow> string option \<Rightarrow> connection \<Rightarrow>
    (t17_error, string) outcome" where
  "device_udid xml parse device_id udid mux = (case udid of
     Some u \<Rightarrow> Ok u
   | None \<Rightarrow> obind (map_err T17Lockdown (ls_connect xml parse device_id mux)) (\<lambda>c.
       case fst (ls_get_value xml parse None ''UniqueDeviceID'' c) of
         Ok v \<Rightarrow> Ok (case v of PString u \<Rightarrow> u | _ \<Rightarrow> []) | Err _ \<Rightarrow> Ok [] | Panic \<Rightarrow> Panic))"

text \<open>
  The connections are opened in the order of the list \<open>m\<close>. A connection opened here is a TCP or a Unix
  socket, so the error for an external one is never reached; the relay of a Unix socket passes its
  bytes on.
\<close>

definition connect_via_lockdown_udid :: "(pvalue \<Rightarrow> bytes) \<Rightarrow> (bytes \<Rightarrow> pvalue option) \<Rightarrow> ('c, 'd) tls \<Rightarrow> json_lib \<Rightarrow> u32 \<Rightarrow>
    string option \<Rightarrow> IosVersion \<Rightarrow> (nat \<Rightarrow> connection) \<Rightarrow> (t17_error, Ios17Tunnel) outcome" where
  "connect_via_lockdown_udid xml parse T J device_id udid version m =
    obind (device_udid xml parse device_id udid (m 0)) (\<lambda>u.
    obind (map_err T17Lockdown (open_paired xml parse T device_id u (m 1) (m 2))) (\<lambda>c.
    obind (map_err T17Lockdown (fst (ls_start_service xml parse CORE_DEVICE_PROXY c))) (\<lambda>svc.
      case open_tunnel xml parse device_id (si_port svc) (m 3) of
        (Panic, _) \<Rightarrow> Panic
      | (Err e, _) \<Rightarrow> Err (T17Usb e)
      | (Ok _, mux) \<Rightarrow>
          if si_enable_service_ssl svc
          then obind (map_err T17Lockdown (fst (read_from_usbmuxd xml parse u (m 4)))) (\<lambda>pair.
            obind (tls_wrap T pair (conn_socket mux)) (cdtunnel_over_tls J version))
          else cdtunnel_over_tcp J version (conn_socket mux))))"

definition tunnel_connect :: "(pvalue \<Rightarrow> bytes) \<Rightarrow> (bytes \<Rightarrow> pvalue option) \<Rightarrow> ('c, 'd) tls \<Rightarrow> json_lib \<Rightarrow> u32 \<Rightarrow>
    connection \<Rightarrow> (nat \<Rightarrow> connection) \<Rightarrow> (t17_error, Ios17Tunnel) outcome" where
  "tunnel_connect xml parse T J device_id mux m =
    obind (map_err T17Version (detect_version xml parse device_id mux)) (\<lambda>version.
      if supports_core_device_proxy version then connect_via_lockdown_udid xml parse T J device_id None version m
      else if supports_rsd version
        then Err (T17Protocol (''iOS '' @ show_version version @ '': USB-Ethernet tunnel not yet implemented''))
      else Err (T17Protocol (''iOS '' @ show_version version @ '' uses legacy lockdown-only path'')))"

text \<open>The packets the stack reads from its socket.\<close>

definition stack_packets :: "stack_kind \<Rightarrow> script \<Rightarrow> bytes list" where
  "stack_packets k s = (case k of PlainStack \<Rightarrow> reader_thread s | TlsStack \<Rightarrow> unified_reads s)"


section \<open>Reading addresses\<close>

text \<open>A group as its hexadecimal digits, one to four, leading zeros allowed.\<close>

definition group_wf :: "nat list \<Rightarrow> bool" where
  "group_wf ds \<longleftrightarrow> 1 \<le> length ds \<and> length ds \<le> 4 \<and> list_all (\<lambda>d. d < 16) ds"

definition group_val :: "nat list \<Rightarrow> nat" where
  "group_val ds = foldl (\<lambda>a d. a * 16 + d) 0 ds"

text \<open>The text of groups from index \<open>i\<close> on, with colons between them.\<close>

fun groups_text :: "nat \<Rightarrow> nat list list \<Rightarrow> string" where
  "groups_text i [] = []"
| "groups_text i (g # gs) = (if i = 0 then [] else '':'') @ map hex_char g @ groups_text (i + 1) gs"

lemma to_digit_hex: "d < 16 \<Longrightarrow> to_digit 16 (hex_char d) = Some d"
proof -
  have "list_all (\<lambda>d. to_digit 16 (hex_char d) = Some d) [0..<16]" by code_simp
  then show "d < 16 \<Longrightarrow> ?thesis" by (simp add: list_all_iff)
qed

lemma colon_no_digit [simp]: "to_digit 16 (CHR '':'') = None" "to_digit 10 (CHR '':'') = None"
  by code_simp+

lemma digits_loop_hex:
  assumes "list_all (\<lambda>d. d < 16) ds" and "cnt + length ds \<le> 4" and "r = [] \<or> hd r = CHR '':''"
  shows "digits_loop 16 4 acc cnt (map hex_char ds @ r) = Some (foldl (\<lambda>a d. a * 16 + d) acc ds, cnt + length ds, r)"
  using assms
proof (induction ds arbitrary: acc cnt)
  case Nil
  then show ?case by (cases r) auto
qed (simp add: to_digit_hex)

lemma group_val_less: "group_wf ds \<Longrightarrow> group_val ds < 65536"
proof -
  have "foldl (\<lambda>a d. a * 16 + d) acc ds < (acc + 1) * 16 ^ length ds" if "list_all (\<lambda>d. d < 16) ds" for acc :: nat and ds
    using that
  proof (induction ds arbitrary: acc)
    case (Cons d ds)
    then have "foldl (\<lambda>a d. a * 16 + d) (acc * 16 + d) ds < (acc * 16 + d + 1) * 16 ^ length ds" by simp
    also have "\<dots> \<le> ((acc + 1) * 16) * 16 ^ length ds" using Cons.prems by (intro mult_le_mono1) simp
    finally show ?case by (simp add: algebra_simps)
  qed simp
  note this [of ds 0]
  moreover have "(16 :: nat) ^ length ds \<le> 16 ^ 4" if "length ds \<le> 4" using that by (intro power_increasing) simp_all
  ultimately show "group_wf ds \<Longrightarrow> ?thesis" by (auto simp: group_wf_def group_val_def)
qed

lemma read_number_group:
  "group_wf ds \<Longrightarrow> r = [] \<or> hd r = CHR '':'' \<Longrightarrow> read_number 16 4 True 65536 (map hex_char ds @ r) = Some (group_val ds, r)"
  using group_val_less [of ds] digits_loop_hex [of ds 0 r 0] by (auto simp: read_number_def group_wf_def group_val_def)

lemma digits_loop_suffix: "digits_loop radix m acc cnt s = Some (v, k, r) \<Longrightarrow> set r \<subseteq> set s"
  by (induction s arbitrary: acc cnt) (fastforce split: option.splits if_splits)+

lemma read_ipv4_needs_dot: "CHR ''.'' \<notin> set s \<Longrightarrow> read_ipv4_addr s = None"
proof -
  assume dot: "CHR ''.'' \<notin> set s"
  have "read_separator (CHR ''.'') 1 f r = None" if "set r \<subseteq> set s" for r and f :: "nat reader"
    using that dot by (cases r) (auto simp: read_separator_def)
  then show ?thesis
    by (auto simp: read_ipv4_addr_def numeral_eq_Suc read_number_def read_separator_def [of _ 0] split: option.splits prod.splits
        dest!: digits_loop_suffix)
qed

lemma hex_char_no_dot: "d < 16 \<Longrightarrow> hex_char d \<noteq> CHR ''.''"
proof -
  have "list_all (\<lambda>d. hex_char d \<noteq> CHR ''.'') [0..<16]" by code_simp
  then show "d < 16 \<Longrightarrow> ?thesis" by (simp add: list_all_iff)
qed

lemma groups_text_no_dot: "list_all group_wf gs \<Longrightarrow> CHR ''.'' \<notin> set (groups_text i gs)"
  by (induction gs arbitrary: i) (auto simp: group_wf_def list_all_iff dest!: sym [of "CHR ''.''"] simp: hex_char_no_dot)

lemma groups_text_hd: "gs = [] \<or> hd (groups_text (Suc i) gs) = CHR '':'' \<and> groups_text (Suc i) gs \<noteq> []"
  by (cases gs) simp_all

lemma read_separator_no_dot: "CHR ''.'' \<notin> set s \<Longrightarrow> read_separator (CHR '':'') i read_ipv4_addr s = None"
  by (cases s) (auto simp: read_separator_def read_ipv4_needs_dot)

lemma read_groups_stop: "r = [] \<or> take 2 r = ''::'' \<Longrightarrow> CHR ''.'' \<notin> set r \<Longrightarrow> read_groups i n r = ([], False, r)"
proof -
  assume r: "r = [] \<or> take 2 r = ''::''" and dot: "CHR ''.'' \<notin> set r"
  have n: "read_separator (CHR '':'') i (read_number 16 4 True 65536) r = None"
    using r by (cases r; cases "tl r") (auto simp: read_separator_def read_number_def)
  show ?thesis by (cases n) (simp_all add: n read_separator_no_dot [OF dot])
qed

lemma read_groups_text:
  assumes "list_all group_wf gs" and "length gs \<le> n" and "r = [] \<or> take 2 r = ''::''" and "CHR ''.'' \<notin> set r"
  shows "read_groups i n (groups_text i gs @ r) = (map group_val gs, False, r)"
  using assms
proof (induction gs arbitrary: i n)
  case Nil
  then show ?case by (simp add: read_groups_stop)
next
  case (Cons g gs)
  then obtain m where n: "n = Suc m" by (cases n) auto
  let ?r = "groups_text (Suc i) gs @ r"
  have "CHR ''.'' \<notin> set (groups_text i (g # gs) @ r)" using groups_text_no_dot [of "g # gs" i] Cons.prems by simp
  note no = read_separator_no_dot [OF this]
  have "?r = [] \<or> hd ?r = CHR '':''" using groups_text_hd [of gs i] Cons.prems(3) by (cases r) auto
  from read_number_group [OF _ this, of g]
  have "read_separator (CHR '':'') i (read_number 16 4 True 65536) (groups_text i (g # gs) @ r) = Some (group_val g, ?r)"
    using Cons.prems(1) by (cases i) (simp_all add: read_separator_def)
  then show ?case using no Cons.IH [of m "Suc i"] Cons.prems by (simp only: n read_groups.simps) simp
qed

text \<open>
  Every text of an address is read as its groups: eight of them, or fewer with a double colon
  for the zeros between, before or after them.
\<close>

theorem ipv6_text_read:
  assumes "list_all group_wf hs" and "list_all group_wf ts" and "list_all group_wf gs" and "length gs = 8"
    and "length hs + length ts \<le> 7"
  shows "parse_ipv6 (groups_text 0 gs) = Some (map group_val gs) \<and>
    parse_ipv6 (groups_text 0 hs @ ''::'' @ groups_text 0 ts) =
      Some (map group_val hs @ replicate (8 - length hs - length ts) 0 @ map group_val ts)"
proof -
  have g: "read_groups 0 8 (groups_text 0 gs) = (map group_val gs, False, [])"
    using read_groups_text [OF assms(3), of 8 "[]" 0] assms(4) by simp
  let ?r = "''::'' @ groups_text 0 ts"
  have "read_groups 0 8 (groups_text 0 hs @ ?r) = (map group_val hs, False, ?r)"
    using read_groups_text [OF assms(1), of 8 ?r 0] assms(5) groups_text_no_dot [OF assms(2), of 0] by simp
  moreover have "read_groups 0 (8 - (length hs + 1)) (groups_text 0 ts) = (map group_val ts, False, [])"
    using read_groups_text [OF assms(2), of "8 - (length hs + 1)" "[]" 0] assms(5) by simp
  ultimately show ?thesis using g assms(4,5) by (simp add: parse_ipv6_def)
qed

theorem ipv6_text_read_witness:
  "parse_ipv6 (groups_text 0 (replicate 8 [1])) = Some (map group_val (replicate 8 [1])) \<and>
    parse_ipv6 (groups_text 0 [[15, 13, 0, 0]] @ ''::'' @ groups_text 0 [[1]]) =
      Some (map group_val [[15, 13, 0, 0]] @ replicate (8 - length [[15, 13, 0, 0 :: nat]] - length [[1 :: nat]]) 0 @ map group_val [[1]])"
proof (rule ipv6_text_read)
  show "list_all group_wf [[15, 13, 0, 0]]" "list_all group_wf [[1]]" "list_all group_wf (replicate 8 [1])"
    "length (replicate 8 [1 :: nat]) = 8" "length [[15, 13, 0, 0 :: nat]] + length [[1 :: nat]] \<le> 7" by code_simp+
qed

section \<open>Handshake and packets\<close>

lemma reader_thread_packets:
  assumes "list_all ipv6_wf ps" and "avail s = concat ps"
  shows "reader_thread s = ps"
  using assms
proof (induction ps arbitrary: s)
  case Nil
  then have "io_read_exact 40 s = (case after s of Fail k # r \<Rightarrow> (Err k, r) | _ \<Rightarrow> (Err UnexpectedEof, []))"
    by (intro io_read_exact_short) simp
  then show ?case
    by (auto simp: reader_thread.simps [of s] recv_ipv6_def bnd_def split: list.splits rd_event.splits)
next
  case (Cons p ps)
  then obtain s1 where "recv_ipv6 s = (Ok p, s1)" "avail s1 = concat ps"
    using ip.get_put [of p s "concat ps"] by auto
  then show ?case using Cons by (simp add: reader_thread.simps [of s])
qed

text \<open>
  C25: The handshake sends one frame with the request and gives the two addresses of the answer,
  read as IPv6 addresses, with its port and its frame size. It takes
  exactly the answer from the stream: both stacks then read the packets that follow, also
  those the device sent together with the answer, however the bytes are cut into reads.
\<close>

theorem handshake_then_packets:
  assumes "room s = None" and "avail (inp s) = cd_frame body @ concat ps" and "after (inp s) = []"
    and "length body < 2 ^ 16" and "list_all ipv6_wf ps"
    and "json_server J body = Some resp"
    and "parse_ipv6 (cp_address (sh_client_parameters resp)) = Some client" and "parse_ipv6 (sh_server_address resp) = Some server"
  shows "\<exists>s'. do_handshake J s = (Ok \<lparr>tp_client_addr = client, tp_server_addr = server,
      tp_server_rsd_port = sh_server_rsd_port resp, tp_mtu = cp_mtu (sh_client_parameters resp)\<rparr>, s') \<and>
    outp s' = outp s @ cd_frame (json_request J \<lparr>ch_kind = ''clientHandshakeRequest'', ch_mtu = 1280\<rparr>) \<and>
    stack_packets k (inp s') = ps"
proof -
  let ?q = "cd_frame (json_request J \<lparr>ch_kind = ''clientHandshakeRequest'', ch_mtu = 1280\<rparr>)"
  obtain i where i: "cd_recv_frame (inp s) = (Ok body, i)" "avail i = concat ps" "after i = after (inp s)"
    using cd.get_put [OF assms(4,2)] by blast
  have "do_handshake J s = (Ok \<lparr>tp_client_addr = client, tp_server_addr = server,
      tp_server_rsd_port = sh_server_rsd_port resp, tp_mtu = cp_mtu (sh_client_parameters resp)\<rparr>,
      s\<lparr>outp := outp s @ ?q, inp := i\<rparr>)"
    using assms(1,6-8) i(1) by (simp add: params_of_def do_handshake_def cd_send_frame_unlimited on_err_def on_inp_def bnd_def lift_o_def ok_or_def)
  moreover have "stack_packets k i = ps"
    using reader_thread_packets [OF assms(5) i(2)] unified_reads_packets [OF assms(5) i(2)] i(3) assms(3)
    by (cases k) (simp_all add: stack_packets_def)
  ultimately show ?thesis by (intro exI [of _ "s\<lparr>outp := outp s @ ?q, inp := i\<rparr>"]) simp
qed

definition demo_json :: json_lib where
  "demo_json = \<lparr>json_request = (\<lambda>_. bytes_of ''q''), json_server = (\<lambda>_. Some \<lparr>sh_server_address = ''fd00::1'',
     sh_server_rsd_port = 58783, sh_client_parameters = \<lparr>cp_address = ''fd00::2'', cp_mtu = 1280\<rparr>\<rparr>)\<rparr>"

definition demo_params :: TunnelParams where
  "demo_params = \<lparr>tp_client_addr = [64768, 0, 0, 0, 0, 0, 0, 2], tp_server_addr = [64768, 0, 0, 0, 0, 0, 0, 1],
     tp_server_rsd_port = 58783, tp_mtu = 1280\<rparr>"

theorem handshake_then_packets_witness:
  "\<exists>s'. do_handshake demo_json \<lparr>inp = [Data (take 5 (cd_frame [7])), Data (drop 5 (cd_frame [7]) @ demo_packet)], outp = [], room = None\<rparr> =
      (Ok demo_params, s') \<and> stack_packets PlainStack (inp s') = [demo_packet]"
proof -
  let ?s = "\<lparr>inp = [Data (take 5 (cd_frame [7])), Data (drop 5 (cd_frame [7]) @ demo_packet)], outp = [], room = None\<rparr>"
  have "avail (inp ?s) = cd_frame [7] @ concat [demo_packet]" "after (inp ?s) = []" by code_simp+
  moreover have "parse_ipv6 ''fd00::2'' = Some [64768, 0, 0, 0, 0, 0, 0, 2]" "parse_ipv6 ''fd00::1'' = Some [64768, 0, 0, 0, 0, 0, 0, 1]"
    by code_simp+
  moreover have "json_server demo_json [7] = Some \<lparr>sh_server_address = ''fd00::1'', sh_server_rsd_port = 58783,
      sh_client_parameters = \<lparr>cp_address = ''fd00::2'', cp_mtu = 1280\<rparr>\<rparr>" by (simp add: demo_json_def)
  ultimately show ?thesis
    using handshake_then_packets [of ?s "[7]" "[demo_packet]" demo_json "\<lparr>sh_server_address = ''fd00::1'', sh_server_rsd_port = 58783,
      sh_client_parameters = \<lparr>cp_address = ''fd00::2'', cp_mtu = 1280\<rparr>\<rparr>" "[64768, 0, 0, 0, 0, 0, 0, 2]" "[64768, 0, 0, 0, 0, 0, 0, 1]" PlainStack]
    by (auto simp: demo_packet_wf demo_params_def)
qed

section \<open>Weaknesses\<close>

text \<open>
  The plain tunnel keeps the read timeout of the handshake, and its reader ends at the first error:
  when the device is silent for that long, every later packet is lost.
\<close>

lemma idle_plain_tunnel_stops:
  "list_all ipv6_wf ps \<Longrightarrow> reader_thread (Data (concat ps) # Fail TimedOut # r) = ps"
  by (rule reader_thread_packets) simp_all

lemma plain_tunnel_timeout: "cdtunnel_over_tcp J v s = Ok t \<Longrightarrow> it_read_timeout t = 10000 \<and> it_kind t = PlainStack"
  by (auto simp: cdtunnel_over_tcp_def HANDSHAKE_TIMEOUT_def split: prod.splits outcome.splits)

end
