(* ===== verification/Commands.thy ===== *)
theory Commands
  imports Services Oslog RemoteXpc
begin

text \<open>
  Commands of the tool that have a conversation of their own: choosing the device (\<open>cmd/mod.rs\<close>),
  starting and stopping apps over the app service (\<open>cmd/apps/launch.rs\<close>, \<open>kill.rs\<close>), activation
  (\<open>cmd/activate.rs\<close>), Darwin notifications (\<open>cmd/notification.rs\<close>), and the settings read and written through
  lockdown (\<open>cmd/lang.rs\<close>, \<open>timezone.rs\<close>, \<open>devices.rs\<close>), under \<open>src/src/bin/ios\<close>. The clock and the
  HTTP client are arguments. The loopback relay in front of the app service carries the bytes
  unchanged and is not told apart. The dictionaries of its requests are written in the order they are
  filled in; the code iterates a hash map, in an order that no reader depends on.
\<close>

section \<open>Choosing the device\<close>

datatype cmd_error = CmdUsb usb_error | CmdNoDevice | CmdNotFound string | CmdLockdown ld_error | CmdHttp string | CmdEmpty
  | CmdXpc rx_error | CmdNoPid | CmdDevice | CmdIo read_fail | CmdLength nat | CmdPlist

definition eq_ignore_ascii_case :: "string \<Rightarrow> string \<Rightarrow> bool" where
  "eq_ignore_ascii_case a b \<longleftrightarrow> map lower_char a = map lower_char b"

definition choose_device :: "string option \<Rightarrow> string option \<Rightarrow> Device list \<Rightarrow> (cmd_error, Device) outcome" where
  "choose_device flag env devices =
    (if devices = [] then Err CmdNoDevice
     else case (case flag of Some u \<Rightarrow> Some u | None \<Rightarrow> env) of
       None \<Rightarrow> Ok (hd devices)
     | Some u \<Rightarrow> ok_or (find (\<lambda>d. eq_ignore_ascii_case (dev_serial d) u) devices) (CmdNotFound u))"

definition resolve_device :: "(pvalue \<Rightarrow> bytes) \<Rightarrow> (bytes \<Rightarrow> pvalue option) \<Rightarrow> string option \<Rightarrow> string option \<Rightarrow>
    (connection, cmd_error, Device) prog" where
  "resolve_device xml parse flag env =
    bnd (on_err CmdUsb (conn_list_devices xml parse)) (\<lambda>devices. lift_o (choose_device flag env devices))"

section \<open>Apps\<close>

definition clock_uuid :: "nat \<Rightarrow> string" where
  "clock_uuid nanos =
    (let b = le_bytes 16 nanos; h = (\<lambda>i. hex2_up (b ! i))
     in h 0 @ h 1 @ h 2 @ h 3 @ ''-'' @ h 4 @ h 5 @ ''-'' @
        hex2_up ((b ! 6 AND 0x0f) OR 0x40) @ h 7 @ ''-'' @ hex2_up ((b ! 8 AND 0x3f) OR 0x80) @ h 9 @ ''-'' @
        h 10 @ h 11 @ h 12 @ h 13 @ h 14 @ h 15)"

definition app_coredevice_request :: "nat \<Rightarrow> string \<Rightarrow> string \<Rightarrow> xvalue option \<Rightarrow> xvalue" where
  "app_coredevice_request nanos device_id feature input = XDictionary
    [(''CoreDevice.CoreDeviceDDIProtocolVersion'', XInt64 0),
     (''CoreDevice.action'', XDictionary []),
     (''CoreDevice.coreDeviceVersion'', XDictionary [(''stringValue'', XString ''348.1''),
        (''originalComponentsCount'', XInt64 2),
        (''components'', XArray [XUint64 348, XUint64 1, XUint64 0, XUint64 0, XUint64 0])]),
     (''CoreDevice.deviceIdentifier'', XString device_id),
     (''CoreDevice.featureIdentifier'', XString feature),
     (''CoreDevice.invocationIdentifier'', XString (clock_uuid nanos)),
     (''CoreDevice.input'', case input of Some v \<Rightarrow> v | None \<Rightarrow> XNull)]"

definition app_launch_input :: "string \<Rightarrow> bool \<Rightarrow> bytes \<Rightarrow> xvalue" where
  "app_launch_input bundle_id terminate_existing platform_opts = XDictionary
    [(''applicationSpecifier'', XDictionary [(''bundleIdentifier'', XDictionary [(''_0'', XString bundle_id)])]),
     (''options'', XDictionary
       [(''arguments'', XArray []), (''environmentVariables'', XDictionary []),
        (''platformSpecificOptions'', XData platform_opts), (''standardIOUsesPseudoterminals'', XBool True),
        (''startStopped'', XBool False), (''terminateExisting'', XBool terminate_existing),
        (''user'', XDictionary [(''active'', XBool True)]), (''workingDirectory'', XNull)]),
     (''standardIOIdentifiers'', XDictionary [])]"

definition build_kill_input :: "u64 \<Rightarrow> xvalue" where
  "build_kill_input pid = XDictionary [(''process'', XDictionary [(''processIdentifier'', XInt64 pid)]), (''signal'', XInt64 9)]"

definition xv_get :: "xvalue \<Rightarrow> string \<Rightarrow> xvalue option" where
  "xv_get v k = Option.bind (xas_dict v) (\<lambda>d. map_of d k)"

definition pid_of :: "xvalue \<Rightarrow> int option" where
  "pid_of reply = Option.bind (xv_get reply ''CoreDevice.output'') (\<lambda>o1.
    Option.bind (xv_get o1 ''processToken'') (\<lambda>t. Option.bind (xv_get t ''processIdentifier'') xas_i64))"

text \<open>\<open>opts\<close> is the empty dictionary as a binary property list; the clock is read twice.\<close>

definition launch :: "bytes \<Rightarrow> nat \<Rightarrow> nat \<Rightarrow> string \<Rightarrow> bool \<Rightarrow> (rxconn, cmd_error, int) prog" where
  "launch opts t1 t2 bundle_id terminate_existing =
    bnd (on_err CmdXpc (rx_request (app_coredevice_request t2 (clock_uuid t1) ''com.apple.coredevice.feature.launchapplication''
      (Some (app_launch_input bundle_id terminate_existing opts))))) (\<lambda>reply. lift_o (ok_or (pid_of reply) CmdNoPid))"

definition kill :: "nat \<Rightarrow> nat \<Rightarrow> u64 \<Rightarrow> (rxconn, cmd_error, unit) prog" where
  "kill t1 t2 pid =
    bnd (on_err CmdXpc (rx_request (app_coredevice_request t2 (clock_uuid t1) ''com.apple.coredevice.feature.sendsignaltoprocess''
      (Some (build_kill_input pid))))) (\<lambda>reply. lift_o (if xv_get reply ''CoreDevice.error'' = None then Ok () else Err CmdDevice))"

section \<open>Activation\<close>

definition unreserved :: "byte \<Rightarrow> bool" where
  "unreserved b \<longleftrightarrow> in_range 0x41 0x5a b \<or> in_range 0x61 0x7a b \<or> in_range 0x30 0x39 b \<or> b \<in> {0x2d, 0x5f, 0x2e, 0x7e}"

definition percent_encode :: "bytes \<Rightarrow> string" where
  "percent_encode data = concat (map (\<lambda>b. if unreserved b then string_of [b] else CHR 0x25 # hex2_up b) data)"

definition DRM_HANDSHAKE_URL :: string where "DRM_HANDSHAKE_URL = ''https://albert.apple.com/deviceservices/drmHandshake''"
definition ACTIVATION_URL :: string where "ACTIVATION_URL = ''https://albert.apple.com/deviceservices/deviceActivation''"

text \<open>The HTTP client: headers and body of the answer to a body posted to an address, if it is had whole.\<close>

type_synonym poster = "string \<Rightarrow> bytes \<Rightarrow> (pdictionary \<times> bytes) option"

definition activation_body :: "(pvalue \<Rightarrow> bytes) \<Rightarrow> pdictionary \<Rightarrow> bytes" where
  "activation_body xml info = bytes_of (''activation-info='' @ percent_encode (xml (PDictionary info)))"

definition activate_client :: "(pvalue \<Rightarrow> bytes) \<Rightarrow> (bytes \<Rightarrow> pvalue option) \<Rightarrow> poster \<Rightarrow> (sock, cmd_error, unit) prog" where
  "activate_client xml parse post =
    bnd (on_err CmdLockdown (create_tunnel1_session_info xml parse)) (\<lambda>session_info.
    bnd (lift_o (ok_or (post DRM_HANDSHAKE_URL (xml (PDictionary session_info))) (CmdHttp ''drmHandshake''))) (\<lambda>drm.
    bnd (on_err CmdLockdown (create_activation_info xml parse (snd drm))) (\<lambda>activation_info.
    bnd (lift_o (ok_or (post ACTIVATION_URL (activation_body xml activation_info)) (CmdHttp ''deviceActivation''))) (\<lambda>resp.
      if snd resp = [] then throw CmdEmpty
      else on_err CmdLockdown (handle_activation_with_session xml parse (snd resp) (fst resp))))))"

definition activation_state :: "(pvalue \<Rightarrow> bytes) \<Rightarrow> (bytes \<Rightarrow> pvalue option) \<Rightarrow> (lockdown_session, cmd_error, string) prog" where
  "activation_state xml parse c = (case ls_get_value xml parse None ''ActivationState'' c of
     (Ok v, c') \<Rightarrow> (Ok (case v of PString s \<Rightarrow> s | _ \<Rightarrow> []), c') | (Err _, c') \<Rightarrow> (Ok [], c') | (Panic, c') \<Rightarrow> (Panic, c'))"

text \<open>An activated device is left alone; the result tells whether the servers were asked.\<close>

definition activate :: "(pvalue \<Rightarrow> bytes) \<Rightarrow> (bytes \<Rightarrow> pvalue option) \<Rightarrow> ('c, 'd) tls \<Rightarrow> poster \<Rightarrow> connection \<Rightarrow>
    (lockdown_session, cmd_error, bool) prog" where
  "activate xml parse T post mux =
    bnd (activation_state xml parse) (\<lambda>state.
      if state = ''Activated'' then ret False
      else bnd (on_err CmdLockdown (svc_connect Activation xml parse T mux)) (\<lambda>s.
        bnd (lift_o (fst (activate_client xml parse post s))) (\<lambda>_. ret True)))"

section \<open>Notifications\<close>

definition notify_request :: "string \<Rightarrow> string option \<Rightarrow> pvalue" where
  "notify_request command name = PDictionary ((''Command'', PString command) #
    (case name of Some n \<Rightarrow> [(''Name'', PString n)] | None \<Rightarrow> []))"

definition notify_send :: "(pvalue \<Rightarrow> bytes) \<Rightarrow> string \<Rightarrow> string option \<Rightarrow> (sock, cmd_error, unit) prog" where
  "notify_send xml command name =
    (let body = xml (notify_request command name)
     in on_err (\<lambda>k. CmdIo (RIo k)) (bnd (write_all (u32_be (word_of_nat (length body)))) (\<lambda>_. write_all body)))"

definition notify_recv :: "(bytes \<Rightarrow> pvalue option) \<Rightarrow> (script, cmd_error, pvalue) prog" where
  "notify_recv parse =
    bnd (on_err CmdIo (os_read_exact 4)) (\<lambda>len_buf.
      let n = unat (u32_of_be len_buf)
      in if n = 0 \<or> 1024 * 1024 < n then throw (CmdLength n)
         else bnd (on_err CmdIo (os_read_exact n)) (\<lambda>body. lift_o (ok_or (parse body) CmdPlist)))"

definition relayed :: "pvalue \<Rightarrow> string list" where
  "relayed msg = (case as_dictionary msg of
     None \<Rightarrow> []
   | Some d \<Rightarrow> if Option.bind (dget d ''Command'') as_string = Some ''RelayNotification''
       then [case Option.bind (dget d ''Name'') as_string of Some n \<Rightarrow> n | None \<Rightarrow> []] else [])"

lemma notify_recv_weight: "notify_recv parse s = (Ok v, s') \<Longrightarrow> weight s' < weight s"
  by (auto simp: notify_recv_def bnd_Ok_iff on_err_Ok_iff os_read_exact_def Let_def lift_o_def split: if_splits dest!: retry_weight)

text \<open>The names that are printed until the stream fails.\<close>

function observe_loop :: "(bytes \<Rightarrow> pvalue option) \<Rightarrow> script \<Rightarrow> string list" where
  "observe_loop parse s = (case notify_recv parse s of (Ok msg, s') \<Rightarrow> relayed msg @ observe_loop parse s' | _ \<Rightarrow> [])"
  by pat_completeness auto
termination
  by (relation "measure (\<lambda>(p, s). weight s)") (auto dest!: sym [of _ "notify_recv _ _"] notify_recv_weight)

declare observe_loop.simps [simp del]

definition notify_observe :: "(pvalue \<Rightarrow> bytes) \<Rightarrow> (bytes \<Rightarrow> pvalue option) \<Rightarrow> string option \<Rightarrow> (sock, cmd_error, string list) prog" where
  "notify_observe xml parse name =
    bnd (case name of Some n \<Rightarrow> notify_send xml ''ObserveNotification'' (Some n) | None \<Rightarrow> notify_send xml ''ObserveAllNotifications'' None)
      (\<lambda>_ s. (Ok (observe_loop parse (inp s)), s))"

definition notify_post :: "(pvalue \<Rightarrow> bytes) \<Rightarrow> string \<Rightarrow> (sock, cmd_error, unit) prog" where
  "notify_post xml name = notify_send xml ''PostNotification'' (Some name)"


section \<open>Settings\<close>

text \<open>\<open>get_value(..).ok()\<close> of a text; the session goes on after an error.\<close>

definition ls_text :: "(pvalue \<Rightarrow> bytes) \<Rightarrow> (bytes \<Rightarrow> pvalue option) \<Rightarrow> string option \<Rightarrow> string \<Rightarrow>
    (lockdown_session, ld_error, string option) prog" where
  "ls_text xml parse domain key c = (case ls_get_value xml parse domain key c of
     (Ok v, c') \<Rightarrow> (Ok (case v of PString s \<Rightarrow> Some s | _ \<Rightarrow> None), c') | (Err _, c') \<Rightarrow> (Ok None, c') | (Panic, c') \<Rightarrow> (Panic, c'))"

definition LANG_DOMAIN :: string where "LANG_DOMAIN = ''com.apple.international''"

datatype lang_result = LangShown "string option" "string option" | LangSet

definition when_some :: "'a option \<Rightarrow> ('a \<Rightarrow> ('s, 'e, unit) prog) \<Rightarrow> ('s, 'e, unit) prog" where
  "when_some x f = (case x of Some y \<Rightarrow> f y | None \<Rightarrow> ret ())"

definition lang_run :: "(pvalue \<Rightarrow> bytes) \<Rightarrow> (bytes \<Rightarrow> pvalue option) \<Rightarrow> string option \<Rightarrow> string option \<Rightarrow>
    (lockdown_session, ld_error, lang_result) prog" where
  "lang_run xml parse set_lang set_locale =
    (if set_lang = None \<and> set_locale = None
     then bnd (ls_text xml parse (Some LANG_DOMAIN) ''Language'') (\<lambda>lang.
       bnd (ls_text xml parse (Some LANG_DOMAIN) ''Locale'') (\<lambda>loc. ret (LangShown lang loc)))
     else bnd (when_some set_lang (\<lambda>l. ls_set_value xml parse (Some LANG_DOMAIN) ''Language'' (PString l))) (\<lambda>_.
       bnd (when_some set_locale (\<lambda>l. ls_set_value xml parse (Some LANG_DOMAIN) ''Locale'' (PString l))) (\<lambda>_. ret LangSet)))"

text \<open>\<open>secs\<close> is the clock of the host.\<close>

definition timezone_run :: "(pvalue \<Rightarrow> bytes) \<Rightarrow> (bytes \<Rightarrow> pvalue option) \<Rightarrow> int \<Rightarrow> string option \<Rightarrow> bool \<Rightarrow>
    (lockdown_session, ld_error, string option) prog" where
  "timezone_run xml parse secs timezone sync_time =
    (if timezone = None \<and> \<not> sync_time then ls_text xml parse None ''TimeZone''
     else bnd (if sync_time then ls_set_value xml parse None ''TimeIntervalSince1970'' (PInteger secs) else ret ()) (\<lambda>_.
       bnd (when_some timezone (\<lambda>tz. ls_set_value xml parse None ''TimeZone'' (PString tz))) (\<lambda>_. ret None)))"

definition DASH :: string where "DASH = string_of [0xe2, 0x80, 0x94]"

definition fetch_display_info :: "(pvalue \<Rightarrow> bytes) \<Rightarrow> (bytes \<Rightarrow> pvalue option) \<Rightarrow> u32 \<Rightarrow> connection \<Rightarrow>
    (ld_error, string \<times> string) outcome" where
  "fetch_display_info xml parse device_id mux = (case ls_connect xml parse device_id mux of
     Panic \<Rightarrow> Panic
   | Err _ \<Rightarrow> Ok (DASH, DASH)
   | Ok c \<Rightarrow> fst (bnd (ls_text xml parse None ''DeviceName'') (\<lambda>n.
       bnd (ls_text xml parse None ''ProductVersion'') (\<lambda>v.
         ret (case n of Some x \<Rightarrow> x | None \<Rightarrow> DASH, case v of Some x \<Rightarrow> x | None \<Rightarrow> DASH))) c))"

section \<open>Percent encoding\<close>

fun percent_decode :: "string \<Rightarrow> bytes option" where
  "percent_decode [] = Some []"
| "percent_decode (c # r) =
    (if c = CHR 0x25 then case r of x # y # r' \<Rightarrow> Option.bind (parse_hex2 x y) (\<lambda>b. map_option (Cons b) (percent_decode r')) | _ \<Rightarrow> None
     else map_option (\<lambda>bs. bytes_of [c] @ bs) (percent_decode r))"

lemma parse_hex2_up: "parse_hex2 (hex_char_up (unat b div 16)) (hex_char_up (unat b mod 16)) = Some b"
proof -
  have "unat b div 16 < 16" using unat_byte_less [of b] by (simp add: div_less_iff_less_mult)
  moreover have "list_all (\<lambda>d. hex_digit (hex_char_up d) = Some d \<and> hex_char_up d \<noteq> CHR ''+'') [0..<16]" by code_simp
  ultimately show ?thesis by (simp add: parse_hex2_def list_all_iff)
qed

text \<open>
  The body of the activation request is text of letters, digits and a few signs only, whatever the bytes, and a
  server that decodes it has the bytes back.
\<close>

theorem percent_roundtrip:
  "percent_decode (percent_encode data) = Some data \<and>
    list_all (\<lambda>b. unreserved b \<or> b = 0x25) (bytes_of (percent_encode data))"
proof (induction data)
  case (Cons b data)
  obtain c where c: "string_of [b] = [c]" by (simp add: string_of_def)
  then have cb: "bytes_of [c] = [b]" using bytes_of_string_of [of "[b]"] by simp
  have p: "bytes_of [CHR 0x25] = [0x25]" "\<not> unreserved 0x25" by code_simp+
  have h: "list_all (\<lambda>d. list_all unreserved (bytes_of [hex_char_up d])) [0..<16]" by code_simp
  have "unat b div 16 < 16" using unat_byte_less [of b] by (simp add: div_less_iff_less_mult)
  then have "list_all unreserved (bytes_of (hex2_up b))" using h by (simp add: hex2_up_def list_all_iff bytes_of_def)
  moreover have "percent_decode (percent_encode (b # data)) = Some (b # data)"
  proof (cases "unreserved b")
    case True
    then have "c \<noteq> CHR 0x25" using p cb by auto
    then show ?thesis using Cons True c cb by (simp add: percent_encode_def)
  next
    case False
    then show ?thesis using Cons by (simp add: percent_encode_def hex2_up_def parse_hex2_up)
  qed
  moreover have "percent_encode (b # data) = (if unreserved b then [c] else CHR 0x25 # hex2_up b) @ percent_encode data"
    by (simp add: percent_encode_def c)
  then have "bytes_of (percent_encode (b # data)) = (if unreserved b then [b] else 0x25 # bytes_of (hex2_up b)) @ bytes_of (percent_encode data)"
    using p(1) cb by (auto simp: bytes_of_def)
  ultimately show ?case using Cons by (auto simp: list_all_iff)
qed (simp_all add: percent_encode_def bytes_of_def)

section \<open>The conversation of activation\<close>

lemma act_step:
  assumes "svc_ready (svc_bad Activation) xml parse rest (v # vs) s"
  obtains s' where "on_err CmdLockdown (svc_ask Activation xml parse q f) s = (map_err CmdLockdown (f v), s')"
    and "svc_ready (svc_bad Activation) xml parse rest vs s'" and "outp s' = outp s @ lp_frame (xml q)"
proof -
  from svc_client.ask_spec [OF assms, of q f] obtain s' where "svc_ask Activation xml parse q f s = (f v, s')"
    "svc_ready (svc_bad Activation) xml parse rest vs s'" "outp s' = outp s @ lp_frame (xml q)"
    by (auto simp: svc_ask_def)
  then show thesis using that by (cases "f v") (auto simp: on_err_def)
qed

lemmas act_defs = create_tunnel1_session_info_def create_activation_info_def handle_activation_with_session_def

text \<open>
  Activation passes each answer on: the session information of the device goes to the handshake server,
  its answer to the device, the activation information to the activation server, and that answer with
  its headers to the device, which decides. An empty answer of the activation server is
  not installed.
\<close>

theorem activation_relays:
  assumes "svc_ready (svc_bad Activation) xml parse rest ([v1, v2, v3] @ vs) s"
    and "vdict v1 ''Value'' = Some info" and "post DRM_HANDSHAKE_URL (xml (PDictionary info)) = Some drm"
    and "vdict v2 ''Value'' = Some act" and "post ACTIVATION_URL (activation_body xml act) = Some (hs, body)"
  shows "\<exists>s'. activate_client xml parse post s =
      (if body = [] then Err CmdEmpty else map_err CmdLockdown (fail_on_error ''handle activation: '' v3 ()), s') \<and>
    outp s' = outp s @ concat (map (\<lambda>q. lp_frame (xml (svc_request q)))
      ([SessionInfo, ActivationInfo (snd drm)] @ (if body = [] then [] else [HandleActivation body hs])))"
proof -
  let ?rdy = "svc_ready (svc_bad Activation) xml parse rest"
  obtain s1 where s1: "on_err CmdLockdown (create_tunnel1_session_info xml parse) s = (Ok info, s1)" "?rdy ([v2, v3] @ vs) s1"
    "outp s1 = outp s @ lp_frame (xml (svc_request SessionInfo))"
    using act_step [OF assms(1) [unfolded append.simps], of "svc_request SessionInfo"
        "\<lambda>v. ok_or (vdict v ''Value'') (LdLockdown ''activation: no Value in session info response'')"] assms(2)
    by (auto simp: act_defs)
  obtain s2 where s2: "on_err CmdLockdown (create_activation_info xml parse (snd drm)) s1 = (Ok act, s2)" "?rdy ([v3] @ vs) s2"
    "outp s2 = outp s1 @ lp_frame (xml (svc_request (ActivationInfo (snd drm))))"
    using act_step [OF s1(2) [unfolded append.simps], of "svc_request (ActivationInfo (snd drm))"
        "\<lambda>v. ok_or (vdict v ''Value'') (LdLockdown ''activation: no Value in activation info response'')"] assms(4)
    by (auto simp: act_defs)
  obtain s3 where s3: "on_err CmdLockdown (handle_activation_with_session xml parse body hs) s2 =
      (map_err CmdLockdown (fail_on_error ''handle activation: '' v3 ()), s3)"
    "outp s3 = outp s2 @ lp_frame (xml (svc_request (HandleActivation body hs)))"
    using act_step [OF s2(2) [unfolded append.simps], of "svc_request (HandleActivation body hs)"
        "\<lambda>v. fail_on_error ''handle activation: '' v ()"] by (auto simp: act_defs)
  have "activate_client xml parse post s =
      (if body = [] then (Err CmdEmpty, s2) else (map_err CmdLockdown (fail_on_error ''handle activation: '' v3 ()), s3))"
    using s1(1) s2(1) s3(1) assms(3,5) by (simp add: activate_client_def bnd_def lift_o_def throw_def)
  then show ?thesis using s1(3) s2(3) s3(2) by simp
qed

definition demo_act_post :: poster where
  "demo_act_post url body = Some ([(''h'', PString ''v'')], body)"

theorem activation_relays_witness:
  "\<exists>s'. activate_client pv_enc pv_parse demo_act_post (demo_svc [PDictionary [(''Value'', PDictionary [])],
      PDictionary [(''Value'', PDictionary [])], PDictionary [(''Error'', PString ''no'')]]) =
    (Err (CmdLockdown (LdLockdown ''handle activation: no'')), s')"
proof -
  let ?v = "PDictionary [(''Value'', PDictionary [])]" and ?e = "PDictionary [(''Error'', PString ''no'')]"
  have "list_all (wf_answer (svc_bad Activation) pv_enc pv_parse) [?v, ?v, ?e]" by code_simp
  from demo_svc_ready [OF this] have r: "svc_ready (svc_bad Activation) pv_enc pv_parse [] ([?v, ?v, ?e] @ []) (demo_svc [?v, ?v, ?e])" by simp
  have v: "vdict ?v ''Value'' = Some []" and f: "fail_on_error ''handle activation: '' ?e () = Err (LdLockdown ''handle activation: no'')"
    by code_simp+
  have "activation_body pv_enc [] \<noteq> []" by (simp add: activation_body_def bytes_of_def)
  moreover from activation_relays [OF r v _ v, of demo_act_post] obtain s' where
    "activate_client pv_enc pv_parse demo_act_post (demo_svc [?v, ?v, ?e]) =
      (if activation_body pv_enc [] = [] then Err CmdEmpty else map_err CmdLockdown (fail_on_error ''handle activation: '' ?e ()), s')"
    by (auto simp: demo_act_post_def)
  ultimately show ?thesis by (simp add: f)
qed

section \<open>Observed notifications\<close>

definition notify_wf :: "(pvalue \<Rightarrow> bytes) \<Rightarrow> (bytes \<Rightarrow> pvalue option) \<Rightarrow> pvalue \<Rightarrow> bool" where
  "notify_wf xml parse v \<longleftrightarrow> 0 < length (xml v) \<and> length (xml v) \<le> 1024 * 1024 \<and> parse (xml v) = Some v"

lemma notify_recv_next:
  assumes "notify_wf xml parse v" and "avail (clean s) = lp_frame (xml v) @ rest"
  obtains s' where "notify_recv parse s = (Ok v, s')" and "avail (clean s') = rest"
proof -
  let ?n = "length (xml v)"
  have "avail (clean s) = u32_be (word_of_nat ?n) @ (xml v @ rest)" using assms(2) by (simp add: lp_frame_def)
  then obtain s1 where s1: "os_read_exact 4 s = (Ok (u32_be (word_of_nat ?n)), s1)" "avail (clean s1) = xml v @ rest"
    by (rule os_read_next) simp_all
  obtain s2 where s2: "os_read_exact ?n s1 = (Ok (xml v), s2)" "avail (clean s2) = rest"
    using s1(2) by (rule os_read_next) simp_all
  have "unat (u32_of_be (u32_be (word_of_nat ?n))) = ?n" using assms(1) by (simp add: notify_wf_def)
  then have "notify_recv parse s = (Ok v, s2)" using assms(1) s1(1) s2(1) by (simp add: notify_recv_def notify_wf_def)
  then show thesis using that s2(2) by blast
qed

lemma observe_loop_run:
  "list_all (notify_wf xml parse) vs \<Longrightarrow> avail (clean s) = concat (map (\<lambda>v. lp_frame (xml v)) vs) \<Longrightarrow>
    observe_loop parse s = concat (map relayed vs)"
proof (induction vs arbitrary: s)
  case Nil
  then obtain e s' where "os_read_exact 4 s = (Err e, s')" using os_read_end [of s 4] by auto
  then show ?case by (simp add: observe_loop.simps [of parse s] notify_recv_def bnd_def on_err_def)
next
  case (Cons v vs)
  then obtain s' where "notify_recv parse s = (Ok v, s')" "avail (clean s') = concat (map (\<lambda>v. lp_frame (xml v)) vs)"
    using notify_recv_next [of xml parse v s] by auto
  then show ?case using Cons by (simp add: observe_loop.simps [of parse s])
qed

text \<open>
  Every relayed notification is reported, in order and by its name, and nothing else, however the bytes
  are cut and the reads interrupted.
\<close>

theorem notifications_relayed:
  assumes "room s = None" and "list_all (notify_wf xml parse) vs"
    and "avail (clean (inp s)) = concat (map (\<lambda>v. lp_frame (xml v)) vs)"
  shows "\<exists>s'. notify_observe xml parse name s = (Ok (concat (map relayed vs)), s') \<and>
    outp s' = outp s @ lp_frame (xml (notify_request (if name = None then ''ObserveAllNotifications'' else ''ObserveNotification'') name))"
proof -
  have send: "notify_send xml cmd nm s = (Ok (), s\<lparr>outp := outp s @ lp_frame (xml (notify_request cmd nm))\<rparr>)" for cmd nm
    using assms(1) by (simp add: notify_send_def Let_def lp_frame_def on_err_def)
  show ?thesis using observe_loop_run [OF assms(2,3)] by (cases name) (simp_all add: notify_observe_def send bnd_def)
qed

section \<open>Launched apps\<close>

text \<open>
  A launch returns the process identifier of the first message that answers it, and a reply without one is
  an error.
\<close>

theorem launch_returns_pid:
  assumes "rx_sees c fs" and "list_all xmsg_ok ms" and "rxc_buf c @ data_of fs = concat (map encode_message ms) @ zs"
    and "find (\<lambda>m. xmsg_id m = rxc_next c \<or> xflags m AND REPLY \<noteq> 0) ms = Some m" and "xbody m = Some reply"
  shows "fst (launch opts t1 t2 b k c) = ok_or (pid_of reply) CmdNoPid"
proof -
  let ?v = "app_coredevice_request t2 (clock_uuid t1) ''com.apple.coredevice.feature.launchapplication''
      (Some (app_launch_input b k opts))"
  have "fst (rx_request ?v c) = Ok reply" using request_first_match [OF assms(1-4)] assms(5) by (simp add: ok_or_def)
  then obtain c' where "rx_request ?v c = (Ok reply, c')" by (cases "rx_request ?v c") auto
  then show ?thesis by (simp add: launch_def bnd_def on_err_def lift_o_def)
qed

end
