(* ===== verification/Spec2Isabelle.thy ===== *)
theory Spec2Isabelle
  imports UsbmuxProps RemoteXpc Rsd RemotePairing Afc Pairing DtxConn Services Syslog DeviceSession Smoltcp XcTest Mounter Oslog Perf
    AfcConnect Setup Ios17 Commands
begin

text \<open>
  A verification library for ios-rs, a crate and command line tool that talks to iOS devices over
  USB.

  \<^bold>\<open>The program.\<close> A host reaches a device through usbmuxd (\<open>src/src/usbmux\<close>), which lists devices and opens
  byte streams to their ports. On a device before iOS 17.4 every service is started through a lockdownd
  session (\<open>src/src/lockdown\<close>) and speaks over a stream of its own: property lists behind a length for most services,
  AFC packets for files, text for the system log. From 17.4 on a tunnel is built first
  (\<open>src/src/tunnel\<close>): a handshake or a RemotePairing session gives a stream of IPv6 packets, a user-space TCP stack
  opens connections over it, remote service discovery (\<open>src/src/rsd\<close>) names the ports, and services
  speak XPC objects over HTTP/2 frames (\<open>src/src/xpc\<close>, \<open>src/src/remotexpc\<close>) or DTX messages (\<open>src/src/dtx\<close>).
  A daemon keeps tunnels for other processes (\<open>src/src/bin/ios/cmd/tunnel.rs\<close>), and \<open>device_session.rs\<close> picks the path.
  The commands under \<open>src/src/bin/ios/cmd\<close> are conversations over these clients; the largest are test runs
  (\<open>src/src/xctest\<close>), the image mounter, the log streams and the performance monitor.

  \<^bold>\<open>How code is modelled.\<close> A call that can fail or panic has a result of type \<open>outcome\<close> with the constructors \<open>Ok\<close>, \<open>Err\<close> and
  \<open>Panic\<close> of theory Prelude; a method that changes its object is a function from the state to a result and the
  state after it (\<open>prog\<close>, sequenced by \<open>bnd\<close>, which is the question mark operator). A socket is a script of what its reads
  give, in pieces of any size and with errors in between, the bytes that were written, and how many more can be
  (theory ByteStream); \<open>avail\<close> are the bytes before the first error, so a theorem with a hypothesis on \<open>avail\<close> only
  holds for every way the bytes are cut. Integers have the width of the source and wrap, as in a release build. Strings are
  their UTF-8 bytes. Hash maps are association lists, and theorems hold for any order of their entries where
  the order is not fixed by the code. Threads that share state are interleavings of steps
  (theories DtxConn, TunnelDaemon, Smoltcp).

  \<^bold>\<open>Code outside the repository\<close> is a parameter: the property-list writer and reader (\<open>xml\<close>, \<open>parse\<close>, with
  the law that a value that was written is read back as a hypothesis, and the instance of theory
  PlistInstance as its witness), serde_json, RSA, hashes and AEAD, rustls, the TCP machine of smoltcp, the HTTP
  client, floating-point operations, Unicode lower-casing, the clock and the local disk.

  \<^bold>\<open>Theories and sources.\<close>
  \<^item> Prelude, TextFmt, ByteStream: words and byte orders, UTF-8, insertion maps, number and text formats of the
    standard library, sockets. The locales \<open>cyclic_alloc\<close> (identifiers from a wrapping counter) and \<open>framing\<close>
    (a reader that takes back one message that was written) state contracts that many components meet; every
    component interprets them on its own definitions.
  \<^item> UsbmuxCodec, UsbmuxConn, UsbmuxSim, UsbmuxProps (\<open>usbmux/*.rs\<close>): codec, blocking client and simulator.
    Frames are decoded in order whatever the cuts; listing devices and opening a tunnel against the simulator give what it
    holds; tags do not repeat within a cycle.
  \<^item> Plist, PlistInstance, PlistSvc, Lockdown (\<open>lockdown/session.rs\<close>, \<open>pair_record.rs\<close>): frames of property lists and
    sessions. The locale \<open>plist_peer\<close> is the contract of a request and its answer; that commands stay in step
    follows for every client.
  \<^item> Services, Syslog (\<open>lockdown/services/*.rs\<close>): the clients of amfi, wireless, activation, diagnostics, springboard, mcinstall, screenshot,
    installation proxy and syslog.
  \<^item> Afc, AfcTree, AfcConnect (\<open>services/afc.rs\<close>, \<open>cmd/afc.rs\<close>): packets, file operations, copies of trees between the device and a local
    disk on which operations may fail.
  \<^item> Der, Pairing (\<open>lockdown/pairing.rs\<close>): DER, dates, base64, PEM, certificates, signed challenges, pairing sessions; a
    saved record is one that a later session accepts.
  \<^item> Xpc, H2, RemoteXpc, Rsd (\<open>xpc\<close>, \<open>remotexpc\<close>, \<open>rsd\<close>): the object codec round trip, frames, messages in order, the
    catalogue of services.
  \<^item> CdTunnel, Ios17, Tlv8, RemotePairing, Smoltcp, Version, DeviceSession, TunnelDaemon (\<open>tunnel/**\<close>, \<open>cmd/tunnel.rs\<close>): handshake and
    packets, the messages of pairing and requests sealed under nonces that never repeat, connection requests each answered once,
    one tunnel for each device and what a detached device does to it, the path of a session.
  \<^item> Dtx, DtxConn (\<open>dtx/mod.rs\<close>): messages and their fragments; replies reach the call they belong to.
  \<^item> XcArchive, XcTest (\<open>xctest/*.rs\<close>): keyed archives and the two channels of a test run.
  \<^item> Mounter, Oslog, Nska, Perf, Setup, Commands (\<open>cmd/mounter.rs\<close>, \<open>oslog.rs\<close>, \<open>ps.rs\<close>, \<open>perf.rs\<close>, \<open>setup.rs\<close>, and \<open>activate.rs\<close>,
    \<open>notification.rs\<close>, \<open>apps\<close> and others): the conversations of the commands. Installing an app, below, joins AFC and the
    installation proxy.

  \<^bold>\<open>Bounds and fuel.\<close> Loops over a socket end because each turn takes an event or a byte from its script; \<open>weight\<close> of theory ByteStream is
  the measure. The recursive decoders of XPC objects and keyed archives and the copy of a remote tree run to a depth that
  stands for the stack; running out is a panic. The length of the buffer is enough depth for XPC
  (theorem \<open>decode_value_recursion\<close>), the sizes of the objects that are reached for an archive without cycles (theory
  Nska), and the height of the tree for a copy (theory AfcTree). The loop that waits for the
  daemon is a partial function, with a theorem that it returns once the clock passes the deadline; the poll loop of the TCP stack runs over
  a list of turns of any length. Numbers of the source such as buffer sizes and limits are kept as they are.

  \<^bold>\<open>Weaknesses.\<close> Several theories end with theorems about inputs on which the code panics, waits for ever, loses bytes or leaves
  a handle open; they state what the code does.

  \<^bold>\<open>Not modelled.\<close> Argument parsing and printing (\<open>main.rs\<close>, \<open>output.rs\<close>, tables), commands that only call one client method and
  print its result, the opening of operating-system sockets and of relays between them, process control of the daemon, JSON
  files of credentials, and \<open>establish_tunnel\<close> of \<open>remote_pairing/mod.rs\<close>, which nothing calls. Error texts that quote another
  error are cut. Memory limits are not modelled: a length that a device announces is read as far as bytes come.
\<close>

section \<open>Installing an app\<close>

text \<open>
  \<open>src/src/bin/ios/cmd/apps/install.rs\<close>: the file is staged over AFC and installed by the
  installation proxy. \<open>name\<close> is what \<open>Path::file_name\<close> gives, \<open>file\<close> what reading the file gives.
\<close>

datatype install_error = IpaNotFound | NotAnIpa | IpaUnreadable | StagingFailed afc_error | InstallFailed ld_error

record install_world =
  iw_afc :: afc
  iw_proxy :: sock

definition path_extension :: "string \<Rightarrow> string option" where
  "path_extension name = (let ps = split_on (CHR ''.'') name in
     if length ps < 2 \<or> length ps = 2 \<and> hd ps = [] then None else Some (last ps))"

definition staged_path :: "string \<Rightarrow> string" where
  "staged_path name = ''/PublicStaging/'' @ name"

definition install_run :: "(pvalue \<Rightarrow> bytes) \<Rightarrow> (bytes \<Rightarrow> pvalue option) \<Rightarrow> bool \<Rightarrow> string option \<Rightarrow> bytes option \<Rightarrow>
    (install_world, install_error, unit) prog" where
  "install_run xml parse exists_ipa name file w =
    (if \<not> exists_ipa then (Err IpaNotFound, w)
     else case name of
       None \<Rightarrow> (Err NotAnIpa, w)
     | Some n \<Rightarrow>
         if path_extension n \<noteq> Some ''ipa'' then (Err NotAnIpa, w)
         else (case file of
             None \<Rightarrow> (Err IpaUnreadable, w)
           | Some data \<Rightarrow> (case put_file (staged_path n) data (iw_afc w) of
               (Err e, c) \<Rightarrow> (Err (StagingFailed e), w\<lparr>iw_afc := c\<rparr>)
             | (Panic, c) \<Rightarrow> (Panic, w\<lparr>iw_afc := c\<rparr>)
             | (Ok _, c) \<Rightarrow> (case install_staged xml parse (staged_path n) (iw_proxy w) of
                 (r, s) \<Rightarrow> (map_err InstallFailed r, w\<lparr>iw_afc := c, iw_proxy := s\<rparr>)))))"

lemma staged_parent: "CHR ''/'' \<notin> set n \<Longrightarrow> parent_dir (staged_path n) = Some ''/PublicStaging''"
proof -
  assume n: "CHR ''/'' \<notin> set n"
  have "dropWhile (\<lambda>c. c \<noteq> CHR ''/'') (rev n @ rev ''/PublicStaging/'') = dropWhile (\<lambda>c. c \<noteq> CHR ''/'') (rev ''/PublicStaging/'')"
    using n by (intro dropWhile_append2) auto
  then show ?thesis by (simp add: staged_path_def parent_dir_def)
qed

text \<open>
  C12: An app is installed from the very path it was staged under, after the whole file has been
  written there: the device receives the directory, one open, the data in order and one close, and
  the proxy one install request. Its progress messages are passed over and its first other
  message decides. A file that is not an app archive, or cannot be staged, is not installed.
\<close>

theorem install_stages_then_installs:
  assumes "path_extension n = Some ''ipa''" and "CHR ''/'' \<notin> set n"
    and "afc_sees (iw_afc w) ([(OP_STATUS, s0), (OP_FILE_OPEN_RES, hb)] @ map (Pair OP_STATUS) ss @ [(OP_STATUS, s1)] @ rs)"
    and "le_u64 s0 0 \<in> {STATUS_SUCCESS, STATUS_OBJECT_EXISTS}" and "le_u64 s1 0 = STATUS_SUCCESS"
    and "\<forall>s \<in> set ss. le_u64 s 0 = STATUS_SUCCESS" and "length ss = length (chunks WRITE_CHUNK data)"
    and "svc_ready (svc_bad InstallationProxy) xml parse rest (ps @ v # vs) (iw_proxy w)"
    and "list_all (\<lambda>v. vstr v ''Error'' = None \<and> (\<exists>s. vstr v ''Status'' = Some s \<and> s \<noteq> ''Complete'')) ps"
    and "complete_step ''install'' () v = Inr r"
  shows "\<exists>w'. install_run xml parse True (Some n) (Some data) w = (map_err InstallFailed r, w') \<and>
    afc_did (iw_afc w) ([(OP_MAKE_DIR, nul_str ''/PublicStaging'', []), (OP_FILE_OPEN, u64_le FOPEN_WR @ nul_str (staged_path n), [])] @
      map (\<lambda>p. (OP_FILE_WRITE, u64_le (le_u64 hb 0), p)) (chunks WRITE_CHUNK data) @ [close_req (le_u64 hb 0)]) rs (iw_afc w') \<and>
    outp (iw_proxy w') = outp (iw_proxy w) @
      lp_frame (xml (PDictionary [(''Command'', PString ''Install''), (''PackagePath'', PString (staged_path n))]))"
proof -
  obtain c where c: "put_file (staged_path n) data (iw_afc w) = (Ok (), c)"
    "afc_did (iw_afc w) ([(OP_MAKE_DIR, nul_str ''/PublicStaging'', []), (OP_FILE_OPEN, u64_le FOPEN_WR @ nul_str (staged_path n), [])] @
      map (\<lambda>p. (OP_FILE_WRITE, u64_le (le_u64 hb 0), p)) (chunks WRITE_CHUNK data) @ [close_req (le_u64 hb 0)]) rs c"
    using put_file_sent [OF staged_parent [OF assms(2)] _ assms(3-7)] by auto
  obtain s where "install_staged xml parse (staged_path n) (iw_proxy w) = (r, s)"
    "outp s = outp (iw_proxy w) @ lp_frame (xml (PDictionary [(''Command'', PString ''Install''), (''PackagePath'', PString (staged_path n))]))"
    using install_spec [OF assms(8-10), of "staged_path n"] by blast
  then show ?thesis using c assms(1) by (simp add: install_run_def)
qed

definition demo_install :: install_world where
  "demo_install = \<lparr>iw_afc = demo_afc [(OP_STATUS, u64_le 16), (OP_FILE_OPEN_RES, u64_le 7), (OP_STATUS, u64_le 0), (OP_STATUS, u64_le 0)],
     iw_proxy = demo_svc [PDictionary [(''Status'', PString ''CopyingApplication'')], PDictionary [(''Status'', PString ''Complete'')]]\<rparr>"

theorem install_stages_then_installs_witness:
  "\<exists>w'. install_run pv_enc pv_parse True (Some ''App.ipa'') (Some [1, 2, 3]) demo_install = (Ok (), w') \<and>
    outp (iw_proxy w') =
      lp_frame (pv_enc (PDictionary [(''Command'', PString ''Install''), (''PackagePath'', PString ''/PublicStaging/App.ipa'')]))"
proof -
  let ?ps = "[PDictionary [(''Status'', PString ''CopyingApplication'')]]" and ?v = "PDictionary [(''Status'', PString ''Complete'')]"
  let ?rs = "[(OP_STATUS, u64_le 16), (OP_FILE_OPEN_RES, u64_le 7)] @ map (Pair OP_STATUS) [u64_le 0] @ [(OP_STATUS, u64_le 0)] @ []"
  have "list_all afc_wf ?rs" by code_simp
  then have a: "afc_sees (iw_afc demo_install) ?rs" using demo_afc_sees [of ?rs] by (simp add: demo_install_def)
  have "list_all (wf_answer (svc_bad InstallationProxy) pv_enc pv_parse) (?ps @ ?v # [])" by code_simp
  from demo_svc_ready [OF this] have p: "svc_ready (svc_bad InstallationProxy) pv_enc pv_parse [] (?ps @ ?v # []) (iw_proxy demo_install)"
    by (simp add: demo_install_def)
  have e: "path_extension ''App.ipa'' = Some ''ipa''" "CHR ''/'' \<notin> set ''App.ipa''"
    "length [u64_le 0] = length (chunks WRITE_CHUNK [1, 2, 3 :: byte])" by code_simp+
  have s: "le_u64 (u64_le 16) 0 \<in> {STATUS_SUCCESS, STATUS_OBJECT_EXISTS}" "le_u64 (u64_le 0) 0 = STATUS_SUCCESS"
    "\<forall>s \<in> set [u64_le 0]. le_u64 s 0 = STATUS_SUCCESS" by (simp_all add: le_u64_def STATUS_OBJECT_EXISTS_def STATUS_SUCCESS_def)
  have f: "list_all (\<lambda>v. vstr v ''Error'' = None \<and> (\<exists>s. vstr v ''Status'' = Some s \<and> s \<noteq> ''Complete'')) ?ps"
    "complete_step ''install'' () ?v = Inr (Ok ())" by (simp_all add: vstr_def vget_def complete_step_def)
  have "outp (iw_proxy demo_install) = []" "staged_path ''App.ipa'' = ''/PublicStaging/App.ipa''"
    by (simp_all add: demo_install_def demo_svc_def staged_path_def)
  then show ?thesis using install_stages_then_installs [OF e(1,2) a s e(3) p f] by auto
qed

end
